(* ===== verification/Prelude.thy ===== *)
theory Prelude
  imports Main "HOL-Library.Word" "HOL-Library.Sublist"
begin

unbundle bit_operations_syntax

text \<open>
  The vocabulary every component shares: the exceptions the tools raise, the two small monads
  (results that may be an exception; results that also thread the outside world), bytes, and the
  generic list and word lemmas the component proofs use.  Nothing here models a file of its own.
\<close>

section \<open>Exceptions and results\<close>

text \<open>
  One constructor per exception class that the tools raise or catch; the argument is the
  message where the code inspects it (\<open>str(error)\<close>) or a test pins it.
  \<open>Failure\<close> is the class of \<open>tools/measure_inference.py\<close>; the others are Python's, but for two:
  \<open>OutsideModel\<close> marks a text with a character beyond Latin-1, which the model's strings cannot
  hold, and \<open>OutOfFuel\<close> a loop that did not end within the fuel given to it.
\<close>

datatype exn =
    Failure string
  | ValueError string
  | RuntimeError string
  | AssertionError string
  | KeyError string
  | IndexError
  | TypeError
  | AttributeError
  | OverflowError
  | ZlibError
  | StructError
  | TimeoutExpired string
  | OSError string
  | SystemExit string
  | ZeroDivisionError
  | CalledProcessError int
  | OutsideModel
  | OutOfFuel

type_synonym 'a res = "exn + 'a"

definition res_bind :: "'a res \<Rightarrow> ('a \<Rightarrow> 'b res) \<Rightarrow> 'b res" where
  "res_bind m f = (case m of Inl e \<Rightarrow> Inl e | Inr x \<Rightarrow> f x)"

definition is_ok :: "'a res \<Rightarrow> bool" where
  "is_ok m = (case m of Inl _ \<Rightarrow> False | Inr _ \<Rightarrow> True)"

definition of_option :: "exn \<Rightarrow> 'a option \<Rightarrow> 'a res" where
  "of_option e m = (case m of None \<Rightarrow> Inl e | Some x \<Rightarrow> Inr x)"

fun mapM :: "('a \<Rightarrow> 'b res) \<Rightarrow> 'a list \<Rightarrow> 'b list res" where
  "mapM f [] = Inr []"
| "mapM f (x # xs) = res_bind (f x) (\<lambda>y. res_bind (mapM f xs) (\<lambda>ys. Inr (y # ys)))"

named_theorems res_simps \<open>evaluation of the result and world monads\<close>
named_theorems res_iff \<open>when a computation in a monad returns a value\<close>

lemma res_bind_simps [simp, res_simps]:
  "res_bind (Inl e) f = Inl e"
  "res_bind (Inr x) f = f x"
  by (simp_all add: res_bind_def)

lemma is_ok_simps [simp]: "\<not> is_ok (Inl e)" "is_ok (Inr x)"
  by (simp_all add: is_ok_def)

lemma of_option_simps [simp, res_simps]:
  "of_option e None = Inl e" "of_option e (Some x) = Inr x"
  by (simp_all add: of_option_def)

lemma res_bind_Inr [res_iff]: "res_bind m f = Inr y \<longleftrightarrow> (\<exists>x. m = Inr x \<and> f x = Inr y)"
  by (cases m) auto

lemma res_bind_Inl [res_iff]:
  "res_bind m f = Inl e \<longleftrightarrow> m = Inl e \<or> (\<exists>x. m = Inr x \<and> f x = Inl e)"
  by (cases m) auto

lemma of_option_Inr [res_iff]: "of_option e m = Inr x \<longleftrightarrow> m = Some x"
  by (cases m) auto

lemma is_ok_iff: "is_ok m \<longleftrightarrow> (\<exists>x. m = Inr x)"
  by (cases m) auto

lemma if_res_Inr [res_iff]:
  "(if b then Inl e else m) = Inr x \<longleftrightarrow> \<not> b \<and> m = Inr x"
  by auto

lemma res_bind_cong [fundef_cong]:
  "m = m' \<Longrightarrow> (\<And>x. m' = Inr x \<Longrightarrow> f x = g x) \<Longrightarrow> res_bind m f = res_bind m' g"
  by (cases m) auto

lemma res_bind_assoc: "res_bind (res_bind m f) g = res_bind m (\<lambda>x. res_bind (f x) g)"
  by (cases m) auto

lemma mapM_Inr_length: "mapM f xs = Inr ys \<Longrightarrow> length ys = length xs"
  by (induction xs arbitrary: ys) (auto simp: res_iff)

lemma mapM_Inr_iff:
  "mapM f xs = Inr ys \<longleftrightarrow> list_all2 (\<lambda>x y. f x = Inr y) xs ys"
  by (induction xs arbitrary: ys) (auto simp: res_iff list_all2_Cons1)

lemma mapM_pure: "mapM (\<lambda>x. Inr (g x)) xs = Inr (map g xs)"
  by (induction xs) auto

section \<open>Computations over the outside world\<close>

text \<open>
  A tool that talks to the \<open>icp\<close> command line runs in an outside world of any type \<open>'w\<close>.
  A computation takes the world and returns its result, or the exception it raised, with the
  world after it.  An exception keeps the world: what was done before it stays done.
\<close>

type_synonym ('w, 'a) io = "'w \<Rightarrow> 'a res \<times> 'w"

definition io_ret :: "'a \<Rightarrow> ('w, 'a) io" where
  "io_ret x w = (Inr x, w)"

definition io_raise :: "exn \<Rightarrow> ('w, 'a) io" where
  "io_raise e w = (Inl e, w)"

definition io_lift :: "'a res \<Rightarrow> ('w, 'a) io" where
  "io_lift m w = (m, w)"

definition io_bind :: "('w, 'a) io \<Rightarrow> ('a \<Rightarrow> ('w, 'b) io) \<Rightarrow> ('w, 'b) io" where
  "io_bind m f w = (case m w of (Inl e, w') \<Rightarrow> (Inl e, w') | (Inr x, w') \<Rightarrow> f x w')"

lemma io_simps [simp, res_simps]:
  "io_ret x w = (Inr x, w)"
  "io_raise e w = (Inl e, w)"
  "io_lift m w = (m, w)"
  by (simp_all add: io_ret_def io_raise_def io_lift_def)

lemma io_bind_eval [res_simps]:
  "m w = (Inr x, w') \<Longrightarrow> io_bind m f w = f x w'"
  "m w = (Inl e, w') \<Longrightarrow> io_bind m f w = (Inl e, w')"
  by (simp_all add: io_bind_def)

lemma io_bind_pure [simp, res_simps]:
  "io_bind (io_ret x) f = f x"
  "io_bind (io_raise e) f = io_raise e"
  by (auto simp: io_bind_def fun_eq_iff)

lemma io_bind_Inr [res_iff]:
  "io_bind m f w = (Inr y, w'') \<longleftrightarrow> (\<exists>x w'. m w = (Inr x, w') \<and> f x w' = (Inr y, w''))"
  by (auto simp: io_bind_def split: prod.splits sum.splits)

lemma io_bind_assoc: "io_bind (io_bind m f) g = io_bind m (\<lambda>x. io_bind (f x) g)"
  by (auto simp: io_bind_def fun_eq_iff split: prod.splits sum.splits)

text \<open>Sequences, loops over a list, \<open>try ... except\<close> and \<open>try ... finally\<close>.\<close>

definition io_then :: "('w, 'a) io \<Rightarrow> ('w, 'b) io \<Rightarrow> ('w, 'b) io" where
  "io_then m k = io_bind m (\<lambda>_. k)"

definition io_when :: "bool \<Rightarrow> ('w, unit) io \<Rightarrow> ('w, unit) io" where
  "io_when b m = (if b then m else io_ret ())"

definition io_guard :: "bool \<Rightarrow> exn \<Rightarrow> ('w, unit) io" where
  "io_guard b e = (if b then io_ret () else io_raise e)"

primrec io_map :: "('a \<Rightarrow> ('w, 'b) io) \<Rightarrow> 'a list \<Rightarrow> ('w, 'b list) io" where
  "io_map f [] = io_ret []"
| "io_map f (x # xs) = io_bind (f x) (\<lambda>y. io_bind (io_map f xs) (\<lambda>ys. io_ret (y # ys)))"

primrec io_for :: "'a list \<Rightarrow> ('a \<Rightarrow> ('w, unit) io) \<Rightarrow> ('w, unit) io" where
  "io_for [] f = io_ret ()"
| "io_for (x # xs) f = io_then (f x) (io_for xs f)"

definition io_catch :: "('w, 'a) io \<Rightarrow> (exn \<Rightarrow> ('w, 'a) io option) \<Rightarrow> ('w, 'a) io" where
  "io_catch m h w = (case m w of
     (Inl e, w') \<Rightarrow> (case h e of Some k \<Rightarrow> k w' | None \<Rightarrow> (Inl e, w'))
   | (Inr x, w') \<Rightarrow> (Inr x, w'))"

definition io_finally :: "('w, 'a) io \<Rightarrow> ('w, unit) io \<Rightarrow> ('w, 'a) io" where
  "io_finally m f w = (case m w of (r, w') \<Rightarrow> (case f w' of
     (Inl e, w'') \<Rightarrow> (Inl e, w'')
   | (Inr _, w'') \<Rightarrow> (r, w'')))"

lemma io_then_Inr [res_iff]:
  "io_then m k w = (Inr y, w'') \<longleftrightarrow> (\<exists>x w'. m w = (Inr x, w') \<and> k w' = (Inr y, w''))"
  by (simp add: io_then_def res_iff)

lemma io_then_eval [res_simps]:
  "m w = (Inr x, w') \<Longrightarrow> io_then m f w = f w'"
  "m w = (Inl e, w') \<Longrightarrow> io_then m f w = (Inl e, w')"
  by (simp_all add: io_then_def io_bind_def)

lemma io_then_pure [simp, res_simps]:
  "io_then (io_ret x) k = k" "io_then (io_raise e) k = io_raise e"
  by (simp_all add: io_then_def)

lemma io_guard_simps [simp, res_simps]:
  "io_guard True e = io_ret ()" "io_guard False e = io_raise e"
  by (simp_all add: io_guard_def)

lemma io_when_simps [simp, res_simps]: "io_when True m = m" "io_when False m = io_ret ()"
  by (simp_all add: io_when_def)

lemma io_guard_Inr [res_iff]: "io_guard b e w = (Inr x, w') \<longleftrightarrow> b \<and> w' = w"
  by (auto simp: io_guard_def)

lemma io_lift_Inr [res_iff]: "io_lift m w = (Inr x, w') \<longleftrightarrow> m = Inr x \<and> w' = w"
  by auto

lemma io_bind_lift [simp, res_simps]:
  "io_bind (io_lift (Inr x)) f = f x" "io_bind (io_lift (Inl e)) f = io_raise e"
  by (auto simp: io_bind_def fun_eq_iff)

section \<open>Bytes\<close>

type_synonym byte = "8 word"
type_synonym bytes = "8 word list"

definition ascii :: "string \<Rightarrow> bytes" where
  "ascii s = map of_char s"

lemma length_ascii [simp]: "length (ascii s) = length s"
  by (simp add: ascii_def)

lemma ascii_append [simp]: "ascii (s @ t) = ascii s @ ascii t"
  by (simp add: ascii_def)

lemma ascii_Nil [simp]: "ascii [] = []"
  by (simp add: ascii_def)

lemma ascii_Cons [simp]: "ascii (c # s) = of_char c # ascii s"
  by (simp add: ascii_def)

section \<open>Lists\<close>

lemma take_drop_split: "n \<le> m \<Longrightarrow> take m xs = take n xs @ take (m - n) (drop n xs)"
  by (metis le_add_diff_inverse take_add)

lemma sum_list_take_Suc:
  "i < length xs \<Longrightarrow> sum_list (take (Suc i) xs) = sum_list (take i xs) + (xs ! i :: 'a::monoid_add)"
  by (simp add: take_Suc_conv_app_nth)

lemma sum_list_take_drop:
  "sum_list (take i xs) + sum_list (drop i xs) = sum_list (xs :: 'a::monoid_add list)"
  by (metis append_take_drop_id sum_list_append)

section \<open>State machines with an invariant\<close>

locale invariant_machine =
  fixes initial :: "'s \<Rightarrow> bool" and step :: "'s \<Rightarrow> 's \<Rightarrow> bool" and inv :: "'s \<Rightarrow> bool"
  assumes initial_inv: "initial s \<Longrightarrow> inv s"
    and step_inv: "step s t \<Longrightarrow> inv s \<Longrightarrow> inv t"
begin

lemma steps_inv: "step\<^sup>*\<^sup>* s t \<Longrightarrow> inv s \<Longrightarrow> inv t"
  by (induction rule: rtranclp_induct) (auto intro: step_inv)

lemma reachable_inv: "initial s \<Longrightarrow> step\<^sup>*\<^sup>* s t \<Longrightarrow> inv t"
  using steps_inv initial_inv by blast

text \<open>What holds of every state with the invariant is never violated.\<close>

lemma never: "(\<And>s. inv s \<Longrightarrow> \<not> bad s) \<Longrightarrow> initial s \<Longrightarrow> step\<^sup>*\<^sup>* s t \<Longrightarrow> \<not> bad t"
  using reachable_inv by blast

end

end
