(* ===== verification/PyText.thy ===== *)
theory PyText
  imports Prelude
begin

text \<open>
  The part of Python's \<open>str\<close> and \<open>int\<close> that the tools use, on \<open>string\<close>: a \<open>char\<close> is a code
  point below 256, so every text the model speaks of is Latin-1 and \<open>.encode()\<close> writes one
  or two bytes for each character.  The character classes are Python's on that range.
\<close>

section \<open>Character classes\<close>

abbreviation code :: "char \<Rightarrow> nat" where
  "code c \<equiv> of_char c"

definition is_digit :: "char \<Rightarrow> bool" where
  "is_digit c \<longleftrightarrow> 48 \<le> code c \<and> code c \<le> 57"

definition is_space :: "char \<Rightarrow> bool" where
  "is_space c \<longleftrightarrow> 9 \<le> code c \<and> code c \<le> 13 \<or> 28 \<le> code c \<and> code c \<le> 32 \<or>
     code c = 133 \<or> code c = 160"

text \<open>\<open>str.isalnum\<close> or underscore: the class \<open>\w\<close> of a text pattern.\<close>

definition is_word :: "char \<Rightarrow> bool" where
  "is_word c \<longleftrightarrow> is_digit c \<or> 65 \<le> code c \<and> code c \<le> 90 \<or> 97 \<le> code c \<and> code c \<le> 122 \<or>
     code c = 95 \<or> code c \<in> {170, 178, 179, 181, 185, 186, 188, 189, 190} \<or>
     192 \<le> code c \<and> code c \<noteq> 215 \<and> code c \<noteq> 247"

definition to_lower :: "char \<Rightarrow> char" where
  "to_lower c = (if 65 \<le> code c \<and> code c \<le> 90 \<or> 192 \<le> code c \<and> code c \<le> 222 \<and> code c \<noteq> 215
     then char_of (code c + 32) else c)"

definition lower :: "string \<Rightarrow> string" where
  "lower s = map to_lower s"

section \<open>Searching and cutting\<close>

fun starts_with :: "'a list \<Rightarrow> 'a list \<Rightarrow> bool" where
  "starts_with [] xs = True"
| "starts_with (p # ps) [] = False"
| "starts_with (p # ps) (x # xs) = (p = x \<and> starts_with ps xs)"

text \<open>\<open>hay.find(needle)\<close> with \<open>None\<close> for -1, and \<open>needle in hay\<close>.\<close>

fun find_sub :: "string \<Rightarrow> string \<Rightarrow> nat option" where
  "find_sub needle [] = (if needle = [] then Some 0 else None)"
| "find_sub needle (x # xs) =
     (if starts_with needle (x # xs) then Some 0 else map_option Suc (find_sub needle xs))"

definition contains :: "string \<Rightarrow> string \<Rightarrow> bool" where
  "contains needle hay = (find_sub needle hay \<noteq> None)"

text \<open>\<open>hay.split(sep, 1)\<close>, for a separator that occurs.\<close>

definition split_once :: "string \<Rightarrow> string \<Rightarrow> (string \<times> string) option" where
  "split_once sep s = map_option (\<lambda>i. (take i s, drop (i + length sep) s)) (find_sub sep s)"

text \<open>\<open>s.split(c)\<close> on one character.\<close>

fun split_char :: "char \<Rightarrow> string \<Rightarrow> string list" where
  "split_char c [] = [[]]"
| "split_char c (x # xs) =
     (if x = c then [] # split_char c xs
      else case split_char c xs of [] \<Rightarrow> [[x]] | w # ws \<Rightarrow> (x # w) # ws)"

text \<open>\<open>s.split()\<close>: the maximal runs of characters that are not white space.\<close>

fun split_ws_acc :: "string \<Rightarrow> string \<Rightarrow> string list" where
  "split_ws_acc acc [] = (if acc = [] then [] else [rev acc])"
| "split_ws_acc acc (x # xs) =
     (if is_space x then (if acc = [] then split_ws_acc [] xs else rev acc # split_ws_acc [] xs)
      else split_ws_acc (x # acc) xs)"

definition split_ws :: "string \<Rightarrow> string list" where
  "split_ws s = split_ws_acc [] s"

definition lstrip :: "string \<Rightarrow> string" where
  "lstrip s = dropWhile is_space s"

definition strip :: "string \<Rightarrow> string" where
  "strip s = rev (dropWhile is_space (rev (lstrip s)))"

definition rstrip_char :: "char \<Rightarrow> string \<Rightarrow> string" where
  "rstrip_char c s = rev (dropWhile (\<lambda>x. x = c) (rev s))"

text \<open>\<open>s.replace("_", "")\<close>.\<close>

definition remove_char :: "char \<Rightarrow> string \<Rightarrow> string" where
  "remove_char c s = filter (\<lambda>x. x \<noteq> c) s"

text \<open>\<open>s.replace(old, new)\<close> for a nonempty \<open>old\<close>: left to right, without overlaps.  The
  counter skips the rest of an occurrence.\<close>

fun replace_skip :: "nat \<Rightarrow> string \<Rightarrow> string \<Rightarrow> string \<Rightarrow> string" where
  "replace_skip k old new [] = []"
| "replace_skip (Suc k) old new (x # xs) = replace_skip k old new xs"
| "replace_skip 0 old new (x # xs) =
     (if starts_with old (x # xs) then new @ replace_skip (length old - 1) old new xs
      else x # replace_skip 0 old new xs)"

definition replace :: "string \<Rightarrow> string \<Rightarrow> string \<Rightarrow> string" where
  "replace old new s = replace_skip 0 old new s"

fun join :: "string \<Rightarrow> string list \<Rightarrow> string" where
  "join sep [] = []"
| "join sep [x] = x"
| "join sep (x # y # zs) = x @ sep @ join sep (y # zs)"

section \<open>Numbers as text\<close>

definition digit_char :: "nat \<Rightarrow> char" where
  "digit_char d = char_of (48 + d)"

fun nat_str :: "nat \<Rightarrow> string" where
  "nat_str n = (if n < 10 then [digit_char n] else nat_str (n div 10) @ [digit_char (n mod 10)])"

declare nat_str.simps [simp del]

definition int_str :: "int \<Rightarrow> string" where
  "int_str n = (if n < 0 then ''-'' @ nat_str (nat (- n)) else nat_str (nat n))"

text \<open>The value of one digit in a base up to 36, as \<open>int(s, base)\<close> reads it.\<close>

definition digit_val :: "char \<Rightarrow> nat option" where
  "digit_val c =
     (if is_digit c then Some (code c - 48)
      else if 97 \<le> code c \<and> code c \<le> 122 then Some (code c - 87)
      else if 65 \<le> code c \<and> code c \<le> 90 then Some (code c - 55)
      else None)"

text \<open>Digits with single underscores between them; \<open>us\<close> says a digit must come next.\<close>

fun parse_digits :: "nat \<Rightarrow> bool \<Rightarrow> nat \<Rightarrow> string \<Rightarrow> nat option" where
  "parse_digits base us acc [] = (if us then None else Some acc)"
| "parse_digits base us acc (c # cs) =
     (if c = CHR ''_'' then (if us then None else parse_digits base True acc cs)
      else case digit_val c of
             Some d \<Rightarrow> if d < base then parse_digits base False (acc * base + d) cs else None
           | None \<Rightarrow> None)"

definition parse_unsigned :: "nat \<Rightarrow> string \<Rightarrow> nat option" where
  "parse_unsigned base s =
     (if base = 16 \<and> (starts_with ''0x'' s \<or> starts_with ''0X'' s)
      then (let t = drop 2 s in
            parse_digits base True 0 (if starts_with ''_'' t then drop 1 t else t))
      else parse_digits base True 0 s)"

definition py_int :: "nat \<Rightarrow> string \<Rightarrow> int res" where
  "py_int base s =
     (let t = strip s in
      of_option (ValueError ''invalid literal for int()'')
        (case t of
           [] \<Rightarrow> None
         | c # cs \<Rightarrow>
             if c = CHR ''-'' then map_option (\<lambda>n. - int n) (parse_unsigned base cs)
             else if c = CHR ''+'' then map_option int (parse_unsigned base cs)
             else map_option int (parse_unsigned base t)))"

section \<open>Text to bytes\<close>

definition utf8_char :: "char \<Rightarrow> bytes" where
  "utf8_char c = (if code c < 128 then [of_char c]
     else [word_of_nat (192 + code c div 64), word_of_nat (128 + code c mod 64)])"

definition encode :: "string \<Rightarrow> bytes" where
  "encode s = concat (map utf8_char s)"

definition hex_digit :: "nat \<Rightarrow> char" where
  "hex_digit d = (if d < 10 then char_of (48 + d) else char_of (87 + d))"

definition hex_byte :: "byte \<Rightarrow> string" where
  "hex_byte b = [hex_digit (unat b div 16), hex_digit (unat b mod 16)]"

definition hex :: "bytes \<Rightarrow> string" where
  "hex bs = concat (map hex_byte bs)"

section \<open>Lemmas\<close>

lemma starts_with_iff: "starts_with ps xs \<longleftrightarrow> (\<exists>ys. xs = ps @ ys)"
  by (induction ps xs rule: starts_with.induct) auto

lemma starts_with_append [simp]: "starts_with ps (ps @ ys)"
  by (auto simp: starts_with_iff)

lemma starts_with_take: "starts_with p xs \<longleftrightarrow> take (length p) xs = p"
  unfolding starts_with_iff by (metis append_eq_conv_conj append_take_drop_id)

lemma find_sub_Some:
  "find_sub p xs = Some i \<Longrightarrow> xs = take i xs @ p @ drop (i + length p) xs"
proof (induction p xs arbitrary: i rule: find_sub.induct)
  case (2 needle x xs)
  show ?case
  proof (cases "starts_with needle (x # xs)")
    case True
    then obtain ys where "x # xs = needle @ ys" by (auto simp: starts_with_iff)
    moreover have "i = 0" using 2 True by simp
    ultimately show ?thesis by simp
  next
    case False
    then obtain j where j: "find_sub needle xs = Some j" "i = Suc j"
      using 2 by auto
    with "2.IH" [OF False j(1)] show ?thesis by simp
  qed
qed (auto split: if_splits)

lemma find_sub_append: "find_sub p (xs @ p @ ys) \<noteq> None"
proof (induction xs)
  case Nil
  show ?case
  proof (cases "p @ ys")
    case (Cons a l)
    then have "starts_with p (a # l)" by (metis starts_with_append)
    with Cons show ?thesis by simp
  qed simp
next
  case (Cons x xs)
  then show ?case by auto
qed

lemma contains_iff: "contains p s \<longleftrightarrow> (\<exists>a b. s = a @ p @ b)"
proof
  assume "contains p s"
  then obtain i where "find_sub p s = Some i" by (auto simp: contains_def)
  then show "\<exists>a b. s = a @ p @ b" using find_sub_Some by blast
next
  assume "\<exists>a b. s = a @ p @ b"
  then show "contains p s" using find_sub_append by (auto simp: contains_def)
qed

lemma contains_self [simp]: "contains p (a @ p @ b)"
  by (auto simp: contains_iff)

lemma code_digit_char: "d < 10 \<Longrightarrow> code (digit_char d) = 48 + d"
  by (simp add: digit_char_def)

lemma is_digit_digit_char [simp]: "d < 10 \<Longrightarrow> is_digit (digit_char d)"
  by (simp add: is_digit_def code_digit_char)

lemma digit_val_digit_char [simp]: "d < 10 \<Longrightarrow> digit_val (digit_char d) = Some d"
  by (simp add: digit_val_def code_digit_char)

lemma nat_str_digits: "list_all is_digit (nat_str n)"
proof (induction n rule: nat_str.induct)
  case (1 n)
  then show ?case by (subst nat_str.simps) auto
qed

lemma nat_str_nonempty [simp]: "nat_str n \<noteq> []"
  by (subst nat_str.simps) simp

lemma is_digit_not_underscore: "is_digit c \<Longrightarrow> c \<noteq> CHR ''_''"
  by (auto simp: is_digit_def)

lemma parse_digits_snoc:
  assumes "list_all is_digit s" "d < 10" "us \<longrightarrow> s \<noteq> []"
  shows "parse_digits 10 us acc (s @ [digit_char d]) =
    map_option (\<lambda>n. n * 10 + d) (parse_digits 10 us acc s)"
  using assms
proof (induction s arbitrary: us acc)
  case Nil
  then show ?case using is_digit_not_underscore [of "digit_char d"] by simp
next
  case (Cons c cs)
  then have c: "is_digit c" and ne: "c \<noteq> CHR ''_''"
    using is_digit_not_underscore by auto
  then obtain v where v: "digit_val c = Some v" "v < 10"
    by (auto simp: digit_val_def is_digit_def)
  show ?case using Cons.IH [of False] Cons.prems v ne by simp
qed

text \<open>Parsing inverts printing.\<close>

lemma parse_digits_nat_str: "parse_digits 10 True 0 (nat_str n) = Some n"
proof (induction n rule: nat_str.induct)
  case (1 n)
  show ?case
  proof (cases "n < 10")
    case True
    then show ?thesis
      using is_digit_not_underscore [of "digit_char n"] by (simp add: nat_str.simps [of n])
  next
    case False
    then have "parse_digits 10 True 0 (nat_str (n div 10)) = Some (n div 10)"
      using 1 by simp
    moreover have "parse_digits 10 True 0 (nat_str (n div 10) @ [digit_char (n mod 10)]) =
        map_option (\<lambda>k. k * 10 + n mod 10) (parse_digits 10 True 0 (nat_str (n div 10)))"
      by (rule parse_digits_snoc) (auto simp: nat_str_digits)
    ultimately show ?thesis using False by (simp add: nat_str.simps [of n])
  qed
qed

lemma is_digit_not_space: "is_digit c \<Longrightarrow> \<not> is_space c"
  by (auto simp: is_digit_def is_space_def)

lemma dropWhile_digits: "list_all is_digit s \<Longrightarrow> dropWhile is_space s = s"
  by (cases s) (auto simp: is_digit_not_space)

lemma list_all_rev [simp]: "list_all P (rev xs) = list_all P xs"
  by (simp add: list_all_iff)

lemma strip_digits: "list_all is_digit s \<Longrightarrow> strip s = s"
  by (simp add: strip_def lstrip_def dropWhile_digits)

lemma py_int_nat_str: "py_int 10 (nat_str n) = Inr (int n)"
proof -
  obtain c cs where cs: "nat_str n = c # cs" by (cases "nat_str n") auto
  then have c: "is_digit c" using nat_str_digits [of n] by simp
  then have "c \<noteq> CHR ''-''" "c \<noteq> CHR ''+''" by (auto simp: is_digit_def)
  then show ?thesis
    using cs parse_digits_nat_str [of n] strip_digits [OF nat_str_digits, of n]
    by (simp add: py_int_def parse_unsigned_def)
qed

lemma nat_str_inj: "nat_str m = nat_str n \<Longrightarrow> m = n"
  by (metis option.inject parse_digits_nat_str)

text \<open>Hexadecimal digits.\<close>

lemma hex_digit_table: "map hex_digit [0..<16] = ''0123456789abcdef''"
  by (simp add: upt_rec hex_digit_def char_of_def bit_0)

lemma hex_values: "map digit_val ''0123456789abcdef'' = map Some [0..<16]"
  by (simp add: digit_val_def is_digit_def upt_rec)

lemma hex_digit_nth: "d < 16 \<Longrightarrow> hex_digit d = ''0123456789abcdef'' ! d"
  by (subst hex_digit_table [symmetric]) simp

lemma digit_val_hex_digit: "d < 16 \<Longrightarrow> digit_val (hex_digit d) = Some d"
proof -
  assume d: "d < 16"
  have "map digit_val ''0123456789abcdef'' ! d = map Some [0..<16] ! d" by (simp only: hex_values)
  then show ?thesis using d by (simp add: hex_digit_nth nth_map del: list.map)
qed

end
