(* ===== verification/PyFloat.thy ===== *)
theory PyFloat
  imports Complex_Main PyText "HOL-Library.Log_Nat"
begin

text \<open>
  Floating point as the tools use it: a finite value is the rational it denotes, and every
  operation rounds its exact result half to even into a binary format (\<open>binary64\<close> for Python's
  \<open>float\<close>, \<open>binary32\<close> for NumPy's \<open>float32\<close>), overflowing to an infinity.  The sign of zero is
  not modelled: no code path of the tools reads it.
\<close>

section \<open>Values and rounding\<close>

datatype fl = Fin rat | PInf | NInf | NaN

record fformat =
  precision :: nat
  min_exp :: int      \<comment> \<open>the least subnormal is \<open>2\<close> to this\<close>
  max_exp :: int      \<comment> \<open>overflow starts at \<open>2\<close> to this\<close>

definition binary64 :: fformat where
  "binary64 = \<lparr>precision = 53, min_exp = -1074, max_exp = 1024\<rparr>"

definition binary32 :: fformat where
  "binary32 = \<lparr>precision = 24, min_exp = -149, max_exp = 128\<rparr>"

definition pow2 :: "int \<Rightarrow> rat" where
  "pow2 e = (if 0 \<le> e then 2 ^ nat e else 1 / 2 ^ nat (- e))"

definition round_even :: "rat \<Rightarrow> int" where
  "round_even q =
     (let f = \<lfloor>q\<rfloor>; d = q - of_int f in
      if d < 1 / 2 then f else if 1 / 2 < d then f + 1 else if even f then f else f + 1)"

text \<open>The binary exponent of a positive rational.\<close>

definition floor_log2 :: "rat \<Rightarrow> int" where
  "floor_log2 q = (if 1 \<le> q then bitlen \<lfloor>q\<rfloor> - 1 else - bitlen (\<lceil>1 / q\<rceil> - 1))"

text \<open>The exponent of the last place of a nonzero rational in a format.\<close>

definition ulp_exp :: "fformat \<Rightarrow> rat \<Rightarrow> int" where
  "ulp_exp F q = max (floor_log2 \<bar>q\<bar> - (int (precision F) - 1)) (min_exp F)"

definition round_rat :: "fformat \<Rightarrow> rat \<Rightarrow> rat" where
  "round_rat F q =
     (if q = 0 then 0 else of_int (round_even (q / pow2 (ulp_exp F q))) * pow2 (ulp_exp F q))"

definition fl_round :: "fformat \<Rightarrow> rat \<Rightarrow> fl" where
  "fl_round F q =
     (let v = round_rat F q in
      if pow2 (max_exp F) \<le> v then PInf else if v \<le> - pow2 (max_exp F) then NInf else Fin v)"

section \<open>Python's operations on floats\<close>

fun fl_finite :: "fl \<Rightarrow> bool" where
  "fl_finite (Fin q) = True"
| "fl_finite _ = False"

fun fl_neg :: "fl \<Rightarrow> fl" where
  "fl_neg (Fin q) = Fin (- q)"
| "fl_neg PInf = NInf"
| "fl_neg NInf = PInf"
| "fl_neg NaN = NaN"

fun fl_add :: "fformat \<Rightarrow> fl \<Rightarrow> fl \<Rightarrow> fl" where
  "fl_add F (Fin a) (Fin b) = fl_round F (a + b)"
| "fl_add F NaN y = NaN"
| "fl_add F x NaN = NaN"
| "fl_add F PInf NInf = NaN"
| "fl_add F NInf PInf = NaN"
| "fl_add F PInf y = PInf"
| "fl_add F NInf y = NInf"
| "fl_add F (Fin a) y = y"

definition fl_sub :: "fformat \<Rightarrow> fl \<Rightarrow> fl \<Rightarrow> fl" where
  "fl_sub F x y = fl_add F x (fl_neg y)"

fun fl_less :: "fl \<Rightarrow> fl \<Rightarrow> bool" where
  "fl_less (Fin a) (Fin b) = (a < b)"
| "fl_less NInf y = (y \<noteq> NaN \<and> y \<noteq> NInf)"
| "fl_less (Fin a) PInf = True"
| "fl_less _ _ = False"

fun fl_abs :: "fl \<Rightarrow> fl" where
  "fl_abs (Fin q) = Fin \<bar>q\<bar>"
| "fl_abs NInf = PInf"
| "fl_abs x = x"

text \<open>\<open>a / b\<close> on Python integers: the correctly rounded quotient, or \<open>OverflowError\<close>.\<close>

definition int_truediv :: "int \<Rightarrow> int \<Rightarrow> rat res" where
  "int_truediv a b =
     (if b = 0 then Inl (ValueError ''division by zero'')
      else case fl_round binary64 (of_int a / of_int b) of
             Fin q \<Rightarrow> Inr q
           | _ \<Rightarrow> Inl OverflowError)"

section \<open>Reading a float: \<open>float(s)\<close>\<close>

text \<open>An underscore must stand between two digits.\<close>

fun underscores_ok :: "bool \<Rightarrow> string \<Rightarrow> bool" where
  "underscores_ok prev [] = True"
| "underscores_ok prev (c # cs) =
     (if c = CHR ''_'' then prev \<and> (case cs of [] \<Rightarrow> False | d # _ \<Rightarrow> is_digit d) \<and>
        underscores_ok False cs
      else underscores_ok (is_digit c) cs)"

fun digits_value :: "nat \<Rightarrow> string \<Rightarrow> nat" where
  "digits_value acc [] = acc"
| "digits_value acc (c # cs) = digits_value (acc * 10 + (code c - 48)) cs"

definition pow10 :: "int \<Rightarrow> rat" where
  "pow10 e = (if 0 \<le> e then 10 ^ nat e else 1 / 10 ^ nat (- e))"

definition parse_exponent :: "string \<Rightarrow> int option" where
  "parse_exponent s =
     (case s of
        [] \<Rightarrow> Some 0
      | c # cs \<Rightarrow>
          if c = CHR ''e'' then
            (let (neg, ds) = (case cs of
                 [] \<Rightarrow> (False, [])
               | d # dd \<Rightarrow> if d = CHR ''-'' then (True, dd) else if d = CHR ''+'' then (False, dd)
                            else (False, cs))
             in if ds \<noteq> [] \<and> list_all is_digit ds
                then Some (if neg then - int (digits_value 0 ds) else int (digits_value 0 ds))
                else None)
          else None)"

definition parse_decimal :: "string \<Rightarrow> rat option" where
  "parse_decimal s =
     (let ip = takeWhile is_digit s; s1 = dropWhile is_digit s;
          (fp, s2) = (case s1 of
              [] \<Rightarrow> ([], [])
            | c # cs \<Rightarrow> if c = CHR ''.'' then (takeWhile is_digit cs, dropWhile is_digit cs)
                        else ([], s1))
      in if ip = [] \<and> fp = [] then None
         else map_option (\<lambda>e. of_nat (digits_value 0 (ip @ fp)) * pow10 (e - int (length fp)))
                (parse_exponent s2))"

definition py_float :: "string \<Rightarrow> fl res" where
  "py_float s =
     (let t = lower (strip s);
          (neg, u) = (case t of
              [] \<Rightarrow> (False, [])
            | c # cs \<Rightarrow> if c = CHR ''-'' then (True, cs) else if c = CHR ''+'' then (False, cs)
                        else (False, t));
          v = (if u = ''inf'' \<or> u = ''infinity'' then Some PInf
               else if u = ''nan'' then Some NaN
               else if underscores_ok False u
               then map_option (fl_round binary64) (parse_decimal (remove_char (CHR ''_'') u))
               else None)
      in of_option (ValueError ''could not convert string to float'')
           (map_option (if neg then fl_neg else id) v))"

lemma py_float_fuel: "py_float s \<noteq> Inl OutOfFuel"
  by (simp add: py_float_def Let_def of_option_def split: option.split prod.split)

section \<open>Printing a float: format code \<open>g\<close>\<close>

definition floor_log10 :: "rat \<Rightarrow> int" where
  "floor_log10 q = (if 1 \<le> q then int (length (nat_str (nat \<lfloor>q\<rfloor>))) - 1
     else - int (length (nat_str (nat (\<lceil>1 / q\<rceil> - 1)))))"

text \<open>Six significant digits of a positive value, and the exponent of the first.\<close>

definition six_digits :: "rat \<Rightarrow> string \<times> int" where
  "six_digits q =
     (let x = floor_log10 q; m = round_even (q / pow10 (x - 5))
      in if m = 1000000 then (nat_str 100000, x + 1) else (nat_str (nat m), x))"

definition with_fraction :: "string \<Rightarrow> string \<Rightarrow> string" where
  "with_fraction ip fp = (let f = rstrip_char (CHR ''0'') fp in if f = [] then ip else ip @ ''.'' @ f)"

definition format_g :: "rat \<Rightarrow> string" where
  "format_g q =
     (if q = 0 then ''0''
      else
        let (ds, x) = six_digits \<bar>q\<bar>;
            body = (if -4 \<le> x \<and> x < 6 then
                      (if 0 \<le> x then with_fraction (take (nat x + 1) ds) (drop (nat x + 1) ds)
                       else with_fraction ''0'' (replicate (nat (- x - 1)) (CHR ''0'') @ ds))
                    else with_fraction (take 1 ds) (drop 1 ds) @ ''e'' @
                         (if x < 0 then ''-'' else ''+'') @
                         (if \<bar>x\<bar> < 10 then ''0'' else []) @ nat_str (nat \<bar>x\<bar>))
        in if q < 0 then ''-'' @ body else body)"

section \<open>Lemmas on rounding\<close>

lemma pow2_pos [simp]: "0 < pow2 e"
  by (simp add: pow2_def)

lemma pow2_nonzero [simp]: "pow2 e \<noteq> 0"
  using pow2_pos [of e] by linarith

lemma pow2_powi: "pow2 e = 2 powi e"
  by (simp add: pow2_def power_int_def power_one_over inverse_eq_divide)

lemma pow2_add: "pow2 (a + b) = pow2 a * pow2 b"
  by (simp add: pow2_powi power_int_add)

lemma pow2_mono: "a \<le> b \<Longrightarrow> pow2 a \<le> pow2 b"
  by (simp add: pow2_powi power_int_increasing)

lemma pow2_nat [simp]: "pow2 (int n) = 2 ^ n"
  by (simp add: pow2_def)

lemma round_even_error: "\<bar>of_int (round_even q) - q\<bar> \<le> 1 / 2"
proof -
  have "of_int \<lfloor>q\<rfloor> \<le> q" "q < of_int \<lfloor>q\<rfloor> + 1" by linarith+
  then show ?thesis by (auto simp: round_even_def Let_def)
qed

lemma round_even_of_int [simp]: "round_even (of_int n) = n"
  by (simp add: round_even_def)

lemma round_even_nonneg: "0 \<le> q \<Longrightarrow> 0 \<le> round_even q"
proof -
  assume "0 \<le> q"
  then have "0 \<le> \<lfloor>q\<rfloor>" by simp
  then show ?thesis by (auto simp: round_even_def Let_def)
qed

lemma round_even_mono: "p \<le> q \<Longrightarrow> round_even p \<le> round_even q"
proof -
  assume le: "p \<le> q"
  then have fl: "\<lfloor>p\<rfloor> \<le> \<lfloor>q\<rfloor>" by (rule floor_mono)
  show ?thesis
  proof (cases "\<lfloor>p\<rfloor> = \<lfloor>q\<rfloor>")
    case True
    then show ?thesis using le by (auto simp: round_even_def Let_def)
  next
    case False
    then have "\<lfloor>p\<rfloor> + 1 \<le> \<lfloor>q\<rfloor>" using fl by simp
    then show ?thesis by (auto simp: round_even_def Let_def)
  qed
qed

lemma bitlen_pos: "0 < n \<Longrightarrow> 0 < bitlen n"
  by (simp add: bitlen_def zero_less_iff_neq_zero floorlog_eq_zero_iff)

lemma bitlen_floor_bounds:
  assumes "1 \<le> q"
  shows "pow2 (bitlen \<lfloor>q\<rfloor> - 1) \<le> q" "q < pow2 (bitlen \<lfloor>q\<rfloor>)"
proof -
  let ?n = "\<lfloor>q\<rfloor>"
  have pos: "0 < ?n" using assms by linarith
  then have b: "2 ^ nat (bitlen ?n - 1) \<le> ?n" "?n < 2 ^ nat (bitlen ?n)" and bp: "0 < bitlen ?n"
    using bitlen_bounds [of ?n] bitlen_pos [of ?n] by auto
  have "of_int (2 ^ nat (bitlen ?n - 1)) \<le> q" using b(1) by (simp only: le_floor_iff)
  then show "pow2 (bitlen ?n - 1) \<le> q" using bp by (simp add: pow2_def)
  have "q < of_int (2 ^ nat (bitlen ?n))" using b(2) by (simp only: floor_less_iff)
  then show "q < pow2 (bitlen ?n)" using bp by (simp add: pow2_def)
qed

lemma floor_log2_bounds:
  assumes "0 < q"
  shows "pow2 (floor_log2 q) \<le> q" "q < pow2 (floor_log2 q + 1)"
proof -
  have "pow2 (floor_log2 q) \<le> q \<and> q < pow2 (floor_log2 q + 1)"
  proof (cases "1 \<le> q")
    case True
    then show ?thesis using bitlen_floor_bounds [OF True] by (simp add: floor_log2_def)
  next
    case False
    let ?r = "1 / q" and ?n = "\<lceil>1 / q\<rceil> - 1"
    have r: "1 < ?r" using False assms by simp
    then have n: "0 < ?n" by linarith
    have b: "2 ^ nat (bitlen ?n - 1) \<le> ?n" "?n < 2 ^ nat (bitlen ?n)" and bp: "0 < bitlen ?n"
      using bitlen_bounds [OF n] bitlen_pos [OF n] by auto
    have "\<lceil>?r\<rceil> \<le> 2 ^ nat (bitlen ?n)" using b(2) by simp
    then have "?r \<le> of_int (2 ^ nat (bitlen ?n))" by (simp only: ceiling_le_iff)
    then have up: "?r \<le> 2 ^ nat (bitlen ?n)" by simp
    have "2 ^ nat (bitlen ?n - 1) < \<lceil>?r\<rceil>" using b(1) by simp
    then have "of_int (2 ^ nat (bitlen ?n - 1)) < ?r" by (simp only: less_ceiling_iff)
    then have lo: "2 ^ nat (bitlen ?n - 1) < ?r" by simp
    have "1 / 2 ^ nat (bitlen ?n) \<le> q" using up assms by (simp add: field_simps)
    moreover have "q < 1 / 2 ^ nat (bitlen ?n - 1)" using lo assms by (simp add: field_simps)
    moreover have "pow2 (- bitlen ?n) = 1 / 2 ^ nat (bitlen ?n)" using bp by (simp add: pow2_def)
    moreover have "pow2 (- bitlen ?n + 1) = 1 / 2 ^ nat (bitlen ?n - 1)"
      using bp by (cases "bitlen ?n = 1") (simp_all add: pow2_def)
    ultimately show ?thesis using False by (simp add: floor_log2_def)
  qed
  then show "pow2 (floor_log2 q) \<le> q" "q < pow2 (floor_log2 q + 1)" by auto
qed

lemma round_rat_zero [simp]: "round_rat F 0 = 0"
  by (simp add: round_rat_def)

lemma round_rat_nonneg: "0 \<le> q \<Longrightarrow> 0 \<le> round_rat F q"
  by (simp add: round_rat_def round_even_nonneg less_imp_le)

text \<open>The error of one rounding: half a unit in the last place.\<close>

lemma round_rat_ulp: "q \<noteq> 0 \<Longrightarrow> \<bar>round_rat F q - q\<bar> \<le> pow2 (ulp_exp F q) / 2"
proof -
  assume q: "q \<noteq> 0"
  let ?u = "pow2 (ulp_exp F q)"
  have "round_rat F q - q = (of_int (round_even (q / ?u)) - q / ?u) * ?u"
    using q by (simp add: round_rat_def field_simps)
  then have "\<bar>round_rat F q - q\<bar> = \<bar>of_int (round_even (q / ?u)) - q / ?u\<bar> * ?u"
    using abs_of_pos [OF pow2_pos [of "ulp_exp F q"]] by (simp only: abs_mult)
  also have "\<dots> \<le> 1 / 2 * ?u"
    by (rule mult_right_mono [OF round_even_error]) (simp add: less_imp_le)
  finally show ?thesis by simp
qed

lemma round_rat_error:
  "\<bar>round_rat F q - q\<bar> \<le> \<bar>q\<bar> * pow2 (- int (precision F)) + pow2 (min_exp F - 1)"
proof (cases "q = 0")
  case False
  have half: "pow2 e / 2 = pow2 (e - 1)" for e
    using pow2_add [of "e - 1" 1] by (simp add: pow2_def)
  show ?thesis
  proof (cases "min_exp F \<le> floor_log2 \<bar>q\<bar> - (int (precision F) - 1)")
    case True
    then have "ulp_exp F q = floor_log2 \<bar>q\<bar> - (int (precision F) - 1)"
      by (simp add: ulp_exp_def)
    then have "ulp_exp F q - 1 = floor_log2 \<bar>q\<bar> + - int (precision F)" by simp
    then have "pow2 (ulp_exp F q) / 2 = pow2 (floor_log2 \<bar>q\<bar>) * pow2 (- int (precision F))"
      by (simp only: half pow2_add [symmetric])
    also have "\<dots> \<le> \<bar>q\<bar> * pow2 (- int (precision F))"
      using floor_log2_bounds(1) [of "\<bar>q\<bar>"] False by (simp add: mult_right_mono less_imp_le)
    finally show ?thesis using round_rat_ulp [OF False, of F] less_imp_le [OF pow2_pos [of "min_exp F - 1"]]
      by linarith
  next
    case False': False
    then have "ulp_exp F q = min_exp F" by (simp add: ulp_exp_def)
    then have "pow2 (ulp_exp F q) / 2 = pow2 (min_exp F - 1)" by (simp add: half)
    moreover have "0 \<le> \<bar>q\<bar> * pow2 (- int (precision F))" by (simp add: less_imp_le)
    ultimately show ?thesis using round_rat_ulp [OF False, of F] by linarith
  qed
qed (simp add: less_imp_le)

text \<open>A rational whose quotient by its last place is whole is represented exactly.\<close>

lemma round_rat_exact: "q = of_int k * pow2 (ulp_exp F q) \<Longrightarrow> round_rat F q = q"
proof (cases "q = 0")
  case False
  assume q: "q = of_int k * pow2 (ulp_exp F q)"
  then have "q / pow2 (ulp_exp F q) = of_int k" by (simp add: field_simps)
  with q False show ?thesis by (simp add: round_rat_def)
qed simp

lemma round_rat_of_int:
  assumes "\<bar>n\<bar> \<le> 2 ^ precision F" "min_exp F \<le> 0" "0 < precision F"
  shows "round_rat F (of_int n) = of_int n"
proof (cases "n = 0")
  case False
  let ?q = "of_int n :: rat" and ?e = "ulp_exp F (of_int n)"
  have e: "?e = max (floor_log2 \<bar>?q\<bar> - (int (precision F) - 1)) (min_exp F)"
    by (simp add: ulp_exp_def)
  have q: "\<bar>?q\<bar> \<le> pow2 (int (precision F))"
    using assms(1) by (metis of_int_abs of_int_le_iff of_int_numeral of_int_power pow2_nat)
  have le: "pow2 (floor_log2 \<bar>?q\<bar>) \<le> \<bar>?q\<bar>" using floor_log2_bounds(1) [of "\<bar>?q\<bar>"] False by simp
  have strict: "\<not> int (precision F) < floor_log2 \<bar>?q\<bar>"
  proof
    assume "int (precision F) < floor_log2 \<bar>?q\<bar>"
    then have "pow2 (int (precision F) + 1) \<le> pow2 (floor_log2 \<bar>?q\<bar>)" by (intro pow2_mono) simp
    moreover have "pow2 (int (precision F) + 1) = 2 * pow2 (int (precision F))"
      by (simp only: pow2_add) (simp add: pow2_def)
    ultimately have "2 * pow2 (int (precision F)) \<le> pow2 (int (precision F))"
      using le q by linarith
    then show False using pow2_pos [of "int (precision F)"] by linarith
  qed
  show ?thesis
  proof (cases "?e \<le> 0")
    case True
    have "?q = of_int (n * 2 ^ nat (- ?e)) * pow2 ?e"
      using True by (cases "?e = 0") (simp_all add: pow2_def)
    then show ?thesis by (rule round_rat_exact)
  next
    case e1: False
    then have fl: "floor_log2 \<bar>?q\<bar> = int (precision F)" and e1': "?e = 1"
      using strict assms(2) e by auto
    then have "\<bar>?q\<bar> = pow2 (int (precision F))" using le q by simp
    then have "\<bar>?q\<bar> = of_int (2 ^ precision F)" by simp
    then have "\<bar>n\<bar> = 2 ^ precision F" by (metis of_int_abs of_int_eq_iff)
    then have "even n" using assms(3) by (metis dvd_abs_iff even_power even_two_times_div_two even_numeral)
    then obtain k where "n = 2 * k" by (elim evenE)
    then have "?q = of_int k * pow2 ?e" using e1' by (simp add: pow2_def)
    then show ?thesis by (rule round_rat_exact)
  qed
qed simp

lemma fl_round_of_int:
  assumes "\<bar>n\<bar> \<le> 2 ^ 53"
  shows "fl_round binary64 (of_int n) = Fin (of_int n)"
proof -
  have r: "round_rat binary64 (of_int n) = of_int n"
    using assms by (intro round_rat_of_int) (simp_all add: binary64_def)
  have "(2 :: rat) ^ 53 < 2 ^ 1024" by (rule power_strict_increasing) simp_all
  then have "of_int \<bar>n\<bar> < (2 :: rat) ^ 1024"
    using assms by (metis le_less_trans of_int_le_iff of_int_numeral of_int_power)
  then have "\<bar>of_int n\<bar> < pow2 (max_exp binary64)" by (simp add: binary64_def pow2_def)
  then show ?thesis by (simp add: fl_round_def r Let_def abs_less_iff)
qed

lemmas py_float_eval = py_float_def strip_def lstrip_def is_space_def remove_char_def lower_def
  to_lower_def parse_decimal_def is_digit_def parse_exponent_def pow10_def

end
