(* ===== verification/Reference_Math.thy ===== *)
theory Reference_Math
  imports PyFloat "HOL-Library.Product_Lexorder"
begin

text \<open>
  \<open>tools/reference_math.py\<close>: the numerical oracle (probabilities apportioned to integer parts
  per million, score statistics) and the reservation oracle that enumerates ledger traces; and
  the \<open>metrics\<close> function of \<open>docs/design-v2/review/validate.py\<close>, which the statistics agree with.
\<close>

section \<open>Python's built-in operations on finite floats\<close>

abbreviation rnd :: "rat \<Rightarrow> rat" where
  "rnd \<equiv> round_rat binary64"

fun fin :: "fl \<Rightarrow> rat" where
  "fin (Fin q) = q"
| "fin _ = 0"

text \<open>
  \<open>sum(p)\<close> on floats: since Python 3.12 the built-in keeps a compensation term \<open>c\<close> beside the
  running total \<open>f\<close> (Neumaier's summation).  All values here are small, so nothing overflows.
\<close>

fun psum_loop :: "rat \<Rightarrow> rat \<Rightarrow> rat list \<Rightarrow> rat" where
  "psum_loop f c [] = (if c = 0 then f else rnd (f + c))"
| "psum_loop f c (x # xs) =
     (let t = rnd (f + x);
          c' = (if \<bar>x\<bar> \<le> \<bar>f\<bar> then rnd (c + rnd (rnd (f - t) + x))
                else rnd (c + rnd (rnd (x - t) + f)))
      in psum_loop t c' xs)"

definition psum :: "rat list \<Rightarrow> rat" where
  "psum xs = (case xs of [] \<Rightarrow> 0 | y # ys \<Rightarrow> psum_loop y 0 ys)"

section \<open>Apportionment\<close>

definition PPM :: int where "PPM = 1000000"

definition validate_mass :: "int list \<Rightarrow> unit res" where
  "validate_mass mass =
     (if \<not> (2 \<le> length mass \<and> length mass \<le> 7) \<or> list_ex (\<lambda>x. \<not> (0 \<le> x \<and> x \<le> PPM)) mass \<or>
         sum_list mass \<noteq> PPM
      then Inl (ValueError ''invalid ppm mass'') else Inr ())"

text \<open>\<open>order\<close>: the indices by decreasing fractional part, the smaller index first on a tie.\<close>

definition remainder_order :: "rat list \<Rightarrow> int list \<Rightarrow> nat list" where
  "remainder_order scaled mass =
     sort_key (\<lambda>i. (- rnd (scaled ! i - of_int (mass ! i)), i)) [0..<length scaled]"

definition add_ones :: "nat list \<Rightarrow> int list \<Rightarrow> int list" where
  "add_ones is mass = fold (\<lambda>i m. m[i := m ! i + 1]) is mass"

definition in_unit :: "fl \<Rightarrow> bool" where
  "in_unit x \<longleftrightarrow> fl_finite x \<and> 0 \<le> fin x \<and> fin x \<le> 1"

definition apportion :: "fl list \<Rightarrow> int list res" where
  "apportion p =
     (if \<not> (2 \<le> length p \<and> length p \<le> 7) \<or> list_ex (\<lambda>x. \<not> in_unit x) p
      then Inl (ValueError ''invalid distribution'')
      else if rnd (1 / 10 ^ 8) < \<bar>rnd (psum (map fin p) - 1)\<bar>
      then Inl (ValueError ''not normalized'')
      else
        let scaled = map (\<lambda>x. rnd (fin x * 1000000)) p;
            mass = map floor scaled;
            left = PPM - sum_list mass
        in if \<not> (0 \<le> left \<and> left \<le> int (length mass))
           then Inl (ValueError ''invalid residual'')
           else
             let mass' = add_ones (take (nat left) (remainder_order scaled mass)) mass
             in res_bind (validate_mass mass') (\<lambda>_. Inr mass'))"

text \<open>
  \<open>from_logits\<close>: the softmax.  \<open>mexp\<close> is \<open>math.exp\<close>, a parameter; the difference may overflow
  to minus infinity, where \<open>math.exp\<close> is zero.
\<close>

definition div_pos :: "fl \<Rightarrow> rat \<Rightarrow> fl" where
  "div_pos x t = (case x of Fin q \<Rightarrow> fl_round binary64 (q / t) | y \<Rightarrow> y)"

definition softmax_terms :: "(fl \<Rightarrow> fl) \<Rightarrow> rat list \<Rightarrow> rat \<Rightarrow> fl list" where
  "softmax_terms mexp logits temperature =
     (let mx = Max (set logits)
      in map (\<lambda>x. mexp (div_pos (fl_round binary64 (x - mx)) temperature)) logits)"

definition from_logits :: "(fl \<Rightarrow> fl) \<Rightarrow> fl list \<Rightarrow> fl \<Rightarrow> int list res" where
  "from_logits mexp logits temperature =
     (if \<not> (2 \<le> length logits \<and> length logits \<le> 7) \<or> list_ex (\<lambda>x. \<not> fl_finite x) logits
      then Inl (ValueError ''invalid logits'')
      else if \<not> fl_finite temperature \<or> fin temperature < rnd (1 / 10 ^ 6) \<or> 10 ^ 6 < fin temperature
      then Inl (ValueError ''invalid temperature'')
      else
        let p = softmax_terms mexp (map fin logits) (fin temperature)
        in apportion (map (\<lambda>x. fl_round binary64 (fin x / psum (map fin p))) p))"

section \<open>Score statistics\<close>

record stats =
  expected_level_microunits :: int
  mean_ppm :: int
  cdf_ppm :: "int list"
  tail_ppm :: "int list"

definition weighted :: "int list \<Rightarrow> int" where
  "weighted mass = sum_list (map (\<lambda>i. int i * mass ! i) [0..<length mass])"

definition score_stats :: "int list \<Rightarrow> stats res" where
  "score_stats mass =
     res_bind (validate_mass mass) (\<lambda>_.
       if \<not> (3 \<le> length mass \<and> length mass \<le> 7)
       then Inl (ValueError ''Score needs 3..7 bins'')
       else
         let expected = weighted mass; d = int (length mass) - 1
         in Inr \<lparr>expected_level_microunits = expected,
                 mean_ppm = (expected + d div 2) div d,
                 cdf_ppm = map (\<lambda>i. sum_list (take (i + 1) mass)) [0..<length mass],
                 tail_ppm = map (\<lambda>i. sum_list (drop i mass)) [0..<length mass]\<rparr>)"

text \<open>\<open>metrics\<close> of the design review: the numerator and the rounded normalised mean.\<close>

definition metrics :: "int list \<Rightarrow> (int \<times> int) res" where
  "metrics masses =
     (if \<not> (3 \<le> length masses \<and> length masses \<le> 7) \<or> list_ex (\<lambda>v. v < 0) masses \<or>
         sum_list masses \<noteq> PPM
      then Inl (ValueError ''Invalid score distribution'')
      else
        let numerator = weighted masses; denom = int (length masses) - 1
        in Inr (numerator, (2 * numerator + denom) div (2 * denom)))"

section \<open>The reservation oracle\<close>

datatype ostatus = Submitted | OutcomeUnknown | Succeeded | FailedDefinitive

type_synonym payload = "string \<times> string \<times> int \<times> int \<times> string \<times> int"

record ReservationOracle =
  status :: ostatus
  spent :: int
  reserved :: int
  ever_unknown :: bool
  frozen :: payload
  attempts :: int

definition fresh_reservation :: ReservationOracle where
  "fresh_reservation = \<lparr>status = Submitted, spent = 0, reserved = 110, ever_unknown = False,
     frozen = (''ledger'', ''recipient'', 100, 10, ''memo'', 1000), attempts = 1\<rparr>"

definition reservation_invariant :: "ReservationOracle \<Rightarrow> bool" where
  "reservation_invariant s \<longleftrightarrow>
     reserved s \<in> {0, 110} \<and> spent s \<in> {0, 110} \<and> reserved s + spent s \<le> 110 \<and>
     (status s \<in> {Submitted, OutcomeUnknown} \<longrightarrow> reserved s = 110) \<and>
     (status s = Succeeded \<longrightarrow> reserved s = 0 \<and> spent s = 110)"

text \<open>\<open>invariant()\<close> raises \<open>AssertionError\<close>; a settled reservation ignores every event.\<close>

definition observe :: "string \<Rightarrow> ReservationOracle \<Rightarrow> ReservationOracle res" where
  "observe event s =
     (if status s = Succeeded \<or> status s = FailedDefinitive then Inr s
      else
        let s' = (if event = ''success'' \<or> event = ''duplicate''
                  then s\<lparr>spent := spent s + reserved s, reserved := 0, status := Succeeded\<rparr>
                  else if (event = ''bad_fee'' \<or> event = ''too_old'') \<and> \<not> ever_unknown s
                  then s\<lparr>reserved := 0, status := FailedDefinitive\<rparr>
                  else s\<lparr>ever_unknown := True, status := OutcomeUnknown\<rparr>)
        in if reservation_invariant s' then Inr s' else Inl (AssertionError ''invariant''))"

definition retry :: "bool \<Rightarrow> int \<Rightarrow> ReservationOracle \<Rightarrow> (payload \<times> ReservationOracle) res" where
  "retry allowed age s =
     (if \<not> allowed \<or> status s \<noteq> OutcomeUnknown \<or> 2 \<le> attempts s \<or> 60 < age
      then Inl (ValueError ''retry prohibited'')
      else Inr (frozen s, s\<lparr>attempts := attempts s + 1, status := Submitted\<rparr>))"

text \<open>One step of a ledger trace, and the states a trace can reach.\<close>

inductive reservation_step :: "ReservationOracle \<Rightarrow> ReservationOracle \<Rightarrow> bool" where
  observed: "observe event s = Inr t \<Longrightarrow> reservation_step s t"
| retried: "retry allowed age s = Inr (p, t) \<Longrightarrow> reservation_step s t"

inductive reservation_reachable :: "ReservationOracle \<Rightarrow> bool" where
  fresh: "reservation_reachable fresh_reservation"
| step: "reservation_reachable s \<Longrightarrow> reservation_step s t \<Longrightarrow> reservation_reachable t"

section \<open>Lemmas: rounding on small values\<close>

definition err :: rat where "err = 1 / 2 ^ 49"

lemma err_bounds: "0 < err" "err \<le> 1 / 1000000000000"
  by (simp_all add: err_def)

lemma rnd_error:
  assumes "\<bar>q\<bar> \<le> 8"
  shows "\<bar>rnd q - q\<bar> \<le> err"
proof -
  have "\<bar>rnd q - q\<bar> \<le> \<bar>q\<bar> * pow2 (- 53) + pow2 (- 1075)"
    using round_rat_error [of binary64 q] by (simp add: binary64_def)
  moreover have "\<bar>q\<bar> * pow2 (- 53) \<le> 8 * pow2 (- 53)"
    using assms by (intro mult_right_mono) (simp_all add: less_imp_le)
  moreover have "8 * pow2 (- 53) = err / 2" by (simp add: pow2_def err_def)
  moreover have "pow2 (- 1075) \<le> err / 2"
    using pow2_mono [of "-1075" "-50"] by (simp add: pow2_def err_def)
  ultimately show ?thesis by linarith
qed

lemma rnd_of_int: "\<bar>n\<bar> \<le> 2 ^ 53 \<Longrightarrow> rnd (of_int n) = of_int n"
  by (rule round_rat_of_int) (simp_all add: binary64_def)

lemma rnd_scaled_error:
  assumes "0 \<le> x" "x \<le> 1"
  shows "\<bar>rnd (x * 1000000) - x * 1000000\<bar> \<le> 1 / 1000000"
proof -
  have "\<bar>rnd (x * 1000000) - x * 1000000\<bar> \<le> \<bar>x * 1000000\<bar> * pow2 (- 53) + pow2 (- 1075)"
    using round_rat_error [of binary64 "x * 1000000"] by (simp add: binary64_def)
  moreover have "\<bar>x * 1000000\<bar> * pow2 (- 53) \<le> 1000000 * pow2 (- 53)"
    using assms by (intro mult_right_mono) (simp_all add: less_imp_le)
  moreover have "1000000 * pow2 (- 53) \<le> 1 / 2000000" by (simp add: pow2_def)
  moreover have "pow2 (- 1075) \<le> 1 / 2000000"
    using pow2_mono [of "-1075" "-50"] by (simp add: pow2_def)
  ultimately show ?thesis by linarith
qed

text \<open>One turn of the compensated summation loses at most a few units in the last place.\<close>

lemma psum_turn:
  assumes f: "\<bar>f\<bar> \<le> 7" and c: "\<bar>c\<bar> \<le> 1 / 2" and x: "0 \<le> x" "x \<le> 1"
  defines "t \<equiv> rnd (f + x)"
  defines "c' \<equiv> (if \<bar>x\<bar> \<le> \<bar>f\<bar> then rnd (c + rnd (rnd (f - t) + x))
                 else rnd (c + rnd (rnd (x - t) + f)))"
  shows "\<bar>t - (f + x)\<bar> \<le> err" "\<bar>c'\<bar> \<le> \<bar>c\<bar> + 4 * err"
proof -
  have small: "err \<le> 1 / 100" "0 < err" using err_bounds by simp_all
  show t: "\<bar>t - (f + x)\<bar> \<le> err"
    unfolding t_def using f x by (intro rnd_error) linarith
  have inner: "\<bar>rnd (rnd (a - t) + b)\<bar> \<le> 3 * err" if ab: "a + b = f + x" "\<bar>b\<bar> \<le> 7" for a b
  proof -
    have r1: "\<bar>rnd (a - t) - (a - t)\<bar> \<le> err"
      using t ab small by (intro rnd_error) linarith
    then have s: "\<bar>rnd (a - t) + b\<bar> \<le> 2 * err" using t ab(1) by linarith
    then have "\<bar>rnd (rnd (a - t) + b) - (rnd (a - t) + b)\<bar> \<le> err"
      using small by (intro rnd_error) linarith
    then show ?thesis using s by linarith
  qed
  have outer: "\<bar>rnd (c + z)\<bar> \<le> \<bar>c\<bar> + 4 * err" if z: "\<bar>z\<bar> \<le> 3 * err" for z
  proof -
    have "\<bar>rnd (c + z) - (c + z)\<bar> \<le> err" using z c small by (intro rnd_error) linarith
    then show ?thesis using z by linarith
  qed
  show "\<bar>c'\<bar> \<le> \<bar>c\<bar> + 4 * err"
    unfolding c'_def
    using outer [OF inner [of f x]] outer [OF inner [of x f]] f x by simp
qed

lemma psum_loop_error:
  assumes "length xs \<le> 6" "list_all (\<lambda>x. 0 \<le> x \<and> x \<le> 1) xs"
    and "\<bar>f\<bar> + of_nat (length xs) \<le> 7 + 6 * err - of_nat (length xs) * err"
    and "\<bar>c\<bar> + 4 * of_nat (length xs) * err \<le> 24 * err"
  shows "\<bar>psum_loop f c xs - (f + sum_list xs)\<bar> \<le> \<bar>c\<bar> + (5 * of_nat (length xs) + 1) * err"
  using assms
proof (induction xs arbitrary: f c)
  case Nil
  have "\<bar>rnd (f + c) - (f + c)\<bar> \<le> err" using Nil err_bounds by (intro rnd_error) simp
  then have "\<bar>rnd (f + c) - f\<bar> \<le> \<bar>c\<bar> + err" by linarith
  then show ?case by (cases "c = 0") simp_all
next
  case (Cons x xs)
  let ?n = "of_nat (length xs) :: rat"
  define t where "t = rnd (f + x)"
  define c' where "c' = (if \<bar>x\<bar> \<le> \<bar>f\<bar> then rnd (c + rnd (rnd (f - t) + x))
                 else rnd (c + rnd (rnd (x - t) + f)))"
  have n0: "0 \<le> ?n" "0 \<le> ?n * err" using err_bounds by simp_all
  have n1: "0 \<le> err * ?n" using n0 by (simp add: mult.commute)
  have len: "of_nat (length (x # xs)) = ?n + 1" by simp
  have p3: "\<bar>f\<bar> + ?n + 1 \<le> 7 + 5 * err - err * ?n"
    using Cons.prems(3) unfolding len by (simp add: algebra_simps)
  have p4: "\<bar>c\<bar> + 4 * (err * ?n) + 4 * err \<le> 24 * err"
    using Cons.prems(4) unfolding len by (simp add: algebra_simps)
  have f7: "\<bar>f\<bar> \<le> 7" using p3 n0(1) n1 err_bounds by linarith
  have c2: "\<bar>c\<bar> \<le> 1 / 2" using p4 n1 err_bounds by linarith
  have x: "0 \<le> x" "x \<le> 1" using Cons.prems(2) by auto
  have t: "\<bar>t - (f + x)\<bar> \<le> err" and c': "\<bar>c'\<bar> \<le> \<bar>c\<bar> + 4 * err"
    unfolding t_def c'_def by (rule psum_turn [OF f7 c2 x])+
  have "\<bar>psum_loop t c' xs - (t + sum_list xs)\<bar> \<le> \<bar>c'\<bar> + (5 * ?n + 1) * err"
  proof (rule Cons.IH)
    have "\<bar>t\<bar> + ?n \<le> 7 + 6 * err - err * ?n" using p3 t x by linarith
    then show "\<bar>t\<bar> + ?n \<le> 7 + 6 * err - ?n * err" by (simp only: mult.commute)
    have "\<bar>c'\<bar> + 4 * (err * ?n) \<le> 24 * err" using p4 c' by linarith
    then show "\<bar>c'\<bar> + 4 * ?n * err \<le> 24 * err" by (simp add: algebra_simps)
  qed (use Cons.prems in simp_all)
  moreover have "psum_loop f c (x # xs) = psum_loop t c' xs"
    by (simp add: t_def c'_def Let_def)
  ultimately show ?case using t c' by (simp add: algebra_simps)
qed

lemma psum_error:
  assumes "length xs \<le> 7" "list_all (\<lambda>x. 0 \<le> x \<and> x \<le> 1) xs"
  shows "\<bar>psum xs - sum_list xs\<bar> \<le> 31 * err"
proof (cases xs)
  case (Cons y ys)
  have n: "(of_nat (length ys) :: rat) \<le> 6" using assms Cons by simp
  then have ne: "of_nat (length ys) * err \<le> 6 * err" using err_bounds by (intro mult_right_mono) simp_all
  then have ne': "err * of_nat (length ys) \<le> 6 * err" by (simp add: mult.commute)
  have "\<bar>psum_loop y 0 ys - (y + sum_list ys)\<bar> \<le> \<bar>0\<bar> + (5 * of_nat (length ys) + 1) * err"
  proof (rule psum_loop_error)
    show "\<bar>y\<bar> + of_nat (length ys) \<le> 7 + 6 * err - of_nat (length ys) * err"
      using assms Cons n ne ne' by simp
  qed (use assms Cons ne ne' in simp_all)
  also have "\<dots> \<le> 31 * err" using n err_bounds(1) by simp
  finally show ?thesis using Cons by (simp add: psum_def)
qed (simp add: psum_def err_def)

section \<open>Lemmas: apportionment\<close>

lemma add_ones_length [simp]: "length (add_ones is mass) = length mass"
  by (induction "is" arbitrary: mass) (simp_all add: add_ones_def)

lemma sum_list_bump:
  "i < length m \<Longrightarrow> sum_list (m[i := m ! i + 1]) = sum_list m + (1::int)"
  by (induction m arbitrary: i) (auto split: nat.splits)

lemma add_ones_sum:
  "\<forall>i \<in> set is. i < length mass \<Longrightarrow> sum_list (add_ones is mass) = sum_list mass + int (length is)"
proof (induction "is" arbitrary: mass)
  case (Cons i "is")
  have "add_ones (i # is) mass = add_ones is (mass[i := mass ! i + 1])" by (simp add: add_ones_def)
  with Cons show ?case by (simp add: sum_list_bump)
qed (simp add: add_ones_def)

lemma add_ones_nth:
  "distinct is \<Longrightarrow> i < length mass \<Longrightarrow> add_ones is mass ! i = mass ! i + (if i \<in> set is then 1 else 0)"
proof (induction "is" arbitrary: mass)
  case (Cons j "is")
  have "add_ones (j # is) mass = add_ones is (mass[j := mass ! j + 1])" by (simp add: add_ones_def)
  with Cons show ?case by (cases "i = j") auto
qed (simp add: add_ones_def)

lemma remainder_order_set [simp]: "set (remainder_order scaled mass) = {0..<length scaled}"
  by (simp add: remainder_order_def)

lemma remainder_order_distinct [simp]: "distinct (remainder_order scaled mass)"
  by (simp add: remainder_order_def)

lemma remainder_order_length [simp]: "length (remainder_order scaled mass) = length scaled"
  by (simp add: remainder_order_def)

lemma sum_list_map_bound:
  assumes "\<And>x. x \<in> set xs \<Longrightarrow> (f x :: rat) \<le> g x + e"
  shows "sum_list (map f xs) \<le> sum_list (map g xs) + of_nat (length xs) * e"
  using assms
proof (induction xs)
  case (Cons x xs)
  then have "f x \<le> g x + e" "sum_list (map f xs) \<le> sum_list (map g xs) + of_nat (length xs) * e"
    by simp_all
  then show ?case by (simp add: algebra_simps)
qed simp

lemma nonneg_le_sum_list: "list_all (\<lambda>x. 0 \<le> x) xs \<Longrightarrow> (x::int) \<in> set xs \<Longrightarrow> x \<le> sum_list xs"
proof (induction xs)
  case (Cons y ys)
  then have "0 \<le> sum_list ys" by (intro sum_list_nonneg) (simp add: list_all_iff)
  with Cons show ?case by auto
qed simp

lemma of_int_sum_list: "of_int (sum_list xs) = (sum_list (map of_int xs) :: rat)"
  by (induction xs) simp_all

text \<open>
  The residual of a normalised distribution lies between zero and its length: the rounding
  errors of the sum and of the products are far below one part per million.
\<close>

lemma residual_bounds:
  assumes len: "2 \<le> length p" "length p \<le> 7"
    and unit: "list_all (\<lambda>x. 0 \<le> x \<and> x \<le> 1) p"
    and norm: "\<bar>rnd (psum p - 1)\<bar> \<le> rnd (1 / 10 ^ 8)"
  defines "mass \<equiv> map floor (map (\<lambda>x. rnd (x * 1000000)) p)"
  shows "0 \<le> PPM - sum_list mass" "PPM - sum_list mass \<le> int (length p)"
proof -
  let ?n = "of_nat (length p) :: rat" and ?S = "sum_list p"
    and ?T = "sum_list (map (\<lambda>x. rnd (x * 1000000)) p)"
  have n: "?n \<le> 7" "0 \<le> ?n" using len by simp_all
  have e8: "rnd (1 / 10 ^ 8) \<le> 2 / 100000000"
    using rnd_error [of "1 / 10 ^ 8"] err_bounds by (simp add: abs_le_iff)
  have S7: "0 \<le> ?S \<and> ?S \<le> ?n"
    using unit by (induction p) auto
  have ps: "\<bar>psum p - ?S\<bar> \<le> 31 * err" using psum_error [OF len(2) unit] .
  then have "\<bar>psum p - 1\<bar> \<le> 8" using S7 n err_bounds by linarith
  then have "\<bar>rnd (psum p - 1) - (psum p - 1)\<bar> \<le> err" by (rule rnd_error)
  then have S: "\<bar>?S - 1\<bar> \<le> 3 / 100000000" using ps norm e8 err_bounds by linarith
  have xs: "\<bar>rnd (x * 1000000) - x * 1000000\<bar> \<le> 1 / 1000000" if "x \<in> set p" for x
    using that unit by (intro rnd_scaled_error) (auto simp: list_all_iff)
  have scale: "sum_list (map (\<lambda>x. x * 1000000) p) = ?S * 1000000"
    by (simp add: sum_list_mult_const)
  have "?T \<le> sum_list (map (\<lambda>x. x * 1000000) p) + ?n * (1 / 1000000)"
    by (rule sum_list_map_bound) (drule xs, linarith)
  moreover have "sum_list (map (\<lambda>x. x * 1000000) p) \<le> ?T + ?n * (1 / 1000000)"
    by (rule sum_list_map_bound) (drule xs, linarith)
  ultimately have T: "\<bar>?T - 1000000\<bar> \<le> 1 / 10" using S n scale by linarith
  have m: "of_int (sum_list mass) = sum_list (map (\<lambda>x. of_int \<lfloor>rnd (x * 1000000)\<rfloor> :: rat) p)"
    by (simp add: mass_def of_int_sum_list comp_def)
  have "sum_list (map (\<lambda>x. of_int \<lfloor>rnd (x * 1000000)\<rfloor> :: rat) p) \<le> ?T + ?n * 0"
    by (rule sum_list_map_bound) simp
  then have up: "of_int (sum_list mass) \<le> (1000000 + 1 / 10 :: rat)" using m T by linarith
  have "?T \<le> sum_list (map (\<lambda>x. of_int \<lfloor>rnd (x * 1000000)\<rfloor>) p) + ?n * 1"
    by (rule sum_list_map_bound) linarith
  then have "(1000000 - 1 / 10 :: rat) \<le> of_int (sum_list mass) + ?n" using m T by linarith
  then have lo: "(1000000 - 1 / 10 :: rat) \<le> of_int (sum_list mass + int (length p))" by simp
  show "0 \<le> PPM - sum_list mass" using up unfolding PPM_def by linarith
  show "PPM - sum_list mass \<le> int (length p)" using lo unfolding PPM_def by linarith
qed

lemma floor_mass_nonneg:
  "list_all (\<lambda>x. 0 \<le> x) p \<Longrightarrow> list_all (\<lambda>m. 0 \<le> m) (map floor (map (\<lambda>x. rnd (x * 1000000)) p))"
  by (simp add: list_all_iff round_rat_nonneg)

lemma add_ones_nonneg: "list_all (\<lambda>m. 0 \<le> m) mass \<Longrightarrow> list_all (\<lambda>m. 0 \<le> m) (add_ones is mass)"
proof (induction "is" arbitrary: mass)
  case (Cons i "is")
  have "list_all (\<lambda>m. 0 \<le> m) (mass[i := mass ! i + 1])"
  proof (cases "i < length mass")
    case True
    then have "0 \<le> mass ! i" using Cons.prems by (simp add: list_all_length)
    then show ?thesis using Cons.prems True
      by (auto simp: list_all_length nth_list_update)
  qed (use Cons.prems in \<open>simp add: list_update_beyond\<close>)
  then show ?case using Cons.IH by (simp add: add_ones_def)
qed (simp add: add_ones_def)

lemma validate_mass_ok:
  assumes "2 \<le> length mass" "length mass \<le> 7" "list_all (\<lambda>m. 0 \<le> m) mass" "sum_list mass = PPM"
  shows "validate_mass mass = Inr ()"
proof -
  have "x \<le> PPM" if "x \<in> set mass" for x
    using nonneg_le_sum_list [OF assms(3) that] assms(4) by simp
  then show ?thesis using assms by (auto simp: validate_mass_def list_ex_iff list_all_iff)
qed

lemma validate_mass_Inr:
  "validate_mass mass = Inr u \<longleftrightarrow> 2 \<le> length mass \<and> length mass \<le> 7 \<and>
     list_all (\<lambda>x. 0 \<le> x \<and> x \<le> PPM) mass \<and> sum_list mass = PPM"
  by (auto simp: validate_mass_def list_ex_iff list_all_iff)

text \<open>The whole function on a valid, normalised distribution.\<close>

definition floors :: "fl list \<Rightarrow> int list" where
  "floors p = map floor (map (\<lambda>x. rnd (fin x * 1000000)) p)"

definition topped_up :: "fl list \<Rightarrow> nat list" where
  "topped_up p = take (nat (PPM - sum_list (floors p)))
     (remainder_order (map (\<lambda>x. rnd (fin x * 1000000)) p) (floors p))"

definition normalised :: "fl list \<Rightarrow> bool" where
  "normalised p \<longleftrightarrow> 2 \<le> length p \<and> length p \<le> 7 \<and> list_all in_unit p \<and>
     \<bar>rnd (psum (map fin p) - 1)\<bar> \<le> rnd (1 / 10 ^ 8)"

lemma apportion_ok:
  assumes "normalised p"
  shows "apportion p = Inr (add_ones (topped_up p) (floors p))"
    and "sum_list (add_ones (topped_up p) (floors p)) = PPM"
    and "list_all (\<lambda>m. 0 \<le> m \<and> m \<le> PPM) (add_ones (topped_up p) (floors p))"
proof -
  have len: "2 \<le> length p" "length p \<le> 7" and units: "list_all in_unit p"
    and norm: "\<bar>rnd (psum (map fin p) - 1)\<bar> \<le> rnd (1 / 10 ^ 8)"
    using assms by (simp_all add: normalised_def)
  have unit: "list_all (\<lambda>x. 0 \<le> x \<and> x \<le> 1) (map fin p)"
    using units by (simp add: list_all_iff in_unit_def)
  have fl: "floors p = map floor (map (\<lambda>x. rnd (x * 1000000)) (map fin p))"
    by (simp add: floors_def comp_def)
  have res: "0 \<le> PPM - sum_list (floors p)" "PPM - sum_list (floors p) \<le> int (length p)"
    using residual_bounds [of "map fin p"] len unit norm by (simp_all add: fl)
  have lf: "length (floors p) = length p" by (simp add: floors_def)
  have "set (topped_up p) \<subseteq> {0..<length p}"
    using set_take_subset unfolding topped_up_def by fastforce
  moreover have "length (topped_up p) = nat (PPM - sum_list (floors p))"
    using res by (simp add: topped_up_def)
  ultimately show sum: "sum_list (add_ones (topped_up p) (floors p)) = PPM"
    using res by (subst add_ones_sum) (auto simp: lf)
  have nn: "list_all (\<lambda>m. 0 \<le> m) (add_ones (topped_up p) (floors p))"
    unfolding fl by (rule add_ones_nonneg, rule floor_mass_nonneg)
      (use unit in \<open>simp add: list_all_iff\<close>)
  have v: "validate_mass (add_ones (topped_up p) (floors p)) = Inr ()"
    using len nn sum by (intro validate_mass_ok) (simp_all add: lf)
  then show "list_all (\<lambda>m. 0 \<le> m \<and> m \<le> PPM) (add_ones (topped_up p) (floors p))"
    by (simp add: validate_mass_Inr)
  have "\<not> list_ex (\<lambda>x. \<not> in_unit x) p" using units by (simp add: list_ex_iff list_all_iff)
  then show "apportion p = Inr (add_ones (topped_up p) (floors p))"
    using len norm res v
    by (simp add: apportion_def Let_def topped_up_def floors_def [symmetric] floors_def comp_def)
qed

lemma apportion_error: "\<not> normalised p \<Longrightarrow>
    apportion p = Inl (ValueError ''invalid distribution'') \<or>
    apportion p = Inl (ValueError ''not normalized'')"
  by (auto simp: apportion_def normalised_def list_ex_iff list_all_iff)


lemma apportion_Inr_iff:
  "apportion p = Inr mass \<longleftrightarrow> normalised p \<and> mass = add_ones (topped_up p) (floors p)"
  using apportion_ok(1) [of p] apportion_error [of p] by (cases "normalised p") auto

section \<open>Lemmas: the largest remainders\<close>

definition scaled :: "fl list \<Rightarrow> nat \<Rightarrow> rat" where
  "scaled p i = rnd (fin (p ! i) * 1000000)"

definition remainder :: "fl list \<Rightarrow> nat \<Rightarrow> rat" where
  "remainder p i = rnd (scaled p i - of_int \<lfloor>scaled p i\<rfloor>)"

lemma sorted_split_le:
  assumes "sorted (map f xs)" "x \<in> set (take n xs)" "y \<in> set (drop n xs)"
  shows "f x \<le> f y"
proof -
  have "sorted (map f (take n xs) @ map f (drop n xs))"
    using assms(1) by (simp add: take_map [symmetric] drop_map [symmetric])
  then show ?thesis using assms(2,3) by (auto simp: sorted_append)
qed

lemma topped_up_largest:
  assumes "i \<in> set (topped_up p)" "j < length p" "j \<notin> set (topped_up p)"
  shows "remainder p j \<le> remainder p i"
proof -
  let ?sc = "map (\<lambda>x. rnd (fin x * 1000000)) p"
  let ?key = "\<lambda>i. (- rnd (?sc ! i - of_int (floors p ! i)), i)"
  let ?o = "remainder_order ?sc (floors p)" and ?n = "nat (PPM - sum_list (floors p))"
  have "sorted (map ?key ?o)" by (simp add: remainder_order_def)
  moreover have i: "i \<in> set (take ?n ?o)" using assms(1) by (simp add: topped_up_def)
  moreover have "j \<in> set (take ?n ?o) \<union> set (drop ?n ?o)"
    using assms(2) by (simp only: set_append [symmetric] append_take_drop_id) simp
  then have "j \<in> set (drop ?n ?o)" using assms(3) unfolding topped_up_def by blast
  ultimately have "?key i \<le> ?key j" by (rule sorted_split_le)
  moreover have "i < length p" using in_set_takeD [OF i] by simp
  ultimately show ?thesis using assms(2)
    by (auto simp: remainder_def scaled_def floors_def less_eq_prod_def)
qed

lemma apportion_entry:
  assumes "i < length p"
  shows "add_ones (topped_up p) (floors p) ! i =
    \<lfloor>scaled p i\<rfloor> + (if i \<in> set (topped_up p) then 1 else 0)"
proof -
  have "distinct (topped_up p)" by (simp add: topped_up_def)
  then show ?thesis using assms by (simp add: add_ones_nth floors_def scaled_def)
qed

section \<open>Lemmas: score statistics\<close>

lemma score_stats_Inr:
  "score_stats mass = Inr st \<Longrightarrow> 3 \<le> length mass \<and> length mass \<le> 7 \<and>
     list_all (\<lambda>x. 0 \<le> x \<and> x \<le> PPM) mass \<and> sum_list mass = PPM"
  by (auto simp: score_stats_def res_iff validate_mass_Inr split: if_splits)

lemma weighted_Nil [simp]: "weighted [] = 0"
  by (simp add: weighted_def)

lemma weighted_snoc: "weighted (xs @ [x]) = weighted xs + int (length xs) * x"
proof -
  have "map (\<lambda>i. int i * (xs @ [x]) ! i) [0..<length xs] = map (\<lambda>i. int i * xs ! i) [0..<length xs]"
    by (rule map_cong) (auto simp: nth_append)
  then have "weighted (xs @ [x]) = sum_list (map (\<lambda>i. int i * xs ! i) [0..<length xs]) + int (length xs) * x"
    unfolding weighted_def by (simp only: length_append_singleton upt_Suc le0 if_True map_append sum_list_append) simp
  then show ?thesis by (simp only: weighted_def)
qed

lemma weighted_nonneg: "list_all (\<lambda>x. 0 \<le> x) xs \<Longrightarrow> 0 \<le> weighted xs"
  by (induction xs rule: rev_induct) (simp_all add: weighted_snoc)

lemma weighted_le:
  "list_all (\<lambda>x. 0 \<le> x) xs \<Longrightarrow> weighted xs \<le> (int (length xs) - 1) * sum_list xs"
proof (induction xs rule: rev_induct)
  case (snoc x xs)
  then have "weighted xs \<le> (int (length xs) - 1) * sum_list xs" "0 \<le> sum_list xs"
    by (auto intro: sum_list_nonneg simp: list_all_iff)
  then show ?case by (simp add: weighted_snoc algebra_simps)
qed simp

lemma sum_tails_snoc:
  "sum_list (map (\<lambda>i. sum_list (drop i (xs @ [x]))) [1..<length xs + 1]) =
   sum_list (map (\<lambda>i. sum_list (drop i xs)) [1..<length xs]) + int (length xs) * (x::int)"
proof -
  have "sum_list (map (\<lambda>i. sum_list (drop i (xs @ [x]))) [1..<length xs + 1]) =
      sum_list (map (\<lambda>i. sum_list (drop i xs) + x) [1..<length xs + 1])"
    by (intro arg_cong [where f = sum_list] map_cong) auto
  also have "\<dots> = sum_list (map (\<lambda>i. sum_list (drop i xs)) [1..<length xs + 1]) + int (length xs) * x"
    by (simp add: sum_list_addf sum_list_triv Suc_diff_le del: upt_Suc)
  also have "sum_list (map (\<lambda>i. sum_list (drop i xs)) [1..<length xs + 1]) =
      sum_list (map (\<lambda>i. sum_list (drop i xs)) [1..<length xs])"
  proof (cases "length xs")
    case (Suc n)
    then have "[1..<length xs + 1] = [1..<length xs] @ [length xs]" by simp
    then show ?thesis by (simp del: upt_Suc)
  qed simp
  finally show ?thesis .
qed

text \<open>The weighted sum is the sum of the tails: summation by parts.\<close>

lemma weighted_tails: "weighted xs = sum_list (map (\<lambda>i. sum_list (drop i xs)) [1..<length xs])"
proof (induction xs rule: rev_induct)
  case (snoc x xs)
  have "weighted (xs @ [x]) = sum_list (map (\<lambda>i. sum_list (drop i (xs @ [x]))) [1..<length xs + 1])"
    unfolding sum_tails_snoc weighted_snoc snoc.IH ..
  then show ?case by (simp only: length_append_singleton Suc_eq_plus1)
qed simp

lemma half_up: "0 < d \<Longrightarrow> (e + d div 2) div d = (2 * e + d) div (2 * d :: int)"
proof -
  assume d: "0 < d"
  have "(2 * e + d) div (2 * d) = (2 * e + d) div 2 div d"
    by (rule zdiv_zmult2_eq) (use d in simp)
  also have "(2 * e + d) div 2 = e + d div 2" by simp
  finally show ?thesis by simp
qed

section \<open>Lemmas: the reservation\<close>

text \<open>What every reachable reservation satisfies, beyond the invariant the code asserts.\<close>

definition reservation_good :: "ReservationOracle \<Rightarrow> bool" where
  "reservation_good s \<longleftrightarrow>
     reservation_invariant s \<and> attempts s \<in> {1, 2} \<and> frozen s = frozen fresh_reservation \<and>
     (spent s = 110 \<longleftrightarrow> status s = Succeeded) \<and>
     (status s = FailedDefinitive \<longrightarrow> \<not> ever_unknown s \<and> reserved s = 0) \<and>
     (attempts s = 2 \<longrightarrow> ever_unknown s) \<and> (status s = OutcomeUnknown \<longrightarrow> ever_unknown s)"

lemmas reservation_defs = reservation_good_def reservation_invariant_def

lemma fresh_good: "reservation_good fresh_reservation"
  by (simp add: reservation_defs fresh_reservation_def)

lemma observe_good:
  "reservation_good s \<Longrightarrow> \<exists>t. observe event s = Inr t \<and> reservation_good t"
  by (cases "status s") (auto simp: reservation_defs observe_def Let_def)

lemma retry_good:
  "reservation_good s \<Longrightarrow> retry allowed age s = Inr (p, t) \<Longrightarrow>
   reservation_good t \<and> p = frozen fresh_reservation"
  by (auto simp: reservation_defs retry_def split: if_splits)

inductive_cases reservation_stepE: "reservation_step s t"

lemma step_good: "reservation_step s t \<Longrightarrow> reservation_good s \<Longrightarrow> reservation_good t"
proof (erule reservation_stepE)
  fix event
  assume "reservation_good s" "observe event s = Inr t"
  then show "reservation_good t" using observe_good [of s event] by auto
qed (use retry_good in blast)

lemma reachable_good: "reservation_reachable s \<Longrightarrow> reservation_good s"
  by (induction rule: reservation_reachable.induct) (use fresh_good step_good in auto)

section \<open>Properties\<close>

text \<open>
  \<open>apportion\<close> returns exactly on the normalised distributions; on them neither the residual
  nor the final mass check can fail, so those two exceptions are unreachable.
\<close>

theorem apportion_outcome:
  "(\<exists>mass. apportion p = Inr mass) = normalised p \<and>
   apportion p \<noteq> Inl (ValueError ''invalid residual'') \<and>
   apportion p \<noteq> Inl (ValueError ''invalid ppm mass'')"
  using apportion_ok(1) [of p] apportion_error [of p] by (cases "normalised p") auto

text \<open>
  C8: the result of \<open>apportion\<close> sums to a million, every part is the floor of its share or one
  more, and a part that was rounded up had at least the remainder of any that was not.
\<close>

theorem apportion_largest_remainder:
  assumes "apportion p = Inr mass"
  shows "length mass = length p \<and> sum_list mass = 1000000 \<and>
    list_all (\<lambda>m. 0 \<le> m \<and> m \<le> 1000000) mass \<and>
    (\<forall>i < length p. mass ! i - \<lfloor>scaled p i\<rfloor> \<in> {0, 1}) \<and>
    (\<forall>i < length p. \<forall>j < length p.
       mass ! i = \<lfloor>scaled p i\<rfloor> + 1 \<longrightarrow> mass ! j = \<lfloor>scaled p j\<rfloor> \<longrightarrow>
       remainder p j \<le> remainder p i)"
proof -
  have n: "normalised p" and m: "mass = add_ones (topped_up p) (floors p)"
    using assms by (simp_all add: apportion_Inr_iff)
  have "remainder p j \<le> remainder p i"
    if "i < length p" "j < length p" "mass ! i = \<lfloor>scaled p i\<rfloor> + 1" "mass ! j = \<lfloor>scaled p j\<rfloor>" for i j
    using that topped_up_largest [of i p j] by (simp add: m apportion_entry split: if_splits)
  then show ?thesis using apportion_ok(2,3) [OF n]
    by (auto simp: m apportion_entry PPM_def) (simp add: floors_def)
qed

theorem apportion_largest_remainder_witness:
  "\<exists>mass. apportion [Fin (1 / 4), Fin (3 / 4)] = Inr mass \<and> sum_list mass = 1000000"
proof -
  have "apportion [Fin (1 / 4), Fin (3 / 4)] = Inr [250000, 750000]" by code_simp
  from apportion_largest_remainder [OF this] this show ?thesis by blast
qed

text \<open>
  C37: on every valid score distribution the statistics agree with the reference \<open>metrics\<close>; the
  distribution function and the tails are complementary; the mean lies in the unit range; and
  the expected level is the sum of the tails.
\<close>

theorem score_stats_consistent:
  assumes "score_stats mass = Inr st"
  shows "metrics mass = Inr (expected_level_microunits st, mean_ppm st) \<and>
    0 \<le> mean_ppm st \<and> mean_ppm st \<le> PPM \<and>
    (\<forall>i < length mass - 1. cdf_ppm st ! i + tail_ppm st ! (i + 1) = PPM) \<and>
    last (cdf_ppm st) = PPM \<and> hd (tail_ppm st) = PPM \<and>
    expected_level_microunits st = sum_list (tl (tail_ppm st))"
proof -
  note v = score_stats_Inr [OF assms]
  let ?d = "int (length mass) - 1"
  have d: "0 < ?d" using v by simp
  have st: "st = \<lparr>expected_level_microunits = weighted mass,
       mean_ppm = (weighted mass + ?d div 2) div ?d,
       cdf_ppm = map (\<lambda>i. sum_list (take (i + 1) mass)) [0..<length mass],
       tail_ppm = map (\<lambda>i. sum_list (drop i mass)) [0..<length mass]\<rparr>"
    using assms by (auto simp: score_stats_def res_iff Let_def split: if_splits)
  have nn: "list_all (\<lambda>x. 0 \<le> x) mass" using v by (simp add: list_all_iff)
  have m: "metrics mass = Inr (expected_level_microunits st, mean_ppm st)"
    using v half_up [OF d, of "weighted mass"]
    by (auto simp: metrics_def st Let_def list_ex_iff list_all_iff)
  have "weighted mass + ?d div 2 \<le> ?d * PPM + ?d div 2"
    using weighted_le [OF nn] v by simp
  then have "(weighted mass + ?d div 2) div ?d \<le> (?d * PPM + ?d div 2) div ?d"
    using d by (intro zdiv_mono1)
  also have "\<dots> = PPM + ?d div 2 div ?d" using d by simp
  also have "?d div 2 div ?d = 0" using d by (intro div_pos_pos_trivial) linarith+
  finally have up: "mean_ppm st \<le> PPM" by (simp add: st)
  have lo: "0 \<le> mean_ppm st"
    using weighted_nonneg [OF nn] d by (simp add: st pos_imp_zdiv_nonneg_iff)
  have c: "\<forall>i < length mass - 1. cdf_ppm st ! i + tail_ppm st ! (i + 1) = PPM"
    using v sum_list_take_drop [of _ mass] by (auto simp: st less_diff_conv)
  have "[0..<length mass] = 0 # [1..<length mass]"
    using v by (subst upt_conv_Cons) auto
  then have t: "hd (tail_ppm st) = PPM" "expected_level_microunits st = sum_list (tl (tail_ppm st))"
    using v weighted_tails [of mass] by (simp_all add: st)
  have "mass \<noteq> []" using v by (intro notI) simp
  then have "last (cdf_ppm st) = PPM" using v by (simp add: st last_map)
  then show ?thesis using m up lo c t by blast
qed

theorem score_stats_consistent_witness:
  "\<exists>st. score_stats [500000, 0, 250000, 0, 250000] = Inr st \<and> mean_ppm st = 375000 \<and>
     last (cdf_ppm st) = PPM"
proof -
  let ?st = "\<lparr>expected_level_microunits = 1500000, mean_ppm = 375000,
     cdf_ppm = [500000, 500000, 750000, 750000, 1000000],
     tail_ppm = [1000000, 500000, 500000, 250000, 250000]\<rparr> :: stats"
  have "score_stats [500000, 0, 250000, 0, 250000] = Inr ?st" by code_simp
  from score_stats_consistent [OF this] this show ?thesis by auto
qed

text \<open>
  C16: in every reachable reservation the asserted invariant holds, so no event can trip the
  assertion; the frozen payload never changes, at most one retry is made, the reserve is charged
  exactly when the transfer succeeded, and a definitive failure is only ever recorded when the
  outcome was never unknown.
\<close>

theorem reservation_safe:
  assumes "reservation_reachable s"
  shows "reservation_invariant s \<and> (\<forall>event. is_ok (observe event s)) \<and>
    frozen s = frozen fresh_reservation \<and> attempts s \<le> 2 \<and>
    (spent s = 110 \<longleftrightarrow> status s = Succeeded) \<and>
    (status s = FailedDefinitive \<longrightarrow> \<not> ever_unknown s \<and> spent s = 0 \<and> reserved s = 0)"
proof -
  have g: "reservation_good s" using reachable_good [OF assms] .
  then have "\<forall>event. is_ok (observe event s)" using observe_good by (fastforce simp: is_ok_iff)
  then show ?thesis using g by (auto simp: reservation_defs)
qed

theorem reservation_safe_witness:
  "\<exists>s. reservation_reachable s \<and> status s = Succeeded \<and> spent s = 110 \<and> attempts s = 2"
proof -
  let ?u = "fresh_reservation\<lparr>ever_unknown := True, status := OutcomeUnknown\<rparr>"
  let ?r = "?u\<lparr>attempts := 2, status := Submitted\<rparr>"
  let ?s = "?r\<lparr>spent := 110, reserved := 0, status := Succeeded\<rparr>"
  have "observe ''timeout'' fresh_reservation = Inr ?u" by code_simp
  then have "reservation_reachable ?u" using fresh step observed by blast
  moreover have "retry True 30 ?u = Inr (frozen fresh_reservation, ?r)" by code_simp
  ultimately have "reservation_reachable ?r" using step retried by blast
  moreover have "observe ''duplicate'' ?r = Inr ?s" by code_simp
  ultimately have r: "reservation_reachable ?s" using step observed by blast
  have "spent ?s = 110" using reservation_safe [OF r] by simp
  then show ?thesis using r by (intro exI [of _ ?s]) simp
qed

text \<open>
  A settled reservation is final: no event and no retry changes it.
\<close>

theorem reservation_final:
  assumes "status s \<in> {Succeeded, FailedDefinitive}" "reservation_step s t"
  shows "t = s"
  using assms by (auto simp: observe_def retry_def elim!: reservation_stepE split: if_splits)

theorem reservation_final_witness:
  "\<exists>s t. status s = FailedDefinitive \<and> reservation_step s t \<and> t = s"
proof -
  let ?s = "fresh_reservation\<lparr>reserved := 0, status := FailedDefinitive\<rparr>"
  have s: "status ?s \<in> {Succeeded, FailedDefinitive}" by simp
  have "observe ''success'' ?s = Inr ?s" by (simp add: observe_def)
  then have st: "reservation_step ?s ?s" by (rule observed)
  show ?thesis using reservation_final [OF s st] st by (intro exI [of _ ?s]) simp
qed

end
