(* ===== verification/PyJson.thy ===== *)
theory PyJson
  imports PyFloat
begin

text \<open>
  The values \<open>json.loads\<close> returns and the operations on them that the tools use: subscripts,
  \<open>get\<close>, \<open>len\<close>, iteration, comparison with an integer literal, and \<open>json.dumps\<close> of a string.
\<close>

section \<open>Values\<close>

datatype json =
    JNull
  | JBool bool
  | JInt int
  | JFloat fl
  | JStr string
  | JList "json list"
  | JObj "(string \<times> json) list"

text \<open>\<open>value[key]\<close>, \<open>value.get(key)\<close> and \<open>key in value\<close> for a text key.\<close>

definition item :: "string \<Rightarrow> json \<Rightarrow> json res" where
  "item key j = (case j of
     JObj kvs \<Rightarrow> of_option (KeyError key) (map_of kvs key)
   | _ \<Rightarrow> Inl TypeError)"

definition get :: "string \<Rightarrow> json \<Rightarrow> json res" where
  "get key j = (case j of
     JObj kvs \<Rightarrow> Inr (case map_of kvs key of Some v \<Rightarrow> v | None \<Rightarrow> JNull)
   | _ \<Rightarrow> Inl AttributeError)"

definition py_len :: "json \<Rightarrow> nat res" where
  "py_len j = (case j of
     JStr s \<Rightarrow> Inr (length s)
   | JList js \<Rightarrow> Inr (length js)
   | JObj kvs \<Rightarrow> Inr (length kvs)
   | _ \<Rightarrow> Inl TypeError)"

definition py_iter :: "json \<Rightarrow> json list res" where
  "py_iter j = (case j of
     JStr s \<Rightarrow> Inr (map (\<lambda>c. JStr [c]) s)
   | JList js \<Rightarrow> Inr js
   | JObj kvs \<Rightarrow> Inr (map (\<lambda>(k, _). JStr k) kvs)
   | _ \<Rightarrow> Inl TypeError)"

text \<open>\<open>value == n\<close>: booleans are the integers 0 and 1, and a float may equal an integer.\<close>

definition eq_int :: "json \<Rightarrow> int \<Rightarrow> bool" where
  "eq_int j n = (case j of
     JInt m \<Rightarrow> m = n
   | JBool b \<Rightarrow> of_bool b = n
   | JFloat (Fin q) \<Rightarrow> q = of_int n
   | _ \<Rightarrow> False)"

definition truthy :: "json \<Rightarrow> bool" where
  "truthy j = (case j of
     JNull \<Rightarrow> False
   | JBool b \<Rightarrow> b
   | JInt n \<Rightarrow> n \<noteq> 0
   | JFloat x \<Rightarrow> x \<noteq> Fin 0
   | JStr s \<Rightarrow> s \<noteq> []
   | JList js \<Rightarrow> js \<noteq> []
   | JObj kvs \<Rightarrow> kvs \<noteq> [])"

text \<open>\<open>type(v) is int\<close>: a boolean is not.\<close>

definition is_int :: "json \<Rightarrow> bool" where
  "is_int j = (case j of JInt _ \<Rightarrow> True | _ \<Rightarrow> False)"

text \<open>\<open>len(values)\<close> and a slice of what must be a list; a text or a dict there is outside the model.\<close>

definition as_list :: "json \<Rightarrow> json list res" where
  "as_list j = (case j of
     JList js \<Rightarrow> Inr js
   | JStr _ \<Rightarrow> Inl OutsideModel
   | JObj _ \<Rightarrow> Inl OutsideModel
   | _ \<Rightarrow> Inl TypeError)"

text \<open>An operand of integer arithmetic; sums of floats are outside the model.\<close>

definition as_int :: "json \<Rightarrow> int res" where
  "as_int j = (case j of
     JInt n \<Rightarrow> Inr n
   | JBool b \<Rightarrow> Inr (of_bool b)
   | JFloat _ \<Rightarrow> Inl OutsideModel
   | _ \<Rightarrow> Inl TypeError)"

text \<open>A subscript used as an integer.\<close>

definition int_item :: "string \<Rightarrow> json \<Rightarrow> int res" where
  "int_item key config = res_bind (item key config) as_int"

section \<open>Text of a string\<close>

definition hex4 :: "nat \<Rightarrow> string" where
  "hex4 n = [hex_digit (n div 4096 mod 16), hex_digit (n div 256 mod 16), hex_digit (n div 16 mod 16),
     hex_digit (n mod 16)]"

definition json_char :: "char \<Rightarrow> string" where
  "json_char c =
     (if c = CHR 0x22 then [CHR 0x5C, CHR 0x22]
      else if c = CHR 0x5C then [CHR 0x5C, CHR 0x5C]
      else if c = CHR 0x0A then [CHR 0x5C, CHR ''n'']
      else if c = CHR 0x0D then [CHR 0x5C, CHR ''r'']
      else if c = CHR 0x09 then [CHR 0x5C, CHR ''t'']
      else if c = CHR 0x08 then [CHR 0x5C, CHR ''b'']
      else if c = CHR 0x0C then [CHR 0x5C, CHR ''f'']
      else if code c < 32 \<or> 126 < code c then CHR 0x5C # CHR ''u'' # hex4 (code c)
      else [c])"

definition json_string :: "string \<Rightarrow> string" where
  "json_string s = [CHR 0x22] @ concat (map json_char s) @ [CHR 0x22]"

section \<open>Lemmas\<close>

lemma item_JObj [simp]: "item key (JObj kvs) = of_option (KeyError key) (map_of kvs key)"
  by (simp add: item_def)

lemma get_JObj [simp]:
  "get key (JObj kvs) = Inr (case map_of kvs key of Some v \<Rightarrow> v | None \<Rightarrow> JNull)"
  by (simp add: get_def)

lemma py_len_JList [simp]: "py_len (JList js) = Inr (length js)"
  by (simp add: py_len_def)

lemma py_iter_JList [simp]: "py_iter (JList js) = Inr js"
  by (simp add: py_iter_def)

lemma py_iter_length: "py_iter j = Inr js \<Longrightarrow> py_len j = Inr (length js)"
  by (auto simp: py_iter_def py_len_def split: json.splits)

lemma is_int_iff: "is_int j \<longleftrightarrow> (\<exists>n. j = JInt n)"
  by (cases j) (simp_all add: is_int_def)

end
