(* ===== verification/Wire.thy ===== *)
theory Wire
  imports Prelude
begin

text \<open>
  Bytes on the wire: Python's \<open>struct\<close> on little-endian integers, the unsigned LEB128 of
  \<open>tools/client_held_query.py\<close>, and the interface every framing of the tools satisfies: a
  prefix codec, whose encodings can be read back from the front of any byte string.
\<close>

section \<open>Little-endian integers\<close>

fun le_nat :: "bytes \<Rightarrow> nat" where
  "le_nat [] = 0"
| "le_nat (b # bs) = unat b + 256 * le_nat bs"

fun le_bytes :: "nat \<Rightarrow> nat \<Rightarrow> bytes" where
  "le_bytes 0 v = []"
| "le_bytes (Suc n) v = word_of_nat v # le_bytes n (v div 256)"

text \<open>\<open>struct.pack("<I", v)\<close> and \<open>struct.pack("<Q", v)\<close>; out of range is \<open>struct.error\<close>.\<close>

definition pack_uint :: "nat \<Rightarrow> int \<Rightarrow> bytes res" where
  "pack_uint n v = (if 0 \<le> v \<and> v < 256 ^ n then Inr (le_bytes n (nat v)) else Inl StructError)"

text \<open>\<open>struct.unpack_from("<I", raw, off)\<close>.\<close>

definition u32_at :: "nat \<Rightarrow> bytes \<Rightarrow> nat res" where
  "u32_at off raw =
     (if off + 4 \<le> length raw then Inr (le_nat (take 4 (drop off raw))) else Inl StructError)"

lemma unat_byte_less: "unat (b :: byte) < 256"
  using unsigned_less [of b] by simp

lemma length_le_bytes [simp]: "length (le_bytes n v) = n"
  by (induction n arbitrary: v) auto

lemma unat_word_of_nat_byte [simp]: "unat (word_of_nat v :: byte) = v mod 256"
  by (simp add: unat_of_nat)

lemma le_nat_le_bytes: "v < 256 ^ n \<Longrightarrow> le_nat (le_bytes n v) = v"
proof (induction n arbitrary: v)
  case (Suc n)
  then have "v div 256 < 256 ^ n" by (simp add: less_mult_imp_div_less mult.commute)
  then show ?case using Suc.IH by simp
qed simp

lemma le_nat_less: "le_nat bs < 256 ^ length bs"
proof (induction bs)
  case (Cons b bs)
  have "unat b < 256" by (rule unat_byte_less)
  then show ?case using Cons by simp
qed simp

lemma le_bytes_le_nat: "le_bytes (length bs) (le_nat bs) = bs"
proof (induction bs)
  case (Cons b bs)
  have "unat b < 256" by (rule unat_byte_less)
  then have "(unat b + 256 * le_nat bs) div 256 = le_nat bs" by simp
  moreover have "(word_of_nat (256 * n) :: byte) = 0" for n
    by (simp add: word_unat_eq_iff unat_of_nat del: of_nat_mult)
  ultimately show ?case using Cons by simp
qed simp

lemma u32_at_append [simp]:
  "v < 4294967296 \<Longrightarrow> length pre = off \<Longrightarrow> u32_at off (pre @ le_bytes 4 v @ post) = Inr v"
  using le_nat_le_bytes [of v 4] by (simp add: u32_at_def)

lemma u32_at_bound: "u32_at off raw = Inr v \<Longrightarrow> v < 4294967296"
  using le_nat_less [of "take 4 (drop off raw)"] by (auto simp: u32_at_def split: if_splits)

lemma u32_at_ok: "off + 4 \<le> length raw \<Longrightarrow> u32_at off raw = Inr (le_nat (take 4 (drop off raw)))"
  by (simp add: u32_at_def)

lemma u32_at_take: "off + 4 \<le> n \<Longrightarrow> n \<le> length raw \<Longrightarrow> u32_at off (take n raw) = u32_at off raw"
  by (simp add: u32_at_def drop_take min_def)

section \<open>Unsigned LEB128\<close>

fun uleb :: "nat \<Rightarrow> bytes" where
  "uleb v = (if 128 \<le> v then (word_of_nat (v mod 128) OR 128) # uleb (v div 128)
             else [word_of_nat v])"

declare uleb.simps [simp del]

text \<open>The reader of the format.\<close>

fun read_uleb :: "bytes \<Rightarrow> (nat \<times> bytes) option" where
  "read_uleb [] = None"
| "read_uleb (b # bs) =
     (if unat b < 128 then Some (unat b, bs)
      else case read_uleb bs of
             Some (v, r) \<Rightarrow> Some (unat b - 128 + 128 * v, r)
           | None \<Rightarrow> None)"

lemma continuation_bytes:
  "list_all (\<lambda>v. unat (word_of_nat v OR 128 :: byte) = v + 128) [0..<128]"
  by code_simp

lemma unat_continuation_byte: "v < 128 \<Longrightarrow> unat (word_of_nat v OR 128 :: byte) = v + 128"
  using continuation_bytes by (auto simp: list_all_iff)

lemma read_uleb_uleb: "read_uleb (uleb v @ r) = Some (v, r)"
proof (induction v rule: uleb.induct)
  case (1 v)
  show ?case
  proof (cases "128 \<le> v")
    case True
    then have "read_uleb (uleb (v div 128) @ r) = Some (v div 128, r)" using 1 by simp
    then show ?thesis using True by (subst uleb.simps) (simp add: unat_continuation_byte)
  qed (subst uleb.simps, simp)
qed

lemma uleb_nonempty [simp]: "uleb v \<noteq> []"
  by (subst uleb.simps) simp

section \<open>Prefix codecs\<close>

locale prefix_codec =
  fixes enc :: "'a \<Rightarrow> bytes"
    and dec :: "bytes \<Rightarrow> ('a \<times> bytes) option"
    and valid :: "'a \<Rightarrow> bool"
  assumes dec_enc: "valid x \<Longrightarrow> dec (enc x @ r) = Some (x, r)"
begin

lemma enc_inj: "valid x \<Longrightarrow> valid y \<Longrightarrow> enc x @ r = enc y @ s \<Longrightarrow> x = y \<and> r = s"
  by (metis dec_enc option.inject prod.inject)

lemma enc_eq_iff: "valid x \<Longrightarrow> valid y \<Longrightarrow> enc x = enc y \<longleftrightarrow> x = y"
  using enc_inj [of x y "[]" "[]"] by auto

text \<open>No encoding is a proper prefix of another.\<close>

lemma enc_not_prefix: "valid x \<Longrightarrow> valid y \<Longrightarrow> prefix (enc x) (enc y) \<Longrightarrow> x = y"
  using enc_inj [of y x "[]"] by (auto simp: prefix_def)

text \<open>Reading a given number of encodings.\<close>

primrec dec_many :: "nat \<Rightarrow> bytes \<Rightarrow> ('a list \<times> bytes) option" where
  "dec_many 0 bs = Some ([], bs)"
| "dec_many (Suc n) bs = (case dec bs of None \<Rightarrow> None
     | Some (x, r) \<Rightarrow> map_option (\<lambda>(xs, s). (x # xs, s)) (dec_many n r))"

lemma dec_many_enc:
  "list_all valid xs \<Longrightarrow> dec_many (length xs) (concat (map enc xs) @ r) = Some (xs, r)"
  by (induction xs) (simp_all add: dec_enc)

lemma concat_enc_inj:
  "list_all valid xs \<Longrightarrow> list_all valid ys \<Longrightarrow> length xs = length ys \<Longrightarrow>
   concat (map enc xs) @ r = concat (map enc ys) @ s \<Longrightarrow> xs = ys \<and> r = s"
  by (metis dec_many_enc option.inject prod.inject)

end

interpretation uleb_codec: prefix_codec uleb read_uleb "\<lambda>_. True"
  by unfold_locales (simp add: read_uleb_uleb)

definition read_u32 :: "bytes \<Rightarrow> (nat \<times> bytes) option" where
  "read_u32 bs = (if 4 \<le> length bs then Some (le_nat (take 4 bs), drop 4 bs) else None)"

interpretation u32_codec: prefix_codec "le_bytes 4" read_u32 "\<lambda>v. v < 4294967296"
  by unfold_locales (simp add: read_u32_def le_nat_le_bytes)

text \<open>A byte string behind its length in LEB128.\<close>

definition uleb_frame :: "bytes \<Rightarrow> bytes" where
  "uleb_frame bs = uleb (length bs) @ bs"

definition read_uleb_frame :: "bytes \<Rightarrow> (bytes \<times> bytes) option" where
  "read_uleb_frame bs = (case read_uleb bs of
     Some (n, r) \<Rightarrow> if n \<le> length r then Some (take n r, drop n r) else None
   | None \<Rightarrow> None)"

interpretation frame_codec: prefix_codec uleb_frame read_uleb_frame "\<lambda>_. True"
  by unfold_locales (simp add: uleb_frame_def read_uleb_frame_def read_uleb_uleb)

end
