(* ===== verification/PyJsonText.thy ===== *)
theory PyJsonText
  imports PyJson Wire "HOL-Library.AList"
begin

text \<open>
  \<open>json.loads\<close> on text and on UTF-8 bytes, with the grammar of Python's decoder.  A character
  beyond Latin-1 is \<open>OutsideModel\<close>; every syntax error is a \<open>ValueError\<close>, as \<open>JSONDecodeError\<close> is.
\<close>

section \<open>Scanning\<close>

abbreviation syntax_error :: "'a res" where
  "syntax_error \<equiv> Inl (ValueError ''JSONDecodeError'')"

definition json_space :: "char \<Rightarrow> bool" where
  "json_space c \<longleftrightarrow> code c = 32 \<or> code c = 9 \<or> code c = 10 \<or> code c = 13"

abbreviation skip_space :: "string \<Rightarrow> string" where
  "skip_space s \<equiv> dropWhile json_space s"

definition simple_escapes :: "(char \<times> char) list" where
  "simple_escapes = [(CHR 0x22, CHR 0x22), (CHR 0x5C, CHR 0x5C), (CHR ''/'', CHR ''/''), (CHR ''b'', CHR 0x08),
     (CHR ''f'', CHR 0x0C), (CHR ''n'', CHR 0x0A), (CHR ''r'', CHR 0x0D), (CHR ''t'', CHR 0x09)]"

text \<open>Four hexadecimal digits, without sign or underscore.\<close>

definition hex_digit_val :: "char \<Rightarrow> nat option" where
  "hex_digit_val c = (case digit_val c of Some d \<Rightarrow> if d < 16 then Some d else None | None \<Rightarrow> None)"

fun hex_run :: "nat \<Rightarrow> nat \<Rightarrow> string \<Rightarrow> (nat \<times> string) option" where
  "hex_run 0 v cs = Some (v, cs)"
| "hex_run (Suc n) v [] = None"
| "hex_run (Suc n) v (c # cs) = (case hex_digit_val c of
     Some d \<Rightarrow> hex_run n (16 * v + d) cs | None \<Rightarrow> None)"

lemma hex_run_shorter: "hex_run n v cs = Some (u, r) \<Longrightarrow> length r \<le> length cs"
  by (induction n v cs rule: hex_run.induct) (auto split: option.splits)

text \<open>The characters of a string literal after its opening quote.\<close>

function (sequential) scan_string :: "string \<Rightarrow> (string \<times> string) res" where
  "scan_string [] = syntax_error"
| "scan_string (c # cs) =
     (if c = CHR 0x22 then Inr ([], cs)
      else if c = CHR 0x5C then
        (case cs of
           [] \<Rightarrow> syntax_error
         | d # ds \<Rightarrow>
             if d = CHR ''u'' then
               (case hex_run 4 0 ds of
                  None \<Rightarrow> syntax_error
                | Some (v, r) \<Rightarrow>
                    if 255 < v then Inl OutsideModel
                    else res_bind (scan_string r) (\<lambda>(t, rest). Inr (char_of v # t, rest)))
             else
               (case map_of simple_escapes d of
                  None \<Rightarrow> syntax_error
                | Some e \<Rightarrow> res_bind (scan_string ds) (\<lambda>(t, rest). Inr (e # t, rest))))
      else if code c < 32 then syntax_error
      else res_bind (scan_string cs) (\<lambda>(t, rest). Inr (c # t, rest)))"
  by pat_completeness auto
termination
  by (relation "measure length") (auto dest: hex_run_shorter)

text \<open>\<open>(-?(?:0|[1-9]\d*))(\.\d+)?([eE][-+]?\d+)?\<close>: the integer part, then the longest fraction and exponent.\<close>

definition scan_digits :: "string \<Rightarrow> string \<times> string" where
  "scan_digits s = (takeWhile is_digit s, dropWhile is_digit s)"

definition scan_integer :: "string \<Rightarrow> (string \<times> string) option" where
  "scan_integer s =
     (let (sign, t) = (if starts_with ''-'' s then (''-'', drop 1 s) else ([], s))
      in case t of
           [] \<Rightarrow> None
         | c # cs \<Rightarrow>
             if c = CHR ''0'' then Some (sign @ ''0'', cs)
             else if is_digit c then (case scan_digits t of (ds, r) \<Rightarrow> Some (sign @ ds, r))
             else None)"

definition scan_fraction :: "string \<Rightarrow> string \<times> string" where
  "scan_fraction s =
     (if starts_with ''.'' s \<and> fst (scan_digits (drop 1 s)) \<noteq> []
      then (case scan_digits (drop 1 s) of (ds, r) \<Rightarrow> (''.'' @ ds, r)) else ([], s))"

definition scan_exponent :: "string \<Rightarrow> string \<times> string" where
  "scan_exponent s = (case s of
     [] \<Rightarrow> ([], s)
   | c # cs \<Rightarrow>
       if c = CHR ''e'' \<or> c = CHR ''E'' then
         (let (sign, t) = (if starts_with ''-'' cs \<or> starts_with ''+'' cs then (take 1 cs, drop 1 cs) else ([], cs))
          in case scan_digits t of (ds, r) \<Rightarrow> if ds = [] then ([], s) else (c # sign @ ds, r))
       else ([], s))"

definition scan_number :: "string \<Rightarrow> (json \<times> string) res" where
  "scan_number s = (case scan_integer s of
     Some (ip, r) \<Rightarrow>
       (let (fp, r1) = scan_fraction r; (ep, r2) = scan_exponent r1
        in if fp = [] \<and> ep = [] then res_bind (py_int 10 ip) (\<lambda>n. Inr (JInt n, r2))
           else res_bind (py_float (ip @ fp @ ep)) (\<lambda>x. Inr (JFloat x, r2)))
   | None \<Rightarrow> syntax_error)"

definition json_words :: "(string \<times> json) list" where
  "json_words = [(''null'', JNull), (''true'', JBool True), (''false'', JBool False),
     (''NaN'', JFloat NaN), (''Infinity'', JFloat PInf), (''-Infinity'', JFloat NInf)]"

section \<open>Values\<close>

text \<open>
  The fuel bounds the nesting and the number of values: twice the length of the text and one more
  is enough (\<open>json_loads_fuel\<close>), since every value, member or element consumes a character.
\<close>

function (sequential) scan_value :: "nat \<Rightarrow> string \<Rightarrow> (json \<times> string) res"
  and scan_members :: "nat \<Rightarrow> (string \<times> json) list \<Rightarrow> string \<Rightarrow> (json \<times> string) res"
  and scan_elements :: "nat \<Rightarrow> json list \<Rightarrow> string \<Rightarrow> (json \<times> string) res" where
  "scan_value 0 s = Inl OutOfFuel"
| "scan_value (Suc n) s =
     (case s of
        [] \<Rightarrow> syntax_error
      | c # cs \<Rightarrow>
          if c = CHR 0x22 then res_bind (scan_string cs) (\<lambda>(t, r). Inr (JStr t, r))
          else if c = CHR ''{'' then
            (let r = skip_space cs
             in if starts_with ''}'' r then Inr (JObj [], drop 1 r) else scan_members n [] r)
          else if c = CHR ''['' then
            (let r = skip_space cs
             in if starts_with '']'' r then Inr (JList [], drop 1 r) else scan_elements n [] r)
          else case find (\<lambda>(w, _). starts_with w s) json_words of
                 Some (w, j) \<Rightarrow> Inr (j, drop (length w) s)
               | None \<Rightarrow> scan_number s)"
| "scan_members 0 kvs s = Inl OutOfFuel"
| "scan_members (Suc n) kvs s =
     (if \<not> starts_with [CHR 0x22] s then syntax_error
      else res_bind (scan_string (drop 1 s)) (\<lambda>(k, r).
        let r1 = skip_space r
        in if \<not> starts_with '':'' r1 then syntax_error
           else res_bind (scan_value n (skip_space (drop 1 r1))) (\<lambda>(v, r2).
             let r3 = skip_space r2; kvs1 = AList.update k v kvs
             in if starts_with ''}'' r3 then Inr (JObj kvs1, drop 1 r3)
                else if starts_with '','' r3 then scan_members n kvs1 (skip_space (drop 1 r3))
                else syntax_error)))"
| "scan_elements 0 js s = Inl OutOfFuel"
| "scan_elements (Suc n) js s =
     res_bind (scan_value n s) (\<lambda>(v, r).
       let r1 = skip_space r; js1 = js @ [v]
       in if starts_with '']'' r1 then Inr (JList js1, drop 1 r1)
          else if starts_with '','' r1 then scan_elements n js1 (skip_space (drop 1 r1))
          else syntax_error)"
  by pat_completeness auto
termination
  by (relation "measure (case_sum (\<lambda>(n, _). n) (case_sum (\<lambda>(n, _). n) (\<lambda>(n, _). n)))") simp_all

definition json_loads :: "string \<Rightarrow> json res" where
  "json_loads s =
     res_bind (scan_value (Suc (2 * length s)) (skip_space s)) (\<lambda>(j, r).
       if skip_space r = [] then Inr j else syntax_error)"

text \<open>Scanning consumes text, and never runs out of fuel.\<close>

lemma scan_string_shorter: "scan_string s = Inr (t, r) \<Longrightarrow> length r < length s"
proof (induction s arbitrary: t r rule: scan_string.induct)
  case (2 c cs)
  show ?case
  proof (cases "c = CHR 0x22 \<or> c \<noteq> CHR 0x5C")
    case True
    then show ?thesis using 2 by (fastforce simp: res_iff split: if_splits)
  next
    case False
    then obtain d ds where cs: "cs = d # ds" using 2 by (cases cs) auto
    show ?thesis
    proof (cases "d = CHR ''u''")
      case True
      then obtain v q where q: "hex_run 4 0 ds = Some (v, q)" "\<not> 255 < v"
        using 2 False cs by (auto split: option.splits if_splits)
      then show ?thesis
        using 2 False cs True hex_run_shorter [OF q(1)] by (fastforce simp: res_iff)
    next
      case u: False
      then obtain e where e: "map_of simple_escapes d = Some e"
        using 2 False cs by (cases "map_of simple_escapes d") auto
      then obtain t' where "scan_string ds = Inr (t', r)" using 2 False cs u by (auto simp: res_iff)
      then show ?thesis using "2.IH"(2) [OF _ _ cs u e] False cs by fastforce
    qed
  qed
qed simp

lemma scan_string_fuel: "scan_string s \<noteq> Inl OutOfFuel"
  by (induction s rule: scan_string.induct)
    (auto simp: res_iff split: option.splits list.splits if_splits)

lemma skip_space_length: "length (skip_space s) \<le> length s"
  by (rule length_dropWhile_le)

lemma scan_integer_shorter: "scan_integer s = Some (p, r) \<Longrightarrow> length r < length s"
  using length_dropWhile_le [of is_digit]
  by (auto simp: scan_integer_def scan_digits_def Let_def le_imp_less_Suc less_Suc_eq_le starts_with_iff
      split: if_splits list.splits intro: le_SucI le_imp_less_Suc)

lemma scan_fraction_length: "length (snd (scan_fraction s)) \<le> length s"
  using length_dropWhile_le [of is_digit "drop 1 s"] by (auto simp: scan_fraction_def scan_digits_def)

lemma scan_exponent_length: "length (snd (scan_exponent s)) \<le> length s"
  using length_dropWhile_le [of is_digit "drop 1 (tl s)"] length_dropWhile_le [of is_digit "tl s"]
  by (auto simp: scan_exponent_def scan_digits_def Let_def split: list.splits)

lemma scan_number_shorter:
  assumes "scan_number s = Inr (j, r)"
  shows "length r < length s"
proof -
  obtain ip r0 where i: "scan_integer s = Some (ip, r0)"
    using assms by (auto simp: scan_number_def split: option.splits)
  obtain fp r1 where f: "scan_fraction r0 = (fp, r1)" by fastforce
  obtain ep r2 where e: "scan_exponent r1 = (ep, r2)" by fastforce
  have "r = r2" using assms i f e by (auto simp: scan_number_def res_iff split: if_splits)
  moreover have "length r0 < length s" by (rule scan_integer_shorter [OF i])
  ultimately show ?thesis
    using scan_fraction_length [of r0] scan_exponent_length [of r1] f e by simp
qed

lemma py_int_fuel: "py_int b s \<noteq> Inl OutOfFuel"
  by (auto simp: py_int_def Let_def of_option_def split: option.splits)

lemma scan_number_fuel: "scan_number s \<noteq> Inl OutOfFuel"
  by (auto simp: scan_number_def Let_def res_iff py_int_fuel py_float_fuel split: option.splits prod.splits if_splits)

text \<open>What a scan leaves is shorter, and twice the length is fuel enough.\<close>

lemma drop1_length: "starts_with [c] s \<Longrightarrow> length (drop 1 s) < length s"
  by (auto simp: starts_with_iff)

lemma skip_drop1: "starts_with [c] (skip_space s) \<Longrightarrow> length (skip_space (drop 1 (skip_space s))) < length s"
  using drop1_length [of c "skip_space s"] skip_space_length [of s] skip_space_length [of "drop 1 (skip_space s)"]
  by linarith

lemma drop1_skip: "starts_with [c] (skip_space s) \<Longrightarrow> length (drop 1 (skip_space s)) < length s"
  using drop1_length [of c "skip_space s"] skip_space_length [of s] by linarith

lemma json_word_shorter:
  "find (\<lambda>(w, _). starts_with w s) json_words = Some (w, j) \<Longrightarrow> length (drop (length w) s) < length s"
  by (auto simp: json_words_def starts_with_iff split: if_splits)

lemma scan_shorter:
  "scan_value n s = Inr (j, r) \<Longrightarrow> length r < length s"
  "scan_members n kvs s = Inr (j, r) \<Longrightarrow> length r < length s"
  "scan_elements n js s = Inr (j, r) \<Longrightarrow> length r < length s"
proof (induction n s and n kvs s and n js s arbitrary: j r and j r and j r
    rule: scan_value_scan_members_scan_elements.induct)
  case (2 n s)
  obtain c cs where s: "s = c # cs" using 2(3) by (cases s) auto
  consider "c = CHR 0x22" | "c = CHR ''{''" | "c = CHR ''[''" | "c \<noteq> CHR 0x22" "c \<noteq> CHR ''{''" "c \<noteq> CHR ''[''"
    by blast
  then show ?case
  proof cases
    case 1
    then show ?thesis using 2(3) s scan_string_shorter by (fastforce simp: res_iff)
  next
    case 2
    note ih = "2.IH"(1) [OF s _ 2 refl]
    show ?thesis
    proof (cases "starts_with ''}'' (skip_space cs)")
      case True
      then show ?thesis using 2 \<open>scan_value (Suc n) s = Inr (j, r)\<close> s drop1_skip [OF True] by simp
    next
      case False
      then have "scan_members n [] (skip_space cs) = Inr (j, r)"
        using 2 \<open>scan_value (Suc n) s = Inr (j, r)\<close> s by simp
      then have "length r < length (skip_space cs)" using ih 2 False by simp
      then show ?thesis using s skip_space_length [of cs] by simp
    qed
  next
    case 3
    note ih = "2.IH"(2) [OF s _ _ 3 refl]
    show ?thesis
    proof (cases "starts_with '']'' (skip_space cs)")
      case True
      then show ?thesis using 3 \<open>scan_value (Suc n) s = Inr (j, r)\<close> s drop1_skip [OF True] by simp
    next
      case False
      then have "scan_elements n [] (skip_space cs) = Inr (j, r)"
        using 3 \<open>scan_value (Suc n) s = Inr (j, r)\<close> s by simp
      then have "length r < length (skip_space cs)" using ih 3 False by simp
      then show ?thesis using s skip_space_length [of cs] by simp
    qed
  next
    case 4
    then show ?thesis
      using 2(3) s scan_number_shorter [of s j r] json_word_shorter [of s]
      by (auto split: option.splits)
  qed
next
  case (4 n kvs s)
  obtain k r0 v r2 where k: "starts_with [CHR 0x22] s" "scan_string (drop 1 s) = Inr (k, r0)"
    and c: "starts_with '':'' (skip_space r0)"
    and v: "scan_value n (skip_space (drop 1 (skip_space r0))) = Inr (v, r2)"
    using 4(3) by (auto simp: res_iff Let_def split: if_splits)
  have "length r2 < length (skip_space (drop 1 (skip_space r0)))"
    using "4.IH"(1) k c v by simp
  then have l: "length r2 < length s"
    using skip_drop1 [OF c] scan_string_shorter [OF k(2)] drop1_length [OF k(1)] by linarith
  show ?case
  proof (cases "starts_with ''}'' (skip_space r2)")
    case True
    then show ?thesis using 4(3) k c v l drop1_skip [OF True] by (auto simp: Let_def)
  next
    case False
    then have t: "starts_with '','' (skip_space r2)"
      and m: "scan_members n (AList.update k v kvs) (skip_space (drop 1 (skip_space r2))) = Inr (j, r)"
      using 4(3) k c v by (auto simp: Let_def split: if_splits)
    have "length r < length (skip_space (drop 1 (skip_space r2)))"
      using "4.IH"(2) k c v m False t by simp
    then show ?thesis using skip_drop1 [OF t] l by linarith
  qed
next
  case (6 n js s)
  obtain v r0 where v: "scan_value n s = Inr (v, r0)"
    using 6(3) by (auto simp: res_iff)
  have l: "length r0 < length s" using "6.IH"(1) v by simp
  show ?case
  proof (cases "starts_with '']'' (skip_space r0)")
    case True
    then show ?thesis using 6(3) v l drop1_skip [OF True] by (auto simp: Let_def)
  next
    case False
    then have t: "starts_with '','' (skip_space r0)"
      and m: "scan_elements n (js @ [v]) (skip_space (drop 1 (skip_space r0))) = Inr (j, r)"
      using 6(3) v by (auto simp: Let_def split: if_splits)
    have "length r < length (skip_space (drop 1 (skip_space r0)))"
      using "6.IH"(2) v m False t by simp
    then show ?thesis using skip_drop1 [OF t] l by linarith
  qed
qed simp_all

lemma scan_fuel:
  "2 * length s < n \<Longrightarrow> scan_value n s \<noteq> Inl OutOfFuel"
  "2 * length s < n \<Longrightarrow> scan_members n kvs s \<noteq> Inl OutOfFuel"
  "2 * length s + 1 < n \<Longrightarrow> scan_elements n js s \<noteq> Inl OutOfFuel"
proof (induction n s and n kvs s and n js s rule: scan_value_scan_members_scan_elements.induct)
  case (2 n s)
  show ?case
  proof (cases s)
    case (Cons c cs)
    have l: "2 * length (skip_space cs) + 1 < n" "2 * length (skip_space cs) < n"
      using 2(3) Cons skip_space_length [of cs] by auto
    consider "c = CHR 0x22" | "c = CHR ''{''" | "c = CHR ''[''"
      | "c \<noteq> CHR 0x22" "c \<noteq> CHR ''{''" "c \<noteq> CHR ''[''" by blast
    then show ?thesis
    proof cases
      case 1
      then show ?thesis using Cons scan_string_fuel [of cs] by (auto simp: res_iff)
    next
      case 2
      then show ?thesis using "2.IH"(1) [OF Cons _ 2 refl _ l(2)] Cons by (simp add: Let_def)
    next
      case 3
      then show ?thesis using "2.IH"(2) [OF Cons _ _ 3 refl _ l(1)] Cons by (simp add: Let_def)
    next
      case 4
      then show ?thesis using Cons scan_number_fuel [of s] by (auto split: option.splits)
    qed
  qed simp
next
  case (4 n kvs s)
  show ?case
  proof
    assume e: "scan_members (Suc n) kvs s = Inl OutOfFuel"
    then obtain k r0 where k: "starts_with [CHR 0x22] s" "scan_string (drop 1 s) = Inr (k, r0)"
      and c: "starts_with '':'' (skip_space r0)"
      using scan_string_fuel [of "drop 1 s"] by (auto simp: res_iff Let_def split: if_splits)
    let ?t = "skip_space (drop 1 (skip_space r0))"
    have l: "length ?t + 1 < length s"
      using skip_drop1 [OF c] scan_string_shorter [OF k(2)] drop1_length [OF k(1)] by linarith
    then have "scan_value n ?t \<noteq> Inl OutOfFuel" using "4.IH"(1) k c 4(3) by simp
    then obtain v r2 where v: "scan_value n ?t = Inr (v, r2)"
      and t: "\<not> starts_with ''}'' (skip_space r2)" "starts_with '','' (skip_space r2)"
      and m: "scan_members n (AList.update k v kvs) (skip_space (drop 1 (skip_space r2))) = Inl OutOfFuel"
      using e k c by (auto simp: res_iff Let_def split: if_splits)
    have "2 * length (skip_space (drop 1 (skip_space r2))) < n"
      using skip_drop1 [OF t(2)] scan_shorter(1) [OF v] l 4(3) by linarith
    then show False using "4.IH"(2) k c v t m by simp
  qed
next
  case (6 n js s)
  show ?case
  proof
    assume e: "scan_elements (Suc n) js s = Inl OutOfFuel"
    have "scan_value n s \<noteq> Inl OutOfFuel" using "6.IH"(1) 6(3) by simp
    then obtain v r0 where v: "scan_value n s = Inr (v, r0)"
      and t: "\<not> starts_with '']'' (skip_space r0)" "starts_with '','' (skip_space r0)"
      and m: "scan_elements n (js @ [v]) (skip_space (drop 1 (skip_space r0))) = Inl OutOfFuel"
      using e by (auto simp: res_iff Let_def split: if_splits)
    have "2 * length (skip_space (drop 1 (skip_space r0))) + 1 < n"
      using skip_drop1 [OF t(2)] scan_shorter(1) [OF v] 6(3) by linarith
    then show False using "6.IH"(2) v t m by simp
  qed
qed simp_all

lemma json_loads_fuel: "json_loads s \<noteq> Inl OutOfFuel"
  using scan_fuel(1) [of "skip_space s" "Suc (2 * length s)"] skip_space_length [of s]
  by (auto simp: json_loads_def res_iff split: if_splits)

text \<open>\<open>json.dumps\<close> of a text is read back, inside any text that follows it.\<close>

lemma hex_digit_val_hex_digit: "d < 16 \<Longrightarrow> hex_digit_val (hex_digit d) = Some d"
  by (simp add: hex_digit_val_def digit_val_hex_digit)

lemma hex_run_four: "hex_run 4 v (a # b # c # d # r) =
    hex_run (Suc (Suc (Suc (Suc 0)))) v (a # b # c # d # r)"
  by (simp add: eval_nat_numeral)

lemma hex_run_hex4:
  assumes "v < 65536"
  shows "hex_run 4 0 (hex4 v @ r) = Some (v, r)"
proof -
  have d: "v div 4096 < 16" using assms by simp
  have "v div 256 = 16 * (v div 4096) + v div 256 mod 16" "v div 16 = 16 * (v div 256) + v div 16 mod 16"
    "v = 16 * (v div 16) + v mod 16"
    using div_mult2_eq [of v 256 16] div_mult2_eq [of v 16 16] by simp_all
  then have "16 * (16 * (16 * (v div 4096 mod 16) + v div 256 mod 16) + v div 16 mod 16) + v mod 16 = v"
    using d by simp
  moreover have "hex_run 4 0 (hex4 v @ r) =
      Some (16 * (16 * (16 * (v div 4096 mod 16) + v div 256 mod 16) + v div 16 mod 16) + v mod 16, r)"
    by (simp add: hex4_def hex_digit_val_hex_digit hex_run_four)
  ultimately show ?thesis by (simp only:)
qed

lemma scan_json_char: "scan_string (json_char c @ s) =
    res_bind (scan_string s) (\<lambda>(t, rest). Inr (c # t, rest))"
proof -
  have c: "code c < 256" using nat_of_char_less_256 [of c] by simp
  then have "code c < 65536" by (rule less_trans) simp
  note hex_run_hex4 [OF this, of s]
  moreover have "\<not> 255 < code c" using c by linarith
  ultimately show ?thesis by (simp add: json_char_def simple_escapes_def)
qed

lemma scan_json_string: "scan_string (concat (map json_char s) @ CHR 0x22 # r) = Inr (s, r)"
  by (induction s) (simp_all add: scan_json_char)

lemma json_loads_json_string: "json_loads (json_string s) = Inr (JStr s)"
  using scan_json_string [of s "[]"] by (simp add: json_loads_def json_string_def json_space_def)

section \<open>Text of bytes\<close>

text \<open>\<open>bytes.decode()\<close>: code points above 255 are outside the model.\<close>

fun utf8_decode :: "bytes \<Rightarrow> string res" where
  "utf8_decode [] = Inr []"
| "utf8_decode (b # bs) =
     (if b < 128 then res_bind (utf8_decode bs) (\<lambda>t. Inr (char_of (unat b) # t))
      else if b = 194 \<or> b = 195 then
        (case bs of
           [] \<Rightarrow> Inl (ValueError ''UnicodeDecodeError'')
         | d # ds \<Rightarrow>
             if 128 \<le> d \<and> d < 192
             then res_bind (utf8_decode ds) (\<lambda>t. Inr (char_of ((unat b - 192) * 64 + (unat d - 128)) # t))
             else Inl (ValueError ''UnicodeDecodeError''))
      else if 196 \<le> b \<and> b < 245 then Inl OutsideModel
      else Inl (ValueError ''UnicodeDecodeError''))"

definition json_loads_bytes :: "bytes \<Rightarrow> json res" where
  "json_loads_bytes bs = res_bind (utf8_decode bs) json_loads"

lemma json_loads_bytes_fuel: "json_loads_bytes bs \<noteq> Inl OutOfFuel"
proof -
  have "utf8_decode bs \<noteq> Inl OutOfFuel"
    by (induction bs rule: utf8_decode.induct) (auto simp: res_iff split: list.split)
  then show ?thesis by (auto simp: json_loads_bytes_def res_iff json_loads_fuel)
qed

lemma utf8_decode_encode: "utf8_decode (encode s) = Inr s"
proof (induction s)
  case (Cons c s)
  have c: "code c < 256" by simp
  show ?case
  proof (cases "code c < 128")
    case True
    have "(of_char c :: byte) = word_of_nat (code c)" by (simp only: of_nat_of_char)
    then have u: "unat (of_char c :: byte) = code c" by (simp only: unat_word_of_nat_byte nat_of_char mod_less c)
    then have "(of_char c :: byte) < 128" using True by (simp add: word_less_nat_alt)
    then show ?thesis using Cons True u by (simp add: encode_def utf8_char_def)
  next
    case False
    define q r where "q = code c div 64" and "r = code c mod 64"
    have qr: "code c = q * 64 + r" "r < 64" by (simp_all add: q_def r_def)
    with c False have q: "q = 2 \<or> q = 3" by auto
    define v w :: byte where "v = word_of_nat (192 + q)" and "w = word_of_nat (128 + r)"
    have u: "unat v = 192 + q" "unat w = 128 + r"
      unfolding v_def w_def unat_word_of_nat_byte using qr q by auto
    then have "128 \<le> w" "w < 192" using qr by (simp_all add: word_le_nat_alt word_less_nat_alt)
    moreover have "v = 194 \<or> v = 195" "\<not> v < 128" using q u by (auto simp: word_unat_eq_iff word_less_nat_alt)
    moreover have "char_of ((unat v - 192) * 64 + (unat w - 128)) = c" using u by (simp add: qr(1) [symmetric])
    moreover have "utf8_char c = [v, w]"
      using False by (simp add: utf8_char_def q_def [symmetric] r_def [symmetric] v_def w_def)
    ultimately show ?thesis using Cons by (simp add: encode_def)
  qed
qed (simp add: encode_def)

lemma encode_inj: "encode s = encode t \<longleftrightarrow> s = t"
  by (metis utf8_decode_encode Inr_inject)

end
