(* ===== verification/Candid_Text.thy ===== *)
theory Candid_Text
  imports PyRegex Wire
begin

text \<open>
  Candid values as the \<open>icp\<close> command prints and reads them: blob literals, written by \<open>blob\<close> and
  read back by \<open>decode_blobs\<close> (the full escapes of \<open>tools/canister_infer.py\<close>, and the plain ones of
  \<open>tools/measure_inference.py\<close>), numeric fields, and principals in text form.
\<close>

section \<open>Writing\<close>

definition esc :: "byte \<Rightarrow> string" where
  "esc b = CHR 0x5C # hex_byte b"

definition blob :: "bytes \<Rightarrow> string" where
  "blob bs = ''blob '' @ [CHR 0x22] @ concat (map esc bs) @ [CHR 0x22]"

section \<open>Reading blobs\<close>

text \<open>\<open>blob\s+"((?:[^"\\]|\\.)*)"\<close>\<close>

definition rx_blob_char :: rx where
  "rx_blob_char = Alt (Cls (\<lambda>c. c \<noteq> CHR 0x22 \<and> c \<noteq> CHR 0x5C))
     (Seq (Lit [CHR 0x5C]) (Cls (\<lambda>c. c \<noteq> CHR 0x0A)))"

definition rx_blob :: rx where
  "rx_blob = Seqs [Lit ''blob'', Plus rx_space, Lit [CHR 0x22], Grp 1 (Star rx_blob_char), Lit [CHR 0x22]]"

definition blob_bodies :: "string \<Rightarrow> string list" where
  "blob_bodies text = map (group 1) (find_all rx_blob text)"

definition escapes :: "(char \<times> byte) list" where
  "escapes = [(CHR ''n'', 10), (CHR ''r'', 13), (CHR ''t'', 9), (CHR 0x22, 34), (CHR 0x27, 39), (CHR 0x5C, 92)]"

text \<open>\<open>value.append(int(digits, 16))\<close>: out of the range of a byte is \<open>ValueError\<close> too.\<close>

definition hex_append :: "string \<Rightarrow> byte res" where
  "hex_append digits =
     res_bind (py_int 16 digits) (\<lambda>v.
       if 0 \<le> v \<and> v < 256 then Inr (word_of_int v)
       else Inl (ValueError ''byte must be in range(0, 256)''))"

function (sequential) decode_body :: "string \<Rightarrow> bytes res" where
  "decode_body [] = Inr []"
| "decode_body (c # cs) =
     (if c \<noteq> CHR 0x5C then res_bind (decode_body cs) (\<lambda>r. Inr (utf8_char c @ r))
      else case cs of
        [] \<Rightarrow> Inl IndexError
      | d # ds \<Rightarrow>
          (case map_of escapes d of
             Some b \<Rightarrow> res_bind (decode_body ds) (\<lambda>r. Inr (b # r))
           | None \<Rightarrow> res_bind (hex_append (take 2 cs)) (\<lambda>b.
               res_bind (decode_body (drop 2 cs)) (\<lambda>r. Inr (b # r)))))"
  by pat_completeness auto
termination by (relation "measure length") auto

definition decode_blobs :: "string \<Rightarrow> bytes list res" where
  "decode_blobs text = mapM decode_body (blob_bodies text)"

text \<open>The version of \<open>measure_inference.py\<close>: every escape is two hexadecimal digits.\<close>

function (sequential) decode_body_hex :: "string \<Rightarrow> bytes res" where
  "decode_body_hex [] = Inr []"
| "decode_body_hex (c # cs) =
     (if c = CHR 0x5C \<and> cs \<noteq> []
      then res_bind (hex_append (take 2 cs)) (\<lambda>b.
             res_bind (decode_body_hex (drop 2 cs)) (\<lambda>r. Inr (b # r)))
      else res_bind (decode_body_hex cs) (\<lambda>r. Inr (utf8_char c @ r)))"
  by pat_completeness auto
termination by (relation "measure length") auto

definition decode_blobs_hex :: "string \<Rightarrow> bytes list res" where
  "decode_blobs_hex text = mapM decode_body_hex (blob_bodies text)"

section \<open>Reading numbers\<close>

text \<open>\<open>prefix key\s*=\s*([\d_]+)\<close>, where the prefix is a word boundary or a lookbehind.\<close>

definition rx_field :: "rx \<Rightarrow> string \<Rightarrow> rx" where
  "rx_field before key = Seqs [before, Lit key, rx_spaces, Lit ''='', rx_spaces, Grp 1 rx_num]"

text \<open>\<open>int(match[1].replace("_", ""))\<close>\<close>

definition read_number :: "string \<Rightarrow> int res" where
  "read_number digits = py_int 10 (remove_char (CHR ''_'') digits)"

section \<open>Lemmas: hexadecimal\<close>

lemma hex_chars: "list_all (\<lambda>c. \<not> is_space c \<and> c \<notin> set ''-+_xX'' \<and> c \<noteq> CHR 0x22 \<and>
    c \<noteq> CHR 0x5C \<and> c \<noteq> CHR 0x0A \<and> map_of escapes c = None) ''0123456789abcdef''"
  by (simp add: is_space_def escapes_def)

lemma hex_digit_facts:
  assumes "d < 16"
  shows "digit_val (hex_digit d) = Some d" "\<not> is_space (hex_digit d)" "hex_digit d \<notin> set ''-+_xX''"
    "hex_digit d \<noteq> CHR 0x22" "hex_digit d \<noteq> CHR 0x5C" "hex_digit d \<noteq> CHR 0x0A"
    "map_of escapes (hex_digit d) = None"
proof -
  have "hex_digit d \<in> set ''0123456789abcdef''"
    unfolding hex_digit_nth [OF assms] by (rule nth_mem) (use assms in simp)
  then show "\<not> is_space (hex_digit d)" "hex_digit d \<notin> set ''-+_xX''" "hex_digit d \<noteq> CHR 0x22"
    "hex_digit d \<noteq> CHR 0x5C" "hex_digit d \<noteq> CHR 0x0A" "map_of escapes (hex_digit d) = None"
    using hex_chars unfolding list_all_iff by blast+
  show "digit_val (hex_digit d) = Some d" by (rule digit_val_hex_digit [OF assms])
qed

lemma nibbles: "unat (b :: byte) div 16 < 16" "unat (b :: byte) mod 16 < 16"
  using unat_byte_less [of b] by simp_all

lemma parse_two_digits:
  assumes "d < 16" "e < 16"
  shows "py_int 16 [hex_digit d, hex_digit e] = Inr (int (d * 16 + e))"
proof -
  note D = hex_digit_facts [OF assms(1)] and E = hex_digit_facts [OF assms(2)]
  have "strip [hex_digit d, hex_digit e] = [hex_digit d, hex_digit e]"
    using D E by (simp add: strip_def lstrip_def)
  moreover have "\<not> starts_with ''0x'' [hex_digit d, hex_digit e]" "\<not> starts_with ''0X'' [hex_digit d, hex_digit e]"
    using E by auto
  ultimately show ?thesis using D E assms by (auto simp: py_int_def parse_unsigned_def Let_def)
qed

lemma hex_append_hex_byte [simp]: "hex_append (hex_byte b) = Inr b"
proof -
  have "py_int 16 (hex_byte b) = Inr (int (unat b div 16 * 16 + unat b mod 16))"
    unfolding hex_byte_def by (rule parse_two_digits [OF nibbles])
  then have "py_int 16 (hex_byte b) = Inr (int (unat b))" by (simp only: div_mult_mod_eq)
  moreover have "int (unat b) < 256" using unat_byte_less [of b] by linarith
  ultimately show ?thesis by (simp add: hex_append_def)
qed

lemma esc_eq: "esc b = [CHR 0x5C, hex_digit (unat b div 16), hex_digit (unat b mod 16)]"
  by (simp add: esc_def hex_byte_def)

lemma decode_body_esc [simp]: "decode_body (esc b @ r) = res_bind (decode_body r) (\<lambda>t. Inr (b # t))"
  using hex_digit_facts(7) [OF nibbles(1), of b] hex_append_hex_byte [of b]
  by (simp add: esc_eq hex_byte_def)

lemma decode_body_hex_esc [simp]:
  "decode_body_hex (esc b @ r) = res_bind (decode_body_hex r) (\<lambda>t. Inr (b # t))"
  using hex_append_hex_byte [of b] by (simp add: esc_eq hex_byte_def)

lemma decode_body_escs: "decode_body (concat (map esc bs)) = Inr bs"
  by (induction bs) simp_all

lemma decode_body_hex_escs: "decode_body_hex (concat (map esc bs)) = Inr bs"
  by (induction bs) simp_all

section \<open>Lemmas: finding a blob\<close>

lemma blob_char_esc:
  "matches rx_blob_char (b, CHR 0x5C # c # r, g) = (if c \<noteq> CHR 0x0A then [(Some c, r, g)] else [])"
  by (simp add: rx_blob_char_def)

lemma blob_char_plain:
  "c \<noteq> CHR 0x22 \<Longrightarrow> c \<noteq> CHR 0x5C \<Longrightarrow> matches rx_blob_char (b, c # r, g) = [(Some c, r, g)]"
  by (simp add: rx_blob_char_def)

lemma blob_char_quote: "matches rx_blob_char (b, CHR 0x22 # r, g) = []"
  by (simp add: rx_blob_char_def)

text \<open>The repetition swallows the escapes and stops at the closing quote.\<close>

lemma star_escs:
  "length (concat (map esc bs)) \<le> n \<Longrightarrow>
   \<exists>b' ps. star n (matches rx_blob_char) (b, concat (map esc bs) @ CHR 0x22 # r, g) = (b', CHR 0x22 # r, g) # ps"
proof (induction bs arbitrary: b n)
  case Nil
  then show ?case by (cases n) (simp_all add: blob_char_quote)
next
  case (Cons x xs)
  let ?d = "hex_digit (unat x div 16)" and ?e = "hex_digit (unat x mod 16)"
  let ?t = "concat (map esc xs) @ CHR 0x22 # r"
  have len: "length (concat (map esc (x # xs))) = length (concat (map esc xs)) + 3" by (simp add: esc_eq)
  then obtain m where m: "n = Suc (Suc m)" "length (concat (map esc xs)) \<le> m"
    using Cons.prems by (metis add_le_cancel_right add_leD2 le_iff_add numeral_3_eq_3 add_Suc_right
        add_0_right Suc_le_mono le_SucI add_Suc plus_1_eq_Suc One_nat_def)
  obtain b' ps where IH: "star m (matches rx_blob_char) (Some ?e, ?t, g) = (b', CHR 0x22 # r, g) # ps"
    using Cons.IH [OF m(2)] by blast
  note D = hex_digit_facts [OF nibbles(1), of x] and E = hex_digit_facts [OF nibbles(2), of x]
  have two: "star (Suc m) (matches rx_blob_char) (Some ?d, ?e # t, g) =
      star m (matches rx_blob_char) (Some ?e, t, g) @ [(Some ?d, ?e # t, g)]" for t
    by (simp add: blob_char_plain E)
  have one: "star (Suc (Suc m)) (matches rx_blob_char) (b, CHR 0x5C # ?d # u, g) =
      star (Suc m) (matches rx_blob_char) (Some ?d, u, g) @ [(b, CHR 0x5C # ?d # u, g)]" for u
    using D by (simp add: blob_char_esc del: star.simps(2) add: star.simps(2) [of "Suc m"])
  have "concat (map esc (x # xs)) @ CHR 0x22 # r = CHR 0x5C # ?d # ?e # ?t"
    by (simp add: esc_eq [of x])
  then show ?case unfolding m(1) by (simp only: one two IH append_Cons) blast
qed

lemma match_blob:
  "\<exists>b'. match_at rx_blob b (blob bs @ r) =
    Some \<lparr>whole = blob bs, groups = [(1, concat (map esc bs))], before_end = b', after = r\<rparr>"
proof -
  let ?body = "concat (map esc bs)"
  obtain b' ps where
    s: "star (length (?body @ CHR 0x22 # r)) (matches rx_blob_char)
          (Some (CHR 0x22), ?body @ CHR 0x22 # r, []) = (b', CHR 0x22 # r, []) # ps"
    using star_escs [of bs "length (?body @ CHR 0x22 # r)" "Some (CHR 0x22)" r "[]"] by auto
  have sp: "is_space (CHR 0x20)" "\<not> is_space (CHR 0x22)" by (simp_all add: is_space_def)
  have "\<exists>qs. matches rx_blob (b, blob bs @ r, []) = (Some (CHR 0x22), r, [(1, ?body)]) # qs"
    using s sp by (simp add: rx_blob_def blob_def)
  then obtain qs where q: "matches rx_blob (b, blob bs @ r, []) = (Some (CHR 0x22), r, [(1, ?body)]) # qs" ..
  then show ?thesis by (simp add: match_at_def)
qed

text \<open>
  What a text must begin with to match: the word, white space and a quote.  A text in which that occurs
  nowhere holds no blob, whatever words or quotes it has.
\<close>

definition opens_blob :: "string \<Rightarrow> bool" where
  "opens_blob s \<longleftrightarrow> starts_with ''blob'' s \<and>
     (let r = drop 4 s; q = dropWhile is_space r in length q < length r \<and> starts_with [CHR 0x22] q)"

primrec blobless :: "string \<Rightarrow> bool" where
  "blobless [] = True"
| "blobless (c # cs) = (\<not> opens_blob (c # cs) \<and> blobless cs)"

lemma opens_blob_iff:
  "opens_blob s \<longleftrightarrow> (\<exists>sp r. s = ''blob'' @ sp @ CHR 0x22 # r \<and> sp \<noteq> [] \<and> list_all is_space sp)"
proof
  assume o: "opens_blob s"
  then obtain r where r: "s = ''blob'' @ r" by (auto simp: opens_blob_def starts_with_iff)
  let ?sp = "takeWhile is_space r"
  obtain t where t: "dropWhile is_space r = CHR 0x22 # t" "length (dropWhile is_space r) < length r"
    using o by (auto simp: opens_blob_def r Let_def starts_with_iff)
  have "?sp \<noteq> []"
  proof
    assume "?sp = []"
    then have "dropWhile is_space r = r" by (metis append_Nil takeWhile_dropWhile_id)
    then show False using t(2) by simp
  qed
  moreover have "r = ?sp @ CHR 0x22 # t" using t(1) by (metis takeWhile_dropWhile_id)
  moreover have "list_all is_space ?sp" by (auto simp: list_all_iff dest: set_takeWhileD)
  ultimately show "\<exists>sp r. s = ''blob'' @ sp @ CHR 0x22 # r \<and> sp \<noteq> [] \<and> list_all is_space sp"
    unfolding r by blast
next
  assume "\<exists>sp r. s = ''blob'' @ sp @ CHR 0x22 # r \<and> sp \<noteq> [] \<and> list_all is_space sp"
  then obtain sp r where s: "s = ''blob'' @ sp @ CHR 0x22 # r" "sp \<noteq> []" "list_all is_space sp" by blast
  have "\<not> is_space (CHR 0x22)" by (simp add: is_space_def)
  then have "dropWhile is_space (sp @ CHR 0x22 # r) = CHR 0x22 # r"
    using s(3) by (subst dropWhile_append2) (auto simp: list_all_iff)
  then show "opens_blob s" using s(1,2) by (simp add: opens_blob_def)
qed

lemma star_class_rest: "q \<in> set (star n (advance1 P) (b, s, g)) \<Longrightarrow> \<exists>xs. s = xs @ rest q \<and> list_all P xs"
proof (induction n arbitrary: b s g)
  case (Suc n)
  show ?case
  proof (cases s)
    case (Cons c cs)
    show ?thesis
    proof (cases "q = (b, s, g)")
      case False
      then have "P c" "q \<in> set (star n (advance1 P) (Some c, cs, g))"
        using Suc.prems Cons by (auto split: if_splits)
      then obtain xs where "cs = xs @ rest q" "list_all P xs" using Suc.IH by blast
      then show ?thesis using \<open>P c\<close> Cons by (intro exI [of _ "c # xs"]) simp
    qed (auto intro: exI [of _ "[]"])
  qed (use Suc.prems in auto)
qed simp

lemma match_blob_needs:
  assumes "match_at rx_blob b s \<noteq> None"
  shows "opens_blob s"
proof -
  have "matches rx_blob (b, s, []) \<noteq> []" using assms by (auto simp: match_at_def split: list.splits)
  then obtain q where "q \<in> set (matches rx_blob (b, s, []))" by (meson last_in_set)
  then obtain u v w where u: "u \<in> set (literal ''blob'' (b, s, []))"
      and v: "v \<in> set (matches (Plus rx_space) u)" and w: "w \<in> set (literal [CHR 0x22] v)"
    unfolding rx_blob_def Seqs.simps matches.simps(2,3) by (auto simp del: literal.simps matches.simps) blast
  obtain t where t: "s = ''blob'' @ t" "rest u = t" using u unfolding literal_iff by auto
  obtain v' where v': "v' \<in> set (advance1 is_space u)" "v \<in> set (star (length (rest v')) (advance1 is_space) v')"
    using v by (cases u) auto
  obtain c t' where c: "t = c # t'" "is_space c" "rest v' = t'"
    using v'(1) t(2) by (cases u; cases "rest u") (auto split: if_splits)
  obtain xs where xs: "t' = xs @ rest v" "list_all is_space xs"
    using star_class_rest [of v _ is_space "fst v'" "rest v'" "snd (snd v')"] v'(2) c(3) by force
  have "\<exists>r. rest v = CHR 0x22 # r" using w by (cases v) (auto simp: literal_iff simp del: literal.simps)
  then obtain r where "rest v = CHR 0x22 # r" ..
  then show ?thesis unfolding opens_blob_iff t(1) using c(1,2) xs
    by (intro exI [of _ "c # xs"] exI [of _ r]) simp
qed

lemma search_blob_none: "blobless s \<Longrightarrow> search_from rx_blob b s = None"
proof (induction s arbitrary: b)
  case Nil
  then show ?case using match_blob_needs [of b "[]"] by (cases "match_at rx_blob b []") (auto simp: opens_blob_def)
next
  case (Cons c cs)
  then show ?case using match_blob_needs [of b "c # cs"] by (cases "match_at rx_blob b (c # cs)") auto
qed

text \<open>A blob does not begin in the text before another one, even where the two together read \<open>blob\<close>.\<close>

lemma opens_before_blob:
  assumes "u \<noteq> []" "opens_blob (u @ blob bs @ t)"
  shows "opens_blob u"
proof -
  obtain sp r where s: "u @ blob bs @ t = ''blob'' @ sp @ CHR 0x22 # r" "sp \<noteq> []" "list_all is_space sp"
    using assms(2) unfolding opens_blob_iff by blast
  define v where "v = concat (map esc bs) @ CHR 0x22 # t"
  let ?x = "u @ ''blob '' @ CHR 0x22 # v" and ?y = "''blob'' @ sp @ CHR 0x22 # r"
  have e: "?x = ?y" using s(1) by (simp add: blob_def v_def)
  have x: "?x ! length u = CHR ''b''" "?x ! Suc (length u) = CHR ''l''" by (simp_all add: nth_append)
  have y: "is_space (?y ! k)" if "4 \<le> k" "k < 4 + length sp" for k :: nat
  proof -
    obtain i where "k = 4 + i" "i < length sp" using \<open>4 \<le> k\<close> \<open>k < 4 + length sp\<close> by (metis add_less_cancel_left le_iff_add)
    then have "?y ! k = sp ! (k - 4)" by (simp add: nth_append)
    then show ?thesis using s(3) that by (simp add: list_all_length)
  qed
  have n: "\<not> is_space (CHR ''b'')" "\<not> is_space (CHR ''l'')" by (simp_all add: is_space_def)
  have "4 + length sp < length u"
  proof (rule ccontr)
    assume "\<not> 4 + length sp < length u"
    then consider "length u \<in> {1, 2}" | "length u = 3" | "4 \<le> length u" "length u < 4 + length sp"
      | "length u = 4 + length sp"
      using length_greater_0_conv [THEN iffD2, OF assms(1)] by (simp only: insert_iff empty_iff) linarith
    then show False
    proof cases
      case 1
      then show False using x(1) unfolding e by auto
    next
      case 2
      then have "is_space (?y ! Suc (length u))" using s(2) by (intro y) simp_all
      then show False using x(2) n(2) unfolding e by simp
    next
      case 3
      then show False using y x(1) n(1) unfolding e by metis
    next
      case 4
      then show False using x(1) unfolding e by (simp add: nth_append)
    qed
  qed
  then obtain k where "length u = Suc (4 + length sp + k)" using less_imp_Suc_add by blast
  then have "take (length u) ?y = ''blob'' @ sp @ CHR 0x22 # take k r"
    by (simp add: take_Cons')
  moreover have "take (length u) ?y = u" using arg_cong [OF e, of "take (length u)"] by simp
  ultimately show ?thesis unfolding opens_blob_iff using s(2,3) by metis
qed

text \<open>The first blob after a text that has none.\<close>

lemma search_blob:
  assumes "blobless pre"
  shows "\<exists>m. search_from rx_blob b (pre @ blob bs @ r) = Some m \<and>
    groups m = [(1, concat (map esc bs))] \<and> after m = r"
  using assms
proof (induction pre arbitrary: b)
  case Nil
  obtain b' where "match_at rx_blob b (blob bs @ r) =
      Some \<lparr>whole = blob bs, groups = [(1, concat (map esc bs))], before_end = b', after = r\<rparr>"
    using match_blob by blast
  moreover have "blob bs @ r = CHR ''b'' # tl (blob bs @ r)" by (simp add: blob_def)
  ultimately show ?case by (metis append_Nil mtch.select_convs(2,4) option.simps(5) search_from.simps(2))
next
  case (Cons c pre)
  then have "match_at rx_blob b ((c # pre) @ blob bs @ r) = None"
    using opens_before_blob [of "c # pre" bs r] match_blob_needs [of b "(c # pre) @ blob bs @ r"] by fastforce
  then show ?case using Cons by simp
qed

text \<open>Texts, each followed by a blob.\<close>

definition with_blobs :: "(string \<times> bytes) list \<Rightarrow> string" where
  "with_blobs parts = concat (map (\<lambda>(t, bs). t @ blob bs) parts)"

lemma find_all_blobs:
  assumes "list_all (\<lambda>(t, bs). blobless t) parts" "blobless post" "length parts \<le> n"
  shows "map (group 1) (find_all_fuel n rx_blob b (with_blobs parts @ post)) = map (\<lambda>(t, bs). concat (map esc bs)) parts"
  using assms
proof (induction parts arbitrary: n b)
  case Nil
  then show ?case using search_blob_none [OF assms(2)] by (cases n) (simp_all add: with_blobs_def)
next
  case (Cons part parts)
  obtain t bs where part: "part = (t, bs)" by (cases part)
  obtain k where n: "n = Suc k" "length parts \<le> k" using Cons.prems(3) by (cases n) auto
  obtain m where m: "search_from rx_blob b (t @ blob bs @ with_blobs parts @ post) = Some m"
    "groups m = [(1, concat (map esc bs))]" "after m = with_blobs parts @ post"
    using search_blob Cons.prems(1) part by force
  have "with_blobs (part # parts) @ post = t @ blob bs @ with_blobs parts @ post"
    by (simp add: with_blobs_def part)
  then show ?case using m Cons n by (simp add: part group_def)
qed

lemma length_with_blobs: "length parts \<le> length (with_blobs parts)"
  by (induction parts) (auto simp: with_blobs_def blob_def)

lemma decode_blobs_all:
  assumes "list_all (\<lambda>(t, bs). blobless t) parts" "blobless post"
  shows "decode_blobs (with_blobs parts @ post) = Inr (map snd parts)"
    "decode_blobs_hex (with_blobs parts @ post) = Inr (map snd parts)"
proof -
  have "length parts \<le> length (with_blobs parts @ post)" using length_with_blobs [of parts] by simp
  from find_all_blobs [OF assms this]
  have "blob_bodies (with_blobs parts @ post) = map (\<lambda>(t, bs). concat (map esc bs)) parts"
    by (simp add: blob_bodies_def find_all_def)
  moreover have "mapM decode_body (map (\<lambda>(t, bs). concat (map esc bs)) ps) = Inr (map snd ps)"
      "mapM decode_body_hex (map (\<lambda>(t, bs). concat (map esc bs)) ps) = Inr (map snd ps)" for ps :: "(string \<times> bytes) list"
    by (induction ps) (auto simp: decode_body_escs decode_body_hex_escs)
  ultimately show "decode_blobs (with_blobs parts @ post) = Inr (map snd parts)"
      "decode_blobs_hex (with_blobs parts @ post) = Inr (map snd parts)"
    by (simp_all add: decode_blobs_def decode_blobs_hex_def)
qed

lemma blobless_contains: "\<not> contains ''blob'' s \<Longrightarrow> blobless s"
proof (induction s)
  case (Cons c cs)
  then have "\<not> contains ''blob'' cs" "\<not> starts_with ''blob'' (c # cs)"
    by (auto simp: contains_def split: if_splits)
  moreover from this have "\<not> opens_blob (c # cs)" unfolding opens_blob_def by blast
  ultimately show ?case using Cons.IH by (simp del: starts_with.simps)
qed simp

lemma decode_blobs_one:
  assumes "\<not> contains ''blob'' pre" "\<not> contains ''blob'' post"
  shows "decode_blobs (pre @ blob bs @ post) = Inr [bs]"
    "decode_blobs_hex (pre @ blob bs @ post) = Inr [bs]"
  using decode_blobs_all [of "[(pre, bs)]" post] assms by (simp_all add: blobless_contains with_blobs_def)

text \<open>A text without a blob has none to decode.\<close>

lemma blob_bodies_none: "\<not> contains ''blob'' text \<Longrightarrow> blob_bodies text = []"
  using search_blob_none [OF blobless_contains]
  by (cases "length text") (simp_all add: blob_bodies_def find_all_def)

section \<open>Blob literals as a codec\<close>

locale text_codec =
  fixes enc :: "'a \<Rightarrow> string" and dec :: "string \<Rightarrow> 'a list res"
  assumes dec_enc: "dec (enc x) = Inr [x]"
begin

lemma enc_inj: "enc x = enc y \<Longrightarrow> x = y"
  by (metis dec_enc list.inject sum.inject(2))

lemma inj_enc: "inj enc"
  by (auto intro: injI enc_inj)

end

lemma no_blob_short: "\<not> contains ''blob'' []"
  by (simp add: contains_def)

interpretation blob_codec: text_codec blob decode_blobs
  by unfold_locales (use decode_blobs_one(1) [OF no_blob_short no_blob_short] in simp)

interpretation blob_codec_hex: text_codec blob decode_blobs_hex
  by unfold_locales (use decode_blobs_one(2) [OF no_blob_short no_blob_short] in simp)

section \<open>Properties\<close>

text \<open>
  C30: the blobs of a reply are read back by both readers, all of them and in their order, between any
  other text in which no blob literal opens, that is, where the word blob with white space after it is not
  followed by a quote; the encoding of bytes as a literal is injective.
\<close>

theorem blob_roundtrip:
  assumes "list_all (\<lambda>(t, bs). blobless t) parts" "blobless post"
  shows "decode_blobs (with_blobs parts @ post) = Inr (map snd parts) \<and>
    decode_blobs_hex (with_blobs parts @ post) = Inr (map snd parts) \<and> inj blob"
  using decode_blobs_all [OF assms] blob_codec.inj_enc by blast

theorem blob_roundtrip_witness:
  "decode_blobs (with_blobs [(''(variant { Ok = record { job = '', [0, 34, 92, 255]), (''; blo'', []),
       (''; error = '' @ [CHR 0x22] @ ''no blob'' @ [CHR 0x22] @ ''; bundle = '', [7])] @
     ''; total = 32 } }) blob '') = Inr [[0, 34, 92, 255], [], [7]]"
proof -
  have "list_all (\<lambda>(t, bs). blobless t) [(''(variant { Ok = record { job = '', [0, 34, 92, 255 :: byte]), (''; blo'', []),
      (''; error = '' @ [CHR 0x22] @ ''no blob'' @ [CHR 0x22] @ ''; bundle = '', [7])]"
    by code_simp
  moreover have "blobless ''; total = 32 } }) blob ''" by code_simp
  ultimately show ?thesis using blob_roundtrip by fastforce
qed

text \<open>
  The two readers differ on the named escapes of Candid: a printed newline is byte 10 for
  \<open>canister_infer.py\<close> and an exception for \<open>measure_inference.py\<close>.
\<close>

theorem named_escape_divergence:
  "decode_body [CHR 0x5C, CHR ''n''] = Inr [10] \<and>
   (\<exists>msg. decode_body_hex [CHR 0x5C, CHR ''n''] = Inl (ValueError msg)) \<and>
   decode_body [CHR 0x5C, CHR 0x22] = Inr [34] \<and>
   (\<exists>msg. decode_body_hex [CHR 0x5C, CHR 0x22] = Inl (ValueError msg))"
  by (simp add: escapes_def hex_append_def py_int_def parse_unsigned_def strip_def lstrip_def
      is_space_def digit_val_def is_digit_def Let_def)

end
