(* ===== verification/Sha256.thy ===== *)
theory Sha256
  imports Wire
begin

text \<open>
  \<open>hashlib.sha256\<close>, the big-endian integers of \<open>int.to_bytes\<close> and \<open>int.from_bytes\<close>, and the
  checksum \<open>zlib.crc32\<close>: what the tools use of Python's library to identify bytes.
\<close>

section \<open>Big-endian integers\<close>

definition be_bytes :: "nat \<Rightarrow> nat \<Rightarrow> bytes" where
  "be_bytes n v = rev (le_bytes n v)"

definition be_nat :: "bytes \<Rightarrow> nat" where
  "be_nat bs = le_nat (rev bs)"

text \<open>\<open>value.to_bytes(n, "big")\<close>\<close>

definition to_bytes_be :: "nat \<Rightarrow> int \<Rightarrow> bytes res" where
  "to_bytes_be n v = (if 0 \<le> v \<and> v < 256 ^ n then Inr (be_bytes n (nat v)) else Inl OverflowError)"

lemma length_be_bytes [simp]: "length (be_bytes n v) = n"
  by (simp add: be_bytes_def)

lemma be_nat_be_bytes: "v < 256 ^ n \<Longrightarrow> be_nat (be_bytes n v) = v"
  by (simp add: be_nat_def be_bytes_def le_nat_le_bytes)

lemma be_nat_less: "be_nat bs < 256 ^ length bs"
  using le_nat_less [of "rev bs"] by (simp add: be_nat_def)

lemma be_bytes_inj: "u < 256 ^ n \<Longrightarrow> v < 256 ^ n \<Longrightarrow> be_bytes n u = be_bytes n v \<longleftrightarrow> u = v"
  by (metis be_nat_be_bytes)

lemma to_bytes_be_Inr:
  "to_bytes_be n v = Inr bs \<longleftrightarrow> 0 \<le> v \<and> v < 256 ^ n \<and> bs = be_bytes n (nat v)"
  by (auto simp: to_bytes_be_def)

section \<open>The hash\<close>

type_synonym w32 = "32 word"

text \<open>The constants: the first 32 bits of the fractional parts of roots of the first primes.\<close>

fun root_bits :: "nat \<Rightarrow> int \<Rightarrow> nat \<Rightarrow> int \<Rightarrow> int" where
  "root_bits k n 0 r = r"
| "root_bits k n (Suc b) r = (let c = r + 2 ^ b in root_bits k n b (if c ^ k \<le> n then c else r))"

definition fraction_of_root :: "nat \<Rightarrow> int \<Rightarrow> w32" where
  "fraction_of_root k p = word_of_int (root_bits k (p * 2 ^ (32 * k)) 37 0)"

definition small_primes :: "int list" where
  "small_primes = [
    2, 3, 5, 7, 11, 13, 17, 19, 23, 29, 31, 37, 41, 43, 47, 53, 59, 61, 67, 71, 73, 79, 83, 89, 97,
    101, 103, 107, 109, 113, 127, 131, 137, 139, 149, 151, 157, 163, 167, 173, 179, 181, 191, 193,
    197, 199, 211, 223, 227, 229, 233, 239, 241, 251, 257, 263, 269, 271, 277, 281, 283, 293, 307,
    311]"

definition sha_k :: "w32 list" where
  "sha_k = map (fraction_of_root 3) small_primes"

definition sha_h0 :: "w32 list" where
  "sha_h0 = map (fraction_of_root 2) (take 8 small_primes)"

definition sha_pad :: "bytes \<Rightarrow> bytes" where
  "sha_pad m = m @ [0x80] @ replicate ((119 - length m mod 64) mod 64) 0 @ be_bytes 8 (8 * length m)"

fun be_words :: "bytes \<Rightarrow> w32 list" where
  "be_words (a # b # c # d # bs) =
     (push_bit 24 (ucast a) OR push_bit 16 (ucast b) OR push_bit 8 (ucast c) OR ucast d) # be_words bs"
| "be_words _ = []"

definition small_sigma0 :: "w32 \<Rightarrow> w32" where
  "small_sigma0 x = word_rotr 7 x XOR word_rotr 18 x XOR drop_bit 3 x"

definition small_sigma1 :: "w32 \<Rightarrow> w32" where
  "small_sigma1 x = word_rotr 17 x XOR word_rotr 19 x XOR drop_bit 10 x"

definition big_sigma0 :: "w32 \<Rightarrow> w32" where
  "big_sigma0 x = word_rotr 2 x XOR word_rotr 13 x XOR word_rotr 22 x"

definition big_sigma1 :: "w32 \<Rightarrow> w32" where
  "big_sigma1 x = word_rotr 6 x XOR word_rotr 11 x XOR word_rotr 25 x"

text \<open>The message schedule, newest word first.\<close>

primrec sha_schedule :: "nat \<Rightarrow> w32 list \<Rightarrow> w32 list" where
  "sha_schedule 0 ws = ws"
| "sha_schedule (Suc n) ws =
     sha_schedule n ((small_sigma1 (ws ! 1) + ws ! 6 + small_sigma0 (ws ! 14) + ws ! 15) # ws)"

fun sha_round :: "w32 \<times> w32 \<Rightarrow> w32 list \<Rightarrow> w32 list" where
  "sha_round (k, w) [a, b, c, d, e, f, g, h] =
     (let t1 = h + big_sigma1 e + ((e AND f) XOR (NOT e AND g)) + k + w;
          t2 = big_sigma0 a + ((a AND b) XOR (a AND c) XOR (b AND c))
      in [t1 + t2, a, b, c, d + t1, e, f, g])"
| "sha_round _ s = s"

definition sha_block :: "bytes \<Rightarrow> w32 list \<Rightarrow> w32 list" where
  "sha_block b s =
     map2 (+) s (fold sha_round (zip sha_k (rev (sha_schedule 48 (rev (be_words b))))) s)"

function sha_blocks :: "bytes \<Rightarrow> w32 list \<Rightarrow> w32 list" where
  "sha_blocks m s = (if m = [] then s else sha_blocks (drop 64 m) (sha_block (take 64 m) s))"
  by auto
termination by (relation "measure (\<lambda>(m, _). length m)") auto

declare sha_blocks.simps [simp del]

definition sha256 :: "bytes \<Rightarrow> bytes" where
  "sha256 m = concat (map (\<lambda>w. be_bytes 4 (unat w)) (sha_blocks (sha_pad m) sha_h0))"

lemma sha_round_length: "length s = 8 \<Longrightarrow> length (sha_round kw s) = 8"
  by (cases "(kw, s)" rule: sha_round.cases) (auto simp: Let_def)

lemma sha_rounds_length: "length s = 8 \<Longrightarrow> length (fold sha_round kws s) = 8"
  by (induction kws arbitrary: s) (auto simp: sha_round_length)

lemma sha_blocks_length: "length s = 8 \<Longrightarrow> length (sha_blocks m s) = 8"
proof (induction m s rule: sha_blocks.induct)
  case (1 m s)
  then show ?case by (subst sha_blocks.simps) (auto simp: sha_block_def sha_rounds_length)
qed

lemma length_sha256 [simp]: "length (sha256 m) = 32"
proof -
  have "length (concat (map (\<lambda>w. be_bytes 4 (unat w)) ws)) = 4 * length ws" for ws :: "w32 list"
    by (induction ws) auto
  then show ?thesis using sha_blocks_length [of sha_h0 "sha_pad m"] by (simp add: sha256_def sha_h0_def small_primes_def)
qed

text \<open>The padded message is a whole number of blocks.\<close>

lemma pad_residue: "(r :: nat) < 64 \<Longrightarrow> (r + (1 + (119 - r) mod 64 + 8)) mod 64 = 0"
proof (cases "r \<le> 55")
  case True
  then have "119 - r = 55 - r + 64" by arith
  moreover have "55 - r < 64" by arith
  ultimately have "(119 - r) mod 64 = 55 - r" by (simp only: mod_add_self2 mod_less)
  then show ?thesis using True by simp
next
  case False
  assume "r < 64"
  with False have "(119 - r) mod 64 = 119 - r" by simp
  moreover have "r + (1 + (119 - r) + 8) = 128" using \<open>r < 64\<close> by arith
  ultimately show ?thesis by simp
qed

lemma sha_pad_blocks: "length (sha_pad m) mod 64 = 0"
proof -
  let ?k = "1 + (119 - length m mod 64) mod 64 + 8"
  have "length (sha_pad m) = length m + ?k" by (simp add: sha_pad_def)
  also have "(length m + ?k) mod 64 = (length m mod 64 + ?k) mod 64" by (rule mod_add_left_eq [symmetric])
  also have "\<dots> = 0" by (rule pad_residue) simp
  finally show ?thesis .
qed

section \<open>The checksum of a principal\<close>

primrec crc_bits :: "nat \<Rightarrow> w32 \<Rightarrow> w32" where
  "crc_bits 0 c = c"
| "crc_bits (Suc n) c =
     crc_bits n (if bit c 0 then drop_bit 1 c XOR 0xEDB88320 else drop_bit 1 c)"

definition crc32 :: "bytes \<Rightarrow> w32" where
  "crc32 bs = NOT (fold (\<lambda>b c. crc_bits 8 (c XOR ucast b)) bs (NOT 0))"

end
