(* ===== verification/Icp_Tools.thy ===== *)
theory Icp_Tools
  imports PyJsonText Candid_Text Sha256
begin

text \<open>
  The \<open>icp\<close> command line wrapper of \<open>tools/measure_inference.py\<close>: the class \<open>Icp\<close> and the functions
  that prepare a local network (identities, cycles, canisters, the refusal of a remote network).
  The operating system is a parameter: a record of what the tools ask of it.
\<close>

section \<open>The system\<close>

record 'w system =
  sys_run :: "string list \<Rightarrow> int option \<Rightarrow> ('w, int \<times> string \<times> string) io"
  sys_exists :: "string \<Rightarrow> ('w, bool) io"
  sys_read :: "string \<Rightarrow> ('w, bytes) io"
  sys_write :: "string \<Rightarrow> bytes \<Rightarrow> ('w, unit) io"
  sys_report :: "string \<Rightarrow> json \<Rightarrow> ('w, unit) io"
  sys_token :: "nat \<Rightarrow> ('w, bytes) io"
  sys_time_ns :: "('w, int) io"
  repo_root :: string

definition path_join :: "string \<Rightarrow> string \<Rightarrow> string" where
  "path_join a b = a @ ''/'' @ b"

definition BUILD :: "'w system \<Rightarrow> string" where
  "BUILD S = path_join (repo_root S) ''build''"

section \<open>The wrapper\<close>

record icp =
  icp_root :: string
  icp_env :: string
  icp_identity :: string
  icp_did :: "(string \<times> string) list"

definition new_icp :: "'w system \<Rightarrow> string \<Rightarrow> string \<Rightarrow> string \<Rightarrow> icp" where
  "new_icp S project_root e ident =
     \<lparr>icp_root = project_root, icp_env = e, icp_identity = ident,
      icp_did = map (\<lambda>name. (name, path_join (BUILD S) (name @ ''.did'')))
        [''decision-engine'', ''executor'', ''mock-ledger'']\<rparr>"

text \<open>The argument \<open>identity\<close>: \<open>True\<close>, \<open>False\<close> or a name.\<close>

datatype ident_arg = OwnIdentity | NoIdentity | Identity string

definition identity_truthy :: "ident_arg \<Rightarrow> bool" where
  "identity_truthy i = (case i of OwnIdentity \<Rightarrow> True | NoIdentity \<Rightarrow> False | Identity n \<Rightarrow> n \<noteq> [])"

definition icp_command :: "icp \<Rightarrow> string list \<Rightarrow> ident_arg \<Rightarrow> string list res" where
  "icp_command c args identity =
     (let command = ''icp'' # args @ [''--project-root-override'', icp_root c]
      in if \<not> identity_truthy identity then Inr command
         else case args of
           [] \<Rightarrow> Inl IndexError
         | a # _ \<Rightarrow>
             if a \<in> {''network'', ''identity''} then Inr command
             else Inr (command @ [''--identity'', case identity of Identity n \<Rightarrow> n | _ \<Rightarrow> icp_identity c]))"

definition run :: "'w system \<Rightarrow> icp \<Rightarrow> string list \<Rightarrow> bool \<Rightarrow> ident_arg \<Rightarrow> int \<Rightarrow> ('w, string) io" where
  "run S c args expect_ok identity timeout =
     io_bind (io_lift (icp_command c args identity)) (\<lambda>command.
     io_bind (sys_run S command (Some timeout)) (\<lambda>(returncode, out, err).
       if expect_ok \<and> returncode \<noteq> 0
       then io_raise (Failure (join '' '' command @ ''\<newline>'' @ out @ ''\<newline>'' @ err))
       else io_ret (out @ err)))"

definition did_of :: "icp \<Rightarrow> string \<Rightarrow> string res" where
  "did_of c canister = of_option (KeyError canister) (map_of (icp_did c) canister)"

definition call :: "'w system \<Rightarrow> icp \<Rightarrow> string \<Rightarrow> string \<Rightarrow> string \<Rightarrow> bool \<Rightarrow> int \<Rightarrow> ('w, string) io" where
  "call S c canister meth args expect_ok timeout =
     io_bind (io_lift (did_of c canister)) (\<lambda>d.
       run S c [''canister'', ''call'', canister, meth, args, ''-e'', icp_env c, ''--candid'', d]
         expect_ok OwnIdentity timeout)"

definition query :: "'w system \<Rightarrow> icp \<Rightarrow> string \<Rightarrow> string \<Rightarrow> string \<Rightarrow> ('w, string) io" where
  "query S c canister meth args =
     io_bind (io_lift (did_of c canister)) (\<lambda>d.
       run S c [''canister'', ''call'', canister, meth, args, ''-e'', icp_env c, ''--candid'', d, ''--query'']
         True OwnIdentity 300)"

definition check :: "bool \<Rightarrow> string \<Rightarrow> ('w, unit) io" where
  "check condition label = io_guard condition (Failure label)"

definition principal :: "string \<Rightarrow> string" where
  "principal p = ''principal '' @ json_string p"

section \<open>Reading replies\<close>

text \<open>\<open>listing.find("{")\<close> and the text from there.\<close>

definition from_brace :: "string \<Rightarrow> string option" where
  "from_brace s = map_option (\<lambda>i. drop i s) (find_sub ''{'' s)"

definition identity_entries :: "json \<Rightarrow> (json \<times> json) list res" where
  "identity_entries parsed =
     res_bind (item ''identities'' parsed) (\<lambda>es. res_bind (py_iter es) (\<lambda>es.
       mapM (\<lambda>e. res_bind (item ''name'' e) (\<lambda>n. res_bind (item ''principal'' e) (\<lambda>p. Inr (n, p)))) es))"

text \<open>A dict built from pairs: the last pair of a key wins.\<close>

definition dict_get :: "json \<Rightarrow> (json \<times> json) list \<Rightarrow> json option" where
  "dict_get k kvs = map_of (rev kvs) k"

definition known_identities :: "'w system \<Rightarrow> icp \<Rightarrow> ('w, (json \<times> json) list) io" where
  "known_identities S c =
     io_bind (run S c [''identity'', ''list'', ''--json''] True NoIdentity 300) (\<lambda>listing.
       case from_brace listing of
         None \<Rightarrow> io_raise (Failure (''could not read identity list:\<newline>'' @ listing))
       | Some text \<Rightarrow> io_lift (res_bind (json_loads text) identity_entries))"

text \<open>
  A principal that \<open>icp\<close> prints is a text; a value of another type is outside the model.
\<close>

definition text_of :: "json \<Rightarrow> string res" where
  "text_of j = (case j of JStr s \<Rightarrow> Inr s | _ \<Rightarrow> Inl OutsideModel)"

definition ensure_identity :: "'w system \<Rightarrow> icp \<Rightarrow> string \<Rightarrow> ('w, string) io" where
  "ensure_identity S c name =
     io_bind (known_identities S c) (\<lambda>known.
     io_bind (if dict_get (JStr name) known = None
              then io_then (run S c [''identity'', ''new'', name, ''--storage'', ''plaintext'', ''-q''] True NoIdentity 300)
                     (known_identities S c)
              else io_ret known) (\<lambda>known.
       case dict_get (JStr name) known of
         None \<Rightarrow> io_raise (Failure (''identity '' @ name @ '' missing after creation''))
       | Some p \<Rightarrow> io_lift (text_of p)))"

text \<open>\<open>json.loads(raw[start:])\<close> with \<open>except ValueError\<close>: \<open>None\<close> is \<open>JNull\<close>.\<close>

definition catch_value_error :: "json res \<Rightarrow> json res" where
  "catch_value_error m = (case m of Inl (ValueError _) \<Rightarrow> Inr JNull | _ \<Rightarrow> m)"

definition read_status :: "(json \<Rightarrow> json res) \<Rightarrow> string \<Rightarrow> json res" where
  "read_status f raw = (case from_brace raw of
     None \<Rightarrow> Inr JNull
   | Some text \<Rightarrow> catch_value_error (res_bind (json_loads text) f))"

definition canister_principal :: "'w system \<Rightarrow> icp \<Rightarrow> string \<Rightarrow> ('w, json) io" where
  "canister_principal S c name =
     io_bind (run S c [''canister'', ''status'', name, ''-e'', icp_env c, ''--json''] False OwnIdentity 300)
       (\<lambda>raw. io_lift (read_status (get ''id'') raw))"

text \<open>\<open>([\d_]+) cycles\<close>\<close>

definition rx_cycles :: rx where
  "rx_cycles = Seq (Grp 1 rx_num) (Lit '' cycles'')"

definition ensure_cycles :: "'w system \<Rightarrow> icp \<Rightarrow> string \<Rightarrow> ('w, unit) io" where
  "ensure_cycles S c amount =
     io_bind (run S c [''cycles'', ''balance'', ''-e'', icp_env c] False OwnIdentity 300) (\<lambda>balance.
     io_bind (io_lift (case search rx_cycles balance of
                None \<Rightarrow> Inr False
              | Some m \<Rightarrow> res_bind (read_number (group 1 m)) (\<lambda>n. Inr (0 < n)))) (\<lambda>funded.
       if funded then io_ret ()
       else io_then (run S c [''cycles'', ''mint'', ''--cycles'', amount, ''-e'', icp_env c] True OwnIdentity 300)
              (io_ret ())))"

definition ensure_canister :: "'w system \<Rightarrow> icp \<Rightarrow> string \<Rightarrow> ('w, string) io" where
  "ensure_canister S c name =
     io_bind (canister_principal S c name) (\<lambda>p0.
     io_then (io_when (p0 = JNull)
       (io_then (run S c [''canister'', ''create'', name, ''-e'', icp_env c, ''-q''] True OwnIdentity 300) (io_ret ())))
     (io_bind (canister_principal S c name) (\<lambda>p.
       if p = JNull then io_raise (Failure (''canister '' @ name @ '' has no principal after create''))
       else io_lift (text_of p))))"

definition any_network_status :: "'w system \<Rightarrow> icp \<Rightarrow> ('w, json) io" where
  "any_network_status S c =
     io_bind (run S c [''network'', ''status'', ''-e'', icp_env c, ''--json''] False OwnIdentity 300)
       (\<lambda>raw. io_lift (read_status Inr raw))"

text \<open>\<open>str(value)\<close> in a message, for the values a status has there.\<close>

definition py_str :: "json \<Rightarrow> string res" where
  "py_str j = (case j of
     JStr s \<Rightarrow> Inr s
   | JNull \<Rightarrow> Inr ''None''
   | JBool b \<Rightarrow> Inr (if b then ''True'' else ''False'')
   | JInt n \<Rightarrow> Inr (int_str n)
   | _ \<Rightarrow> Inl OutsideModel)"

definition remote_network :: "json \<Rightarrow> bool res" where
  "remote_network status =
     (if truthy status then res_bind (get ''managed'' status) (\<lambda>m. Inr (\<not> truthy m)) else Inr False)"

definition require_local_network :: "'w system \<Rightarrow> icp \<Rightarrow> ('w, unit) io" where
  "require_local_network S c =
     io_bind (any_network_status S c) (\<lambda>status.
     io_bind (io_lift (remote_network status)) (\<lambda>remote.
       if remote
       then io_bind (io_lift (res_bind (get ''api_url'' status) py_str)) (\<lambda>url.
              io_raise (Failure (''environment '' @ [CHR 0x27] @ icp_env c @ [CHR 0x27] @ '' points at '' @ url @
                '', which is not a local network. This test mints cycles, installs canisters, and wipes '' @
                ''state, so it only runs against a locally launched replica.'')))
       else io_ret ()))"

definition usable_network :: "json \<Rightarrow> bool res" where
  "usable_network status =
     (if \<not> truthy status then Inr False
      else res_bind (get ''managed'' status) (\<lambda>m.
        if \<not> truthy m then Inr False
        else res_bind (get ''api_url'' status) (\<lambda>u. Inr (truthy u))))"

definition network_status :: "'w system \<Rightarrow> icp \<Rightarrow> ('w, json) io" where
  "network_status S c =
     io_bind (any_network_status S c) (\<lambda>status.
     io_bind (io_lift (usable_network status)) (\<lambda>ok. io_ret (if ok then status else JNull)))"

text \<open>\<open>\(\s*([\d_]+)\s*(?::\s*nat(?:8|16|32|64)?\s*)?\)\<close>\<close>

definition rx_nat_result :: rx where
  "rx_nat_result = Seqs [Lit ''('', rx_spaces, Grp 1 rx_num, rx_spaces,
     Opt (Seqs [Lit '':'', rx_spaces, Lit ''nat'',
       Opt (Alts (Lit ''8'') [Lit ''16'', Lit ''32'', Lit ''64'']), rx_spaces]), Lit '')'']"

text \<open>\<open>int(match.group(1).replace("_", "")) if match else None\<close>\<close>

definition read_match :: "rx \<Rightarrow> string \<Rightarrow> int option res" where
  "read_match r output = (case search r output of
     None \<Rightarrow> Inr None
   | Some m \<Rightarrow> res_bind (read_number (group 1 m)) (\<lambda>n. Inr (Some n)))"

definition read_int :: "string \<Rightarrow> int option res" where
  "read_int output = read_match rx_nat_result output"

definition read_instructions :: "string \<Rightarrow> int option res" where
  "read_instructions output =
     read_match (Seqs [Lit ''measured_instructions = '', Grp 1 rx_num, Lit '' : nat64'']) output"

section \<open>Principals in text form\<close>

definition base32_char :: "nat \<Rightarrow> char" where
  "base32_char d = (if d < 26 then char_of (65 + d) else char_of (24 + d))"

text \<open>\<open>base64.b32encode\<close>: five bytes are eight characters; the last group is filled with \<open>=\<close>.\<close>

definition base32_quintet :: "bytes \<Rightarrow> string" where
  "base32_quintet bs =
     (let v = be_nat (take 5 (bs @ replicate 4 0));
          n = (8 * length bs + 4) div 5
      in map (\<lambda>i. if i < n then base32_char (v div 32 ^ (7 - i) mod 32) else CHR ''='') [0..<8])"

function b32encode :: "bytes \<Rightarrow> string" where
  "b32encode bs = (if bs = [] then [] else base32_quintet (take 5 bs) @ b32encode (drop 5 bs))"
  by auto
termination by (relation "measure length") auto

declare b32encode.simps [simp del]

function groups_of :: "nat \<Rightarrow> 'a list \<Rightarrow> 'a list list" where
  "groups_of n xs = (if xs = [] \<or> n = 0 then [] else take n xs # groups_of n (drop n xs))"
  by auto
termination by (relation "measure (\<lambda>(_, xs). length xs)") auto

declare groups_of.simps [simp del]

definition principal_of :: "bytes \<Rightarrow> string" where
  "principal_of raw =
     (let body = take 29 raw;
          checksum = be_bytes 4 (unat (crc32 body));
          text = rstrip_char (CHR ''='') (lower (b32encode (checksum @ body)))
      in join ''-'' (groups_of 5 text))"

end
