(* ===== verification/Command_Log.thy ===== *)
theory Command_Log
  imports Icp_Tools
begin

text \<open>
  Reasoning on the commands a tool issues: the same system with a log of them, the rules by which
  a property of every issued command follows the structure of a program, and what the wrapper
  promises of each command: it names the project and an identity.
\<close>

section \<open>A system with a log\<close>

definition lift_log :: "('w, 'a) io \<Rightarrow> ('w \<times> 'h, 'a) io" where
  "lift_log m = (\<lambda>(w, h). case m w of (r, w') \<Rightarrow> (r, (w', h)))"

definition logged :: "'w system \<Rightarrow> ('w \<times> string list list) system" where
  "logged S = \<lparr>
     sys_run = (\<lambda>cmd t (w, h). case sys_run S cmd t w of (r, w') \<Rightarrow> (r, (w', h @ [cmd]))),
     sys_exists = (\<lambda>p. lift_log (sys_exists S p)),
     sys_read = (\<lambda>p. lift_log (sys_read S p)),
     sys_write = (\<lambda>p b. lift_log (sys_write S p b)),
     sys_report = (\<lambda>p j. lift_log (sys_report S p j)),
     sys_token = (\<lambda>n. lift_log (sys_token S n)),
     sys_time_ns = lift_log (sys_time_ns S),
     repo_root = repo_root S\<rparr>"

text \<open>Every command that a computation issues has the property, whatever the system answers.\<close>

definition emits :: "(string list \<Rightarrow> bool) \<Rightarrow> ('w \<times> string list list, 'a) io \<Rightarrow> bool" where
  "emits Q m \<longleftrightarrow> (\<forall>w h r w' h'. m (w, h) = (r, (w', h')) \<longrightarrow> (\<exists>s. h' = h @ s \<and> list_all Q s))"

named_theorems emits_intros \<open>the commands of a program, by its structure\<close>

lemma emits_pure [emits_intros]:
  "emits Q (io_ret x)" "emits Q (io_raise e)" "emits Q (io_lift m)" "emits Q (lift_log n)"
  by (auto simp: emits_def lift_log_def split: prod.splits)

lemma emits_append:
  assumes "list_all Q s" "list_all Q t" "h1 = h @ s" "h2 = h1 @ t"
  shows "\<exists>u. h2 = h @ u \<and> list_all Q u"
  using assms by (intro exI [of _ "s @ t"]) simp

lemma emits_bind [emits_intros]:
  assumes "emits Q m" "\<And>x. emits Q (f x)"
  shows "emits Q (io_bind m f)"
  unfolding emits_def
proof (intro allI impI)
  fix w h r w' h'
  assume r: "io_bind m f (w, h) = (r, (w', h'))"
  obtain q w1 h1 where q: "m (w, h) = (q, (w1, h1))" by (metis prod_cases3)
  then obtain s where s: "h1 = h @ s" "list_all Q s" using assms(1) unfolding emits_def by blast
  show "\<exists>s. h' = h @ s \<and> list_all Q s"
  proof (cases q)
    case (Inl e)
    then have "h' = h1" using r q by (simp add: io_bind_def)
    then show ?thesis using s by blast
  next
    case (Inr x)
    then have "f x (w1, h1) = (r, (w', h'))" using r q by (simp add: io_bind_def)
    then obtain t where "h' = h1 @ t" "list_all Q t" using assms(2) unfolding emits_def by blast
    then show ?thesis using s emits_append by blast
  qed
qed

lemma emits_then [emits_intros]: "emits Q m \<Longrightarrow> emits Q k \<Longrightarrow> emits Q (io_then m k)"
  unfolding io_then_def by (intro emits_bind)

lemma emits_if [emits_intros]: "emits Q m \<Longrightarrow> emits Q k \<Longrightarrow> emits Q (if b then m else k)"
  by simp

lemma emits_option [emits_intros]:
  "emits Q m \<Longrightarrow> (\<And>x. emits Q (f x)) \<Longrightarrow> emits Q (case v of None \<Rightarrow> m | Some x \<Rightarrow> f x)"
  by (cases v) auto

lemma emits_prod [emits_intros]: "(\<And>x y. emits Q (f x y)) \<Longrightarrow> emits Q (case p of (x, y) \<Rightarrow> f x y)"
  by (cases p) auto

lemma emits_let [emits_intros]: "(\<And>x. emits Q (f x)) \<Longrightarrow> emits Q (let x = v in f x)"
  by simp

lemma emits_when [emits_intros]: "emits Q m \<Longrightarrow> emits Q (io_when b m)"
  by (cases b) (auto intro: emits_intros)

lemma emits_guard [emits_intros]: "emits Q (io_guard b e)"
  by (cases b) (auto intro: emits_intros)

lemma emits_for [emits_intros]: "(\<And>x. emits Q (f x)) \<Longrightarrow> emits Q (io_for xs f)"
  by (induction xs) (auto intro: emits_intros)

lemma emits_map [emits_intros]: "(\<And>x. emits Q (f x)) \<Longrightarrow> emits Q (io_map f xs)"
  by (induction xs) (auto intro!: emits_intros)

lemma emits_catch [emits_intros]:
  assumes "emits Q m" "\<And>e k. h e = Some k \<Longrightarrow> emits Q k"
  shows "emits Q (io_catch m h)"
  unfolding emits_def
proof (intro allI impI)
  fix w l r w' l'
  assume r: "io_catch m h (w, l) = (r, (w', l'))"
  obtain q w1 l1 where q: "m (w, l) = (q, (w1, l1))" by (metis prod_cases3)
  then obtain s where s: "l1 = l @ s" "list_all Q s" using assms(1) unfolding emits_def by blast
  show "\<exists>s. l' = l @ s \<and> list_all Q s"
  proof (cases "\<exists>e k. q = Inl e \<and> h e = Some k")
    case True
    then obtain e k where k: "q = Inl e" "h e = Some k" by blast
    then have "k (w1, l1) = (r, (w', l'))" using r q by (simp add: io_catch_def)
    then obtain t where "l' = l1 @ t" "list_all Q t"
      using assms(2) [OF k(2)] unfolding emits_def by blast
    then show ?thesis using s emits_append by blast
  next
    case False
    then have "l' = l1" using r q by (auto simp: io_catch_def split: sum.splits option.splits)
    then show ?thesis using s by blast
  qed
qed

lemma emits_finally [emits_intros]:
  assumes "emits Q m" "emits Q f"
  shows "emits Q (io_finally m f)"
  unfolding emits_def
proof (intro allI impI)
  fix w h r w' h'
  assume r: "io_finally m f (w, h) = (r, (w', h'))"
  obtain q w1 h1 where q: "m (w, h) = (q, (w1, h1))" by (metis prod_cases3)
  obtain p w2 h2 where p: "f (w1, h1) = (p, (w2, h2))" by (metis prod_cases3)
  have "h' = h2" using r q p by (auto simp: io_finally_def split: sum.splits)
  moreover obtain s where "h1 = h @ s" "list_all Q s" using q assms(1) unfolding emits_def by blast
  moreover obtain t where "h2 = h1 @ t" "list_all Q t" using p assms(2) unfolding emits_def by blast
  ultimately show "\<exists>s. h' = h @ s \<and> list_all Q s" using emits_append by blast
qed

lemma emits_mono: "emits Q m \<Longrightarrow> (\<And>c. Q c \<Longrightarrow> R c) \<Longrightarrow> emits R m"
  unfolding emits_def by (metis list.pred_mono_strong)

text \<open>The operations of the system other than a command leave the log as it is.\<close>

lemma emits_system [emits_intros]:
  "emits Q (sys_exists (logged S) p)" "emits Q (sys_read (logged S) p)" "emits Q (sys_write (logged S) p b)"
  "emits Q (sys_report (logged S) p j)" "emits Q (sys_token (logged S) n)" "emits Q (sys_time_ns (logged S))"
  by (auto simp: logged_def intro: emits_intros)

lemma emits_sys_run: "Q cmd \<Longrightarrow> emits Q (sys_run (logged S) cmd t)"
  by (auto simp: emits_def logged_def split: prod.splits)

section \<open>Computations that do not run out of fuel\<close>

definition fuel_free :: "('w, 'a) io \<Rightarrow> bool" where
  "fuel_free m \<longleftrightarrow> (\<forall>w. fst (m w) \<noteq> Inl OutOfFuel)"

definition fuel_free_system :: "'w system \<Rightarrow> bool" where
  "fuel_free_system S \<longleftrightarrow> (\<forall>cmd t. fuel_free (sys_run S cmd t)) \<and> (\<forall>p. fuel_free (sys_exists S p)) \<and>
     (\<forall>p. fuel_free (sys_read S p)) \<and> (\<forall>p b. fuel_free (sys_write S p b)) \<and>
     (\<forall>p j. fuel_free (sys_report S p j)) \<and> (\<forall>n. fuel_free (sys_token S n)) \<and> fuel_free (sys_time_ns S)"

named_theorems fuel_intros \<open>computations that do not run out of fuel, by their structure\<close>

lemma fuel_pure [fuel_intros]:
  "fuel_free (io_ret x)" "e \<noteq> OutOfFuel \<Longrightarrow> fuel_free (io_raise e)" "m \<noteq> Inl OutOfFuel \<Longrightarrow> fuel_free (io_lift m)"
  "e \<noteq> OutOfFuel \<Longrightarrow> fuel_free (io_guard b e)"
  by (auto simp: fuel_free_def io_guard_def)

lemma fuel_bind [fuel_intros]: "fuel_free m \<Longrightarrow> (\<And>x. fuel_free (f x)) \<Longrightarrow> fuel_free (io_bind m f)"
  by (auto simp: fuel_free_def io_bind_def split: prod.split sum.split) (metis fst_conv)

lemma fuel_then [fuel_intros]: "fuel_free m \<Longrightarrow> fuel_free k \<Longrightarrow> fuel_free (io_then m k)"
  unfolding io_then_def by (rule fuel_bind)

lemma fuel_if [fuel_intros]: "fuel_free m \<Longrightarrow> fuel_free k \<Longrightarrow> fuel_free (if b then m else k)"
  by simp

lemma fuel_cases [fuel_intros]:
  "fuel_free m \<Longrightarrow> (\<And>x. fuel_free (f x)) \<Longrightarrow> fuel_free (case v of None \<Rightarrow> m | Some x \<Rightarrow> f x)"
  "(\<And>x y. fuel_free (g x y)) \<Longrightarrow> fuel_free (case p of (x, y) \<Rightarrow> g x y)"
  "(\<And>x. fuel_free (f x)) \<Longrightarrow> fuel_free (let x = d in f x)"
  by (cases v; simp) (cases p; simp)+

lemma fuel_map [fuel_intros]: "(\<And>x. fuel_free (f x)) \<Longrightarrow> fuel_free (io_map f xs)"
  by (induction xs) (auto intro!: fuel_intros)

lemma fuel_system [fuel_intros]:
  assumes "fuel_free_system S"
  shows "fuel_free (sys_run S cmd t)" "fuel_free (sys_exists S p)" "fuel_free (sys_read S p)"
    "fuel_free (sys_report S p j)" "fuel_free (sys_time_ns S)" "fuel_free (sys_token S n)" "fuel_free (sys_write S p b)"
  using assms by (simp_all add: fuel_free_system_def)

lemma fuel_logged: "fuel_free_system S \<Longrightarrow> fuel_free_system (logged S)"
  by (auto simp: fuel_free_system_def fuel_free_def logged_def lift_log_def split: prod.split) (metis fst_conv)+

lemma fuel_command: "icp_command c args i \<noteq> Inl OutOfFuel"
  by (auto simp: icp_command_def Let_def split: list.split)

lemma fuel_run [fuel_intros]:
  assumes "fuel_free_system S"
  shows "fuel_free (run S c args ok i t)" "fuel_free (call S c can meth a ok t)" "fuel_free (query S c can meth a)"
proof -
  show r: "fuel_free (run S c args ok i t)" for args ok i t
    using assms fuel_command by (auto simp: run_def intro!: fuel_intros)
  have "did_of c can \<noteq> Inl OutOfFuel" by (simp add: did_of_def of_option_def split: option.split)
  then show "fuel_free (call S c can meth a ok t)" "fuel_free (query S c can meth a)"
    using r by (auto simp: call_def query_def intro!: fuel_intros)
qed

lemma fuel_read: "read_number s \<noteq> Inl OutOfFuel" "read_match r s \<noteq> Inl OutOfFuel" "item k j \<noteq> Inl OutOfFuel"
    "as_list j \<noteq> Inl OutOfFuel" "as_int j \<noteq> Inl OutOfFuel" "get k j \<noteq> Inl OutOfFuel"
  by (auto simp: read_match_def read_number_def py_int_fuel res_iff item_def as_list_def as_int_def get_def
      of_option_def split: option.split json.split)

lemma mapM_free: "(\<And>x. f x \<noteq> Inl e) \<Longrightarrow> mapM f xs \<noteq> Inl e"
  by (induction xs) (auto simp: res_iff)

section \<open>What the wrapper promises of a command\<close>

text \<open>
  A command is addressed when it overrides the project root, and names an identity of the given
  set unless it manages the network or the identities themselves.
\<close>

definition addressed :: "icp \<Rightarrow> string set \<Rightarrow> string list \<Rightarrow> bool" where
  "addressed c names cmd \<longleftrightarrow>
     (\<exists>args tail. cmd = ''icp'' # args @ [''--project-root-override'', icp_root c] @ tail \<and> args \<noteq> [] \<and>
        (hd args \<in> {''network'', ''identity''} \<or> (\<exists>n \<in> names. sublist [''--identity'', n] cmd)))"

lemma addressed_own:
  assumes "icp_command c args OwnIdentity = Inr cmd" "icp_identity c \<in> names"
  shows "addressed c names cmd"
proof -
  obtain a as where args: "args = a # as"
    using assms(1) by (cases args) (auto simp: icp_command_def identity_truthy_def)
  show ?thesis
  proof (cases "a \<in> {''network'', ''identity''}")
    case True
    then have "cmd = ''icp'' # args @ [''--project-root-override'', icp_root c] @ []"
      using assms(1) args by (auto simp: icp_command_def identity_truthy_def)
    moreover have "args \<noteq> []" "hd args \<in> {''network'', ''identity''}" using True args by auto
    ultimately show ?thesis
      unfolding addressed_def by (intro exI [of _ args] exI [of _ "[]"] conjI disjI1)
  next
    case False
    then have cmd: "cmd = ''icp'' # args @ [''--project-root-override'', icp_root c] @ [''--identity'', icp_identity c]"
      using assms(1) args by (auto simp: icp_command_def identity_truthy_def)
    then have "cmd = (''icp'' # args @ [''--project-root-override'', icp_root c]) @ [''--identity'', icp_identity c] @ []"
      by simp
    then have "sublist [''--identity'', icp_identity c] cmd" unfolding sublist_def by blast
    then show ?thesis using cmd assms(2) args unfolding addressed_def by blast
  qed
qed

lemma addressed_none:
  assumes "icp_command c args NoIdentity = Inr cmd" "args \<noteq> []"
    "hd args \<in> {''network'', ''identity''} \<or> (\<exists>n \<in> names. sublist [''--identity'', n] args)"
  shows "addressed c names cmd"
proof -
  have cmd: "cmd = ''icp'' # args @ [''--project-root-override'', icp_root c] @ []"
    using assms(1) by (auto simp: icp_command_def identity_truthy_def)
  have "sublist [''--identity'', n] args \<Longrightarrow> sublist [''--identity'', n] cmd" for n
    unfolding cmd by (auto simp: sublist_def) (metis append.assoc append_Cons)
  then show ?thesis using cmd assms(2,3) unfolding addressed_def by blast
qed

lemma emits_run:
  assumes "\<And>cmd. icp_command c args i = Inr cmd \<Longrightarrow> Q cmd"
  shows "emits Q (run (logged S) c args ok i t)"
proof (cases "icp_command c args i")
  case (Inl e)
  then show ?thesis by (simp add: run_def emits_intros)
next
  case (Inr cmd)
  then show ?thesis using assms
    by (auto simp: run_def intro!: emits_intros emits_sys_run)
qed

text \<open>An orderly command is addressed and neither starts nor stops the network.\<close>

definition manages_network :: "string list \<Rightarrow> bool" where
  "manages_network cmd \<longleftrightarrow> take 3 cmd \<in> {[''icp'', ''network'', ''start''], [''icp'', ''network'', ''stop'']}"

definition orderly :: "icp \<Rightarrow> string set \<Rightarrow> string list \<Rightarrow> bool" where
  "orderly c names cmd \<longleftrightarrow> addressed c names cmd \<and> \<not> manages_network cmd"

lemma command_manages_network:
  assumes "icp_command c args i = Inr cmd" "manages_network cmd"
  shows "take 2 args = [''network'', ''start''] \<or> take 2 args = [''network'', ''stop'']"
proof -
  obtain tail where "cmd = ''icp'' # args @ ''--project-root-override'' # tail"
    using assms(1) by (auto simp: icp_command_def Let_def split: if_splits list.splits)
  note m = assms(2) [unfolded this manages_network_def]
  consider "args = []" | a where "args = [a]" | a b as where "args = a # b # as"
    by (metis list.exhaust)
  then show ?thesis by cases (use m in \<open>simp_all add: eval_nat_numeral\<close>)
qed

lemma run_orderly [emits_intros]:
  "icp_identity c \<in> names \<Longrightarrow> take 2 args \<notin> {[''network'', ''start''], [''network'', ''stop'']} \<Longrightarrow>
     emits (orderly c names) (run (logged S) c args ok OwnIdentity t)"
  by (rule emits_run) (auto simp: orderly_def intro: addressed_own dest: command_manages_network)

lemma run_identity_orderly [emits_intros]:
  "emits (orderly c names) (run (logged S) c (''identity'' # args) ok NoIdentity t)"
  by (rule emits_run) (auto simp: orderly_def numeral_2_eq_2 intro: addressed_none dest: command_manages_network)

lemma run_addressed:
  "icp_identity c \<in> names \<Longrightarrow> emits (addressed c names) (run (logged S) c args ok OwnIdentity t)"
  by (auto intro!: emits_run addressed_own)

lemma call_orderly [emits_intros]:
  "icp_identity c \<in> names \<Longrightarrow> emits (orderly c names) (call (logged S) c can meth args ok t)"
  "icp_identity c \<in> names \<Longrightarrow> emits (orderly c names) (query (logged S) c can meth args)"
  unfolding call_def query_def by (auto intro!: emits_intros)

lemma check_orderly [emits_intros]: "emits Q (check b l)"
  by (simp add: check_def emits_intros)

lemma network_orderly [emits_intros]:
  assumes "icp_identity c \<in> names"
  shows "emits (orderly c names) (known_identities (logged S) c)"
    and "emits (orderly c names) (canister_principal (logged S) c n)"
    and "emits (orderly c names) (ensure_cycles (logged S) c amount)"
    and "emits (orderly c names) (any_network_status (logged S) c)"
  unfolding known_identities_def canister_principal_def ensure_cycles_def any_network_status_def
  using assms by (auto intro!: emits_intros)

lemma setup_orderly [emits_intros]:
  assumes "icp_identity c \<in> names"
  shows "emits (orderly c names) (ensure_identity (logged S) c n)"
    and "emits (orderly c names) (ensure_canister (logged S) c n)"
    and "emits (orderly c names) (require_local_network (logged S) c)"
    and "emits (orderly c names) (network_status (logged S) c)"
  unfolding ensure_identity_def ensure_canister_def require_local_network_def network_status_def
  using assms by (auto intro!: emits_intros)

lemma run_log:
  assumes "run (logged S) c args ok i t (w, h) = (r, (w', h'))" "icp_command c args i = Inr cmd"
  shows "h' = h @ [cmd]"
  using assms by (auto simp: run_def logged_def io_bind_def split: prod.splits sum.splits if_splits)

text \<open>The command of a call to the engine.\<close>

definition engine_command :: "icp \<Rightarrow> string \<Rightarrow> string \<Rightarrow> string \<Rightarrow> string list" where
  "engine_command c d meth args =
     [''icp'', ''canister'', ''call'', ''decision-engine'', meth, args, ''-e'', icp_env c, ''--candid'', d,
      ''--project-root-override'', icp_root c, ''--identity'', icp_identity c]"

lemma logged_call:
  "call S c ''decision-engine'' meth args ok t w = (r, w') \<Longrightarrow>
   did_of c ''decision-engine'' = Inr d \<Longrightarrow>
   call (logged S) c ''decision-engine'' meth args ok t (w, h) = (r, (w', h @ [engine_command c d meth args]))"
  by (auto simp: call_def run_def icp_command_def identity_truthy_def logged_def engine_command_def io_bind_def
      split: prod.splits sum.splits if_splits)

lemma call_logE:
  assumes "call (logged S) c ''decision-engine'' meth args ok t (w, h) = (r, (w', h'))"
    and "did_of c ''decision-engine'' = Inr d"
  shows "h' = h @ [engine_command c d meth args]"
  using assms
  by (auto simp: call_def run_def icp_command_def identity_truthy_def logged_def engine_command_def io_bind_def
      split: prod.splits sum.splits if_splits)

lemma network_command [simp]:
  "icp_command c (''network'' # args) i = Inr (''icp'' # ''network'' # args @ [''--project-root-override'', icp_root c])"
  by (simp add: icp_command_def Let_def)

section \<open>A remote network is refused\<close>

lemma require_local_refuses:
  assumes "any_network_status S c w = (Inr status, w')" "remote_network status = Inr True"
  shows "\<exists>e. require_local_network S c w = (Inl e, w')"
  using assms
  by (cases "res_bind (get ''api_url'' status) py_str") (auto simp: require_local_network_def io_bind_def)

lemma require_local_passes:
  assumes "any_network_status S c w = (Inr status, w')" "remote_network status = Inr False"
  shows "require_local_network S c w = (Inr (), w')"
  using assms by (auto simp: require_local_network_def io_bind_def)

lemma status_command_log:
  assumes "any_network_status (logged S) c (w, h) = (r, (w', h'))"
  shows "h' = h @ [''icp'' # [''network'', ''status'', ''-e'', icp_env c, ''--json'', ''--project-root-override'', icp_root c]]"
  using assms
  by (auto simp: any_network_status_def run_def icp_command_def identity_truthy_def logged_def io_bind_def
      split: prod.splits sum.splits if_splits)

end
