(* ===== verification/Canonical_Schema.thy ===== *)
theory Canonical_Schema
  imports Icp_Tools
begin

text \<open>
  The schemas of the measurement tools (\<open>tools/measure_inference.py\<close>): the fixture tokenizer, the
  length-framed canonical hashing, the compilation of a schema and its rendering as Candid text.
\<close>

section \<open>Special tokens and the fixture tokenizer\<close>

definition SPECIAL :: "(string \<times> int) list" where
  "SPECIAL = [(''cls'', 1), (''sep'', 2), (''mask'', 3), (''pad'', 0)]"

abbreviation special :: "string \<Rightarrow> int" where
  "special k \<equiv> the (map_of SPECIAL k)"

definition SPECIAL_LITERALS :: "string list" where
  "SPECIAL_LITERALS = [''[CLS]'', ''[SEP]'', ''[MASK]'', ''[PAD]'']"

definition fixture_encode :: "string \<Rightarrow> int list" where
  "fixture_encode text = map (\<lambda>word. 10 + int (be_nat (take 2 (sha256 (encode word))))) (split_ws text)"

section \<open>Canonical hashing\<close>

text \<open>The class \<open>Canonical\<close>: its buffer, and the operations that append to it.\<close>

definition canon_bytes :: "bytes \<Rightarrow> bytes \<Rightarrow> bytes res" where
  "canon_bytes value buf = res_bind (to_bytes_be 8 (int (length value))) (\<lambda>l. Inr (buf @ l @ value))"

definition canon_u64 :: "int \<Rightarrow> bytes \<Rightarrow> bytes res" where
  "canon_u64 value buf = res_bind (to_bytes_be 8 value) (\<lambda>l. Inr (buf @ l))"

definition canon_text :: "string \<Rightarrow> bytes \<Rightarrow> bytes res" where
  "canon_text value buf = canon_bytes (encode value) buf"

definition canon_new :: "string \<Rightarrow> bytes res" where
  "canon_new domain = canon_bytes (encode domain) []"

definition canon_finish :: "bytes \<Rightarrow> bytes" where
  "canon_finish buf = sha256 buf"

section \<open>Compiling a schema\<close>

record schema =
  schema_id :: string
  schema_primitive :: string
  schema_tag :: int
  schema_instructions :: string
  schema_options :: "(string \<times> string) list"

record compiled = schema +
  compiled_prefix :: "int list"
  compiled_markers :: "nat list"
  compiled_hash :: bytes
  compiled_tokenizer :: bytes

text \<open>A mask token before each option; the markers are their positions.\<close>

fun mark_options :: "(string \<times> string) list \<Rightarrow> int list \<Rightarrow> nat list \<Rightarrow> int list \<times> nat list" where
  "mark_options [] toks markers = (toks, markers)"
| "mark_options ((_, text) # opts) toks markers =
     mark_options opts (toks @ [special ''mask''] @ fixture_encode text) (markers @ [length toks])"

fun canon_options :: "(string \<times> string) list \<Rightarrow> bytes \<Rightarrow> bytes res" where
  "canon_options [] h = Inr h"
| "canon_options ((i, text) # opts) h =
     res_bind (canon_text i h) (\<lambda>h. res_bind (canon_text text h) (canon_options opts))"

text \<open>What is hashed: domain, id, version 1, tag, instructions, options, tokenizer, profile.\<close>

definition schema_canonical :: "'a schema_scheme \<Rightarrow> bytes \<Rightarrow> bytes res" where
  "schema_canonical s tokenizer_hash =
     res_bind (canon_new ''ic-laya/schema/v1'') (\<lambda>h.
     res_bind (canon_text (schema_id s) h) (\<lambda>h.
     res_bind (canon_u64 1 h) (\<lambda>h.
     res_bind (canon_u64 (schema_tag s) h) (\<lambda>h.
     res_bind (canon_text (schema_instructions s) h) (\<lambda>h.
     res_bind (canon_u64 (int (length (schema_options s))) h) (\<lambda>h.
     res_bind (canon_options (schema_options s) h) (\<lambda>h.
     res_bind (canon_bytes tokenizer_hash h) (\<lambda>h.
       canon_text ''Compact128-v1'' h))))))))"

definition schema_prefix :: "string \<Rightarrow> (string \<times> string) list \<Rightarrow> int list \<times> nat list" where
  "schema_prefix question opts =
     (let (toks, markers) =
        mark_options opts ([special ''cls''] @ fixture_encode question @ [special ''sep'']) []
      in (toks @ [special ''sep''], markers))"

definition compiled_schema :: "schema \<Rightarrow> bytes \<Rightarrow> compiled res" where
  "compiled_schema s tokenizer_hash =
     (let (toks, markers) = schema_prefix
            (lower (schema_primitive s) @ '' question: '' @ schema_instructions s) (schema_options s)
      in res_bind (schema_canonical s tokenizer_hash) (\<lambda>h.
           Inr \<lparr>schema_id = schema_id s, schema_primitive = schema_primitive s, schema_tag = schema_tag s,
                schema_instructions = schema_instructions s, schema_options = schema_options s,
                compiled_prefix = toks, compiled_markers = markers, compiled_hash = canon_finish h,
                compiled_tokenizer = tokenizer_hash\<rparr>))"

definition SCHEMAS :: "schema list" where
  "SCHEMAS = [
     \<lparr>schema_id = ''RefundRequested'', schema_primitive = ''Noul'', schema_tag = 1,
      schema_instructions = ''Does the customer ask for a refund?'',
      schema_options = [(''false'', ''false''), (''true'', ''true'')]\<rparr>,
     \<lparr>schema_id = ''PaymentAction'', schema_primitive = ''Choice'', schema_tag = 0,
      schema_instructions = ''Choose the handling action for this request.'',
      schema_options = [(''execute'', ''process refund''), (''reject'', ''reject request''),
        (''review'', ''human review'')]\<rparr>,
     \<lparr>schema_id = ''PaymentRisk'', schema_primitive = ''Score'', schema_tag = 2,
      schema_instructions = ''Rate request risk from minimal to severe.'',
      schema_options = [(''minimal'', ''minimal risk''), (''low'', ''low risk''), (''medium'', ''moderate risk''),
        (''high'', ''high risk''), (''severe'', ''severe risk'')]\<rparr>]"

definition STATE :: string where
  "STATE = ''The customer reports a duplicate payment and requests a refund.''"

section \<open>Candid text\<close>

definition candid_option :: "string \<times> string \<Rightarrow> string" where
  "candid_option = (\<lambda>(i, t). ''record { id = '' @ json_string i @ ''; text = '' @ json_string t @ '' }'')"

definition candid_schema :: "'a schema_scheme \<Rightarrow> string" where
  "candid_schema s =
     ''record { id = '' @ json_string (schema_id s) @ ''; version = 1 : nat64; primitive = variant { '' @
     schema_primitive s @ '' }; instructions = '' @ json_string (schema_instructions s) @
     ''; options = vec { '' @ join ''; '' (map candid_option (schema_options s)) @ '' } }''"

definition candid_special :: string where
  "candid_special =
     ''record { cls = '' @ int_str (special ''cls'') @ '' : nat32; sep = '' @ int_str (special ''sep'') @
     '' : nat32; mask = '' @ int_str (special ''mask'') @ '' : nat32; pad = '' @ int_str (special ''pad'') @
     '' : nat32; literals = vec { '' @ join ''; '' (map json_string SPECIAL_LITERALS) @ '' } }''"

definition candid_compiled :: "compiled \<Rightarrow> string" where
  "candid_compiled s =
     ''record { schema = '' @ candid_schema s @ ''; schema_hash = '' @ blob (compiled_hash s) @
     ''; tokenizer_hash = '' @ blob (compiled_tokenizer s) @
     ''; prefix = vec { '' @ join ''; '' (map int_str (compiled_prefix s)) @
     '' }; markers = vec { '' @ join ''; '' (map nat_str (compiled_markers s)) @
     '' }; special = '' @ candid_special @ ''; qtype_id = '' @ int_str (schema_tag s) @ '' : nat32 }''"

section \<open>Lemmas: what is hashed determines the schema\<close>

text \<open>The two framings as codecs.\<close>

definition u64_bytes :: "nat \<Rightarrow> bytes" where
  "u64_bytes v = be_bytes 8 v"

definition read_u64 :: "bytes \<Rightarrow> (nat \<times> bytes) option" where
  "read_u64 bs = (if 8 \<le> length bs then Some (be_nat (take 8 bs), drop 8 bs) else None)"

interpretation u64_codec: prefix_codec u64_bytes read_u64 "\<lambda>v. v < 256 ^ 8"
  by unfold_locales (simp add: u64_bytes_def read_u64_def be_nat_be_bytes)

definition frame_bytes :: "bytes \<Rightarrow> bytes" where
  "frame_bytes b = u64_bytes (length b) @ b"

definition read_frame :: "bytes \<Rightarrow> (bytes \<times> bytes) option" where
  "read_frame bs = (case read_u64 bs of
     None \<Rightarrow> None
   | Some (n, r) \<Rightarrow> if n \<le> length r then Some (take n r, drop n r) else None)"

interpretation frame64_codec: prefix_codec frame_bytes read_frame "\<lambda>b. length b < 256 ^ 8"
  by unfold_locales (simp add: frame_bytes_def read_frame_def u64_codec.dec_enc)

text \<open>The bytes that are hashed, as a sequence of frames.\<close>

definition option_frames :: "string \<times> string \<Rightarrow> bytes" where
  "option_frames = (\<lambda>(i, t). frame_bytes (encode i) @ frame_bytes (encode t))"

definition read_option :: "bytes \<Rightarrow> ((string \<times> string) \<times> bytes) option" where
  "read_option bs = (case read_frame bs of
     None \<Rightarrow> None
   | Some (a, r) \<Rightarrow> (case read_frame r of
       None \<Rightarrow> None
     | Some (b, q) \<Rightarrow> (case (utf8_decode a, utf8_decode b) of
         (Inr i, Inr t) \<Rightarrow> Some ((i, t), q) | _ \<Rightarrow> None)))"

definition short_text :: "string \<Rightarrow> bool" where
  "short_text s \<longleftrightarrow> length (encode s) < 256 ^ 8"

interpretation option_codec: prefix_codec option_frames read_option
  "\<lambda>(i, t). short_text i \<and> short_text t"
  by unfold_locales
    (auto simp: option_frames_def read_option_def short_text_def frame64_codec.dec_enc utf8_decode_encode)

definition canonical_layout :: "'a schema_scheme \<Rightarrow> bytes \<Rightarrow> bytes" where
  "canonical_layout s tokenizer_hash =
     frame_bytes (encode ''ic-laya/schema/v1'') @ frame_bytes (encode (schema_id s)) @ u64_bytes 1 @
     u64_bytes (nat (schema_tag s)) @ frame_bytes (encode (schema_instructions s)) @
     u64_bytes (length (schema_options s)) @ concat (map option_frames (schema_options s)) @
     frame_bytes tokenizer_hash @ frame_bytes (encode ''Compact128-v1'')"

definition hashable :: "'a schema_scheme \<Rightarrow> bytes \<Rightarrow> bool" where
  "hashable s tokenizer_hash \<longleftrightarrow>
     short_text (schema_id s) \<and> 0 \<le> schema_tag s \<and> schema_tag s < 256 ^ 8 \<and> short_text (schema_instructions s) \<and>
     length (schema_options s) < 256 ^ 8 \<and> list_all (\<lambda>(i, t). short_text i \<and> short_text t) (schema_options s) \<and>
     length tokenizer_hash < 256 ^ 8"

lemma canon_bytes_Inr:
  "canon_bytes v buf = Inr b \<longleftrightarrow> length v < 256 ^ 8 \<and> b = buf @ frame_bytes v"
  by (auto simp: canon_bytes_def frame_bytes_def u64_bytes_def to_bytes_be_Inr res_iff)

lemma canon_u64_Inr:
  "canon_u64 n buf = Inr b \<longleftrightarrow> 0 \<le> n \<and> n < 256 ^ 8 \<and> b = buf @ u64_bytes (nat n)"
  by (auto simp: canon_u64_def u64_bytes_def to_bytes_be_Inr res_iff)

lemma canon_text_Inr:
  "canon_text s buf = Inr b \<longleftrightarrow> short_text s \<and> b = buf @ frame_bytes (encode s)"
  by (simp add: canon_text_def canon_bytes_Inr short_text_def)

lemma canon_options_Inr:
  "canon_options os buf = Inr b \<longleftrightarrow>
     list_all (\<lambda>(i, t). short_text i \<and> short_text t) os \<and> b = buf @ concat (map option_frames os)"
  by (induction os arbitrary: buf) (auto simp: canon_text_Inr res_iff option_frames_def)

lemma short_literal: "length s < 1000 \<Longrightarrow> short_text s"
proof -
  assume l: "length s < 1000"
  have "length (encode s) \<le> 2 * length s"
    by (induction s) (auto simp: encode_def utf8_char_def)
  then show ?thesis using l by (simp add: short_text_def)
qed

lemma schema_canonical_Inr:
  "schema_canonical s h = Inr b \<longleftrightarrow> hashable s h \<and> b = canonical_layout s h"
  using short_literal [of "''ic-laya/schema/v1''"] short_literal [of "''Compact128-v1''"]
  by (auto simp: schema_canonical_def canon_new_def canon_text_def [symmetric] canon_bytes_Inr canon_u64_Inr
      canon_text_Inr canon_options_Inr res_iff hashable_def canonical_layout_def)

lemma canonical_layout_inj:
  assumes "hashable s h" "hashable t k" "canonical_layout s h = canonical_layout t k"
  shows "schema_id s = schema_id t \<and> schema_tag s = schema_tag t \<and>
    schema_instructions s = schema_instructions t \<and> schema_options s = schema_options t \<and> h = k"
proof -
  let ?P = "\<lambda>(i, t). short_text i \<and> short_text t"
  have v: "list_all ?P (schema_options s)" "list_all ?P (schema_options t)"
    and d: "length (encode (schema_id s)) < 256 ^ 8" "length (encode (schema_id t)) < 256 ^ 8"
      "length (encode (schema_instructions s)) < 256 ^ 8" "length (encode (schema_instructions t)) < 256 ^ 8"
      "nat (schema_tag s) < 256 ^ 8" "nat (schema_tag t) < 256 ^ 8"
      "length (schema_options s) < 256 ^ 8" "length (schema_options t) < 256 ^ 8"
      "length h < 256 ^ 8" "length k < 256 ^ 8" "0 \<le> schema_tag s" "0 \<le> schema_tag t"
    using assms(1,2) by (auto simp: hashable_def short_text_def)
  note e1 = assms(3) [unfolded canonical_layout_def same_append_eq]
  note e2 = frame64_codec.enc_inj [OF d(1,2) e1]
  then have e3: "u64_bytes (nat (schema_tag s)) @ frame_bytes (encode (schema_instructions s)) @
      u64_bytes (length (schema_options s)) @ concat (map option_frames (schema_options s)) @
      frame_bytes h @ frame_bytes (encode ''Compact128-v1'') =
      u64_bytes (nat (schema_tag t)) @ frame_bytes (encode (schema_instructions t)) @
      u64_bytes (length (schema_options t)) @ concat (map option_frames (schema_options t)) @
      frame_bytes k @ frame_bytes (encode ''Compact128-v1'')" by simp
  note e4 = u64_codec.enc_inj [OF d(5,6) e3]
  note e5 = frame64_codec.enc_inj [OF d(3,4) e4 [THEN conjunct2]]
  note e6 = u64_codec.enc_inj [OF d(7,8) e5 [THEN conjunct2]]
  note e7 = option_codec.concat_enc_inj [OF v e6 [THEN conjunct1] e6 [THEN conjunct2]]
  note e8 = frame64_codec.enc_inj [OF d(9,10) e7 [THEN conjunct2]]
  show ?thesis using e2 e4 e5 e7 e8 d(11,12) by (simp add: encode_inj nat_eq_iff)
qed

section \<open>Lemmas: markers\<close>

lemma fixture_encode_at_least: "x \<in> set (fixture_encode text) \<Longrightarrow> 10 \<le> x"
  by (auto simp: fixture_encode_def)

definition masks :: "int list \<Rightarrow> nat list" where
  "masks toks = filter (\<lambda>i. toks ! i = special ''mask'') [0..<length toks]"

lemma masks_append: "masks (xs @ ys) = masks xs @ map (\<lambda>i. i + length xs) (masks ys)"
proof -
  have "[0..<length (xs @ ys)] = [0..<length xs] @ map (\<lambda>i. i + length xs) [0..<length ys]"
    using upt_add_eq_append [of 0 "length xs" "length ys"] by (simp add: map_add_upt add.commute)
  moreover have "filter (\<lambda>i. (xs @ ys) ! i = special ''mask'') [0..<length xs] =
      filter (\<lambda>i. xs ! i = special ''mask'') [0..<length xs]"
    by (rule filter_cong) (auto simp: nth_append)
  moreover have "filter (\<lambda>i. (xs @ ys) ! i = special ''mask'') (map (\<lambda>i. i + length xs) [0..<length ys]) =
      map (\<lambda>i. i + length xs) (filter (\<lambda>i. ys ! i = special ''mask'') [0..<length ys])"
    by (simp add: filter_map comp_def nth_append)
  ultimately show ?thesis by (simp add: masks_def)
qed

lemma masks_none: "\<forall>x \<in> set toks. x \<noteq> special ''mask'' \<Longrightarrow> masks toks = []"
  by (auto simp: masks_def filter_empty_conv)

lemma masks_mask: "masks [special ''mask''] = [0]"
  by (simp add: masks_def)

lemma masks_fixture: "masks (fixture_encode text) = []"
  using fixture_encode_at_least by (intro masks_none) (force simp: SPECIAL_def)

lemma mark_options_masks:
  "masks toks = ms \<Longrightarrow> mark_options opts toks ms = (toks', ms') \<Longrightarrow>
     masks toks' = ms' \<and> length ms' = length ms + length opts \<and> prefix toks toks'"
proof (induction opts toks ms arbitrary: toks' ms' rule: mark_options.induct)
  case (2 i body opts toks ms)
  have "masks (toks @ [special ''mask''] @ fixture_encode body) = ms @ [length toks]"
    using 2(2) masks_fixture [of body] by (simp add: masks_append masks_mask del: append_Cons)
  moreover have "mark_options opts (toks @ [special ''mask''] @ fixture_encode body) (ms @ [length toks]) = (toks', ms')"
    using 2(3) by simp
  ultimately have "masks toks' = ms' \<and> length ms' = length (ms @ [length toks]) + length opts \<and>
      prefix (toks @ [special ''mask''] @ fixture_encode body) toks'"
    by (rule "2.IH")
  then show ?case by (auto dest: append_prefixD)
qed auto

lemma schema_prefix_masks:
  assumes "schema_prefix question opts = (toks, ms)"
  shows "masks toks = ms \<and> length ms = length opts"
proof -
  let ?start = "[special ''cls''] @ fixture_encode question @ [special ''sep'']"
  have plain: "masks [special ''cls''] = []" "masks [special ''sep''] = []"
    by (rule masks_none, simp add: SPECIAL_def)+
  then have m: "masks ?start = []"
    using masks_fixture [of question] by (simp add: masks_append del: append_Cons)
  obtain t where t: "mark_options opts ?start [] = (t, ms)" "toks = t @ [special ''sep'']"
    using assms by (auto simp: schema_prefix_def split: prod.splits)
  from mark_options_masks [OF m t(1)] t(2) plain show ?thesis by (simp add: masks_append)
qed


lemma compiled_schema_Inr:
  "compiled_schema s h = Inr c \<longleftrightarrow> hashable s h \<and>
     (\<exists>toks ms. schema_prefix (lower (schema_primitive s) @ '' question: '' @ schema_instructions s)
        (schema_options s) = (toks, ms) \<and>
      c = \<lparr>schema_id = schema_id s, schema_primitive = schema_primitive s, schema_tag = schema_tag s,
           schema_instructions = schema_instructions s, schema_options = schema_options s,
           compiled_prefix = toks, compiled_markers = ms,
           compiled_hash = sha256 (canonical_layout s h), compiled_tokenizer = h\<rparr>)"
  by (auto simp: compiled_schema_def schema_canonical_Inr res_iff canon_finish_def split: prod.splits)

lemma SCHEMAS_hashable: "length h = 32 \<Longrightarrow> s \<in> set SCHEMAS \<Longrightarrow> hashable s h"
  by (auto simp: SCHEMAS_def hashable_def intro!: short_literal)

section \<open>Properties\<close>

text \<open>
  C27: two schemas that can be hashed have the same canonical bytes if and only if they agree in id, tag,
  instructions, options and tokenizer hash.  The name of the primitive is not hashed: schemas that differ
  in nothing else are one schema to the hash, which sees the primitive only by its tag.
\<close>

theorem schema_canonical_injective:
  assumes "schema_canonical s h = Inr b"
  shows "schema_canonical t k = Inr b \<longleftrightarrow>
    schema_id t = schema_id s \<and> schema_tag t = schema_tag s \<and>
    schema_instructions t = schema_instructions s \<and> schema_options t = schema_options s \<and> k = h"
proof
  assume "schema_canonical t k = Inr b"
  then show "schema_id t = schema_id s \<and> schema_tag t = schema_tag s \<and>
      schema_instructions t = schema_instructions s \<and> schema_options t = schema_options s \<and> k = h"
    using assms by (intro canonical_layout_inj) (auto simp: schema_canonical_Inr)
next
  assume "schema_id t = schema_id s \<and> schema_tag t = schema_tag s \<and>
      schema_instructions t = schema_instructions s \<and> schema_options t = schema_options s \<and> k = h"
  then show "schema_canonical t k = Inr b" using assms by (simp add: schema_canonical_def)
qed

theorem schema_canonical_injective_witness:
  "\<exists>b. schema_canonical (hd SCHEMAS) [7] = Inr b \<and>
     schema_canonical ((hd SCHEMAS)\<lparr>schema_primitive := ''Other''\<rparr>) [7] = Inr b \<and>
     schema_canonical (hd (tl SCHEMAS)) [7] \<noteq> Inr b \<and> schema_canonical (hd SCHEMAS) [8] \<noteq> Inr b"
proof -
  have "hashable (hd SCHEMAS) [7]" by (auto simp: SCHEMAS_def hashable_def intro!: short_literal)
  then have b: "schema_canonical (hd SCHEMAS) [7] = Inr (canonical_layout (hd SCHEMAS) [7])"
    by (simp add: schema_canonical_Inr)
  show ?thesis
    by (rule exI [of _ "canonical_layout (hd SCHEMAS) [7]"])
      (simp add: b schema_canonical_injective [OF b], simp add: SCHEMAS_def)
qed

text \<open>
  C28: compiling keeps the schema, marks each option with a mask token and nothing else: the markers
  are exactly the positions of the mask token in the prefix, one for each option; the hash has 32
  bytes and depends on the tokenizer given.
\<close>

theorem compiled_schema_markers:
  assumes "compiled_schema s tokenizer_hash = Inr c"
  shows "compiled_markers c =
      filter (\<lambda>i. compiled_prefix c ! i = special ''mask'') [0..<length (compiled_prefix c)] \<and>
    length (compiled_markers c) = length (schema_options s) \<and>
    schema.truncate c = s \<and> length (compiled_hash c) = 32 \<and> compiled_tokenizer c = tokenizer_hash"
  using assms schema_prefix_masks
  by (auto simp: compiled_schema_Inr masks_def schema.truncate_def)

theorem compiled_schema_markers_witness:
  "\<exists>c. compiled_schema (hd SCHEMAS) [1] = Inr c \<and> length (compiled_markers c) = 2"
proof -
  have "hashable (hd SCHEMAS) [1]" by (auto simp: SCHEMAS_def hashable_def intro!: short_literal)
  then obtain c where c: "compiled_schema (hd SCHEMAS) [1] = Inr c"
    by (metis compiled_schema_Inr prod.exhaust)
  from compiled_schema_markers [OF c] have "length (compiled_markers c) = length (schema_options (hd SCHEMAS))"
    by blast
  then show ?thesis using c by (simp add: SCHEMAS_def)
qed


end
