(* ===== verification/Measure_Inference.thy ===== *)
theory Measure_Inference
  imports Command_Log Canonical_Schema
begin

text \<open>
  The measurement of one pack on a local replica (\<open>tools/measure_inference.py\<close>): upload, warm-up,
  registration and evaluation (\<open>measure_tier\<close>), and the run over the tiers (\<open>main\<close>).  Dictionaries are
  JSON objects; printed lines and wall-clock entries are left out.
\<close>

section \<open>Python on lists and dictionaries\<close>

definition clamp_index :: "nat \<Rightarrow> int \<Rightarrow> nat" where
  "clamp_index n i = (if i < 0 then nat (int n + i) else min n (nat i))"

text \<open>\<open>xs[a:b]\<close>\<close>

definition py_slice :: "int \<Rightarrow> int \<Rightarrow> 'a list \<Rightarrow> 'a list" where
  "py_slice a b xs =
     (let i = clamp_index (length xs) a; j = clamp_index (length xs) b in take (j - i) (drop i xs))"

text \<open>\<open>range(0, stop, step)\<close> for a length \<open>stop\<close>.\<close>

definition range_step :: "nat \<Rightarrow> int \<Rightarrow> nat list res" where
  "range_step stop step =
     (if step = 0 then Inl (ValueError ''range() arg 3 must not be zero'')
      else if step < 0 then Inr []
      else Inr (map (\<lambda>i. i * nat step) [0..<(stop + nat step - 1) div nat step]))"

definition set_key :: "string \<Rightarrow> json \<Rightarrow> json \<Rightarrow> json" where
  "set_key k v d = (case d of JObj kvs \<Rightarrow> JObj (AList.update k v kvs) | _ \<Rightarrow> d)"

text \<open>\<open>d[k][k2] = v\<close>\<close>

definition set_in :: "string \<Rightarrow> string \<Rightarrow> json \<Rightarrow> json \<Rightarrow> json" where
  "set_in k k2 v d = (case d of
     JObj kvs \<Rightarrow> (case map_of kvs k of Some e \<Rightarrow> set_key k (set_key k2 v e) d | None \<Rightarrow> d)
   | _ \<Rightarrow> d)"

definition clipped :: "nat \<Rightarrow> string \<Rightarrow> json" where
  "clipped n out = JStr (take n (strip out))"

section \<open>The arguments and the pack\<close>

record measure_args =
  tiers :: "string list"
  arg_identity :: string
  arg_env :: string
  arg_timeout :: int
  chunk_kib :: int
  skip_build :: bool

record pack =
  manifest_raw :: bytes
  model_raw :: bytes
  tokenizer_raw :: bytes
  manifest :: json

definition pack_format :: string where
  "pack_format = ''ic-laya-int8-pack-v1''"

definition fixture_dir :: "'w system \<Rightarrow> string \<Rightarrow> string" where
  "fixture_dir S tier = path_join (path_join (repo_root S) ''fixtures'') tier"

text \<open>The three files of a tier, refused unless the manifest is of the INT8 format.\<close>

definition read_pack :: "'w system \<Rightarrow> exn \<Rightarrow> string \<Rightarrow> ('w, pack) io" where
  "read_pack S missing directory =
     io_bind (sys_exists S (path_join directory ''manifest.json'')) (\<lambda>there.
     io_then (io_guard there missing)
     (io_bind (sys_read S (path_join directory ''manifest.json'')) (\<lambda>mr.
     io_bind (sys_read S (path_join directory ''model.bin'')) (\<lambda>md.
     io_bind (sys_read S (path_join directory ''tokenizer.json'')) (\<lambda>tk.
     io_bind (io_lift (json_loads_bytes mr)) (\<lambda>m.
     io_bind (io_lift (item ''format'' m)) (\<lambda>f.
     io_then (io_guard (f = JStr pack_format)
       (RuntimeError ''Runtime requires INT8; convert this legacy fixture with tools/quantize_pack.py''))
     (io_ret \<lparr>manifest_raw = mr, model_raw = md, tokenizer_raw = tk, manifest = m\<rparr>))))))))"

definition tensors :: "pack \<Rightarrow> json list res" where
  "tensors p = res_bind (item ''tensors'' (manifest p)) as_list"

definition first_record :: "string \<Rightarrow> pack \<Rightarrow> json res" where
  "first_record tier p =
     res_bind (tensors p) (\<lambda>ts. res_bind (item ''config'' (manifest p)) (\<lambda>config.
       Inr (JObj [(''tier'', JStr tier), (''pack_bytes'', JInt (int (length (model_raw p)))),
                  (''tensors'', JInt (int (length ts))), (''config'', config)])))"

section \<open>Upload\<close>

definition begin_args :: "pack \<Rightarrow> string" where
  "begin_args p = ''('' @ blob (manifest_raw p) @ '', '' @ nat_str (length (tokenizer_raw p)) @ '' : nat64, '' @
     candid_special @ '')''"

definition begin_upload :: "'w system \<Rightarrow> icp \<Rightarrow> pack \<Rightarrow> int \<Rightarrow> ('w, string) io" where
  "begin_upload S c p timeout = call S c ''decision-engine'' ''begin_upload'' (begin_args p) False timeout"

definition chunk_args :: "nat \<Rightarrow> bytes \<Rightarrow> string" where
  "chunk_args off piece = ''('' @ nat_str off @ '' : nat64, '' @ blob piece @ '')''"

definition upload_chunk :: "'w system \<Rightarrow> icp \<Rightarrow> int \<Rightarrow> nat \<Rightarrow> bytes \<Rightarrow> ('w, string) io" where
  "upload_chunk S c timeout off piece =
     call S c ''decision-engine'' ''upload_chunk'' (chunk_args off piece) True timeout"

text \<open>The end of an upload loop: the bytes sent, or the offset that was refused with the answer.\<close>

datatype upload_outcome = Uploaded nat | Refused nat string

text \<open>\<open>while offset < len(model_raw)\<close>; \<open>chunk\<close> is in bytes.  The model's length is fuel enough for a positive chunk.\<close>

fun upload_model :: "nat \<Rightarrow> 'w system \<Rightarrow> icp \<Rightarrow> int \<Rightarrow> bytes \<Rightarrow> int \<Rightarrow> nat \<Rightarrow> ('w, upload_outcome) io" where
  "upload_model fuel S c timeout model chunk off =
     (if length model \<le> off then io_ret (Uploaded off)
      else case fuel of
        0 \<Rightarrow> io_raise OutOfFuel
      | Suc n \<Rightarrow>
          (let piece = py_slice (int off) (int off + chunk) model
           in io_bind (upload_chunk S c timeout off piece) (\<lambda>result.
                if contains ''Err'' result then io_ret (Refused off result)
                else upload_model n S c timeout model chunk (off + length piece))))"

declare upload_model.simps [simp del]

fun upload_tokenizer ::
  "'w system \<Rightarrow> icp \<Rightarrow> int \<Rightarrow> bytes \<Rightarrow> int \<Rightarrow> nat \<Rightarrow> nat list \<Rightarrow> ('w, (nat \<times> string) option) io" where
  "upload_tokenizer S c timeout tokenizer chunk base [] = io_ret None"
| "upload_tokenizer S c timeout tokenizer chunk base (start # starts) =
     io_bind (upload_chunk S c timeout (base + start) (py_slice (int start) (int start + chunk) tokenizer)) (\<lambda>result.
       if contains ''Err'' result then io_ret (Some (base + start, result))
       else upload_tokenizer S c timeout tokenizer chunk base starts)"

section \<open>Warm-up\<close>

text \<open>\<open>while True\<close>: one tensor a call, until the engine reports the end or an error.\<close>

fun warm_loop :: "nat \<Rightarrow> 'w system \<Rightarrow> icp \<Rightarrow> int \<Rightarrow> nat \<Rightarrow> ('w, nat \<times> string option) io" where
  "warm_loop 0 S c timeout count = io_raise OutOfFuel"
| "warm_loop (Suc n) S c timeout count =
     io_bind (call S c ''decision-engine'' ''warmup_next'' ''()'' False timeout) (\<lambda>step.
       if contains ''Err'' step then io_ret (count, Some step)
       else if contains ''true'' step then io_ret (Suc count, None)
       else warm_loop n S c timeout (Suc count))"

text \<open>What is recorded of a tensor that failed: its name and the bytes loaded before it.\<close>

definition failed_tensor :: "json list \<Rightarrow> nat \<Rightarrow> json res" where
  "failed_tensor ts count =
     (let entry = (if count < length ts then ts ! count else JNull)
      in if truthy entry then item ''name'' entry else Inr JNull)"

definition bytes_loaded :: "json list \<Rightarrow> nat \<Rightarrow> int res" where
  "bytes_loaded ts count =
     res_bind (mapM (\<lambda>t. res_bind (item ''length'' t) as_int) (take count ts)) (\<lambda>ls. Inr (sum_list ls))"

definition warm_failure :: "pack \<Rightarrow> nat \<Rightarrow> int \<Rightarrow> string \<Rightarrow> json res" where
  "warm_failure p count total_steps step =
     res_bind (tensors p) (\<lambda>ts.
     res_bind (failed_tensor ts count) (\<lambda>nm.
     res_bind (bytes_loaded ts count) (\<lambda>loaded.
       Inr (JObj [(''ok'', JBool False), (''stage'', JStr ''warmup_next''), (''tensors_done'', JInt (int count)),
                  (''tensors_total'', JInt total_steps), (''failed_tensor'', nm), (''bytes_loaded'', JInt loaded),
                  (''response'', clipped 300 step)]))))"

definition start_refused :: "pack \<Rightarrow> nat \<Rightarrow> string \<Rightarrow> json" where
  "start_refused p uploaded warm =
     JObj [(''ok'', JBool False), (''stage'', JStr ''start_warmup''),
           (''model_bytes'', JInt (int (length (model_raw p)))),
           (''tokenizer_bytes'', JInt (int (length (tokenizer_raw p)))),
           (''uploaded_bytes'', JInt (int uploaded)),
           (''expected_total'', JInt (int (length (model_raw p) + length (tokenizer_raw p)))),
           (''response'', clipped 300 warm)]"

section \<open>Registration\<close>

definition register_args :: "compiled \<Rightarrow> string" where
  "register_args s = ''('' @ candid_schema s @ '', '' @ int_str (schema_tag s) @ '' : nat32)''"

definition calibration_id :: "bytes \<Rightarrow> 'a schema_scheme \<Rightarrow> bytes" where
  "calibration_id bundle s = sha256 (encode ''measure-calibration-'' @ bundle @ encode (schema_id s))"

definition calibration_args :: "bytes \<Rightarrow> bytes \<Rightarrow> int \<Rightarrow> compiled \<Rightarrow> string" where
  "calibration_args bundle tokenizer_hash now_ns s =
     ''(record { id = '' @ blob (calibration_id bundle s) @ ''; model = '' @ blob bundle @
     ''; schema = '' @ blob (compiled_hash s) @ ''; tokenizer = '' @ blob tokenizer_hash @
     ''; temperature = 1.0; expires_at_ns = '' @ int_str now_ns @ '' : nat64; holdout_hash = '' @
     blob (sha256 (encode ''SYNTHETIC-NOT-REAL-HOLDOUT'')) @
     ''; sample_count = 1 : nat64; test_only = true })''"

text \<open>A loop over the schemas that stops at the first refusal, with the schema and the answer.\<close>

fun first_refusal ::
  "'w system \<Rightarrow> icp \<Rightarrow> int \<Rightarrow> string \<Rightarrow> (compiled \<Rightarrow> string) \<Rightarrow> compiled list \<Rightarrow> ('w, (compiled \<times> string) option) io" where
  "first_refusal S c timeout meth args [] = io_ret None"
| "first_refusal S c timeout meth args (s # ss) =
     io_bind (call S c ''decision-engine'' meth (args s) False timeout) (\<lambda>out.
       if contains ''Err'' out then io_ret (Some (s, out)) else first_refusal S c timeout meth args ss)"

definition registration_refused :: "string \<Rightarrow> compiled \<times> string \<Rightarrow> json" where
  "registration_refused key = (\<lambda>(s, out).
     JObj [(''ok'', JBool False), (key, JStr (schema_id s)), (''response'', clipped 300 out)])"

section \<open>Evaluation\<close>

definition evaluate_args :: "string \<Rightarrow> bytes \<Rightarrow> int \<Rightarrow> compiled \<Rightarrow> string" where
  "evaluate_args tier bundle now_ns s =
     ''(record { evaluation_id = '' @ blob (sha256 (encode (''measure-'' @ tier @ ''-'' @ schema_id s))) @
     ''; schema_hash = '' @ blob (compiled_hash s) @ ''; model = '' @ blob bundle @
     ''; calibration = opt '' @ blob (calibration_id bundle s) @ ''; binding = null; state = '' @
     json_string STATE @ ''; expires_at_ns = '' @ int_str now_ns @ '' : nat64 })''"

definition rx_input_tokens :: rx where
  "rx_input_tokens = Seqs [Lit ''input_tokens = '', Grp 1 rx_num, Lit '' : nat32'']"

definition nullable_int :: "int option \<Rightarrow> json" where
  "nullable_int v = (case v of None \<Rightarrow> JNull | Some n \<Rightarrow> JInt n)"

definition measurement :: "compiled \<Rightarrow> string \<Rightarrow> json res" where
  "measurement s out =
     res_bind (read_instructions out) (\<lambda>cost.
     res_bind (read_match rx_input_tokens out) (\<lambda>count.
       Inr (JObj ([(''schema'', JStr (schema_id s)), (''primitive'', JStr (schema_primitive s)),
                   (''measured_instructions'', nullable_int cost), (''tokens'', nullable_int count)] @
                  (if cost = None then [(''response'', clipped 300 out)] else [])))))"

definition evaluate_one :: "'w system \<Rightarrow> icp \<Rightarrow> int \<Rightarrow> string \<Rightarrow> bytes \<Rightarrow> int \<Rightarrow> compiled \<Rightarrow> ('w, json) io" where
  "evaluate_one S c timeout tier bundle now_ns s =
     io_bind (call S c ''decision-engine'' ''evaluate'' (evaluate_args tier bundle now_ns s) False timeout) (\<lambda>out.
       io_lift (measurement s out))"

section \<open>One tier\<close>

text \<open>A stage either ends the measurement with the record so far, or continues.\<close>

datatype 'a stage = Return json | Continue 'a

definition io_stage :: "('w, 'a stage) io \<Rightarrow> ('a \<Rightarrow> ('w, json) io) \<Rightarrow> ('w, json) io" where
  "io_stage m f = io_bind m (\<lambda>r. case r of Return j \<Rightarrow> io_ret j | Continue x \<Rightarrow> f x)"

definition upload_refused :: "nat \<Rightarrow> string \<Rightarrow> json \<Rightarrow> json" where
  "upload_refused off result record =
     set_in ''upload'' ''response'' (clipped 200 result)
       (set_in ''upload'' ''failed_at_offset'' (JInt (int off)) record)"

definition upload_stage ::
  "nat \<Rightarrow> 'w system \<Rightarrow> icp \<Rightarrow> int \<Rightarrow> int \<Rightarrow> pack \<Rightarrow> json \<Rightarrow> ('w, (json \<times> nat) stage) io" where
  "upload_stage fuel S c timeout chunk p record =
     io_bind (begin_upload S c p timeout) (\<lambda>out.
       if \<not> contains ''Ok'' out
       then io_ret (Return (set_key ''upload'' (JObj [(''ok'', JBool False), (''response'', clipped 300 out)]) record))
       else let record = set_key ''upload'' (JObj [(''ok'', JBool True)]) record
         in io_then (io_guard (chunk \<noteq> 0) ZeroDivisionError)
           (io_bind (upload_model fuel S c timeout (model_raw p) chunk 0) (\<lambda>u.
              case u of
                Refused off result \<Rightarrow> io_ret (Return (upload_refused off result record))
              | Uploaded sent \<Rightarrow>
                  io_bind (io_lift (range_step (length (tokenizer_raw p)) chunk)) (\<lambda>starts.
                  io_bind (upload_tokenizer S c timeout (tokenizer_raw p) chunk (length (model_raw p)) starts) (\<lambda>r.
                    case r of
                      Some (off, result) \<Rightarrow> io_ret (Return (upload_refused off result record))
                    | None \<Rightarrow>
                        let chunks = (int (length (model_raw p)) + int (length (tokenizer_raw p)) + chunk - 1) div chunk
                        in io_ret (Continue (set_in ''upload'' ''chunks'' (JInt chunks) record, sent)))))))"

definition warm_stage ::
  "nat \<Rightarrow> 'w system \<Rightarrow> icp \<Rightarrow> int \<Rightarrow> pack \<Rightarrow> nat \<Rightarrow> json \<Rightarrow> ('w, json stage) io" where
  "warm_stage fuel S c timeout p sent record =
     io_bind (call S c ''decision-engine'' ''start_warmup'' ''()'' False timeout) (\<lambda>warm.
       if \<not> contains ''Ok'' warm then io_ret (Return (set_key ''warmup'' (start_refused p sent warm) record))
       else io_bind (io_lift (read_int warm)) (\<lambda>t.
         let total_steps = (case t of Some n \<Rightarrow> n | None \<Rightarrow> 0)
         in io_bind (warm_loop fuel S c timeout 0) (\<lambda>(count, failure).
              case failure of
                Some step \<Rightarrow>
                  io_bind (io_lift (warm_failure p count total_steps step)) (\<lambda>w.
                    io_ret (Return (set_key ''warmup'' w record)))
              | None \<Rightarrow>
                  io_ret (Continue (set_key ''warmup''
                    (JObj [(''ok'', JBool True), (''tensors'', JInt total_steps)]) record)))))"

definition register_stage ::
  "'w system \<Rightarrow> icp \<Rightarrow> int \<Rightarrow> pack \<Rightarrow> json \<Rightarrow> ('w, (json \<times> bytes \<times> compiled list \<times> int) stage) io" where
  "register_stage S c timeout p record =
     (let tokenizer_hash = sha256 (tokenizer_raw p); bundle = sha256 (manifest_raw p)
      in io_bind (io_lift (mapM (\<lambda>s. compiled_schema s tokenizer_hash) SCHEMAS)) (\<lambda>compiled.
         io_bind (first_refusal S c timeout ''register_schema'' register_args compiled) (\<lambda>r.
           case r of
             Some f \<Rightarrow> io_ret (Return (set_key ''registration'' (registration_refused ''schema'' f) record))
           | None \<Rightarrow>
               io_bind (sys_time_ns S) (\<lambda>t.
                 let now_ns = t + 300000000000
                 in io_bind (first_refusal S c timeout ''register_calibration''
                              (calibration_args bundle tokenizer_hash now_ns) compiled) (\<lambda>r.
                      case r of
                        Some f \<Rightarrow> io_ret (Return (set_key ''registration'' (registration_refused ''calibration'' f) record))
                      | None \<Rightarrow> io_ret (Continue (set_key ''registration''
                          (JObj [(''ok'', JBool True), (''schemas'', JInt (int (length compiled)))]) record,
                          bundle, compiled, now_ns)))))))"

definition measure_tier :: "nat \<Rightarrow> 'w system \<Rightarrow> icp \<Rightarrow> string \<Rightarrow> measure_args \<Rightarrow> ('w, json) io" where
  "measure_tier fuel S c tier args =
     (let timeout = arg_timeout args
      in io_bind (read_pack S (Failure (''fixtures/'' @ tier @ '' missing; run tools/generate_fixtures.py --tier '' @ tier))
             (fixture_dir S tier)) (\<lambda>p.
         io_bind (io_lift (first_record tier p)) (\<lambda>record.
         io_stage (upload_stage fuel S c timeout (chunk_kib args * 1024) p record) (\<lambda>(record, sent).
         io_stage (warm_stage fuel S c timeout p sent record) (\<lambda>record.
         io_stage (register_stage S c timeout p record) (\<lambda>(record, bundle, compiled, now_ns).
         io_bind (io_map (evaluate_one S c timeout tier bundle now_ns) compiled) (\<lambda>measurements.
           io_ret (set_key ''evaluations'' (JList measurements) record))))))))"

section \<open>The run over the tiers\<close>

definition build_engine :: "'w system \<Rightarrow> ('w, unit) io" where
  "build_engine S =
     io_bind (sys_run S [''bash'', ''tools/build_one.sh'', ''decision-engine''] None) (\<lambda>(returncode, _, _).
       io_guard (returncode = 0) (CalledProcessError returncode))"

definition engine_wasm :: "'w system \<Rightarrow> string" where
  "engine_wasm S = path_join (BUILD S) ''decision-engine.wasm''"

text \<open>\<open>except Failure\<close>: the tier is reported as a harness error.\<close>

definition tier_result :: "nat \<Rightarrow> 'w system \<Rightarrow> icp \<Rightarrow> measure_args \<Rightarrow> string \<Rightarrow> ('w, json) io" where
  "tier_result fuel S c args tier =
     io_catch (measure_tier fuel S c tier args) (\<lambda>e. case e of
       Failure m \<Rightarrow> Some (io_ret (JObj [(''tier'', JStr tier), (''harness_error'', JStr (take 400 m))]))
     | _ \<Rightarrow> None)"

definition measurement_report :: "json list \<Rightarrow> json" where
  "measurement_report results =
     JObj [(''kind'', JStr ''local replica measurement of synthetic sized packs''),
           (''note'', JStr (''instructions are measured by the canister; wall clock '' @
              ''is a local-replica figure and is not a mainnet estimate'')),
           (''targets'', JObj [(''instructions_per_question'', JInt 20000000000), (''update_limit'', JInt 40000000000),
              (''warm_heap_bytes'', JInt 2500000000), (''cold_peak_bytes'', JInt 3000000000)]),
           (''tiers'', JList results)]"

definition admit_caller :: "'w system \<Rightarrow> icp \<Rightarrow> string \<Rightarrow> ('w, unit) io" where
  "admit_caller S c owner =
     io_bind (run S c [''canister'', ''call'', ''decision-engine'', ''allow_caller'',
         ''('' @ principal owner @ '', 1000 : nat32)'', ''-e'', icp_env c,
         ''--candid'', path_join (BUILD S) ''decision-engine.did''] False OwnIdentity 300) (\<lambda>admission.
       io_guard (contains ''Ok'' admission)
         (Failure (''could not admit the measurement identity: '' @ take 200 (strip admission))))"

definition measure_session :: "nat \<Rightarrow> 'w system \<Rightarrow> icp \<Rightarrow> measure_args \<Rightarrow> string list \<Rightarrow> ('w, unit) io" where
  "measure_session fuel S c args names =
     io_bind (ensure_identity S c (arg_identity args)) (\<lambda>owner.
     io_then (ensure_cycles S c ''10t'')
     (io_then (ensure_canister S c ''decision-engine'')
     (io_then (run S c [''canister'', ''install'', ''decision-engine'', ''-e'', icp_env c, ''-y'', ''-m'', ''reinstall'',
         ''--wasm'', engine_wasm S, ''--args'', ''('' @ principal owner @ '')''] True OwnIdentity
         (max (arg_timeout args) 600))
     (io_then (admit_caller S c owner)
     (io_bind (io_map (tier_result fuel S c args) names) (\<lambda>results.
       sys_report S (path_join (repo_root S) ''artifacts/inference_measurements.json'')
         (measurement_report results)))))))"

definition measure_main :: "nat \<Rightarrow> 'w system \<Rightarrow> measure_args \<Rightarrow> ('w, int) io" where
  "measure_main fuel S args =
     (let names = (if tiers args = [] then [''measure-s'', ''measure-m''] else tiers args);
          c = new_icp S (repo_root S) (arg_env args) (arg_identity args)
      in io_then (io_when (\<not> skip_build args) (build_engine S))
        (io_bind (sys_exists S (engine_wasm S)) (\<lambda>there.
         io_then (io_guard there (Failure ''build/decision-engine.wasm missing''))
         (io_then (require_local_network S c)
         (io_bind (network_status S c) (\<lambda>status.
         io_then (io_when (status = JNull)
           (io_then (run S c [''network'', ''start'', ''-d'', ''-e'', arg_env args] True OwnIdentity 300) (io_ret ())))
         (io_then (io_finally (measure_session fuel S c args names)
           (io_when (status = JNull)
             (io_then (run S c [''network'', ''stop'', ''-e'', arg_env args] False OwnIdentity 300) (io_ret ()))))
         (io_ret 0))))))))"

end
