(* ===== verification/Measure_Proofs.thy ===== *)
theory Measure_Proofs
  imports Measure_Inference
begin

text \<open>
  What the measurement of \<open>tools/measure_inference.py\<close> guarantees: which bytes are uploaded, that it
  ends, which commands it issues and when it starts and stops the local network.
\<close>

section \<open>Upload: an abstract plan of chunks\<close>

function chunk_plan :: "nat \<Rightarrow> nat \<Rightarrow> bytes \<Rightarrow> (nat \<times> bytes) list" where
  "chunk_plan k off bs =
     (if bs = [] \<or> k = 0 then [] else (off, take k bs) # chunk_plan k (off + length (take k bs)) (drop k bs))"
  by auto
termination by (relation "measure (\<lambda>(_, _, bs). length bs)") auto

declare chunk_plan.simps [simp del]

text \<open>A sequence of writes is contiguous from an offset when each begins where the last ended.\<close>

fun contiguous :: "nat \<Rightarrow> (nat \<times> bytes) list \<Rightarrow> bool" where
  "contiguous off [] = True"
| "contiguous off ((o1, b) # ps) = (o1 = off \<and> contiguous (off + length b) ps)"

lemma chunk_plan_empty [simp]: "chunk_plan k off [] = []"
  by (simp add: chunk_plan.simps)

lemma chunk_plan_step:
  "bs \<noteq> [] \<Longrightarrow> 0 < k \<Longrightarrow>
   chunk_plan k off bs = (off, take k bs) # chunk_plan k (off + length (take k bs)) (drop k bs)"
  by (subst chunk_plan.simps) simp

lemma chunk_plan_cover:
  "0 < k \<Longrightarrow> concat (map snd (chunk_plan k off bs)) = bs \<and> contiguous off (chunk_plan k off bs) \<and>
     (\<forall>(o1, b) \<in> set (chunk_plan k off bs). b \<noteq> [] \<and> length b \<le> k)"
proof (induction k off bs rule: chunk_plan.induct)
  case (1 k off bs)
  show ?case
  proof (cases "bs = []")
    case False
    with 1 show ?thesis by (simp add: chunk_plan_step)
  qed simp
qed

lemma contiguous_append:
  "contiguous off (ps @ qs) \<longleftrightarrow> contiguous off ps \<and> contiguous (off + length (concat (map snd ps))) qs"
  by (induction off ps rule: contiguous.induct) (auto simp: add.assoc)

lemma chunk_plan_length: "0 < k \<Longrightarrow> length (chunk_plan k off bs) = (length bs + k - 1) div k"
proof (induction k off bs rule: chunk_plan.induct)
  case (1 k off bs)
  show ?case
  proof (cases "bs = []")
    case True
    with 1 show ?thesis by simp
  next
    case False
    then have ih: "length (chunk_plan k off bs) = Suc ((length bs - k + k - 1) div k)"
      using 1 by (simp add: chunk_plan_step)
    show ?thesis
    proof (cases "k \<le> length bs")
      case True
      have "(length bs + k - 1) div k = (length bs - 1 + k) div k" using False by (cases bs) auto
      also have "\<dots> = Suc ((length bs - 1) div k)" using 1(2) by simp
      finally show ?thesis using ih True by simp
    next
      case less: False
      then have "(length bs + k - 1) div k = 1"
        using False by (cases bs) (auto intro!: div_nat_eqI)
      then show ?thesis using ih less 1(2) by simp
    qed
  qed
qed

lemma py_slice_chunk:
  "off \<le> length xs \<Longrightarrow> py_slice (int off) (int off + int k) xs = take k (drop off xs)"
  by (simp add: py_slice_def clamp_index_def Let_def min_def nat_int_add)

definition chunk_commands :: "icp \<Rightarrow> string \<Rightarrow> (nat \<times> bytes) list \<Rightarrow> string list list" where
  "chunk_commands c d = map (\<lambda>(off, piece). engine_command c d ''upload_chunk'' (chunk_args off piece))"

lemma chunk_commands_simps [simp]:
  "chunk_commands c d [] = []"
  "chunk_commands c d ((off, b) # ps) = engine_command c d ''upload_chunk'' (chunk_args off b) # chunk_commands c d ps"
  "chunk_commands c d (ps @ qs) = chunk_commands c d ps @ chunk_commands c d qs"
  by (simp_all add: chunk_commands_def)

lemma upload_model_log:
  assumes "did_of c ''decision-engine'' = Inr d" "0 < k"
  shows "upload_model fuel (logged S) c t model (int k) off (w, h) = (Inr (Uploaded n), (w', h')) \<Longrightarrow>
    off \<le> length model \<Longrightarrow>
    n = length model \<and> h' = h @ chunk_commands c d (chunk_plan k off (drop off model))"
proof (induction fuel arbitrary: off w h)
  case 0
  then show ?case by (auto simp: upload_model.simps split: if_splits)
next
  case (Suc fuel)
  show ?case
  proof (cases "length model \<le> off")
    case True
    then show ?thesis using Suc.prems by (auto simp: upload_model.simps)
  next
    case False
    let ?piece = "take k (drop off model)"
    have p: "py_slice (int off) (int off + int k) model = ?piece"
      by (rule py_slice_chunk) (use Suc.prems in simp)
    obtain result w1 h1 where
      r: "upload_chunk (logged S) c t off ?piece (w, h) = (Inr result, (w1, h1))"
      and n: "upload_model fuel (logged S) c t model (int k) (off + length ?piece) (w1, h1) =
        (Inr (Uploaded n), (w', h'))"
      using Suc.prems(1) False p
      by (subst (asm) upload_model.simps) (auto simp: Let_def res_iff split: if_splits)
    have h1: "h1 = h @ [engine_command c d ''upload_chunk'' (chunk_args off ?piece)]"
      using call_logE [OF r [unfolded upload_chunk_def] assms(1)] .
    have le: "off + length ?piece \<le> length model" using False by simp
    have "drop (off + length ?piece) model = drop k (drop off model)"
      by (simp add: min_def add.commute)
    moreover have "chunk_plan k off (drop off model) =
        (off, ?piece) # chunk_plan k (off + length ?piece) (drop k (drop off model))"
      using False assms(2) by (intro chunk_plan_step) auto
    ultimately show ?thesis using Suc.IH [OF n le] h1 by simp
  qed
qed

lemma range_step_plan:
  assumes "0 < k"
  shows "range_step n (int k) = Inr (map (\<lambda>i. i * k) [0..<(n + k - 1) div k])"
  using assms by (simp add: range_step_def)

lemma starts_plan:
  assumes "0 < k"
  shows "map (\<lambda>s. (base + s, take k (drop s bs))) (map (\<lambda>i. i * k) [0..<(length bs + k - 1) div k]) =
    chunk_plan k base bs"
proof (rule nth_equalityI)
  show "length (map (\<lambda>s. (base + s, take k (drop s bs))) (map (\<lambda>i. i * k) [0..<(length bs + k - 1) div k])) =
      length (chunk_plan k base bs)" using assms by (simp add: chunk_plan_length)
next
  have nth: "i < length (chunk_plan k base bs) \<Longrightarrow> chunk_plan k base bs ! i = (base + i * k, take k (drop (i * k) bs))"
    for i base bs
  proof (induction k base bs arbitrary: i rule: chunk_plan.induct)
    case (1 k off bs)
    then have ne: "bs \<noteq> []" "k \<noteq> 0" by (auto simp: chunk_plan.simps [of k off bs] split: if_splits)
    note plan = chunk_plan_step [OF ne(1), of k off]
    show ?case
    proof (cases i)
      case (Suc j)
      then have j: "j < length (chunk_plan k (off + length (take k bs)) (drop k bs))"
        using 1(2) plan ne by simp
      then have "k < length bs" by (cases "k < length bs") auto
      then show ?thesis using 1(1) [OF _ j] ne plan Suc by (simp add: add.commute add.left_commute)
    qed (use plan ne in simp)
  qed
  fix i
  assume "i < length (map (\<lambda>s. (base + s, take k (drop s bs))) (map (\<lambda>i. i * k) [0..<(length bs + k - 1) div k]))"
  then show "map (\<lambda>s. (base + s, take k (drop s bs))) (map (\<lambda>i. i * k) [0..<(length bs + k - 1) div k]) ! i =
      chunk_plan k base bs ! i"
    using assms by (simp add: nth chunk_plan_length)
qed

lemma upload_tokenizer_log:
  assumes "did_of c ''decision-engine'' = Inr d"
  shows "upload_tokenizer (logged S) c t tok chunk base starts (w, h) = (Inr None, (w', h')) \<Longrightarrow>
    h' = h @ chunk_commands c d (map (\<lambda>s. (base + s, py_slice (int s) (int s + chunk) tok)) starts)"
proof (induction starts arbitrary: w h)
  case (Cons s starts)
  obtain result w1 h1 where
    r: "upload_chunk (logged S) c t (base + s) (py_slice (int s) (int s + chunk) tok) (w, h) = (Inr result, (w1, h1))"
    and n: "upload_tokenizer (logged S) c t tok chunk base starts (w1, h1) = (Inr None, (w', h'))"
    using Cons.prems by (auto simp: res_iff split: if_splits)
  show ?case using Cons.IH [OF n] call_logE [OF r [unfolded upload_chunk_def] assms] by simp
qed simp

lemma starts_in_range: "s \<in> set (map (\<lambda>i. i * k) [0..<(n + k - 1) div k]) \<Longrightarrow> 0 < k \<Longrightarrow> s \<le> n"
proof -
  assume "s \<in> set (map (\<lambda>i. i * k) [0..<(n + k - 1) div k])" and k: "0 < k"
  then obtain i where i: "s = i * k" "i < (n + k - 1) div k" by auto
  then have "Suc i * k \<le> n + k - 1" using k by (metis Suc_leI less_eq_div_iff_mult_less_eq)
  then show "s \<le> n" using i k by simp
qed

lemma upload_stage_log:
  assumes "upload_stage fuel (logged S) c t (int k) p rec (w, h) = (Inr (Continue (rec', sent)), (w', h'))"
    and d: "did_of c ''decision-engine'' = Inr d" and k: "0 < k"
  shows "h' = h @ engine_command c d ''begin_upload'' (begin_args p) #
      chunk_commands c d (chunk_plan k 0 (model_raw p) @ chunk_plan k (length (model_raw p)) (tokenizer_raw p)) \<and>
    sent = length (model_raw p) \<and>
    rec' = set_in ''upload'' ''chunks''
      (JInt ((int (length (model_raw p)) + int (length (tokenizer_raw p)) + int k - 1) div int k))
      (set_key ''upload'' (JObj [(''ok'', JBool True)]) rec)"
proof -
  obtain out w1 h1 where b: "begin_upload (logged S) c p t (w, h) = (Inr out, (w1, h1))" "contains ''Ok'' out"
    using assms(1) by (auto simp: upload_stage_def res_iff split: if_splits)
  let ?starts = "map (\<lambda>i. i * k) [0..<(length (tokenizer_raw p) + k - 1) div k]"
  obtain n w2 h2 where m: "upload_model fuel (logged S) c t (model_raw p) (int k) 0 (w1, h1) = (Inr (Uploaded n), (w2, h2))"
    and tk: "upload_tokenizer (logged S) c t (tokenizer_raw p) (int k) (length (model_raw p)) ?starts (w2, h2) =
      (Inr None, (w', h'))" and n: "n = sent"
    and rec': "rec' = set_in ''upload'' ''chunks''
      (JInt ((int (length (model_raw p)) + int (length (tokenizer_raw p)) + int k - 1) div int k))
      (set_key ''upload'' (JObj [(''ok'', JBool True)]) rec)"
    using assms(1) b k
    by (auto simp: upload_stage_def io_bind_def Let_def range_step_plan [OF k]
        split: prod.splits sum.splits upload_outcome.splits option.splits)
  have "py_slice (int s) (int s + int k) (tokenizer_raw p) = take k (drop s (tokenizer_raw p))"
    if "s \<in> set ?starts" for s
    by (rule py_slice_chunk [OF starts_in_range [OF that k]])
  then have eq: "map (\<lambda>s. (length (model_raw p) + s, py_slice (int s) (int s + int k) (tokenizer_raw p))) ?starts =
      map (\<lambda>s. (length (model_raw p) + s, take k (drop s (tokenizer_raw p)))) ?starts"
    by (simp only: cong: map_cong)
  then have "h' = h2 @ chunk_commands c d (chunk_plan k (length (model_raw p)) (tokenizer_raw p))"
    using upload_tokenizer_log [OF d tk] by (simp only: eq starts_plan [OF k])
  then show ?thesis
    using upload_model_log [OF d k m] call_logE [OF b(1) [unfolded begin_upload_def] d] n rec' by simp
qed

text \<open>The ceiling of a quotient of a sum, against the sum of the ceilings.\<close>

lemma ceil_sum:
  assumes "0 < (k :: nat)"
  shows "(a + b + k - 1) div k \<le> (a + k - 1) div k + (b + k - 1) div k \<and>
    (a + k - 1) div k + (b + k - 1) div k \<le> (a + b + k - 1) div k + 1"
proof -
  define x y z where "x = (a + k - 1) div k" and "y = (b + k - 1) div k" and "z = (a + b + k - 1) div k"
  have q: "n div k * k \<le> n" "n < Suc (n div k) * k" for n
    using dividend_less_div_times [OF assms, of n] by (simp_all add: algebra_simps)
  have "x * k \<le> a + k - 1" "a + k - 1 < Suc x * k" "y * k \<le> b + k - 1" "b + k - 1 < Suc y * k"
    "z * k \<le> a + b + k - 1" "a + b + k - 1 < Suc z * k"
    using q unfolding x_def y_def z_def by blast+
  then have l: "z * k < (x + y + 1) * k" and u: "(x + y) * k < (z + 2) * k"
    using assms by (simp_all add: algebra_simps)
  have "z < x + y + 1" using l by (simp only: mult_less_cancel2)
  moreover have "x + y < z + 2" using u by (simp only: mult_less_cancel2)
  ultimately show ?thesis unfolding x_def y_def z_def by simp
qed

section \<open>The measurement ends\<close>

lemma upload_chunk_free: "fuel_free_system S \<Longrightarrow> fuel_free (upload_chunk S c t off piece)"
  by (simp add: upload_chunk_def fuel_intros)

lemma upload_model_free:
  assumes "fuel_free_system S" "0 < k"
  shows "length model \<le> off + fuel \<Longrightarrow> fuel_free (upload_model fuel S c t model (int k) off)"
proof (induction fuel arbitrary: off)
  case 0
  then show ?case by (subst upload_model.simps) (simp add: fuel_intros)
next
  case (Suc fuel)
  have "fuel_free (upload_model fuel S c t model (int k) (off + length (py_slice (int off) (int off + int k) model)))"
    if "off < length model"
  proof (rule Suc.IH)
    have "0 < length (take k (drop off model))" using that assms(2) by simp
    then show "length model \<le> off + length (py_slice (int off) (int off + int k) model) + fuel"
      using Suc.prems py_slice_chunk [of off model k] that by simp
  qed
  then show ?case
    using upload_chunk_free [OF assms(1)]
    by (subst upload_model.simps) (auto simp: Let_def intro!: fuel_intros)
qed

lemma upload_tokenizer_free:
  "fuel_free_system S \<Longrightarrow> fuel_free (upload_tokenizer S c t tok chunk base starts)"
  by (induction starts) (auto intro!: fuel_intros upload_chunk_free)

lemma upload_stage_free:
  assumes "fuel_free_system S" "0 < chunk" "length (model_raw p) \<le> fuel"
  shows "fuel_free (upload_stage fuel S c t chunk p rec)"
proof -
  have "fuel_free (upload_model fuel S c t (model_raw p) chunk 0)"
    using upload_model_free [OF assms(1), of "nat chunk" "model_raw p" 0 fuel c t] assms(2,3) by simp
  moreover have "range_step n chunk \<noteq> Inl OutOfFuel" for n by (simp add: range_step_def)
  ultimately show ?thesis
    using assms(1) upload_tokenizer_free [OF assms(1)]
    by (auto simp: upload_stage_def begin_upload_def Let_def split: upload_outcome.split intro!: fuel_intros)
qed

definition warmup_command :: "icp \<Rightarrow> string \<Rightarrow> string list" where
  "warmup_command c d = engine_command c d ''warmup_next'' ''()''"

lemma warm_loop_out_of_fuel:
  assumes "did_of c ''decision-engine'' = Inr d" "fuel_free_system S"
  shows "warm_loop fuel (logged S) c t count (w, h) = (Inl OutOfFuel, (w', h')) \<Longrightarrow>
    h' = h @ replicate fuel (warmup_command c d)"
proof (induction fuel arbitrary: count w h)
  case (Suc fuel)
  obtain r w1 h1 where r: "call (logged S) c ''decision-engine'' ''warmup_next'' ''()'' False t (w, h) = (r, (w1, h1))"
    by (metis prod_cases3)
  have "r \<noteq> Inl OutOfFuel"
    using fuel_run(2) [OF fuel_logged [OF assms(2)]] r unfolding fuel_free_def by (metis fst_conv)
  then have "warm_loop fuel (logged S) c t (Suc count) (w1, h1) = (Inl OutOfFuel, (w', h'))"
    using Suc.prems r by (auto simp: io_bind_def split: sum.splits if_splits)
  from Suc.IH [OF this] call_logE [OF r assms(1)] show ?case by (simp add: warmup_command_def)
qed simp

text \<open>When a sequence runs out of fuel, one of its parts did.\<close>

lemma bind_out_of_fuel:
  assumes "io_bind m f w = (Inl OutOfFuel, w')" "fuel_free m"
  obtains x w1 where "m w = (Inr x, w1)" "f x w1 = (Inl OutOfFuel, w')"
  using assms unfolding io_bind_def fuel_free_def
  by (cases "m w") (auto split: sum.splits dest: spec [of _ w])

lemma stage_out_of_fuel:
  assumes "io_stage m f w = (Inl OutOfFuel, w')"
  shows "m w = (Inl OutOfFuel, w') \<or> (\<exists>x w1. m w = (Inr (Continue x), w1) \<and> f x w1 = (Inl OutOfFuel, w'))"
  using assms by (auto simp: io_stage_def io_bind_def split: prod.splits sum.splits stage.splits)

lemma fuel_stage [fuel_intros]: "fuel_free m \<Longrightarrow> (\<And>x. fuel_free (f x)) \<Longrightarrow> fuel_free (io_stage m f)"
  by (auto simp: io_stage_def split: stage.split intro!: fuel_intros)

lemma fuel_freeD: "fuel_free m \<Longrightarrow> m w \<noteq> (Inl OutOfFuel, w')"
  by (metis fuel_free_def fst_conv)

lemma log_extends:
  assumes "m (w, h) = (r, (w', h'))" "emits (\<lambda>_. True) m"
  shows "\<exists>s. h' = h @ s"
  using assms unfolding emits_def by blast

lemma emits_any_run [emits_intros]: "emits (\<lambda>_. True) (run (logged S) c args ok i t)"
  by (rule emits_run) simp

lemma emits_any_call [emits_intros]:
  "emits (\<lambda>_. True) (call (logged S) c can meth args ok t)" "emits (\<lambda>_. True) (query (logged S) c can meth args)"
  by (simp_all add: call_def query_def emits_intros)

lemma upload_model_any: "emits (\<lambda>_. True) (upload_model fuel (logged S) c t model chunk off)"
  by (induction fuel arbitrary: off; subst upload_model.simps)
    (auto simp: upload_chunk_def Let_def intro!: emits_intros)

lemma emits_Pair [emits_intros]: "emits Q (Pair r)"
  by (simp add: emits_def)

lemma upload_tokenizer_any: "emits (\<lambda>_. True) (upload_tokenizer (logged S) c t tok chunk base starts)"
  by (induction starts) (auto simp: upload_chunk_def intro!: emits_intros)

lemma upload_stage_any: "emits (\<lambda>_. True) (upload_stage fuel (logged S) c t chunk p rec)"
  by (auto simp: upload_stage_def begin_upload_def Let_def split: upload_outcome.split
      intro!: emits_intros upload_model_any upload_tokenizer_any)

lemma first_record_free: "first_record tier p \<noteq> Inl OutOfFuel"
  by (auto simp: first_record_def tensors_def res_iff fuel_read)

lemma read_pack_free:
  assumes "fuel_free_system S" "missing \<noteq> OutOfFuel"
  shows "fuel_free (read_pack S missing directory)"
  using assms by (auto simp: read_pack_def json_loads_bytes_fuel fuel_read intro!: fuel_intros)

lemma read_pack_model:
  assumes "read_pack S missing directory w = (Inr p, w')"
  shows "\<exists>path u u'. sys_read S path u = (Inr (model_raw p), u')"
  using assms by (auto simp: read_pack_def res_iff) blast

lemma compiled_schema_free: "compiled_schema s h \<noteq> Inl OutOfFuel"
proof -
  have o: "canon_options os b \<noteq> Inl OutOfFuel" for os b
    by (induction os b rule: canon_options.induct)
      (auto simp: canon_text_def canon_bytes_def to_bytes_be_def res_iff split: if_splits)
  show ?thesis
    by (auto simp: compiled_schema_def schema_canonical_def canon_new_def canon_text_def canon_bytes_def
        canon_u64_def to_bytes_be_def res_iff o split: if_splits prod.splits)
qed

lemma first_refusal_free: "fuel_free_system S \<Longrightarrow> fuel_free (first_refusal S c t meth args ss)"
  by (induction ss) (auto intro!: fuel_intros)

lemma register_stage_free: "fuel_free_system S \<Longrightarrow> fuel_free (register_stage S c t p rec)"
  by (auto simp: register_stage_def Let_def mapM_free compiled_schema_free intro!: fuel_intros first_refusal_free)

lemma evaluate_one_free: "fuel_free_system S \<Longrightarrow> fuel_free (evaluate_one S c t tier b n s)"
  by (auto simp: evaluate_one_def measurement_def res_iff fuel_read read_instructions_def intro!: fuel_intros)

lemma warm_stage_out_of_fuel:
  assumes d: "did_of c ''decision-engine'' = Inr d" and S: "fuel_free_system S"
    and run: "warm_stage fuel (logged S) c t p sent rec (w, h) = (Inl OutOfFuel, (w', h'))"
  shows "\<exists>s. h' = h @ s @ replicate fuel (warmup_command c d)"
proof -
  note L = fuel_logged [OF S]
  obtain warm w1 h1 where warm: "call (logged S) c ''decision-engine'' ''start_warmup'' ''()'' False t (w, h) = (Inr warm, (w1, h1))"
    and rest: "warm_loop fuel (logged S) c t 0 (w1, h1) = (Inl OutOfFuel, (w', h'))"
  proof -
    from run [unfolded warm_stage_def] fuel_run(2) [OF L]
    obtain warm w1 where warm: "call (logged S) c ''decision-engine'' ''start_warmup'' ''()'' False t (w, h) = (Inr warm, w1)"
      and r1: "(if \<not> contains ''Ok'' warm then io_ret (Return (set_key ''warmup'' (start_refused p sent warm) rec))
       else io_bind (io_lift (read_int warm)) (\<lambda>ti.
         let total_steps = (case ti of Some n \<Rightarrow> n | None \<Rightarrow> 0)
         in io_bind (warm_loop fuel (logged S) c t 0) (\<lambda>(count, failure).
              case failure of
                Some step \<Rightarrow>
                  io_bind (io_lift (warm_failure p count total_steps step)) (\<lambda>w.
                    io_ret (Return (set_key ''warmup'' w rec)))
              | None \<Rightarrow>
                  io_ret (Continue (set_key ''warmup''
                    (JObj [(''ok'', JBool True), (''tensors'', JInt total_steps)]) rec))))) w1 = (Inl OutOfFuel, (w', h'))"
      by (rule bind_out_of_fuel)
    obtain ti where ti: "contains ''Ok'' warm" "read_int warm = Inr ti"
      using r1 fuel_read(2) [of rx_nat_result warm] by (cases "read_int warm") (auto simp: read_int_def split: if_splits)
    have wf: "warm_failure p count n step \<noteq> Inl OutOfFuel" for count n step
      by (auto simp: warm_failure_def tensors_def failed_tensor_def bytes_loaded_def res_iff fuel_read mapM_free Let_def)
    from r1 ti have "warm_loop fuel (logged S) c t 0 w1 = (Inl OutOfFuel, (w', h'))"
      by (auto simp: io_bind_def wf split: prod.splits sum.splits option.splits)
    with warm show thesis using that by (cases w1) blast
  qed
  show ?thesis
    using warm_loop_out_of_fuel [OF d S rest] call_logE [OF warm d] by simp
qed

text \<open>
  The measurement of a tier ends: with a positive chunk and fuel for the longest file read, the
  only way to exhaust the fuel is an engine that, after everything else, has answered as many
  \<open>warmup_next\<close> calls as there is fuel without reporting the end or an error.
\<close>

theorem measure_tier_ends:
  assumes S: "fuel_free_system S" and d: "did_of c ''decision-engine'' = Inr d" and k: "0 < chunk_kib args"
    and files: "\<And>path u b u'. sys_read S path u = (Inr b, u') \<Longrightarrow> length b \<le> fuel"
    and run: "measure_tier fuel (logged S) c tier args (w, h) = (Inl OutOfFuel, (w', h'))"
  shows "\<exists>s. h' = h @ s @ replicate fuel (warmup_command c d)"
proof -
  note L = fuel_logged [OF S]
  let ?dir = "fixture_dir (logged S) tier"
  let ?e = "Failure (''fixtures/'' @ tier @ '' missing; run tools/generate_fixtures.py --tier '' @ tier)"
  let ?upload = "upload_stage fuel (logged S) c (arg_timeout args) (chunk_kib args * 1024)"
  obtain p w1 rec where p: "read_pack (logged S) ?e ?dir (w, h) = (Inr p, w1)"
    and r1: "io_stage (?upload p rec) (\<lambda>(record, sent).
         io_stage (warm_stage fuel (logged S) c (arg_timeout args) p sent record) (\<lambda>record.
         io_stage (register_stage (logged S) c (arg_timeout args) p record) (\<lambda>(record, bundle, compiled, now_ns).
         io_bind (io_map (evaluate_one (logged S) c (arg_timeout args) tier bundle now_ns) compiled) (\<lambda>measurements.
           io_ret (set_key ''evaluations'' (JList measurements) record))))) w1 = (Inl OutOfFuel, (w', h'))"
    using run fuel_freeD [OF read_pack_free [OF L], of ?e ?dir] first_record_free
    by (auto simp: measure_tier_def Let_def io_bind_def split: prod.splits sum.splits)
  obtain path v l u' where "sys_read (logged S) path (v, l) = (Inr (model_raw p), u')"
    using read_pack_model [OF p] by fast
  then have "fst (sys_read S path v) = Inr (model_raw p)"
    by (auto simp: logged_def lift_log_def split: prod.splits)
  then have "length (model_raw p) \<le> fuel" using files by (metis prod.collapse)
  then have "fuel_free (?upload p rec)" using upload_stage_free [OF L] k by simp
  from fuel_freeD [OF this] stage_out_of_fuel [OF r1] obtain rec2 sent w3 h3 where
    u: "?upload p rec w1 = (Inr (Continue (rec2, sent)), (w3, h3))"
    and r2: "io_stage (warm_stage fuel (logged S) c (arg_timeout args) p sent rec2) (\<lambda>record.
         io_stage (register_stage (logged S) c (arg_timeout args) p record) (\<lambda>(record, bundle, compiled, now_ns).
         io_bind (io_map (evaluate_one (logged S) c (arg_timeout args) tier bundle now_ns) compiled) (\<lambda>measurements.
           io_ret (set_key ''evaluations'' (JList measurements) record)))) (w3, h3) = (Inl OutOfFuel, (w', h'))"
    by (metis (no_types, lifting) case_prod_conv prod.exhaust)
  have after: "fuel_free (io_stage (register_stage (logged S) c (arg_timeout args) p rec4) (\<lambda>(record, bundle, compiled, now_ns).
         io_bind (io_map (evaluate_one (logged S) c (arg_timeout args) tier bundle now_ns) compiled) (\<lambda>measurements.
           io_ret (set_key ''evaluations'' (JList measurements) record))))" for rec4
    using register_stage_free [OF L] evaluate_one_free [OF L] by (intro fuel_intros) auto
  have "warm_stage fuel (logged S) c (arg_timeout args) p sent rec2 (w3, h3) = (Inl OutOfFuel, (w', h'))"
    using stage_out_of_fuel [OF r2] fuel_freeD [OF after] by blast
  from warm_stage_out_of_fuel [OF d S this] obtain s where s: "h' = h3 @ s @ replicate fuel (warmup_command c d)" ..
  obtain v1 h1 where w1: "w1 = (v1, h1)" by fastforce
  have "emits (\<lambda>_. True) (read_pack (logged S) ?e ?dir)" by (simp add: read_pack_def emits_intros)
  from log_extends [OF p [unfolded w1] this] obtain s1 where "h1 = h @ s1" ..
  moreover from log_extends [OF u [unfolded w1] upload_stage_any] obtain s2 where "h3 = h1 @ s2" ..
  ultimately have "h' = h @ (s1 @ s2 @ s) @ replicate fuel (warmup_command c d)" using s by simp
  then show ?thesis ..
qed

text \<open>A system for the witnesses: every command is answered alike, every file has the same bytes.\<close>

definition stub :: "string \<Rightarrow> string \<Rightarrow> unit system" where
  "stub answer file = \<lparr>
     sys_run = (\<lambda>_ _. io_ret (0, answer, [])), sys_exists = (\<lambda>_. io_ret True),
     sys_read = (\<lambda>_. io_ret (encode file)), sys_write = (\<lambda>_ _. io_ret ()),
     sys_report = (\<lambda>_ _. io_ret ()), sys_token = (\<lambda>n. io_ret (replicate n 0)), sys_time_ns = io_ret 0,
     repo_root = ''/repo''\<rparr>"

lemma stub_free: "fuel_free_system (stub answer file)"
  by (simp add: stub_def fuel_free_system_def fuel_intros)

definition sample_icp :: icp where
  "sample_icp = new_icp (stub [] []) ''/repo'' ''local'' ''tester''"

definition engine_did :: string where
  "engine_did = ''/repo/build/decision-engine.did''"

lemma sample_did: "did_of sample_icp ''decision-engine'' = Inr engine_did"
  by (simp add: did_of_def sample_icp_def new_icp_def engine_did_def BUILD_def path_join_def stub_def)

lemma stub_call:
  "call (logged (stub answer file)) sample_icp ''decision-engine'' meth args ok t (w, h) =
     (Inr answer, ((), h @ [engine_command sample_icp engine_did meth args]))"
  using sample_did
  by (simp add: call_def run_def icp_command_def identity_truthy_def logged_def stub_def engine_command_def io_bind_def)

lemma stub_warm_loop:
  "\<not> contains ''Err'' answer \<Longrightarrow> \<not> contains ''true'' answer \<Longrightarrow>
   warm_loop fuel (logged (stub answer file)) sample_icp t count (w, h) =
     (Inl OutOfFuel, ((), h @ replicate fuel (warmup_command sample_icp engine_did)))"
  by (induction fuel arbitrary: count w h) (simp_all add: io_bind_def stub_call warmup_command_def)

definition sample_manifest :: string where
  "sample_manifest = ''{'' @ json_string ''format'' @ '':'' @ json_string pack_format @ '',''  @
     json_string ''tensors'' @ '':[],'' @ json_string ''config'' @ '':0}''"

lemma sample_manifest_json:
  "json_loads sample_manifest = Inr (JObj [(''format'', JStr pack_format), (''tensors'', JList []), (''config'', JInt 0)])"
  by code_simp

lemma sample_manifest_length: "length (encode sample_manifest) = 57"
  by code_simp

definition sample_args :: measure_args where
  "sample_args = \<lparr>tiers = [''t''], arg_identity = ''tester'', arg_env = ''local'', arg_timeout = 9, chunk_kib = 1,
     skip_build = True\<rparr>"

definition sample_pack :: pack where
  "sample_pack = \<lparr>manifest_raw = encode sample_manifest, model_raw = encode sample_manifest,
     tokenizer_raw = encode sample_manifest,
     manifest = JObj [(''format'', JStr pack_format), (''tensors'', JList []), (''config'', JInt 0)]\<rparr>"

lemma sample_read:
  "read_pack (logged (stub answer sample_manifest)) e dir (w, h) = (Inr sample_pack, ((), h))"
  by (simp add: read_pack_def logged_def stub_def lift_log_def io_bind_def io_then_def json_loads_bytes_def
      utf8_decode_encode sample_manifest_json sample_pack_def)

lemma stub_upload_model:
  assumes "\<not> contains ''Err'' answer" "0 < k"
  shows "length model \<le> off + fuel \<Longrightarrow> off \<le> length model \<Longrightarrow>
    \<exists>h'. upload_model fuel (logged (stub answer file)) sample_icp t model (int k) off (w, h) =
      (Inr (Uploaded (length model)), ((), h'))"
proof (induction fuel arbitrary: off h)
  case 0
  then show ?case by (subst upload_model.simps) simp
next
  case (Suc fuel)
  let ?piece = "take k (drop off model)"
  show ?case
  proof (cases "off = length model")
    case True
    then show ?thesis by (subst upload_model.simps) simp
  next
    case False
    then have "length model \<le> off + length ?piece + fuel" "off + length ?piece \<le> length model"
      using Suc.prems assms(2) by auto
    from Suc.IH [OF this] show ?thesis
      using Suc.prems False assms(1) py_slice_chunk [of off model k]
      by (subst upload_model.simps) (simp add: Let_def upload_chunk_def io_bind_def stub_call)
  qed
qed

lemma stub_upload_tokenizer:
  "\<not> contains ''Err'' answer \<Longrightarrow>
   \<exists>h'. upload_tokenizer (logged (stub answer file)) sample_icp t tok chunk base starts (w, h) = (Inr None, ((), h'))"
  by (induction starts arbitrary: w h) (auto simp: upload_chunk_def io_bind_def stub_call)

lemma ok_answer: "contains ''Ok'' ''Ok''" "\<not> contains ''Err'' ''Ok''" "\<not> contains ''true'' ''Ok''"
  by (simp_all add: contains_def)

lemma sample_upload:
  assumes "length (model_raw p) \<le> fuel" "0 < k"
  shows "\<exists>rec' h'. upload_stage fuel (logged (stub ''Ok'' file)) sample_icp t (int k) p rec (w, h) =
     (Inr (Continue (rec', length (model_raw p))), ((), h'))"
proof -
  note stub_upload_model [OF ok_answer(2) assms(2), of "model_raw p" 0 fuel]
  then obtain h1 where "upload_model fuel (logged (stub ''Ok'' file)) sample_icp t (model_raw p) (int k) 0
      ((), h @ [engine_command sample_icp engine_did ''begin_upload'' (begin_args p)]) =
      (Inr (Uploaded (length (model_raw p))), ((), h1))"
    using assms(1) by fastforce
  moreover obtain h2 where "upload_tokenizer (logged (stub ''Ok'' file)) sample_icp t (tokenizer_raw p) (int k)
      (length (model_raw p)) (map (\<lambda>i. i * k) [0..<(length (tokenizer_raw p) + k - 1) div k]) ((), h1) = (Inr None, ((), h2))"
    using stub_upload_tokenizer [OF ok_answer(2)] by blast
  ultimately show ?thesis
    using assms(2) by (simp add: upload_stage_def begin_upload_def io_bind_def io_then_def stub_call ok_answer Let_def
        range_step_plan)
qed

theorem measure_tier_ends_witness:
  "\<exists>s h'. measure_tier 57 (logged (stub ''Ok'' sample_manifest)) sample_icp ''t'' sample_args ((), []) =
       (Inl OutOfFuel, ((), h')) \<and>
     h' = s @ replicate 57 (warmup_command sample_icp engine_did)"
proof -
  let ?S = "stub ''Ok'' sample_manifest"
  have first: "\<exists>rec. first_record ''t'' sample_pack = Inr rec"
    by (simp add: first_record_def tensors_def sample_pack_def as_list_def)
  then obtain rec where rec: "first_record ''t'' sample_pack = Inr rec" ..
  have len: "length (model_raw sample_pack) \<le> 57" by (simp add: sample_pack_def sample_manifest_length)
  from sample_upload [OF len, of 1024] obtain rec2 h2 where
    up: "upload_stage 57 (logged ?S) sample_icp 9 1024 sample_pack rec ((), []) =
      (Inr (Continue (rec2, length (model_raw sample_pack))), ((), h2))"
    by fastforce
  have "read_int ''Ok'' = Inr None" by code_simp
  then have "\<exists>h'. measure_tier 57 (logged ?S) sample_icp ''t'' sample_args ((), []) = (Inl OutOfFuel, ((), h'))"
    using rec up stub_warm_loop [OF ok_answer(2,3)]
    by (simp add: measure_tier_def Let_def io_bind_def sample_read sample_args_def io_stage_def
        warm_stage_def stub_call ok_answer)
  then obtain h' where run: "measure_tier 57 (logged ?S) sample_icp ''t'' sample_args ((), []) = (Inl OutOfFuel, ((), h'))" ..
  have files: "\<And>path u b u'. sys_read ?S path u = (Inr b, u') \<Longrightarrow> length b \<le> 57"
    by (simp add: stub_def sample_manifest_length)
  have k: "0 < chunk_kib sample_args" by (simp add: sample_args_def)
  from measure_tier_ends [OF stub_free sample_did k files run] run show ?thesis by auto
qed

text \<open>
  C10: an upload that goes through sends the pack and nothing else: after \<open>begin_upload\<close>, the
  commands are the \<open>upload_chunk\<close> calls of contiguous pieces from offset 0, none empty and none larger
  than the chunk, whose concatenation is the model followed by the tokenizer.
\<close>

theorem upload_covers_pack:
  assumes "upload_stage fuel (logged S) c t (int k) p rec (w, h) = (Inr (Continue (rec', sent)), (w', h'))"
    and "did_of c ''decision-engine'' = Inr d" and "0 < k"
  shows "\<exists>pieces. h' = h @ engine_command c d ''begin_upload'' (begin_args p) # chunk_commands c d pieces \<and>
    concat (map snd pieces) = model_raw p @ tokenizer_raw p \<and> contiguous 0 pieces \<and>
    (\<forall>(off, b) \<in> set pieces. b \<noteq> [] \<and> length b \<le> k) \<and> sent = length (model_raw p)"
proof -
  let ?pieces = "chunk_plan k 0 (model_raw p) @ chunk_plan k (length (model_raw p)) (tokenizer_raw p)"
  note cover = chunk_plan_cover [OF assms(3), of 0 "model_raw p"]
    chunk_plan_cover [OF assms(3), of "length (model_raw p)" "tokenizer_raw p"]
  have "contiguous 0 ?pieces" using cover by (simp add: contiguous_append)
  moreover have "\<forall>(off, b) \<in> set ?pieces. b \<noteq> [] \<and> length b \<le> k" using cover by auto
  ultimately show ?thesis
    using upload_stage_log [OF assms] cover by (intro exI [of _ ?pieces]) simp
qed

theorem upload_covers_pack_witness:
  "\<exists>rec' h' pieces. upload_stage 57 (logged (stub ''Ok'' [])) sample_icp 9 (int 32) sample_pack JNull ((), []) =
      (Inr (Continue (rec', 57)), ((), h')) \<and>
    concat (map snd pieces) = model_raw sample_pack @ tokenizer_raw sample_pack \<and>
    tl h' = chunk_commands sample_icp engine_did pieces"
proof -
  have len: "length (model_raw sample_pack) = 57" by (simp add: sample_pack_def sample_manifest_length)
  then obtain rec' h' where u: "upload_stage 57 (logged (stub ''Ok'' [])) sample_icp 9 (int 32) sample_pack JNull ((), []) =
      (Inr (Continue (rec', 57)), ((), h'))"
    using sample_upload [of sample_pack 57 32] by fastforce
  from upload_covers_pack [OF u sample_did] u show ?thesis by fastforce
qed

text \<open>
  The number of chunks that is reported is at most one less than the number sent, and it is less
  when the model does not end on a chunk boundary and the two rests fit one chunk.
\<close>

theorem reported_chunks:
  assumes "upload_stage fuel (logged S) c t (int k) p (JObj []) (w, h) = (Inr (Continue (rec', sent)), (w', h'))"
    and "did_of c ''decision-engine'' = Inr d" and "0 < k"
  shows "\<exists>n. rec' = JObj [(''upload'', JObj [(''ok'', JBool True), (''chunks'', JInt n)])] \<and>
    n \<le> int (length h' - length h - 1) \<and> int (length h' - length h - 1) \<le> n + 1"
proof -
  let ?m = "length (model_raw p)" and ?t = "length (tokenizer_raw p)"
  let ?n = "(int ?m + int ?t + int k - 1) div int k"
  note L = upload_stage_log [OF assms]
  then have rec': "rec' = JObj [(''upload'', JObj [(''ok'', JBool True), (''chunks'', JInt ?n)])]"
    by (simp add: set_in_def set_key_def)
  have sent: "length h' - length h - 1 = (?m + k - 1) div k + (?t + k - 1) div k"
    using L chunk_plan_length [OF assms(3)] by (simp add: chunk_commands_def)
  have n: "?n = int ((?m + ?t + k - 1) div k)" using assms(3) by (simp add: zdiv_int of_nat_diff)
  show ?thesis using ceil_sum [OF assms(3), of ?m ?t] rec' n sent by (intro exI [of _ ?n]) simp
qed

text \<open>One chunk is reported and two are sent: a model and a tokenizer of 57 bytes, in chunks of 128.\<close>

theorem reported_chunks_witness:
  "\<exists>rec' h'. upload_stage 57 (logged (stub ''Ok'' [])) sample_icp 9 (int 128) sample_pack (JObj []) ((), []) =
      (Inr (Continue (rec', 57)), ((), h')) \<and>
    rec' = JObj [(''upload'', JObj [(''ok'', JBool True), (''chunks'', JInt 1)])] \<and> length h' = 3"
proof -
  have len: "length (model_raw sample_pack) = 57" "length (tokenizer_raw sample_pack) = 57"
    by (simp_all add: sample_pack_def sample_manifest_length)
  then obtain rec' h' where u: "upload_stage 57 (logged (stub ''Ok'' [])) sample_icp 9 (int 128) sample_pack (JObj []) ((), []) =
      (Inr (Continue (rec', 57)), ((), h'))"
    using sample_upload [of sample_pack 57 128] by fastforce
  have "length h' = 3"
    using upload_stage_log [OF u sample_did] len by (simp add: chunk_plan_length chunk_commands_def)
  moreover from reported_chunks [OF u sample_did] obtain n where
    "rec' = JObj [(''upload'', JObj [(''ok'', JBool True), (''chunks'', JInt n)])]" by auto
  moreover have "rec' = set_in ''upload'' ''chunks'' (JInt 1) (set_key ''upload'' (JObj [(''ok'', JBool True)]) (JObj []))"
    using upload_stage_log [OF u sample_did] len by simp
  ultimately show ?thesis using u by (simp add: set_in_def set_key_def)
qed

section \<open>The commands of a run\<close>

definition build_command :: "string list" where
  "build_command = [''bash'', ''tools/build_one.sh'', ''decision-engine'']"

lemma upload_model_orderly:
  "icp_identity c \<in> names \<Longrightarrow> emits (orderly c names) (upload_model fuel (logged S) c t model chunk off)"
  by (induction fuel arbitrary: off; subst upload_model.simps)
    (auto simp: upload_chunk_def Let_def intro!: emits_intros)

lemma loops_orderly:
  assumes "icp_identity c \<in> names"
  shows "emits (orderly c names) (upload_tokenizer (logged S) c t tok chunk base starts)"
    and "emits (orderly c names) (warm_loop fuel (logged S) c t count)"
    and "emits (orderly c names) (first_refusal (logged S) c t meth args ss)"
proof -
  show "emits (orderly c names) (upload_tokenizer (logged S) c t tok chunk base starts)"
    by (induction starts) (auto simp: upload_chunk_def intro!: emits_intros assms)
  show "emits (orderly c names) (warm_loop fuel (logged S) c t count)"
    by (induction fuel arbitrary: count) (auto intro!: emits_intros assms)
  show "emits (orderly c names) (first_refusal (logged S) c t meth args ss)"
    by (induction ss) (auto intro!: emits_intros assms)
qed

lemma emits_stage [emits_intros]:
  "emits Q m \<Longrightarrow> (\<And>x. emits Q (f x)) \<Longrightarrow> emits Q (io_stage m f)"
  by (auto simp: io_stage_def split: stage.split intro!: emits_intros)

lemma read_pack_orderly: "emits Q (read_pack (logged S) e dir)"
  by (simp add: read_pack_def emits_intros)

lemma measure_tier_orderly:
  assumes "icp_identity c \<in> names"
  shows "emits (orderly c names) (measure_tier fuel (logged S) c tier args)"
proof -
  note L = upload_model_orderly [OF assms] loops_orderly [OF assms]
  have "emits (orderly c names) (upload_stage fuel (logged S) c t chunk p rec)" for t chunk p rec
    by (auto simp: upload_stage_def begin_upload_def Let_def split: upload_outcome.split intro!: emits_intros L assms)
  moreover have "emits (orderly c names) (warm_stage fuel (logged S) c t p sent rec)" for t p sent rec
    by (auto simp: warm_stage_def Let_def intro!: emits_intros L assms)
  moreover have "emits (orderly c names) (register_stage (logged S) c t p rec)" for t p rec
    by (auto simp: register_stage_def Let_def intro!: emits_intros L assms)
  moreover have "emits (orderly c names) (evaluate_one (logged S) c t tier b n s)" for t b n s
    by (auto simp: evaluate_one_def intro!: emits_intros assms)
  ultimately show ?thesis
    by (auto simp: measure_tier_def Let_def intro!: emits_intros read_pack_orderly)
qed

lemma measure_session_orderly:
  assumes "icp_identity c \<in> names"
  shows "emits (orderly c names) (measure_session fuel (logged S) c args ts)"
proof -
  have "emits (orderly c names) (tier_result fuel (logged S) c args tier)" for tier
    unfolding tier_result_def
    by (intro emits_intros measure_tier_orderly [OF assms]) (auto split: exn.splits intro: emits_intros)
  then show ?thesis
    using assms by (auto simp: measure_session_def admit_caller_def intro!: emits_intros)
qed

lemma orderly_not_managing: "emits (orderly c {icp_identity c}) m \<Longrightarrow> emits (\<lambda>cmd. \<not> manages_network cmd) m"
  by (erule emits_mono) (simp add: orderly_def)

text \<open>The commands that start and stop the network, and what a bracketed run logs.\<close>

definition start_command :: "icp \<Rightarrow> string list" where
  "start_command c = [''icp'', ''network'', ''start'', ''-d'', ''-e'', icp_env c, ''--project-root-override'', icp_root c]"

definition stop_command :: "icp \<Rightarrow> string list" where
  "stop_command c = [''icp'', ''network'', ''stop'', ''-e'', icp_env c, ''--project-root-override'', icp_root c]"

definition orderly_log :: "string list list \<Rightarrow> bool" where
  "orderly_log s \<longleftrightarrow> list_all (\<lambda>cmd. \<not> manages_network cmd) s"

lemma emits_orderly_log:
  assumes "emits (orderly c names) m" "m (w, h) = (r, (w', h'))"
  shows "\<exists>s. h' = h @ s \<and> orderly_log s"
proof -
  obtain s where "h' = h @ s" "list_all (orderly c names) s" using assms unfolding emits_def by blast
  then show ?thesis by (auto simp: orderly_log_def orderly_def list_all_iff)
qed

lemma start_log:
  "run (logged S) c [''network'', ''start'', ''-d'', ''-e'', icp_env c] ok i t (w, h) = (r, (w', h')) \<Longrightarrow>
   h' = h @ [start_command c]"
  by (drule run_log) (auto simp: start_command_def)

lemma stop_log:
  "run (logged S) c [''network'', ''stop'', ''-e'', icp_env c] ok i t (w, h) = (r, (w', h')) \<Longrightarrow>
   h' = h @ [stop_command c]"
  by (drule run_log) (auto simp: stop_command_def)

lemma finally_log:
  assumes "io_finally m f (w, h) = (r, (w', h'))" "emits (orderly c names) m"
    and "\<And>v l q v' l'. f (v, l) = (q, (v', l')) \<Longrightarrow> l' = l @ tail"
  shows "\<exists>s. h' = h @ s @ tail \<and> orderly_log s"
proof -
  obtain q w1 h1 where q: "m (w, h) = (q, (w1, h1))" by (metis prod_cases3)
  obtain p w2 h2 where p: "f (w1, h1) = (p, (w2, h2))" by (metis prod_cases3)
  have "h' = h2" using assms(1) q p by (auto simp: io_finally_def split: sum.splits)
  then show ?thesis using emits_orderly_log [OF assms(2) q] assms(3) [OF p] by auto
qed

text \<open>A session between the start and the stop of a network that was not running.\<close>

definition bracketed :: "icp \<Rightarrow> bool \<Rightarrow> string list list \<Rightarrow> bool" where
  "bracketed c ok s \<longleftrightarrow> orderly_log s \<or>
     (\<exists>a. orderly_log a \<and> s = a @ [start_command c] \<and> \<not> ok) \<or>
     (\<exists>a b. orderly_log a \<and> orderly_log b \<and> s = a @ [start_command c] @ b @ [stop_command c])"

lemma bracketed_after:
  assumes "orderly_log a" "bracketed c ok s"
  shows "bracketed c ok (a @ s)"
proof -
  have o: "orderly_log (a @ t) \<longleftrightarrow> orderly_log t" for t using assms(1) by (simp add: orderly_log_def)
  show ?thesis using assms(2) unfolding bracketed_def by (metis append.assoc o)
qed

definition network_bracket :: "'w system \<Rightarrow> icp \<Rightarrow> ('w, unit) io \<Rightarrow> json \<Rightarrow> ('w, int) io" where
  "network_bracket S c session status =
     io_then (io_when (status = JNull)
        (io_then (run S c [''network'', ''start'', ''-d'', ''-e'', icp_env c] True OwnIdentity 300) (io_ret ())))
      (io_then (io_finally session (io_when (status = JNull)
        (io_then (run S c [''network'', ''stop'', ''-e'', icp_env c] False OwnIdentity 300) (io_ret ()))))
       (io_ret 0))"

lemma network_bracket_log:
  assumes session: "emits (orderly c {icp_identity c}) session"
    and run: "network_bracket (logged S) c session status (w, h) = (r, (w', h'))"
  shows "\<exists>s. h' = h @ s \<and> bracketed c (is_ok r) s"
proof (cases "status = JNull")
  case False
  then obtain r1 where "io_finally session (io_ret ()) (w, h) = (r1, (w', h'))"
    using run by (auto simp: network_bracket_def io_then_def io_bind_def split: prod.splits sum.splits)
  from finally_log [OF this session, of "[]"] show ?thesis by (auto simp: bracketed_def)
next
  case True
  let ?stop = "io_then (run (logged S) c [''network'', ''stop'', ''-e'', icp_env c] False OwnIdentity 300) (io_ret ())"
  obtain r2 w2 h2 where start:
    "run (logged S) c [''network'', ''start'', ''-d'', ''-e'', icp_env c] True OwnIdentity 300 (w, h) = (r2, (w2, h2))"
    by (metis prod_cases3)
  have nil: "orderly_log []" by (simp add: orderly_log_def)
  show ?thesis
  proof (cases r2)
    case (Inl x)
    then have "h' = h2 \<and> \<not> is_ok r"
      using run True start by (auto simp: network_bracket_def io_then_def io_bind_def)
    then show ?thesis using start_log [OF start] nil unfolding bracketed_def by (metis append_Nil)
  next
    case (Inr out)
    then obtain r1 where "io_finally session ?stop (w2, h2) = (r1, (w', h'))"
      using run True start
      by (auto simp: network_bracket_def io_then_def io_bind_def split: prod.splits sum.splits)
    moreover have "\<And>v l p v' l'. ?stop (v, l) = (p, (v', l')) \<Longrightarrow> l' = l @ [stop_command c]"
      using stop_log by (fastforce simp: io_then_def io_bind_def split: prod.splits sum.splits)
    ultimately obtain s where "h' = h2 @ s @ [stop_command c]" "orderly_log s"
      using finally_log [OF _ session] by blast
    then have "h' = h @ [start_command c] @ s @ [stop_command c]" "orderly_log s" using start_log [OF start] by simp_all
    then show ?thesis using nil unfolding bracketed_def by (metis append_Nil)
  qed
qed

text \<open>The shape of the two measurement mains: checks, then a session in a bracket.\<close>

definition bracketed_main :: "'w system \<Rightarrow> icp \<Rightarrow> bool \<Rightarrow> ('w, unit) io \<Rightarrow> ('w, int) io" where
  "bracketed_main S c build session =
     io_bind (io_then (io_when build (build_engine S))
          (io_bind (sys_exists S (engine_wasm S)) (\<lambda>there.
           io_then (io_guard there (Failure ''build/decision-engine.wasm missing''))
           (io_then (require_local_network S c) (network_status S c)))))
       (network_bracket S c session)"

lemma bracketed_main_unfold:
  "bracketed_main S c build session =
     io_then (io_when build (build_engine S))
        (io_bind (sys_exists S (engine_wasm S)) (\<lambda>there.
         io_then (io_guard there (Failure ''build/decision-engine.wasm missing''))
         (io_then (require_local_network S c)
         (io_bind (network_status S c) (\<lambda>status.
         io_then (io_when (status = JNull)
           (io_then (run S c [''network'', ''start'', ''-d'', ''-e'', icp_env c] True OwnIdentity 300) (io_ret ())))
         (io_then (io_finally session
           (io_when (status = JNull)
             (io_then (run S c [''network'', ''stop'', ''-e'', icp_env c] False OwnIdentity 300) (io_ret ()))))
         (io_ret 0)))))))"
  by (simp add: bracketed_main_def network_bracket_def [abs_def] io_then_def io_bind_assoc)

lemma bracketed_main_log:
  assumes "emits (orderly c {icp_identity c}) session"
  shows "case bracketed_main (logged S) c build session (w, h) of (r, (_, h')) \<Rightarrow>
    \<exists>s. h' = h @ s \<and> bracketed c (is_ok r) s"
proof -
  let ?pre = "io_then (io_when build (build_engine (logged S)))
        (io_bind (sys_exists (logged S) (engine_wasm (logged S))) (\<lambda>there.
         io_then (io_guard there (Failure ''build/decision-engine.wasm missing''))
         (io_then (require_local_network (logged S) c) (network_status (logged S) c))))"
  have "emits (\<lambda>cmd. \<not> manages_network cmd) (build_engine (logged S))"
    by (auto simp: build_engine_def manages_network_def intro!: emits_intros emits_sys_run)
  then have pre: "emits (\<lambda>cmd. \<not> manages_network cmd) ?pre"
    by (intro emits_intros) (auto intro!: orderly_not_managing setup_orderly)
  obtain q w1 h1 where q: "?pre (w, h) = (q, (w1, h1))" by (metis prod_cases3)
  then obtain a where a: "h1 = h @ a" "orderly_log a"
    using pre unfolding emits_def orderly_log_def by blast
  obtain r w' h' where m: "bracketed_main (logged S) c build session (w, h) = (r, (w', h'))" by (metis prod_cases3)
  have "\<exists>s. h' = h1 @ s \<and> bracketed c (is_ok r) s"
  proof (cases q)
    case (Inl x)
    then have "h' = h1 @ []" using m q unfolding bracketed_main_def by (simp add: io_bind_def)
    then show ?thesis by (auto simp: bracketed_def orderly_log_def)
  next
    case (Inr status)
    then have "network_bracket (logged S) c session status (w1, h1) = (r, (w', h'))"
      using m q unfolding bracketed_main_def by (simp add: io_bind_def)
    from network_bracket_log [OF assms this] show ?thesis .
  qed
  then obtain s where "h' = h @ (a @ s)" "bracketed c (is_ok r) (a @ s)"
    using a bracketed_after by auto
  then show ?thesis using m by auto
qed

lemma bracketed_main_addressed:
  assumes "emits (orderly c {icp_identity c}) session"
  shows "emits (\<lambda>cmd. cmd = build_command \<or> addressed c {icp_identity c} cmd) (bracketed_main (logged S) c build session)"
proof -
  let ?Q = "\<lambda>cmd. cmd = build_command \<or> addressed c {icp_identity c} cmd"
  have i: "icp_identity c \<in> {icp_identity c}" by simp
  have weak: "emits (orderly c {icp_identity c}) m \<Longrightarrow> emits ?Q m" for m :: "('a \<times> string list list, 'b) io"
    by (erule emits_mono) (simp add: orderly_def)
  have "emits ?Q (build_engine (logged S))"
    by (auto simp: build_engine_def build_command_def intro!: emits_intros emits_sys_run)
  moreover have "emits ?Q (run (logged S) c (''network'' # as) ok OwnIdentity t)" for as ok t
    by (rule emits_mono [OF run_addressed [OF i]]) simp
  ultimately show ?thesis
    unfolding bracketed_main_unfold by (intro emits_intros) (auto intro!: weak setup_orderly assms)
qed

lemma measure_main_bracket:
  "measure_main fuel S args =
     (let c = new_icp S (repo_root S) (arg_env args) (arg_identity args) in
      bracketed_main S c (\<not> skip_build args) (measure_session fuel S c args
          (if tiers args = [] then [''measure-s'', ''measure-m''] else tiers args)))"
proof -
  have e: "icp_env (new_icp S (repo_root S) (arg_env args) (arg_identity args)) = arg_env args"
    by (simp add: new_icp_def)
  show ?thesis unfolding measure_main_def Let_def bracketed_main_unfold e ..
qed

lemma new_icp_logged: "new_icp (logged S) (repo_root (logged S)) e i = new_icp S (repo_root S) e i"
  by (simp add: new_icp_def BUILD_def logged_def)

lemma icp_identity_new [simp]: "icp_identity (new_icp S r e i) = i"
  by (simp add: new_icp_def)

text \<open>
  C31: a run manages the network as a bracket: either it issues neither a start nor a stop; or its
  last command is a start and the run raises; or it issues one start, then commands that do
  neither, and at last one stop, whatever happened in between.
\<close>

theorem measure_main_brackets_network:
  "case measure_main fuel (logged S) args (w, h) of (r, (_, h')) \<Rightarrow>
     \<exists>s. h' = h @ s \<and>
       bracketed (new_icp S (repo_root S) (arg_env args) (arg_identity args)) (is_ok r) s"
  unfolding measure_main_bracket Let_def new_icp_logged by (intro bracketed_main_log measure_session_orderly) simp

text \<open>
  Every command that a run issues, but for the build, is bound to the repository's project and
  names the given identity, unless it manages the network or the identities; so no command runs
  under the ambient default identity.
\<close>

theorem measure_main_addressed:
  "emits (\<lambda>cmd. cmd = build_command \<or>
      addressed (new_icp S (repo_root S) (arg_env args) (arg_identity args)) {arg_identity args} cmd)
    (measure_main fuel (logged S) args)"
  unfolding measure_main_bracket Let_def new_icp_logged
  by (rule bracketed_main_addressed [of "new_icp S (repo_root S) (arg_env args) (arg_identity args)", unfolded icp_identity_new])
    (rule measure_session_orderly, simp)

text \<open>The command that asks for the status of the network.\<close>

definition status_command :: "icp \<Rightarrow> string list" where
  "status_command c =
     [''icp'', ''network'', ''status'', ''-e'', icp_env c, ''--json'', ''--project-root-override'', icp_root c]"

lemma any_network_status_logged:
  "any_network_status (logged S) c (w, h) =
     (case any_network_status S c w of (r, w') \<Rightarrow> (r, (w', h @ [status_command c])))"
  by (auto simp: any_network_status_def run_def logged_def io_bind_def status_command_def
      split: prod.splits sum.splits if_splits)

lemma build_engine_logged:
  "build_engine (logged S) (w, h) = (case build_engine S w of (r, w') \<Rightarrow> (r, (w', h @ [build_command])))"
  by (auto simp: build_engine_def logged_def io_bind_def io_guard_def build_command_def split: prod.splits sum.splits if_splits)

lemma require_local_raises:
  assumes "\<And>st w'. any_network_status S c w = (Inr st, w') \<Longrightarrow> remote_network st = Inr True"
  shows "\<exists>e w'. require_local_network (logged S) c (w, h) = (Inl e, (w', h @ [status_command c]))"
proof -
  obtain q w' where q: "any_network_status S c w = (q, w')" by (cases "any_network_status S c w")
  then have l: "any_network_status (logged S) c (w, h) = (q, (w', h @ [status_command c]))"
    by (simp add: any_network_status_logged)
  show ?thesis
  proof (cases q)
    case (Inl e)
    then show ?thesis using l by (simp add: require_local_network_def io_bind_def)
  next
    case (Inr st)
    then show ?thesis using require_local_refuses l q assms by metis
  qed
qed


definition remote_status :: string where
  "remote_status = ''{'' @ json_string ''managed'' @ '':false,'' @ json_string ''api_url'' @ '':'' @
     json_string ''https://icp-api.io'' @ ''}''"

lemma remote_status_json:
  "from_brace remote_status = Some remote_status"
  "json_loads remote_status = Inr (JObj [(''managed'', JBool False), (''api_url'', JStr ''https://icp-api.io'')])"
  by code_simp+

definition building_args :: measure_args where
  "building_args = sample_args\<lparr>skip_build := False\<rparr>"


end
