(* ===== verification/Measure_Common.thy ===== *)
theory Measure_Common
  imports Measure_Proofs
begin

text \<open>
  \<open>tools/measure_common.py\<close>, the machinery the later measurement scripts share: its own port of the
  schema compilation and of the Candid rendering, and an upload that raises where
  \<open>measure_inference.py\<close> records a refusal.  The ports are proved equal to those of
  \<open>measure_inference.py\<close>.
\<close>

section \<open>The ports\<close>

definition mc_SPECIAL :: "(string \<times> int) list" where
  "mc_SPECIAL = [(''cls'', 1), (''sep'', 2), (''mask'', 3), (''pad'', 0)]"

definition mc_SPECIAL_LITERALS :: "string list" where
  "mc_SPECIAL_LITERALS = [''[CLS]'', ''[SEP]'', ''[MASK]'', ''[PAD]'']"

abbreviation mc_special :: "string \<Rightarrow> int" where
  "mc_special k \<equiv> the (map_of mc_SPECIAL k)"

definition mc_fixture_encode :: "string \<Rightarrow> int list" where
  "mc_fixture_encode text = map (\<lambda>word. 10 + int (be_nat (take 2 (sha256 (encode word))))) (split_ws text)"

definition mc_canon_bytes :: "bytes \<Rightarrow> bytes \<Rightarrow> bytes res" where
  "mc_canon_bytes value buf = res_bind (to_bytes_be 8 (int (length value))) (\<lambda>l. Inr (buf @ l @ value))"

definition mc_canon_u64 :: "int \<Rightarrow> bytes \<Rightarrow> bytes res" where
  "mc_canon_u64 value buf = res_bind (to_bytes_be 8 value) (\<lambda>l. Inr (buf @ l))"

definition mc_canon_text :: "string \<Rightarrow> bytes \<Rightarrow> bytes res" where
  "mc_canon_text value buf = mc_canon_bytes (encode value) buf"

definition mc_canon_new :: "string \<Rightarrow> bytes res" where
  "mc_canon_new domain = mc_canon_bytes (encode domain) []"

definition mc_blob :: "bytes \<Rightarrow> string" where
  "mc_blob value = ''blob '' @ [CHR 0x22] @ concat (map esc value) @ [CHR 0x22]"

definition mc_principal :: "string \<Rightarrow> string" where
  "mc_principal p = ''principal '' @ json_string p"

fun mc_mark_options :: "(string \<times> string) list \<Rightarrow> int list \<Rightarrow> nat list \<Rightarrow> int list \<times> nat list" where
  "mc_mark_options [] toks markers = (toks, markers)"
| "mc_mark_options ((_, text) # opts) toks markers =
     mc_mark_options opts (toks @ [mc_special ''mask''] @ mc_fixture_encode text) (markers @ [length toks])"

fun mc_canon_options :: "(string \<times> string) list \<Rightarrow> bytes \<Rightarrow> bytes res" where
  "mc_canon_options [] h = Inr h"
| "mc_canon_options ((i, text) # opts) h =
     res_bind (mc_canon_text i h) (\<lambda>h. res_bind (mc_canon_text text h) (mc_canon_options opts))"

definition mc_compiled_schema :: "schema \<Rightarrow> bytes \<Rightarrow> compiled res" where
  "mc_compiled_schema s tokenizer_hash =
     (let question = lower (schema_primitive s) @ '' question: '' @ schema_instructions s;
          (toks, markers) = mc_mark_options (schema_options s)
            ([mc_special ''cls''] @ mc_fixture_encode question @ [mc_special ''sep'']) []
      in res_bind (mc_canon_new ''ic-laya/schema/v1'') (\<lambda>h.
         res_bind (mc_canon_text (schema_id s) h) (\<lambda>h.
         res_bind (mc_canon_u64 1 h) (\<lambda>h.
         res_bind (mc_canon_u64 (schema_tag s) h) (\<lambda>h.
         res_bind (mc_canon_text (schema_instructions s) h) (\<lambda>h.
         res_bind (mc_canon_u64 (int (length (schema_options s))) h) (\<lambda>h.
         res_bind (mc_canon_options (schema_options s) h) (\<lambda>h.
         res_bind (mc_canon_bytes tokenizer_hash h) (\<lambda>h.
         res_bind (mc_canon_text ''Compact128-v1'' h) (\<lambda>h.
           Inr \<lparr>schema_id = schema_id s, schema_primitive = schema_primitive s, schema_tag = schema_tag s,
                schema_instructions = schema_instructions s, schema_options = schema_options s,
                compiled_prefix = toks @ [mc_special ''sep''], compiled_markers = markers,
                compiled_hash = sha256 h, compiled_tokenizer = tokenizer_hash\<rparr>))))))))))"

definition mc_candid_schema :: "'a schema_scheme \<Rightarrow> string" where
  "mc_candid_schema s =
     ''record { id = '' @ json_string (schema_id s) @ ''; version = 1 : nat64; primitive = variant { '' @
     schema_primitive s @ '' }; instructions = '' @ json_string (schema_instructions s) @
     ''; options = vec { '' @ join ''; '' (map (\<lambda>(i, t). ''record { id = '' @ json_string i @ ''; text = '' @
       json_string t @ '' }'') (schema_options s)) @ '' } }''"

definition mc_special_text :: string where
  "mc_special_text =
     ''record { cls = '' @ int_str (mc_special ''cls'') @ '' : nat32; sep = '' @ int_str (mc_special ''sep'') @
     '' : nat32; mask = '' @ int_str (mc_special ''mask'') @ '' : nat32; pad = '' @ int_str (mc_special ''pad'') @
     '' : nat32; literals = vec { '' @ join ''; '' (map json_string mc_SPECIAL_LITERALS) @ '' } }''"

definition mc_candid_compiled :: "compiled \<Rightarrow> string" where
  "mc_candid_compiled s =
     ''record { schema = '' @ mc_candid_schema s @ ''; schema_hash = '' @ mc_blob (compiled_hash s) @
     ''; tokenizer_hash = '' @ mc_blob (compiled_tokenizer s) @
     ''; prefix = vec { '' @ join ''; '' (map int_str (compiled_prefix s)) @
     '' }; markers = vec { '' @ join ''; '' (map nat_str (compiled_markers s)) @
     '' }; special = '' @ mc_special_text @ ''; qtype_id = '' @ int_str (schema_tag s) @ '' : nat32 }''"

definition mc_read_int :: "string \<Rightarrow> int option res" where
  "mc_read_int output = (case search rx_nat_result output of
     None \<Rightarrow> Inr None
   | Some m \<Rightarrow> res_bind (read_number (group 1 m)) (\<lambda>n. Inr (Some n)))"

section \<open>Upload and warm-up, raising on a refusal\<close>

definition rejected :: "string \<Rightarrow> string \<Rightarrow> exn" where
  "rejected label out = RuntimeError (label @ '': '' @ take 200 (strip out))"

text \<open>\<open>for start in range(0, len(model) + len(tokenizer), chunk)\<close>: one sequence of chunks over both files.\<close>

fun mc_send_chunks :: "'w system \<Rightarrow> icp \<Rightarrow> int \<Rightarrow> bytes \<Rightarrow> int \<Rightarrow> nat list \<Rightarrow> ('w, unit) io" where
  "mc_send_chunks S c timeout area chunk [] = io_ret ()"
| "mc_send_chunks S c timeout area chunk (start # starts) =
     io_bind (call S c ''decision-engine'' ''upload_chunk''
       (''('' @ nat_str start @ '' : nat64, '' @ mc_blob (py_slice (int start) (int start + chunk) area) @ '')'') True timeout) (\<lambda>result.
       if contains ''Err'' result
       then io_raise (rejected (''upload_chunk at '' @ nat_str start) result)
       else mc_send_chunks S c timeout area chunk starts)"

fun mc_warm_loop :: "nat \<Rightarrow> 'w system \<Rightarrow> icp \<Rightarrow> int \<Rightarrow> json list \<Rightarrow> nat \<Rightarrow> ('w, unit) io" where
  "mc_warm_loop 0 S c timeout ts count = io_raise OutOfFuel"
| "mc_warm_loop (Suc n) S c timeout ts count =
     io_bind (call S c ''decision-engine'' ''warmup_next'' ''()'' False timeout) (\<lambda>step.
       if contains ''Err'' step
       then io_bind (io_lift (failed_tensor ts count)) (\<lambda>nm.
            io_bind (io_lift (bytes_loaded ts count)) (\<lambda>_.
            io_bind (io_lift (if count < length ts \<and> truthy (ts ! count) then py_str nm else Inr ''?'')) (\<lambda>label.
              io_raise (RuntimeError (''warmup_next failed at tensor '' @ nat_str count @ '' ('' @ label @ '')'')))))
       else if contains ''true'' step then io_ret ()
       else mc_warm_loop n S c timeout ts (Suc count))"

definition upload_pack :: "nat \<Rightarrow> 'w system \<Rightarrow> icp \<Rightarrow> string \<Rightarrow> int \<Rightarrow> int \<Rightarrow> ('w, json \<times> bytes) io" where
  "upload_pack fuel S c tier kib timeout =
     io_bind (read_pack S (RuntimeError (''fixtures/'' @ tier @ '' missing; run tools/generate_fixtures.py --tier '' @ tier))
         (fixture_dir S tier)) (\<lambda>p.
     io_bind (io_lift (first_record tier p)) (\<lambda>rec.
     io_bind (call S c ''decision-engine'' ''begin_upload''
         (''('' @ mc_blob (manifest_raw p) @ '', '' @ nat_str (length (tokenizer_raw p)) @ '' : nat64, '' @ mc_special_text @ '')'')
         False timeout) (\<lambda>out.
     io_then (io_guard (contains ''Ok'' out) (rejected ''begin_upload rejected'' out))
     (let chunk = kib * 1024; area = model_raw p @ tokenizer_raw p
      in io_bind (io_lift (range_step (length area) chunk)) (\<lambda>starts.
         io_then (mc_send_chunks S c timeout area chunk starts)
         (io_bind (call S c ''decision-engine'' ''start_warmup'' ''()'' False timeout) (\<lambda>warm.
          io_then (io_guard (contains ''Ok'' warm) (rejected ''start_warmup rejected'' warm))
          (io_bind (io_lift (mc_read_int warm)) (\<lambda>t.
           io_bind (io_lift (tensors p)) (\<lambda>ts.
           io_then (mc_warm_loop fuel S c timeout ts 0)
           (io_ret (set_key ''warmup'' (JObj [(''ok'', JBool True),
                       (''tensors'', JInt (case t of Some n \<Rightarrow> n | None \<Rightarrow> 0))])
                     (set_key ''upload'' (JObj [(''ok'', JBool True),
                       (''chunks'', JInt ((int (length area) + chunk - 1) div chunk))]) rec),
                   manifest_raw p))))))))))))"

section \<open>Registration and requests\<close>

record calibrated = compiled +
  calibration :: bytes

definition with_calibration :: "bytes \<Rightarrow> compiled \<Rightarrow> calibrated" where
  "with_calibration k s = \<lparr>schema_id = schema_id s, schema_primitive = schema_primitive s, schema_tag = schema_tag s,
     schema_instructions = schema_instructions s, schema_options = schema_options s,
     compiled_prefix = compiled_prefix s, compiled_markers = compiled_markers s,
     compiled_hash = compiled_hash s, compiled_tokenizer = compiled_tokenizer s, calibration = k\<rparr>"

definition register_schemas ::
  "'w system \<Rightarrow> icp \<Rightarrow> bytes \<Rightarrow> bytes \<Rightarrow> schema list \<Rightarrow> int \<Rightarrow> ('w, calibrated list \<times> bytes \<times> int) io" where
  "register_schemas S c manifest_bytes tokenizer_bytes schemas timeout =
     (let tokenizer_hash = sha256 tokenizer_bytes; bundle = sha256 manifest_bytes
      in io_bind (io_lift (mapM (\<lambda>s. mc_compiled_schema s tokenizer_hash) schemas)) (\<lambda>compiled.
         io_then (io_for compiled (\<lambda>s.
           io_bind (call S c ''decision-engine'' ''register_schema''
             (''('' @ mc_candid_schema s @ '', '' @ int_str (schema_tag s) @ '' : nat32)'') False timeout) (\<lambda>out.
             io_guard (\<not> contains ''Err'' out) (rejected (''register_schema '' @ schema_id s) out))))
         (io_bind (sys_time_ns S) (\<lambda>t.
            let now_ns = t + 300000000000
            in io_bind (io_map (\<lambda>s.
                 let k = sha256 (encode ''measure-calibration-'' @ bundle @ encode (schema_id s))
                 in io_bind (call S c ''decision-engine'' ''register_calibration''
                      (''(record { id = '' @ mc_blob k @ ''; model = '' @ mc_blob bundle @ ''; schema = '' @
                       mc_blob (compiled_hash s) @ ''; tokenizer = '' @ mc_blob tokenizer_hash @
                       ''; temperature = 1.0; expires_at_ns = '' @ int_str now_ns @ '' : nat64; holdout_hash = '' @
                       mc_blob (sha256 (encode ''SYNTHETIC-NOT-REAL-HOLDOUT'')) @
                       ''; sample_count = 1 : nat64; test_only = true })'') False timeout) (\<lambda>out.
                    io_then (io_guard (\<not> contains ''Err'' out) (rejected (''register_calibration '' @ schema_id s) out))
                      (io_ret (with_calibration k s)))) compiled) (\<lambda>done.
                 io_ret (done, bundle, now_ns))))))"

definition decision_request :: "calibrated \<Rightarrow> bytes \<Rightarrow> bytes \<Rightarrow> string \<Rightarrow> int \<Rightarrow> string" where
  "decision_request s bundle evaluation_id state now_ns =
     ''(record { evaluation_id = '' @ mc_blob evaluation_id @ ''; schema_hash = '' @ mc_blob (compiled_hash s) @
     ''; model = '' @ mc_blob bundle @ ''; calibration = opt '' @ mc_blob (calibration s) @
     ''; binding = null; state = '' @ json_string state @ ''; expires_at_ns = '' @ int_str now_ns @ '' : nat64 })''"

section \<open>Lemmas: the ports agree\<close>

named_theorems port_defs \<open>definitions repeated from another file\<close>

lemma mc_constants [port_defs]:
  "mc_SPECIAL = SPECIAL" "mc_SPECIAL_LITERALS = SPECIAL_LITERALS" "mc_fixture_encode = fixture_encode"
  "mc_canon_bytes = canon_bytes" "mc_canon_u64 = canon_u64" "mc_blob = blob" "mc_principal = principal"
  "mc_read_int = read_int" "mc_special_text = candid_special"
  by (simp_all add: fun_eq_iff mc_SPECIAL_def SPECIAL_def mc_SPECIAL_LITERALS_def SPECIAL_LITERALS_def
      mc_fixture_encode_def fixture_encode_def mc_canon_bytes_def canon_bytes_def mc_canon_u64_def
      canon_u64_def mc_blob_def blob_def mc_principal_def principal_def mc_read_int_def read_int_def
      read_match_def mc_special_text_def candid_special_def)

lemma mc_canon [port_defs]: "mc_canon_text = canon_text" "mc_canon_new = canon_new"
  by (simp_all add: fun_eq_iff mc_canon_text_def canon_text_def mc_canon_new_def canon_new_def mc_constants)

lemma mc_mark_options_eq [port_defs]: "mc_mark_options os toks ms = mark_options os toks ms"
  by (induction os toks ms rule: mark_options.induct) (simp_all add: port_defs)

lemma mc_canon_options_eq [port_defs]: "mc_canon_options os h = canon_options os h"
  by (induction os h rule: canon_options.induct) (simp_all add: port_defs cong: res_bind_cong)

text \<open>
  The two ports of the schema compilation and of its rendering are the same functions: a schema
  compiled by either tool has the same prefix, markers, hash and Candid text.
\<close>

theorem measure_ports_agree:
  "mc_compiled_schema s h = compiled_schema s h \<and> mc_candid_schema s = candid_schema s \<and>
   mc_candid_compiled c = candid_compiled c"
  by (simp add: mc_compiled_schema_def compiled_schema_def schema_canonical_def schema_prefix_def port_defs
      mc_candid_schema_def candid_schema_def candid_option_def mc_candid_compiled_def candid_compiled_def
      canon_finish_def Let_def res_bind_assoc split: prod.split)

section \<open>What an upload does\<close>

lemma mc_send_chunks_log:
  assumes "did_of c ''decision-engine'' = Inr d"
  shows "mc_send_chunks (logged S) c t area chunk starts (w, h) = (Inr u, (w', h')) \<Longrightarrow>
    h' = h @ chunk_commands c d (map (\<lambda>s. (s, py_slice (int s) (int s + chunk) area)) starts)"
proof (induction starts arbitrary: w h)
  case (Cons s starts)
  obtain result w1 h1 where
    r: "call (logged S) c ''decision-engine'' ''upload_chunk''
      (chunk_args s (py_slice (int s) (int s + chunk) area)) True t (w, h) = (Inr result, (w1, h1))"
    and n: "mc_send_chunks (logged S) c t area chunk starts (w1, h1) = (Inr u, (w', h'))"
    using Cons.prems by (auto simp: res_iff chunk_args_def port_defs split: if_splits)
  show ?case using Cons.IH [OF n] call_logE [OF r assms] by simp
qed simp

lemma mc_warm_loop_log:
  assumes "did_of c ''decision-engine'' = Inr d"
  shows "mc_warm_loop fuel (logged S) c t ts count (w, h) = (Inr u, (w', h')) \<Longrightarrow>
    \<exists>n. h' = h @ replicate (Suc n) (warmup_command c d)"
proof (induction fuel arbitrary: count w h)
  case (Suc fuel)
  obtain step w1 h1 where r: "call (logged S) c ''decision-engine'' ''warmup_next'' ''()'' False t (w, h) = (Inr step, (w1, h1))"
    and e: "\<not> contains ''Err'' step"
    and n: "contains ''true'' step \<and> h' = h1 \<or> mc_warm_loop fuel (logged S) c t ts (Suc count) (w1, h1) = (Inr u, (w', h'))"
    using Suc.prems by (fastforce simp: res_iff split: if_splits)
  have h1: "h1 = h @ [warmup_command c d]" using call_logE [OF r assms] by (simp add: warmup_command_def)
  from n show ?case
  proof
    assume "contains ''true'' step \<and> h' = h1"
    then show ?thesis using h1 by (intro exI [of _ 0]) simp
  next
    assume "mc_warm_loop fuel (logged S) c t ts (Suc count) (w1, h1) = (Inr u, (w', h'))"
    from Suc.IH [OF this] obtain n where "h' = h1 @ replicate (Suc n) (warmup_command c d)" ..
    then show ?thesis using h1 by (intro exI [of _ "Suc n"]) simp
  qed
qed simp

lemma read_pack_log: "read_pack (logged S) e dir (w, h) = (Inr p, (w', h')) \<Longrightarrow> h' = h"
  by (auto simp: read_pack_def res_iff logged_def lift_log_def split: prod.splits)

lemma starts_area:
  assumes "0 < k"
  shows "map (\<lambda>s. (s, py_slice (int s) (int s + int k) area)) (map (\<lambda>i. i * k) [0..<(length area + k - 1) div k]) =
    chunk_plan k 0 area"
proof -
  have "py_slice (int s) (int s + int k) area = take k (drop s area)"
    if "s \<in> set (map (\<lambda>i. i * k) [0..<(length area + k - 1) div k])" for s
    by (rule py_slice_chunk [OF starts_in_range [OF that assms]])
  then have eq: "map (\<lambda>s. (s, py_slice (int s) (int s + int k) area)) (map (\<lambda>i. i * k) [0..<(length area + k - 1) div k]) =
      map (\<lambda>s. (0 + s, take k (drop s area))) (map (\<lambda>i. i * k) [0..<(length area + k - 1) div k])"
    by (simp only: add_0 cong: map_cong)
  then show ?thesis by (simp only: starts_plan [OF assms])
qed

text \<open>
  An upload that returns has sent exactly the pack: \<open>begin_upload\<close>, contiguous chunks whose
  concatenation is the model followed by the tokenizer, \<open>start_warmup\<close> and at least one
  \<open>warmup_next\<close>; here the reported number of chunks is the number sent.
\<close>

theorem upload_pack_sends_all:
  assumes "upload_pack fuel (logged S) c tier kib t (w, h) = (Inr (rec, raw), (w', h'))"
    and d: "did_of c ''decision-engine'' = Inr d" and "0 < kib"
  shows "\<exists>p pieces n.
    h' = h @ engine_command c d ''begin_upload'' (begin_args p) # chunk_commands c d pieces @
      engine_command c d ''start_warmup'' ''()'' # replicate (Suc n) (warmup_command c d) \<and>
    concat (map snd pieces) = model_raw p @ tokenizer_raw p \<and> contiguous 0 pieces \<and> raw = manifest_raw p \<and>
    item ''upload'' rec = Inr (JObj [(''ok'', JBool True), (''chunks'', JInt (int (length pieces)))])"
proof -
  define k where "k = nat kib * 1024"
  have k: "0 < k" "kib * 1024 = int k" using assms(3) by (simp_all add: k_def)
  obtain p w1 h1 rec0 out w2 h2 where
    p: "read_pack (logged S) (RuntimeError (''fixtures/'' @ tier @ '' missing; run tools/generate_fixtures.py --tier '' @ tier))
      (fixture_dir (logged S) tier) (w, h) = (Inr p, (w1, h1))"
    and rec0: "first_record tier p = Inr rec0"
    and out: "call (logged S) c ''decision-engine'' ''begin_upload'' (begin_args p) False t (w1, h1) = (Inr out, (w2, h2))"
    and rest: "io_bind (io_lift (range_step (length (model_raw p @ tokenizer_raw p)) (int k))) (\<lambda>starts.
         io_then (mc_send_chunks (logged S) c t (model_raw p @ tokenizer_raw p) (int k) starts)
         (io_bind (call (logged S) c ''decision-engine'' ''start_warmup'' ''()'' False t) (\<lambda>warm.
          io_then (io_guard (contains ''Ok'' warm) (rejected ''start_warmup rejected'' warm))
          (io_bind (io_lift (mc_read_int warm)) (\<lambda>ti.
           io_bind (io_lift (tensors p)) (\<lambda>ts.
           io_then (mc_warm_loop fuel (logged S) c t ts 0)
           (io_ret (set_key ''warmup'' (JObj [(''ok'', JBool True),
                       (''tensors'', JInt (case ti of Some n \<Rightarrow> n | None \<Rightarrow> 0))])
                     (set_key ''upload'' (JObj [(''ok'', JBool True),
                       (''chunks'', JInt ((int (length (model_raw p @ tokenizer_raw p)) + int k - 1) div int k))]) rec0),
                   manifest_raw p)))))))) (w2, h2) = (Inr (rec, raw), (w', h'))"
    using assms(1) unfolding upload_pack_def Let_def k(2) mc_constants begin_args_def
    by (fastforce simp: res_iff)
  let ?area = "model_raw p @ tokenizer_raw p"
  obtain u w3 h3 warm w4 h4 ts v where
    send: "mc_send_chunks (logged S) c t ?area (int k) (map (\<lambda>i. i * k) [0..<(length ?area + k - 1) div k]) (w2, h2) =
      (Inr u, (w3, h3))"
    and start: "call (logged S) c ''decision-engine'' ''start_warmup'' ''()'' False t (w3, h3) = (Inr warm, (w4, h4))"
    and loop: "mc_warm_loop fuel (logged S) c t ts 0 (w4, h4) = (Inr v, (w', h'))"
    and raw: "raw = manifest_raw p"
    and rec: "\<exists>n. rec = set_key ''warmup'' n (set_key ''upload'' (JObj [(''ok'', JBool True),
        (''chunks'', JInt ((int (length ?area) + int k - 1) div int k))]) rec0)"
    using rest unfolding range_step_plan [OF k(1)] by (fastforce simp: res_iff)
  have h1: "h1 = h" by (rule read_pack_log [OF p])
  have n: "(int (length ?area) + int k - 1) div int k = int (length (chunk_plan k 0 ?area))"
    using k(1) by (simp add: chunk_plan_length zdiv_int of_nat_diff)
  have up: "item ''upload'' rec = Inr (JObj [(''ok'', JBool True), (''chunks'', JInt (int (length (chunk_plan k 0 ?area))))])"
    using rec rec0 n by (auto simp: first_record_def res_iff set_key_def)
  have h3: "h3 = h2 @ chunk_commands c d (chunk_plan k 0 ?area)"
    using mc_send_chunks_log [OF d send] by (simp only: starts_area [OF k(1)])
  obtain n where "h' = h4 @ replicate (Suc n) (warmup_command c d)" using mc_warm_loop_log [OF d loop] ..
  then have "h' = h @ engine_command c d ''begin_upload'' (begin_args p) # chunk_commands c d (chunk_plan k 0 ?area) @
      engine_command c d ''start_warmup'' ''()'' # replicate (Suc n) (warmup_command c d)"
    using h3 call_logE [OF start d] call_logE [OF out d] h1 by simp
  then show ?thesis using chunk_plan_cover [OF k(1), of 0 ?area] up raw by blast
qed

theorem upload_pack_sends_all_witness:
  "\<exists>rec h' pieces. upload_pack 1 (logged (stub ''Ok true'' sample_manifest)) sample_icp ''t'' 1 9 ((), []) =
      (Inr (rec, encode sample_manifest), ((), h')) \<and>
    item ''upload'' rec = Inr (JObj [(''ok'', JBool True), (''chunks'', JInt (int (length pieces)))]) \<and>
    contiguous 0 pieces"
proof -
  have ok: "contains ''Ok'' ''Ok true''" "\<not> contains ''Err'' ''Ok true''" "contains ''true'' ''Ok true''"
    by (simp_all add: contains_def)
  obtain rec0 where rec0: "first_record ''t'' sample_pack = Inr rec0"
    by (simp add: first_record_def tensors_def sample_pack_def as_list_def)
  have ts: "tensors sample_pack = Inr []" by (simp add: tensors_def sample_pack_def as_list_def)
  have ri: "mc_read_int ''Ok true'' = Inr None" by code_simp
  let ?S = "logged (stub ''Ok true'' sample_manifest)"
  let ?area = "model_raw sample_pack @ tokenizer_raw sample_pack"
  obtain starts where starts: "range_step (length ?area) 1024 = Inr starts" by (simp add: range_step_def)
  have "\<exists>h'. mc_send_chunks ?S sample_icp 9 ?area 1024 starts ((), h) = (Inr (), ((), h'))" for h
    by (induction starts arbitrary: h) (simp_all add: io_bind_def stub_call ok)
  then obtain f where f: "mc_send_chunks ?S sample_icp 9 ?area 1024 starts ((), h) = (Inr (), ((), f h))" for h
    by metis
  have raw: "manifest_raw sample_pack = encode sample_manifest" by (simp add: sample_pack_def)
  obtain rec h' where u: "upload_pack 1 ?S sample_icp ''t'' 1 9 ((), []) = (Inr (rec, encode sample_manifest), ((), h'))"
    using rec0 ts ri starts f raw
    by (simp add: upload_pack_def io_bind_def io_then_def sample_read stub_call ok Let_def)
  from upload_pack_sends_all [OF u sample_did] u show ?thesis by fastforce
qed

end
