(* ===== verification/Query_Transport.thy ===== *)
theory Query_Transport
  imports PyText Wire
begin

text \<open>
  \<open>tools/query_transport.py\<close>: the compressed envelope of a query continuation and the width of
  the next step, with the byte shuffle of \<open>tools/explore_lossless_state_codecs.py\<close>.

  The decompressor is zlib, which is not in the repository: it is a parameter, a machine
  that emits a byte, needs a byte, ends, or finds the stream corrupt.  What Python's
  \<open>decompressobj\<close> adds to it (the output limit, \<open>unconsumed_tail\<close>, \<open>unused_data\<close>, \<open>eof\<close>) is
  modelled here.
\<close>

section \<open>Decompression objects\<close>

datatype 'z inflate_step = Finished | Corrupt | Emit byte 'z | Need "byte \<Rightarrow> 'z"

text \<open>
  Run until the stream ends, the input is used up, or a byte is to be put out and there is no
  room: the output, the state, the input left and whether the stream ended.
\<close>

function (sequential) inflate ::
  "('z \<Rightarrow> 'z inflate_step) \<Rightarrow> 'z \<Rightarrow> bytes \<Rightarrow> nat \<Rightarrow> (bytes \<times> 'z \<times> bytes \<times> bool) res" where
  "inflate step z inp room =
     (case step z of
        Finished \<Rightarrow> Inr ([], z, inp, True)
      | Corrupt \<Rightarrow> Inl ZlibError
      | Emit b z' \<Rightarrow>
          if room = 0 then Inr ([], z, inp, False)
          else res_bind (inflate step z' inp (room - 1)) (\<lambda>(out, z'', r, fin). Inr (b # out, z'', r, fin))
      | Need k \<Rightarrow> (case inp of [] \<Rightarrow> Inr ([], z, [], False) | c # cs \<Rightarrow> inflate step (k c) cs room))"
  by pat_completeness auto
termination by (relation "measure (\<lambda>(_, _, inp, room). length inp + room)") auto

declare inflate.simps [simp del]

record 'z decoder =
  zstate :: 'z
  eof :: bool
  unused_data :: bytes
  unconsumed_tail :: bytes

definition decompressobj :: "'z \<Rightarrow> 'z decoder" where
  "decompressobj z = \<lparr>zstate = z, eof = False, unused_data = [], unconsumed_tail = []\<rparr>"

text \<open>\<open>decoder.decompress(data, max_length)\<close> for a positive \<open>max_length\<close>.\<close>

definition decompress ::
  "('z \<Rightarrow> 'z inflate_step) \<Rightarrow> 'z decoder \<Rightarrow> bytes \<Rightarrow> nat \<Rightarrow> (bytes \<times> 'z decoder) res" where
  "decompress step d data max_length =
     res_bind (inflate step (zstate d) data max_length) (\<lambda>(out, z, r, fin).
       Inr (out, if fin
                 then d\<lparr>zstate := z, eof := True, unused_data := unused_data d @ r, unconsumed_tail := []\<rparr>
                 else d\<lparr>zstate := z, unconsumed_tail := r\<rparr>))"

lemma inflate_left:
  "inflate step z inp room = Inr (out, z', r, fin) \<Longrightarrow> length r \<le> length inp \<and> length out \<le> room"
proof (induction step z inp room arbitrary: out z' r fin rule: inflate.induct)
  case (1 step z inp room)
  show ?case
  proof (cases "step z")
    case (Emit b z1)
    show ?thesis
    proof (cases "room = 0")
      case False
      then show ?thesis using 1 Emit by (subst (asm) (3) inflate.simps) (fastforce simp: res_iff)
    qed (use 1 Emit in \<open>simp add: inflate.simps [of step z]\<close>)
  next
    case (Need k)
    then show ?thesis using 1 by (cases inp) (fastforce simp: inflate.simps [of step z])+
  qed (use 1 in \<open>simp_all add: inflate.simps [of step z]\<close>)
qed

text \<open>With room and input left, a call that does not end the stream makes progress.\<close>

lemma inflate_progress:
  assumes "inflate step z inp room = Inr (out, z', r, False)" "inp \<noteq> []" "0 < room"
  shows "length r < length inp \<or> out \<noteq> []"
proof (cases "step z")
  case (Need k)
  then obtain c cs where "inp = c # cs" "inflate step (k c) cs room = Inr (out, z', r, False)"
    using assms by (cases inp) (auto simp: inflate.simps [of step z])
  then show ?thesis using inflate_left [of step "k c" cs room] by fastforce
qed (use assms in \<open>auto simp: inflate.simps [of step z] res_iff\<close>)

lemma decompress_running:
  assumes "decompress step d data n = Inr (chunk, d')" "\<not> eof d'"
  shows "inflate step (zstate d) data n = Inr (chunk, zstate d', unconsumed_tail d', False) \<and>
    unused_data d' = unused_data d"
proof -
  obtain z r fin where i: "inflate step (zstate d) data n = Inr (chunk, z, r, fin)"
    and d': "d' = (if fin
       then d\<lparr>zstate := z, eof := True, unused_data := unused_data d @ r, unconsumed_tail := []\<rparr>
       else d\<lparr>zstate := z, unconsumed_tail := r\<rparr>)"
    using assms(1) by (auto simp: decompress_def res_iff)
  then show ?thesis using assms(2) by (cases fin) auto
qed

section \<open>Inspecting a continuation\<close>

definition MAX_STATE_BYTES :: nat where
  "MAX_STATE_BYTES = 60 + 128 * 4 + 7 * 4 + 128 * 2048 * 4"

definition AUTO_BUNDLE :: string where
  "AUTO_BUNDLE = ''bb70b3f0f2806bef5d4b670f44bb606892067fc0ebd928bd682b98ebdb2dc092''"

text \<open>The envelope header: version, codec and uncompressed size.\<close>

definition layz_header :: "bytes \<Rightarrow> (nat \<times> nat) res" where
  "layz_header wire =
     (if length wire < 16 then Inl (Failure ''truncated query transport header'')
      else
        res_bind (u32_at 4 wire) (\<lambda>version.
        res_bind (u32_at 8 wire) (\<lambda>codec.
        res_bind (u32_at 12 wire) (\<lambda>size.
          if version \<noteq> 1 \<or> codec \<notin> {1, 2} \<or> \<not> (60 \<le> size \<and> size \<le> MAX_STATE_BYTES)
          then Inl (Failure ''unsupported query transport header'')
          else Inr (codec, size)))))"

definition catch_zlib :: "'a res \<Rightarrow> 'a res" where
  "catch_zlib m = (case m of
     Inl ZlibError \<Rightarrow> Inl (Failure ''invalid compressed query state'') | _ \<Rightarrow> m)"

text \<open>The loop over 64 KiB pieces of output: only the first 60 bytes are kept.\<close>

function (sequential) inspect_loop ::
  "('z \<Rightarrow> 'z inflate_step) \<Rightarrow> nat \<Rightarrow> 'z decoder \<Rightarrow> bytes \<Rightarrow> bytes \<Rightarrow> nat \<Rightarrow>
   ('z decoder \<times> bytes \<times> bytes \<times> nat) res" where
  "inspect_loop step sz d pending kept count =
     (if pending = [] then Inr (d, pending, kept, count)
      else
        res_bind (decompress step d pending (min 65536 (sz + 1 - count))) (\<lambda>(chunk, d').
          let count' = count + length chunk;
              kept' = kept @ take (60 - length kept) chunk
          in if sz < count' then Inl (Failure ''compressed query state length differs'')
             else if eof d' then Inr (d', unconsumed_tail d', kept', count')
             else inspect_loop step sz d' (unconsumed_tail d') kept' count'))"
  by pat_completeness auto
termination
proof (relation "measure (\<lambda>(_, sz, _, pending, _, count). length pending + (sz + 1 - count))",
       goal_cases)
  case (2 step sz d pending kept count chunk_d chunk d' count' kept')
  have d: "decompress step d pending (min 65536 (sz + 1 - count)) = Inr (chunk, d')"
    using 2 by simp
  have le: "count + length chunk \<le> sz" and e: "\<not> eof d'" using 2 by simp_all
  have i: "inflate step (zstate d) pending (min 65536 (sz + 1 - count)) =
      Inr (chunk, zstate d', unconsumed_tail d', False)"
    using decompress_running [OF d e] by simp
  have "length (unconsumed_tail d') < length pending \<or> chunk \<noteq> []"
    using inflate_progress [OF i] 2(1) le by simp
  then show ?case using inflate_left [OF i] le 2
    by (cases chunk) auto
qed simp

declare inspect_loop.simps [simp del]

definition LAYQ :: bytes where "LAYQ = ascii ''LAYQ''"
definition LAYI :: bytes where "LAYI = ascii ''LAYI''"
definition LAYZ :: bytes where "LAYZ = ascii ''LAYZ''"

text \<open>The checks on the unshuffled header, at the end of \<open>inspect_state\<close>.\<close>

definition check_header :: "nat option \<Rightarrow> bytes \<Rightarrow> nat \<Rightarrow> (bytes \<times> nat) res" where
  "check_header codec header sz =
     (if length header < 60 \<or> take 4 header \<notin> {LAYQ, LAYI}
      then Inl (Failure ''invalid continuation header'')
      else if codec \<noteq> None \<and> take 4 header \<noteq> (if codec = Some 1 then LAYI else LAYQ)
      then Inl (Failure ''query transport codec differs from state'')
      else
        res_bind (u32_at 52 header) (\<lambda>tokens.
        res_bind (u32_at 56 header) (\<lambda>markers.
          let offset = 60 + 4 * (tokens + markers)
          in if \<not> (1 \<le> tokens \<and> tokens \<le> 128) \<or> \<not> (2 \<le> markers \<and> markers \<le> 7) \<or> sz < offset
             then Inl (Failure ''invalid continuation lengths'')
             else if take 4 header = LAYQ \<and> (sz - offset) mod 4 \<noteq> 0
             then Inl (Failure ''invalid shuffled query state'')
             else Inr (header, sz))))"

definition inspect_state :: "('z \<Rightarrow> 'z inflate_step) \<Rightarrow> 'z \<Rightarrow> bytes \<Rightarrow> (bytes \<times> nat) res" where
  "inspect_state step z0 wire =
     (if MAX_STATE_BYTES < length wire then Inl (Failure ''query state exceeds transport limit'')
      else if starts_with LAYZ wire then
        res_bind (layz_header wire) (\<lambda>(codec, size).
        res_bind (catch_zlib (inspect_loop step size (decompressobj z0) (drop 16 wire) [] 0))
          (\<lambda>(d, pending, kept, count).
             if count \<noteq> size \<or> \<not> eof d \<or> unused_data d \<noteq> [] \<or> pending \<noteq> []
             then Inl (Failure ''compressed query state length differs'')
             else check_header (Some codec) kept size))
      else check_header None (take 60 wire) (length wire))"

section \<open>Unpacking a continuation\<close>

text \<open>\<open>xs[i::4]\<close>, read and assigned; an assignment of the wrong length is refused.\<close>

definition stride :: "nat \<Rightarrow> 'a list \<Rightarrow> 'a list" where
  "stride i xs = map (\<lambda>k. xs ! k) (filter (\<lambda>k. k mod 4 = i) [0..<length xs])"

definition set_stride :: "nat \<Rightarrow> 'a list \<Rightarrow> 'a list \<Rightarrow> 'a list res" where
  "set_stride i vs xs =
     (if length vs \<noteq> length (stride i xs)
      then Inl (ValueError ''attempt to assign bytes of another size to extended slice'')
      else Inr (map (\<lambda>k. if k mod 4 = i then vs ! (k div 4) else xs ! k) [0..<length xs]))"

fun restore_lanes :: "nat list \<Rightarrow> bytes \<Rightarrow> bytes \<Rightarrow> bytes res" where
  "restore_lanes [] planes restored = Inr restored"
| "restore_lanes (lane # lanes) planes restored =
     (let n = length planes div 4
      in res_bind (set_stride lane (take n (drop (lane * n) planes)) restored)
           (restore_lanes lanes planes))"

text \<open>The decompressed bytes of a codec; only the floats of codec 2 are stored in planes.\<close>

definition open_raw :: "nat \<Rightarrow> bytes \<Rightarrow> bytes res" where
  "open_raw codec raw =
     (if codec = 1 then
        (if \<not> starts_with LAYI raw then Inl (Failure ''INT8 transport codec requires INT8 state'')
         else Inr raw)
      else if length raw < 60 \<or> take 4 raw \<noteq> LAYQ
      then Inl (Failure ''F32 transport codec requires F32 state'')
      else
        res_bind (u32_at 52 raw) (\<lambda>tokens.
        res_bind (u32_at 56 raw) (\<lambda>markers.
          let offset = 60 + 4 * (tokens + markers)
          in if \<not> (1 \<le> tokens \<and> tokens \<le> 128) \<or> \<not> (2 \<le> markers \<and> markers \<le> 7) \<or>
                length raw < offset \<or> (length raw - offset) mod 4 \<noteq> 0
             then Inl (Failure ''invalid shuffled query state'')
             else
               let planes = drop offset raw
               in res_bind (restore_lanes [0..<4] planes (replicate (length planes) 0))
                    (\<lambda>restored. Inr (take offset raw @ restored)))))"

definition unpack_state :: "('z \<Rightarrow> 'z inflate_step) \<Rightarrow> 'z \<Rightarrow> bytes \<Rightarrow> bytes res" where
  "unpack_state step z0 wire =
     (if MAX_STATE_BYTES < length wire then Inl (Failure ''query state exceeds transport limit'')
      else if \<not> starts_with LAYZ wire then Inr wire
      else
        res_bind (layz_header wire) (\<lambda>(codec, size).
        res_bind (catch_zlib (decompress step (decompressobj z0) (drop 16 wire) (size + 1)))
          (\<lambda>(raw, d).
             if length raw \<noteq> size \<or> \<not> eof d \<or> unused_data d \<noteq> [] \<or> unconsumed_tail d \<noteq> []
             then Inl (Failure ''compressed query state length differs'')
             else open_raw codec raw)))"

section \<open>The width of the next step\<close>

definition auto_width :: "int \<Rightarrow> string \<Rightarrow> int \<Rightarrow> int \<Rightarrow> int" where
  "auto_width tokens mode completed cap =
     (let width = (if tokens \<le> 16 then 16
            else if tokens \<le> 43 then (if mode = ''f32'' then 9 else 8)
            else if tokens \<le> 65 then 6
            else if tokens \<le> 72 then (if mode = ''f32'' then 6 else 5)
            else if tokens \<le> (if mode = ''f32'' then 96 else 90) then 4
            else 3);
          width = min width cap;
          encoder_left = max 0 (28 - completed)
      in if encoder_left = 0 \<or> encoder_left = 1 \<or> encoder_left + 2 \<le> width
         then min (min 16 cap) (32 - completed)
         else min width (32 - completed))"

section \<open>The byte shuffle\<close>

definition shuffle_f32 :: "bytes \<Rightarrow> bytes res" where
  "shuffle_f32 raw =
     res_bind (u32_at 52 raw) (\<lambda>tokens.
     res_bind (u32_at 56 raw) (\<lambda>markers.
       let offset = 60 + 4 * (tokens + markers); values = drop offset raw
       in if take 4 raw \<noteq> LAYQ \<or> length values mod 4 \<noteq> 0
          then Inl (Failure ''not a F32 continuation'')
          else Inr (take offset raw @ concat (map (\<lambda>i. stride i values) [0..<4]))))"

definition unshuffle_f32 :: "bytes \<Rightarrow> bytes res" where
  "unshuffle_f32 raw =
     res_bind (u32_at 52 raw) (\<lambda>tokens.
     res_bind (u32_at 56 raw) (\<lambda>markers.
       let offset = 60 + 4 * (tokens + markers); planes = drop offset raw
       in res_bind (restore_lanes [0..<4] planes (replicate (length planes) 0))
            (\<lambda>restored. Inr (take offset raw @ restored))))"

section \<open>Lemmas: decompression in pieces\<close>

text \<open>What the stream format guarantees: the checksum follows the data, so no stream ends
  right after a byte of output.\<close>

definition checksummed :: "('z \<Rightarrow> 'z inflate_step) \<Rightarrow> bool" where
  "checksummed step \<longleftrightarrow> (\<forall>z b z'. step z = Emit b z' \<longrightarrow> step z' \<noteq> Finished)"

lemma inflate_split:
  "inflate step z inp (a + b) =
   res_bind (inflate step z inp a) (\<lambda>(out, z', r, fin).
     if fin then Inr (out, z', r, True)
     else res_bind (inflate step z' r b) (\<lambda>(out', z'', r', fin'). Inr (out @ out', z'', r', fin')))"
proof (induction step z inp a rule: inflate.induct)
  case (1 step z inp a)
  show ?case
  proof (cases "step z")
    case Finished
    then show ?thesis by (simp add: inflate.simps [of step z])
  next
    case Corrupt
    then show ?thesis by (simp add: inflate.simps [of step z])
  next
    case (Emit c z1)
    show ?thesis
    proof (cases "a = 0")
      case True
      then show ?thesis using Emit
        by (simp add: inflate.simps [of step z _ 0] res_bind_def split: sum.splits)
    next
      case False
      then have "a + b - 1 = a - 1 + b" "a + b \<noteq> 0" by simp_all
      then show ?thesis using 1(1) [OF Emit False] Emit False
        by (simp add: inflate.simps [of step z] res_bind_def split: sum.splits)
    qed
  next
    case (Need k)
    show ?thesis
    proof (cases inp)
      case Nil
      then show ?thesis using Need by (simp add: inflate.simps [of step z])
    next
      case (Cons c cs)
      then show ?thesis using 1(2) [OF Need Cons] Need by (simp add: inflate.simps [of step z])
    qed
  qed
qed

lemma inflate_stop:
  assumes "checksummed step" "step z \<noteq> Finished"
  shows "inflate step z inp room = Inr (out, z', r, False) \<Longrightarrow> step z' \<noteq> Finished"
  using assms
proof (induction step z inp room arbitrary: out z' r rule: inflate.induct)
  case (1 step z inp room)
  show ?case
  proof (cases "step z")
    case (Emit b z1)
    show ?thesis
    proof (cases "room = 0")
      case True
      then show ?thesis using 1 Emit by (simp add: inflate.simps [of step z])
    next
      case False
      then obtain o' where "inflate step z1 inp (room - 1) = Inr (o', z', r, False)"
        using "1.prems"(1) Emit by (auto simp: inflate.simps [of step z] res_iff)
      moreover have "step z1 \<noteq> Finished" using "1.prems"(2) Emit by (simp add: checksummed_def)
      ultimately show ?thesis using "1.IH"(1) [OF Emit False] "1.prems"(2) by blast
    qed
  next
    case (Need k)
    show ?thesis
    proof (cases inp)
      case Nil
      then show ?thesis using 1 Need by (simp add: inflate.simps [of step z])
    next
      case (Cons c cs)
      then have i: "inflate step (k c) cs room = Inr (out, z', r, False)"
        using "1.prems"(1) Need by (simp add: inflate.simps [of step z])
      then have "step (k c) \<noteq> Finished" by (auto simp: inflate.simps [of step "k c"])
      then show ?thesis using "1.IH"(2) [OF Need Cons i] "1.prems"(2) by blast
    qed
  qed (use "1.prems" in \<open>simp_all add: inflate.simps [of step z]\<close>)
qed

lemma inflate_no_input:
  assumes "checksummed step" "step z \<noteq> Finished" "inflate step z [] room = Inr (out, z', r, fin)"
  shows "\<not> fin"
  using assms
proof (induction step z "[] :: bytes" room arbitrary: out rule: inflate.induct)
  case (1 step z room)
  show ?case
  proof (cases "step z")
    case (Emit b z1)
    then have "step z1 \<noteq> Finished" using "1.prems"(1) by (simp add: checksummed_def)
    then show ?thesis using 1 Emit
      by (cases "room = 0") (auto simp: inflate.simps [of step z] res_iff)
  qed (use "1.prems" in \<open>simp_all add: inflate.simps [of step z]\<close>)
qed

lemma inflate_full_or_empty:
  "inflate step z inp room = Inr (out, z', r, False) \<Longrightarrow> length out = room \<or> r = []"
proof (induction step z inp room arbitrary: out z' r rule: inflate.induct)
  case (1 step z inp room)
  show ?case
  proof (cases "step z")
    case (Emit b z1)
    show ?thesis
    proof (cases "room = 0")
      case True
      then show ?thesis using 1 Emit by (simp add: inflate.simps [of step z])
    next
      case False
      then obtain o' where "inflate step z1 inp (room - 1) = Inr (o', z', r, False)" "out = b # o'"
        using "1.prems" Emit by (auto simp: inflate.simps [of step z] res_iff)
      then show ?thesis using "1.IH"(1) [OF Emit False] False by fastforce
    qed
  next
    case (Need k)
    then show ?thesis using 1 by (cases inp) (auto simp: inflate.simps [of step z])
  qed (use 1 in \<open>simp_all add: inflate.simps [of step z]\<close>)
qed

lemma inflate_more:
  "inflate step z inp m = Inr (out, z', r, True) \<Longrightarrow> m \<le> room \<Longrightarrow>
   inflate step z inp room = Inr (out, z', r, True)"
  using inflate_split [of step z inp m "room - m"] by simp

lemma inflate_less:
  "inflate step z inp room = Inr x \<Longrightarrow> m \<le> room \<Longrightarrow>
   \<exists>out z' r fin. inflate step z inp m = Inr (out, z', r, fin)"
  using inflate_split [of step z inp m "room - m"]
  by (cases "inflate step z inp m") (auto simp: prod_eq_iff)

text \<open>A call with less room that does not end the stream fills its room, if the stream can
  still be ended with the input it left.\<close>

lemma inflate_resume:
  assumes c: "checksummed step" "step z \<noteq> Finished"
    and i: "inflate step z inp m = Inr (o1, z1, r1, False)" and m: "m \<le> room"
  shows "inflate step z inp room = Inr (out, z', r, True) \<longleftrightarrow>
    (\<exists>o2. inflate step z1 r1 (room - length o1) = Inr (o2, z', r, True) \<and> out = o1 @ o2)"
proof (cases "r1 = []")
  case True
  have "step z1 \<noteq> Finished" using inflate_stop [OF c i] .
  then have no: "inflate step z1 r1 n \<noteq> Inr (o2, z', r, True)" for n o2
    using inflate_no_input [OF c(1)] True by blast
  then show ?thesis using inflate_split [of step z inp m "room - m"] i m
    by (auto simp: res_bind_def split: sum.splits)
next
  case False
  then have "length o1 = m" using inflate_full_or_empty [OF i] by simp
  then show ?thesis using inflate_split [of step z inp m "room - m"] i m
    by (auto simp: res_iff)
qed

lemma decompress_ended:
  "decompress step d data n = Inr (chunk, d') \<Longrightarrow> eof d' \<Longrightarrow> \<not> eof d \<Longrightarrow>
   \<exists>z r. inflate step (zstate d) data n = Inr (chunk, z, r, True) \<and>
     unused_data d' = unused_data d @ r \<and> unconsumed_tail d' = []"
  by (auto simp: decompress_def res_iff split: if_splits)

lemma inflate_decompress:
  "inflate step (zstate d) data n = Inr (chunk, z, r, True) \<Longrightarrow>
   \<exists>d'. decompress step d data n = Inr (chunk, d') \<and> eof d' \<and>
     unused_data d' = unused_data d @ r \<and> unconsumed_tail d' = []"
  by (simp add: decompress_def)

lemma inflate_decompress_running:
  "inflate step (zstate d) data n = Inr (chunk, z, r, False) \<Longrightarrow> \<not> eof d \<Longrightarrow>
   \<exists>d'. decompress step d data n = Inr (chunk, d') \<and> \<not> eof d' \<and> zstate d' = z \<and>
     unused_data d' = unused_data d \<and> unconsumed_tail d' = r"
  by (simp add: decompress_def)

text \<open>The loop succeeds with an ended stream exactly when one call with the whole room does.\<close>

lemma inspect_loop_sound:
  assumes "checksummed step" "step (zstate d) \<noteq> Finished" "\<not> eof d" "count \<le> sz"
    and "inspect_loop step sz d pending kept count = Inr (d', p', k', c')" "eof d'"
  shows "p' = [] \<and> c' \<le> sz \<and> (\<exists>out z r.
    inflate step (zstate d) pending (sz + 1 - count) = Inr (out, z, r, True) \<and>
    c' = count + length out \<and> k' = kept @ take (60 - length kept) out \<and>
    unused_data d' = unused_data d @ r)"
  using assms
proof (induction step sz d pending kept count rule: inspect_loop.induct)
  case (1 step sz d pending kept count)
  have ne: "pending \<noteq> []" using "1.prems"(3,5,6) by (auto simp: inspect_loop.simps [of step sz d pending])
  let ?m = "min 65536 (sz + 1 - count)"
  obtain chunk d1 where dec: "decompress step d pending ?m = Inr (chunk, d1)"
    and le: "count + length chunk \<le> sz"
    and res: "(if eof d1 then Inr (d1, unconsumed_tail d1, kept @ take (60 - length kept) chunk,
        count + length chunk) else inspect_loop step sz d1 (unconsumed_tail d1)
        (kept @ take (60 - length kept) chunk) (count + length chunk)) = Inr (d', p', k', c')"
    using "1.prems"(5) ne
    by (subst (asm) inspect_loop.simps) (auto simp: res_iff Let_def split: if_splits)
  show ?case
  proof (cases "eof d1")
    case True
    obtain z r where i: "inflate step (zstate d) pending ?m = Inr (chunk, z, r, True)"
      and u: "unused_data d1 = unused_data d @ r" "unconsumed_tail d1 = []"
      using decompress_ended [OF dec True "1.prems"(3)] by blast
    have "inflate step (zstate d) pending (sz + 1 - count) = Inr (chunk, z, r, True)"
      using inflate_more [OF i] by simp
    then show ?thesis using res True u le by auto
  next
    case False
    have i: "inflate step (zstate d) pending ?m = Inr (chunk, zstate d1, unconsumed_tail d1, False)"
      and u: "unused_data d1 = unused_data d"
      using decompress_running [OF dec False] by simp_all
    have nf: "step (zstate d1) \<noteq> Finished" using inflate_stop [OF "1.prems"(1,2) i] .
    have rec: "inspect_loop step sz d1 (unconsumed_tail d1) (kept @ take (60 - length kept) chunk)
        (count + length chunk) = Inr (d', p', k', c')" using res False by simp
    have "p' = [] \<and> c' \<le> sz \<and> (\<exists>out z r.
        inflate step (zstate d1) (unconsumed_tail d1) (sz + 1 - (count + length chunk)) = Inr (out, z, r, True) \<and>
        c' = count + length chunk + length out \<and>
        k' = (kept @ take (60 - length kept) chunk) @
          take (60 - length (kept @ take (60 - length kept) chunk)) out \<and>
        unused_data d' = unused_data d1 @ r)"
      using "1.IH" [OF ne dec refl refl refl _ False "1.prems"(1) nf False _ rec "1.prems"(6)] le by simp
    then obtain out z r where c: "p' = []" "c' \<le> sz"
      "inflate step (zstate d1) (unconsumed_tail d1) (sz + 1 - (count + length chunk)) = Inr (out, z, r, True)"
      "c' = count + length chunk + length out" "unused_data d' = unused_data d1 @ r"
      and k: "k' = (kept @ take (60 - length kept) chunk) @
          take (60 - length (kept @ take (60 - length kept) chunk)) out" by blast
    have "sz + 1 - (count + length chunk) = sz + 1 - count - length chunk" by simp
    then have "inflate step (zstate d) pending (sz + 1 - count) = Inr (chunk @ out, z, r, True)"
      using inflate_resume [OF "1.prems"(1,2) i, of "sz + 1 - count" "chunk @ out" z r] c(3) by auto
    moreover have "k' = kept @ take (60 - length kept) (chunk @ out)" using k by (simp add: min_def)
    ultimately show ?thesis using c u by auto
  qed
qed

lemma inspect_loop_complete:
  assumes "checksummed step" "step (zstate d) \<noteq> Finished" "\<not> eof d" "count + length out \<le> sz"
    and "inflate step (zstate d) pending (sz + 1 - count) = Inr (out, z, r, True)"
  shows "\<exists>d'. inspect_loop step sz d pending kept count =
      Inr (d', [], kept @ take (60 - length kept) out, count + length out) \<and>
    eof d' \<and> unused_data d' = unused_data d @ r"
  using assms
proof (induction step sz d pending kept count arbitrary: out rule: inspect_loop.induct)
  case (1 step sz d pending kept count)
  have ne: "pending \<noteq> []"
    using inflate_no_input [OF "1.prems"(1,2)] "1.prems"(5) by blast
  let ?m = "min 65536 (sz + 1 - count)"
  obtain chunk z1 r1 fin where i: "inflate step (zstate d) pending ?m = Inr (chunk, z1, r1, fin)"
    using inflate_less [OF "1.prems"(5), of ?m] by auto
  show ?case
  proof (cases fin)
    case True
    then have "inflate step (zstate d) pending (sz + 1 - count) = Inr (chunk, z1, r1, True)"
      using inflate_more [of step "zstate d" pending ?m chunk z1 r1 "sz + 1 - count"] i by simp
    then have eq: "out = chunk" "z = z1" "r = r1" using "1.prems"(5) by auto
    obtain d' where "decompress step d pending ?m = Inr (chunk, d')" "eof d'"
        "unused_data d' = unused_data d @ r1" "unconsumed_tail d' = []"
      using inflate_decompress [of step d pending ?m chunk z1 r1] i True by auto
    then show ?thesis using ne "1.prems"(4) eq
      by (subst inspect_loop.simps) (auto simp: Let_def)
  next
    case False
    have nf: "step z1 \<noteq> Finished" using inflate_stop [OF "1.prems"(1,2), of pending ?m chunk z1 r1] i False by simp
    obtain d1 where dec: "decompress step d pending ?m = Inr (chunk, d1)" "\<not> eof d1"
        "zstate d1 = z1" "unused_data d1 = unused_data d" "unconsumed_tail d1 = r1"
      using inflate_decompress_running [of step d pending ?m chunk z1 r1] i False "1.prems"(3) by auto
    obtain o2 where o2: "inflate step z1 r1 (sz + 1 - count - length chunk) = Inr (o2, z, r, True)"
        "out = chunk @ o2"
      using inflate_resume [OF "1.prems"(1,2), of pending ?m chunk z1 r1 "sz + 1 - count" out z r]
        i False "1.prems"(5) by auto
    have le: "\<not> sz < count + length chunk" using "1.prems"(4) o2 by simp
    have "\<exists>d'. inspect_loop step sz d1 (unconsumed_tail d1) (kept @ take (60 - length kept) chunk)
        (count + length chunk) =
        Inr (d', [], (kept @ take (60 - length kept) chunk) @
          take (60 - length (kept @ take (60 - length kept) chunk)) o2, count + length chunk + length o2) \<and>
      eof d' \<and> unused_data d' = unused_data d1 @ r"
      using "1.IH" [OF ne dec(1) refl refl refl le dec(2) "1.prems"(1), of o2] dec nf "1.prems"(4) o2
      by simp
    then show ?thesis using ne dec le o2
      by (subst inspect_loop.simps) (auto simp: Let_def min_def)
  qed
qed

section \<open>Lemmas: the byte shuffle\<close>

lemma upt_4: "[m..<m + 4] = [m, m + 1, m + 2, m + 3]"
  by (simp add: upt_conv_Cons)

lemma filter_mod4: "i < 4 \<Longrightarrow> filter (\<lambda>k. k mod 4 = i) [0..<4 * n] = map (\<lambda>k. 4 * k + i) [0..<n]"
proof (induction n)
  case (Suc n)
  have "[0..<4 * Suc n] = [0..<4 * n] @ [4 * n, 4 * n + 1, 4 * n + 2, 4 * n + 3]"
    using upt_add_eq_append [of 0 "4 * n" 4] upt_4 [of "4 * n"]
    by (simp only: le0 simp_thms mult_Suc_right add.commute [of 4 "4 * n"])
  moreover have "4 * n mod 4 = 0" "(4 * n + 1) mod 4 = 1" "(4 * n + 2) mod 4 = 2" "(4 * n + 3) mod 4 = 3"
    by presburger+
  then have "filter (\<lambda>k. k mod 4 = i) [4 * n, 4 * n + 1, 4 * n + 2, 4 * n + 3] = [4 * n + i]"
  proof -
    assume m: "4 * n mod 4 = 0" "(4 * n + 1) mod 4 = 1" "(4 * n + 2) mod 4 = 2" "(4 * n + 3) mod 4 = 3"
    consider "i = 0" | "i = 1" | "i = 2" | "i = 3" using Suc.prems by linarith
    then show ?thesis by cases (simp_all only: filter.simps m, simp_all)
  qed
  ultimately show ?case using Suc by simp
qed simp

lemma stride_4: "i < 4 \<Longrightarrow> length xs = 4 * n \<Longrightarrow> stride i xs = map (\<lambda>k. xs ! (4 * k + i)) [0..<n]"
  by (simp add: stride_def filter_mod4 comp_def)

lemma set_stride_4:
  "i < 4 \<Longrightarrow> length xs = 4 * n \<Longrightarrow> length vs = n \<Longrightarrow>
   set_stride i vs xs = Inr (map (\<lambda>k. if k mod 4 = i then vs ! (k div 4) else xs ! k) [0..<4 * n])"
  by (simp add: set_stride_def stride_4)

lemma concat_blocks:
  "concat (map (\<lambda>i. map (g i) [0..<n]) [0..<m]) = map (\<lambda>k. g (k div n) (k mod n)) [0..<m * n]"
proof (induction m)
  case (Suc m)
  have "[m * n..<m * n + n] = map (\<lambda>k. m * n + k) [0..<n]"
    using map_add_upt [of "m * n" n] by (simp add: add.commute)
  then have "[0..<Suc m * n] = [0..<m * n] @ map (\<lambda>k. m * n + k) [0..<n]"
    using upt_add_eq_append [of 0 "m * n" n] by (simp only: mult_Suc add.commute le0)
  moreover have "map (\<lambda>k. g (k div n) (k mod n)) (map (\<lambda>k. m * n + k) [0..<n]) = map (g m) [0..<n]"
    by (auto simp: div_mult_self3)
  ultimately show ?case using Suc by simp
qed simp

text \<open>The four assignments together: lane \<open>k mod 4\<close> of the planes, entry \<open>k div 4\<close>.\<close>

lemma restore_lanes_upto:
  assumes "length planes = 4 * n" "length acc = 4 * n" "j \<le> 4"
  shows "restore_lanes [j..<4] planes acc =
    Inr (map (\<lambda>k. if j \<le> k mod 4 then planes ! ((k mod 4) * n + k div 4) else acc ! k) [0..<4 * n])"
  using assms
proof (induction "4 - j" arbitrary: j acc)
  case 0
  then have "map (\<lambda>k. if j \<le> k mod 4 then planes ! ((k mod 4) * n + k div 4) else acc ! k) [0..<4 * n] =
      map ((!) acc) [0..<length acc]"
    by (intro map_cong) (auto simp: not_le)
  also have "\<dots> = acc" by (rule map_nth)
  finally show ?case using 0 by (simp del: map_eq_conv)
next
  case (Suc m)
  then have j: "j < 4" "[j..<4] = j # [Suc j..<4]" by (simp_all add: upt_conv_Cons)
  let ?vs = "take n (drop (j * n) planes)"
  let ?acc = "map (\<lambda>k. if k mod 4 = j then ?vs ! (k div 4) else acc ! k) [0..<4 * n]"
  have "j * n + n \<le> 4 * n" using j(1) by (metis Suc_leI add.commute mult_Suc mult_le_mono1)
  then have "n \<le> 4 * n - j * n" by linarith
  then have vs: "length ?vs = n" using Suc.prems by (simp add: min_def)
  have "restore_lanes [j..<4] planes acc = restore_lanes [Suc j..<4] planes ?acc"
    using Suc.prems j vs by (simp add: set_stride_4 Let_def)
  also have "\<dots> = Inr (map (\<lambda>k. if Suc j \<le> k mod 4 then planes ! ((k mod 4) * n + k div 4) else ?acc ! k) [0..<4 * n])"
    by (rule Suc.hyps(1)) (use Suc j in auto)
  also have "map (\<lambda>k. if Suc j \<le> k mod 4 then planes ! ((k mod 4) * n + k div 4) else ?acc ! k) [0..<4 * n] =
      map (\<lambda>k. if j \<le> k mod 4 then planes ! ((k mod 4) * n + k div 4) else acc ! k) [0..<4 * n]"
  proof (rule map_cong [OF refl])
    fix k
    assume "k \<in> set [0..<4 * n]"
    then have k: "k < 4 * n" by simp
    then have "k div 4 < n" by (simp add: less_mult_imp_div_less mult.commute)
    then show "(if Suc j \<le> k mod 4 then planes ! ((k mod 4) * n + k div 4) else ?acc ! k) =
        (if j \<le> k mod 4 then planes ! ((k mod 4) * n + k div 4) else acc ! k)"
      using k vs Suc.prems by (cases "k mod 4 = j") auto
  qed
  finally show ?case .
qed

lemma restore_lanes_all:
  assumes "length planes = 4 * n"
  shows "restore_lanes [0..<4] planes (replicate (length planes) 0) =
    Inr (map (\<lambda>k. planes ! ((k mod 4) * n + k div 4)) [0..<4 * n])"
  using restore_lanes_upto [OF assms, of "replicate (length planes) 0" 0] assms by simp

lemma shuffled_as_map:
  assumes "length xs = 4 * n"
  shows "concat (map (\<lambda>i. stride i xs) [0..<4]) = map (\<lambda>k. xs ! (4 * (k mod n) + k div n)) [0..<4 * n]"
proof -
  have "map (\<lambda>i. stride i xs) [0..<4] = map (\<lambda>i. map (\<lambda>k. xs ! (4 * k + i)) [0..<n]) [0..<4]"
    using assms by (intro map_cong) (auto simp: stride_4)
  then show ?thesis by (simp only: concat_blocks)
qed

lemma length_shuffled: "length xs = 4 * n \<Longrightarrow> length (concat (map (\<lambda>i. stride i xs) [0..<4])) = 4 * n"
  by (simp only: shuffled_as_map length_map length_upt diff_zero)

lemma restore_shuffled:
  assumes "length xs = 4 * n"
  shows "restore_lanes [0..<4] (concat (map (\<lambda>i. stride i xs) [0..<4])) (replicate (4 * n) 0) = Inr xs"
proof -
  let ?p = "concat (map (\<lambda>i. stride i xs) [0..<4])"
  have p: "?p = map (\<lambda>k. xs ! (4 * (k mod n) + k div n)) [0..<4 * n]"
    by (rule shuffled_as_map [OF assms])
  then have len: "length ?p = 4 * n" by simp
  have "map (\<lambda>k. ?p ! ((k mod 4) * n + k div 4)) [0..<4 * n] = map ((!) xs) [0..<length xs]"
  proof (rule map_cong)
    fix k
    assume "k \<in> set [0..<length xs]"
    then have k: "k < 4 * n" using assms by simp
    then have d: "k div 4 < n" by (simp add: less_mult_imp_div_less mult.commute)
    have "(k mod 4) * n + k div 4 < (k mod 4) * n + n" using d by simp
    also have "\<dots> = Suc (k mod 4) * n" by simp
    also have "\<dots> \<le> 4 * n" by (rule mult_le_mono1) (use mod_less_divisor [of 4 k] in linarith)
    finally have "?p ! ((k mod 4) * n + k div 4) = xs ! (4 * (k div 4) + k mod 4)"
      using d by (simp add: p)
    then show "?p ! ((k mod 4) * n + k div 4) = xs ! k" by simp
  qed (simp add: assms)
  then show ?thesis using restore_lanes_all [OF len] len by (simp add: map_nth)
qed

section \<open>Lemmas: the two readers\<close>

text \<open>A well-formed continuation, read off its bytes.\<close>

definition tokens_of :: "bytes \<Rightarrow> nat" where "tokens_of raw = le_nat (take 4 (drop 52 raw))"
definition markers_of :: "bytes \<Rightarrow> nat" where "markers_of raw = le_nat (take 4 (drop 56 raw))"

definition body_offset :: "bytes \<Rightarrow> nat" where
  "body_offset raw = 60 + 4 * (tokens_of raw + markers_of raw)"

definition continuation_ok :: "bytes \<Rightarrow> bool" where
  "continuation_ok raw \<longleftrightarrow>
     60 \<le> length raw \<and> take 4 raw \<in> {LAYQ, LAYI} \<and>
     1 \<le> tokens_of raw \<and> tokens_of raw \<le> 128 \<and> 2 \<le> markers_of raw \<and> markers_of raw \<le> 7 \<and>
     body_offset raw \<le> length raw \<and>
     (take 4 raw = LAYQ \<longrightarrow> (length raw - body_offset raw) mod 4 = 0)"

lemma magic_distinct [simp]:
  "LAYQ \<noteq> LAYI" "LAYI \<noteq> LAYQ" "LAYZ \<noteq> LAYQ" "LAYZ \<noteq> LAYI" "length LAYQ = 4" "length LAYI = 4" "length LAYZ = 4"
  by (simp_all add: LAYQ_def LAYI_def LAYZ_def)

lemma field_in_prefix:
  assumes "60 \<le> length raw" "take 60 raw = take 60 raw'" "m \<le> 56"
  shows "take 4 (drop m raw') = take 4 (drop m raw)"
proof -
  have "take 4 (drop m xs) = take 4 (drop m (take 60 xs))" for xs :: "'a list"
    using assms(3) by (simp add: drop_take min_def)
  from this [of raw] this [of raw'] show ?thesis using assms(2) by simp
qed

lemma prefix_fields:
  assumes "60 \<le> length raw" "take 60 raw = take 60 raw'"
  shows "tokens_of raw' = tokens_of raw" "markers_of raw' = markers_of raw" "take 4 raw' = take 4 raw"
  using field_in_prefix [OF assms, of 52] field_in_prefix [OF assms, of 56] field_in_prefix [OF assms, of 0]
  by (simp_all add: tokens_of_def markers_of_def)

lemma continuation_ok_prefix:
  assumes "60 \<le> length raw" "take 60 raw = take 60 raw'" "length raw = length raw'"
  shows "continuation_ok raw' = continuation_ok raw"
  using prefix_fields [OF assms(1,2)] assms(3) by (simp add: continuation_ok_def body_offset_def)

lemma u32_fields:
  "60 \<le> length raw \<Longrightarrow> u32_at 52 raw = Inr (tokens_of raw) \<and> u32_at 56 raw = Inr (markers_of raw)"
  by (simp add: u32_at_def tokens_of_def markers_of_def)

lemma check_header_iff:
  "check_header codec (take 60 raw) (length raw) = Inr (h, n) \<longleftrightarrow>
   continuation_ok raw \<and> (codec = None \<or> take 4 raw = (if codec = Some 1 then LAYI else LAYQ)) \<and>
   h = take 60 raw \<and> n = length raw"
proof (cases "60 \<le> length raw")
  case True
  then have "u32_at 52 (take 60 raw) = Inr (tokens_of raw)" "u32_at 56 (take 60 raw) = Inr (markers_of raw)"
    using u32_fields [OF True] u32_at_take [of 52 60 raw] u32_at_take [of 56 60 raw] by simp_all
  moreover have "take 4 (take 60 raw) = take 4 raw" by simp
  ultimately show ?thesis using True
    by (auto simp: check_header_def continuation_ok_def body_offset_def Let_def min_def)
next
  case False
  then show ?thesis by (simp add: check_header_def continuation_ok_def)
qed

lemma catch_zlib_Inr: "catch_zlib m = Inr x \<longleftrightarrow> m = Inr x"
  by (auto simp: catch_zlib_def split: sum.splits exn.splits)

text \<open>What both readers accept of the compressed payload.\<close>

definition inflates_to :: "('z \<Rightarrow> 'z inflate_step) \<Rightarrow> 'z \<Rightarrow> bytes \<Rightarrow> nat \<Rightarrow> bytes \<Rightarrow> bool" where
  "inflates_to step z0 data n out \<longleftrightarrow>
     (\<exists>z. inflate step z0 data (n + 1) = Inr (out, z, [], True)) \<and> length out = n"

lemma payload_unique: "inflates_to step z0 data n x \<Longrightarrow> inflates_to step z0 data n y \<Longrightarrow> x = y"
  by (auto simp: inflates_to_def)

lemma inspect_payload:
  assumes "checksummed step" "step z0 \<noteq> Finished"
  shows "(\<exists>d p k c. inspect_loop step n (decompressobj z0) data [] 0 = Inr (d, p, k, c) \<and>
      c = n \<and> eof d \<and> unused_data d = [] \<and> p = [] \<and> Q k) \<longleftrightarrow>
    (\<exists>out. inflates_to step z0 data n out \<and> Q (take 60 out))" (is "?L \<longleftrightarrow> ?R")
proof
  assume ?L
  then obtain d k where l: "inspect_loop step n (decompressobj z0) data [] 0 = Inr (d, [], k, n)"
    and d: "eof d" "unused_data d = []" and q: "Q k" by blast
  have z: "step (zstate (decompressobj z0)) \<noteq> Finished" "\<not> eof (decompressobj z0)"
    using assms by (simp_all add: decompressobj_def)
  from inspect_loop_sound [OF assms(1) z le0 l d(1)] d(2) q show ?R
    by (auto simp: inflates_to_def decompressobj_def)
next
  assume ?R
  then obtain out z where i: "inflate step z0 data (n + 1) = Inr (out, z, [], True)"
    and o: "length out = n" "Q (take 60 out)" by (auto simp: inflates_to_def)
  have z: "step (zstate (decompressobj z0)) \<noteq> Finished" "\<not> eof (decompressobj z0)"
    using assms by (simp_all add: decompressobj_def)
  have "inflate step (zstate (decompressobj z0)) data (n + 1 - 0) = Inr (out, z, [], True)"
    using i by (simp add: decompressobj_def)
  from inspect_loop_complete [OF assms(1) z _ this, of "[]"] o show ?L
    by (auto simp: decompressobj_def)
qed

lemma unpack_payload:
  "(\<exists>raw d. decompress step (decompressobj z0) data (n + 1) = Inr (raw, d) \<and>
      length raw = n \<and> eof d \<and> unused_data d = [] \<and> unconsumed_tail d = [] \<and> Q raw) \<longleftrightarrow>
    (\<exists>out. inflates_to step z0 data n out \<and> Q out)" (is "?L \<longleftrightarrow> ?R")
proof
  assume ?L
  then obtain raw d where "decompress step (decompressobj z0) data (n + 1) = Inr (raw, d)" "eof d"
    and d: "length raw = n" "unused_data d = []" "Q raw" by blast
  from decompress_ended [OF this(1,2)] d show ?R by (auto simp: decompressobj_def inflates_to_def)
next
  assume ?R
  then obtain out z where "inflate step (zstate (decompressobj z0)) data (n + 1) = Inr (out, z, [], True)"
    and o: "length out = n" "Q out" by (auto simp: decompressobj_def inflates_to_def)
  from inflate_decompress [OF this(1)] o show ?L by (auto simp: decompressobj_def)
qed

lemma layz_header_Inr:
  "layz_header wire = Inr (codec, n) \<Longrightarrow> codec \<in> {1, 2} \<and> 60 \<le> n \<and> n \<le> MAX_STATE_BYTES"
  by (auto simp: layz_header_def res_iff split: if_splits)

text \<open>The planes put back in order.\<close>

definition unshuffled :: "bytes \<Rightarrow> bytes" where
  "unshuffled raw =
     (let planes = drop (body_offset raw) raw; n = length planes div 4
      in take (body_offset raw) raw @ map (\<lambda>k. planes ! ((k mod 4) * n + k div 4)) [0..<4 * n])"

lemma restore_planes:
  "length planes mod 4 = 0 \<Longrightarrow>
   restore_lanes [0..<4] planes (replicate (length planes) 0) =
     Inr (map (\<lambda>k. planes ! ((k mod 4) * (length planes div 4) + k div 4)) [0..<4 * (length planes div 4)])"
  by (rule restore_lanes_all) (simp add: mod_0_imp_dvd)

lemma unshuffled_shape:
  assumes "body_offset raw \<le> length raw" "(length raw - body_offset raw) mod 4 = 0"
  shows "length (unshuffled raw) = length raw" "take 60 (unshuffled raw) = take 60 raw"
proof -
  have off: "60 \<le> body_offset raw" by (simp add: body_offset_def)
  have "4 * ((length raw - body_offset raw) div 4) = length raw - body_offset raw"
    using assms(2) by (simp add: mod_0_imp_dvd)
  then show "length (unshuffled raw) = length raw" using assms(1) by (simp add: unshuffled_def Let_def)
  show "take 60 (unshuffled raw) = take 60 raw"
    using off assms(1) by (simp add: unshuffled_def Let_def min_def)
qed

lemma open_raw_iff:
  "open_raw codec out = Inr raw \<longleftrightarrow>
    (if codec = 1 then take 4 out = LAYI \<and> raw = out
     else continuation_ok out \<and> take 4 out = LAYQ \<and> raw = unshuffled out)"
proof (cases "codec = 1 \<or> length out < 60 \<or> take 4 out \<noteq> LAYQ")
  case True
  then show ?thesis by (auto simp: open_raw_def starts_with_take continuation_ok_def)
next
  case False
  let ?f = "\<lambda>off. if \<not> (1 \<le> tokens_of out \<and> tokens_of out \<le> 128) \<or>
      \<not> (2 \<le> markers_of out \<and> markers_of out \<le> 7) \<or> length out < off \<or> (length out - off) mod 4 \<noteq> 0
    then Inl (Failure ''invalid shuffled query state'')
    else res_bind (restore_lanes [0..<4] (drop off out) (replicate (length (drop off out)) 0))
           (\<lambda>restored. Inr (take off out @ restored))"
  have "open_raw codec out = ?f (body_offset out)"
    using False u32_fields [of out] unfolding open_raw_def body_offset_def Let_def by simp
  moreover have "?f off = Inr raw \<longleftrightarrow>
      1 \<le> tokens_of out \<and> tokens_of out \<le> 128 \<and> 2 \<le> markers_of out \<and> markers_of out \<le> 7 \<and>
      off \<le> length out \<and> (length out - off) mod 4 = 0 \<and>
      raw = take off out @ map (\<lambda>k. drop off out ! ((k mod 4) * (length (drop off out) div 4) + k div 4))
        [0..<4 * (length (drop off out) div 4)]" for off
    using restore_planes [of "drop off out"] by (auto simp: not_less)
  ultimately show ?thesis using False
    by (auto simp: continuation_ok_def unshuffled_def Let_def)
qed

lemma inspect_state_iff:
  assumes "checksummed step" "step z0 \<noteq> Finished"
  shows "inspect_state step z0 wire = Inr (h, n) \<longleftrightarrow> length wire \<le> MAX_STATE_BYTES \<and>
    (if starts_with LAYZ wire
     then \<exists>codec out. layz_header wire = Inr (codec, n) \<and> inflates_to step z0 (drop 16 wire) n out \<and>
       continuation_ok out \<and> take 4 out = (if codec = 1 then LAYI else LAYQ) \<and> h = take 60 out
     else continuation_ok wire \<and> h = take 60 wire \<and> n = length wire)"
proof (cases "MAX_STATE_BYTES < length wire \<or> \<not> starts_with LAYZ wire")
  case True
  then show ?thesis by (auto simp: inspect_state_def check_header_iff)
next
  case False
  let ?ok = "\<lambda>codec size k. check_header (Some codec) k size = Inr (h, n)"
  have ok: "inflates_to step z0 data m out \<and> ?ok codec m (take 60 out) \<longleftrightarrow>
      m = n \<and> inflates_to step z0 data n out \<and> continuation_ok out \<and>
      take 4 out = (if codec = 1 then LAYI else LAYQ) \<and> h = take 60 out" for data m out codec
  proof (cases "length out = m")
    case True
    show ?thesis using check_header_iff [of "Some codec" out h n] unfolding True by auto
  qed (simp add: inflates_to_def)
  have "inspect_state step z0 wire = Inr (h, n) \<longleftrightarrow>
    (\<exists>codec size. layz_header wire = Inr (codec, size) \<and>
      (\<exists>d p k c. inspect_loop step size (decompressobj z0) (drop 16 wire) [] 0 = Inr (d, p, k, c) \<and>
        c = size \<and> eof d \<and> unused_data d = [] \<and> p = [] \<and> ?ok codec size k))"
    using False by (simp add: inspect_state_def res_bind_Inr catch_zlib_Inr if_res_Inr) blast
  also have "\<dots> \<longleftrightarrow> (\<exists>codec size. layz_header wire = Inr (codec, size) \<and>
      (\<exists>out. inflates_to step z0 (drop 16 wire) size out \<and> ?ok codec size (take 60 out)))"
    by (simp only: inspect_payload [OF assms])
  also have "\<dots> \<longleftrightarrow> (\<exists>codec out. layz_header wire = Inr (codec, n) \<and>
      inflates_to step z0 (drop 16 wire) n out \<and> continuation_ok out \<and>
      take 4 out = (if codec = 1 then LAYI else LAYQ) \<and> h = take 60 out)"
    by (simp only: ok) blast
  finally show ?thesis using False by simp
qed

lemma unpack_state_iff:
  "unpack_state step z0 wire = Inr raw \<longleftrightarrow> length wire \<le> MAX_STATE_BYTES \<and>
    (if starts_with LAYZ wire
     then \<exists>codec n out. layz_header wire = Inr (codec, n) \<and> inflates_to step z0 (drop 16 wire) n out \<and>
       (if codec = 1 then take 4 out = LAYI \<and> raw = out
        else continuation_ok out \<and> take 4 out = LAYQ \<and> raw = unshuffled out)
     else raw = wire)"
proof (cases "MAX_STATE_BYTES < length wire \<or> \<not> starts_with LAYZ wire")
  case True
  then show ?thesis by (auto simp: unpack_state_def)
next
  case False
  have "unpack_state step z0 wire = Inr raw \<longleftrightarrow>
    (\<exists>codec n. layz_header wire = Inr (codec, n) \<and>
      (\<exists>out d. decompress step (decompressobj z0) (drop 16 wire) (n + 1) = Inr (out, d) \<and>
        length out = n \<and> eof d \<and> unused_data d = [] \<and> unconsumed_tail d = [] \<and> open_raw codec out = Inr raw))"
    using False by (simp add: unpack_state_def res_bind_Inr catch_zlib_Inr if_res_Inr) blast
  also have "\<dots> \<longleftrightarrow> (\<exists>codec n. layz_header wire = Inr (codec, n) \<and>
      (\<exists>out. inflates_to step z0 (drop 16 wire) n out \<and> open_raw codec out = Inr raw))"
    by (simp only: unpack_payload)
  finally show ?thesis using False by (simp add: open_raw_iff)
qed

lemma continuation_ok_unshuffled:
  assumes "continuation_ok out" "take 4 out = LAYQ"
  shows "continuation_ok (unshuffled out)" "take 60 (unshuffled out) = take 60 out"
    "length (unshuffled out) = length out"
proof -
  have o: "body_offset out \<le> length out" "(length out - body_offset out) mod 4 = 0"
    using assms by (simp_all add: continuation_ok_def)
  note sh = unshuffled_shape [OF o]
  have "60 \<le> length out" using assms(1) by (simp add: continuation_ok_def)
  then show "continuation_ok (unshuffled out)"
    using assms(1) continuation_ok_prefix [OF _ sh(2) [symmetric] sh(1) [symmetric]] by simp
  show "take 60 (unshuffled out) = take 60 out" "length (unshuffled out) = length out"
    using sh by simp_all
qed

lemma shuffle_f32_Inr:
  assumes "shuffle_f32 raw = Inr s"
  shows "body_offset raw \<le> length raw \<or> drop (body_offset raw) raw = []"
    and "s = take (body_offset raw) raw @ concat (map (\<lambda>i. stride i (drop (body_offset raw) raw)) [0..<4])"
    and "60 \<le> length raw" "length (drop (body_offset raw) raw) mod 4 = 0" "take 4 raw = LAYQ"
proof -
  have len: "60 \<le> length raw"
    using assms by (auto simp: shuffle_f32_def res_iff u32_at_def split: if_splits)
  then show "60 \<le> length raw" .
  show "body_offset raw \<le> length raw \<or> drop (body_offset raw) raw = []" by auto
  have "(if take 4 raw \<noteq> LAYQ \<or> length (drop (body_offset raw) raw) mod 4 \<noteq> 0
      then Inl (Failure ''not a F32 continuation'')
      else Inr (take (body_offset raw) raw @
        concat (map (\<lambda>i. stride i (drop (body_offset raw) raw)) [0..<4]))) = Inr s"
    using assms u32_fields [OF len] unfolding shuffle_f32_def body_offset_def Let_def by simp
  then show "s = take (body_offset raw) raw @ concat (map (\<lambda>i. stride i (drop (body_offset raw) raw)) [0..<4])"
    "length (drop (body_offset raw) raw) mod 4 = 0" "take 4 raw = LAYQ"
    by (simp_all split: if_splits)
qed

text \<open>The shuffle keeps the header, and restoring its planes gives the values back.\<close>

lemma shuffle_facts:
  assumes "shuffle_f32 raw = Inr s"
  shows "take 60 s = take 60 raw" "length s = length raw" "body_offset s = body_offset raw"
    "take (body_offset raw) s = take (body_offset raw) raw"
    "restore_lanes [0..<4] (drop (body_offset raw) s) (replicate (length (drop (body_offset raw) s)) 0) =
       Inr (drop (body_offset raw) raw)"
proof -
  let ?off = "body_offset raw" and ?v = "drop (body_offset raw) raw"
  note f = shuffle_f32_Inr [OF assms]
  obtain n where n: "length ?v = 4 * n" using f(4) by (auto simp: mod_eq_0_iff_dvd dvd_def)
  let ?w = "concat (map (\<lambda>i. stride i ?v) [0..<4])"
  have w: "length ?w = 4 * n" by (rule length_shuffled [OF n])
  have off: "60 \<le> ?off" by (simp add: body_offset_def)
  have s: "s = take ?off raw @ ?w" using f(2) .
  show t: "take 60 s = take 60 raw" using s off f(3) by (simp add: min_def)
  have nil: "?w = []" if "length raw < ?off" using that w n by simp
  show "length s = length raw"
  proof (cases "length raw < ?off")
    case True
    then show ?thesis using s nil by simp
  next
    case False
    have "length s = length (take ?off raw) + length ?w" unfolding s by (rule length_append)
    then show ?thesis using False w n by simp
  qed
  have "60 \<le> length raw" using f(3) .
  from prefix_fields [OF this t [symmetric]] show "body_offset s = ?off"
    by (simp add: body_offset_def)
  show "take ?off s = take ?off raw" using s nil by (cases "length raw < ?off") (auto simp: min_def)
  have "drop ?off s = ?w"
  proof (cases "length raw < ?off")
    case True
    then have "s = raw" "?w = []" using s nil by simp_all
    then show ?thesis using True by simp
  next
    case False
    then have "length (take ?off raw) = ?off" by simp
    then show ?thesis unfolding s by (metis append_eq_conv_conj)
  qed
  then show "restore_lanes [0..<4] (drop ?off s) (replicate (length (drop ?off s)) 0) = Inr ?v"
    using restore_shuffled [OF n] w by simp
qed

lemma unshuffled_shuffled: "shuffle_f32 raw = Inr s \<Longrightarrow> unshuffled s = raw"
proof -
  assume s: "shuffle_f32 raw = Inr s"
  have m: "length (drop (body_offset raw) s) mod 4 = 0"
    using shuffle_facts(2) [OF s] shuffle_f32_Inr(4) [OF s] by simp
  have "unshuffled s = take (body_offset raw) s @ drop (body_offset raw) raw"
    using shuffle_facts(5) [OF s] restore_planes [OF m]
    by (simp add: unshuffled_def Let_def shuffle_facts(3) [OF s])
  also have "\<dots> = take (body_offset raw) raw @ drop (body_offset raw) raw"
    by (simp only: shuffle_facts(4) [OF s])
  finally show ?thesis by simp
qed

text \<open>An envelope as the canister writes it.\<close>

definition envelope :: "nat \<Rightarrow> nat \<Rightarrow> bytes \<Rightarrow> bytes" where
  "envelope codec n data = LAYZ @ le_bytes 4 1 @ le_bytes 4 codec @ le_bytes 4 n @ data"

lemma envelope_parts:
  assumes "codec \<in> {1, 2}" "60 \<le> n" "n \<le> MAX_STATE_BYTES"
  shows "starts_with LAYZ (envelope codec n data)" "drop 16 (envelope codec n data) = data"
    "layz_header (envelope codec n data) = Inr (codec, n)"
proof -
  show "starts_with LAYZ (envelope codec n data)" by (simp add: envelope_def)
  show "drop 16 (envelope codec n data) = data" by (simp add: envelope_def)
  have n: "n < 4294967296" and c: "codec < 4294967296"
    using assms by (auto simp: MAX_STATE_BYTES_def)
  have "u32_at 4 (envelope codec n data) = Inr 1" unfolding envelope_def
    by (rule u32_at_append) simp_all
  moreover have "u32_at 8 (envelope codec n data) = Inr codec"
    using u32_at_append [OF c, of "LAYZ @ le_bytes 4 1" 8] by (simp add: envelope_def)
  moreover have "u32_at 12 (envelope codec n data) = Inr n"
    using u32_at_append [OF n, of "LAYZ @ le_bytes 4 1 @ le_bytes 4 codec" 12] by (simp add: envelope_def)
  ultimately show "layz_header (envelope codec n data) = Inr (codec, n)"
    using assms by (auto simp: layz_header_def) (auto simp: envelope_def)
qed

lemma inspect_state_unpack:
  assumes "checksummed step" "step z0 \<noteq> Finished"
  shows "inspect_state step z0 wire = Inr (h, n) \<longleftrightarrow>
    (\<exists>raw. unpack_state step z0 wire = Inr raw \<and> continuation_ok raw \<and>
       h = take 60 raw \<and> n = length raw)"
proof (cases "starts_with LAYZ wire")
  case False
  then show ?thesis by (auto simp: inspect_state_iff [OF assms] unpack_state_iff)
next
  case True
  show ?thesis
  proof
    assume "inspect_state step z0 wire = Inr (h, n)"
    then obtain codec out where len: "length wire \<le> MAX_STATE_BYTES"
      and c: "layz_header wire = Inr (codec, n)" "inflates_to step z0 (drop 16 wire) n out"
        "continuation_ok out" "take 4 out = (if codec = 1 then LAYI else LAYQ)" "h = take 60 out"
      using True by (auto simp: inspect_state_iff [OF assms])
    let ?raw = "if codec = 1 then out else unshuffled out"
    have "unpack_state step z0 wire = Inr ?raw"
      unfolding unpack_state_iff using len True c by (intro conjI) (auto split: if_splits)
    moreover have "continuation_ok ?raw \<and> h = take 60 ?raw \<and> n = length ?raw"
      using c continuation_ok_unshuffled [of out] by (auto simp: inflates_to_def)
    ultimately show "\<exists>raw. unpack_state step z0 wire = Inr raw \<and> continuation_ok raw \<and>
       h = take 60 raw \<and> n = length raw" by blast
  next
    assume "\<exists>raw. unpack_state step z0 wire = Inr raw \<and> continuation_ok raw \<and>
       h = take 60 raw \<and> n = length raw"
    then obtain raw where u: "unpack_state step z0 wire = Inr raw"
      and r: "continuation_ok raw" "h = take 60 raw" "n = length raw" by blast
    from u True obtain codec m out where len: "length wire \<le> MAX_STATE_BYTES"
      and c: "layz_header wire = Inr (codec, m)" "inflates_to step z0 (drop 16 wire) m out"
        "if codec = 1 then take 4 out = LAYI \<and> raw = out
         else continuation_ok out \<and> take 4 out = LAYQ \<and> raw = unshuffled out"
      by (auto simp: unpack_state_iff)
    have "take 60 raw = take 60 out \<and> length raw = length out \<and> continuation_ok out"
      using c(3) r(1) continuation_ok_unshuffled [of out] by (auto split: if_splits)
    moreover have "length out = m" using c(2) by (simp add: inflates_to_def)
    ultimately show "inspect_state step z0 wire = Inr (h, n)"
      unfolding inspect_state_iff [OF assms] using len True c r by (auto split: if_splits)
  qed
qed

section \<open>Properties\<close>

text \<open>
  C2: the bounded inspection agrees with unpacking: on any wire bytes it succeeds exactly when
  \<open>unpack_state\<close> succeeds with a well-formed continuation, and then returns that continuation's
  first 60 bytes and its length, whatever pieces the decompressor was asked for.
\<close>

theorem inspect_agrees_unpack:
  assumes "checksummed step" "step z0 \<noteq> Finished"
  shows "inspect_state step z0 wire = Inr (h, n) \<longleftrightarrow>
    (\<exists>raw. unpack_state step z0 wire = Inr raw \<and> continuation_ok raw \<and>
       h = take 60 raw \<and> n = length raw)"
  by (rule inspect_state_unpack [OF assms])

text \<open>A decompressor for the witnesses: one length byte, that many bytes as they are, and a
  checksum byte that is skipped.\<close>

datatype stored = Start | Copy nat | Put byte nat | Trailer

fun stored_step :: "stored \<Rightarrow> stored inflate_step" where
  "stored_step Start = Need (\<lambda>b. Copy (unat b))"
| "stored_step (Copy 0) = Need (\<lambda>_. Trailer)"
| "stored_step (Copy (Suc n)) = Need (\<lambda>b. Put b n)"
| "stored_step (Put b n) = Emit b (Copy n)"
| "stored_step Trailer = Finished"

lemma stored_checksummed: "checksummed stored_step" "stored_step Start \<noteq> Finished"
proof -
  have "stored_step z' \<noteq> Finished" if "stored_step z = Emit b z'" for z b z'
  proof (cases z)
    case (Copy n)
    then show ?thesis using that by (cases n) auto
  next
    case (Put c n)
    then show ?thesis using that by (cases n) auto
  qed (use that in simp_all)
  then show "checksummed stored_step" by (auto simp: checksummed_def)
qed simp

lemma stored_inflate:
  "length xs \<le> room \<Longrightarrow>
   inflate stored_step (Copy (length xs)) (xs @ c # r) room = Inr (xs, Trailer, r, True)"
proof (induction xs arbitrary: room)
  case Nil
  then show ?case by (simp add: inflate.simps)
next
  case (Cons x xs)
  then obtain m where m: "room = Suc m" by (cases room) auto
  have "inflate stored_step (Copy (length (x # xs))) ((x # xs) @ c # r) room =
      inflate stored_step (Put x (length xs)) (xs @ c # r) room"
    by (subst inflate.simps) simp
  also have "\<dots> = Inr (x # xs, Trailer, r, True)"
    using Cons m by (subst inflate.simps) simp
  finally show ?case .
qed

lemma stored_payload:
  "length xs < 256 \<Longrightarrow> inflates_to stored_step Start (word_of_nat (length xs) # xs @ [0]) (length xs) xs"
  using stored_inflate [of xs "length xs + 1" 0 "[]"]
  by (simp add: inflates_to_def inflate.simps [of stored_step Start])

text \<open>A continuation of one token and two markers, and four bytes of a float.\<close>

definition sample_state :: bytes where
  "sample_state = LAYQ @ replicate 48 0 @ le_bytes 4 1 @ le_bytes 4 2 @ replicate 12 0 @ [1, 2, 3, 4]"

definition sample_wire :: bytes where
  "sample_wire = envelope 2 76 (76 # sample_state @ [0])"

theorem inspect_agrees_unpack_witness:
  "inspect_state stored_step Start sample_wire = Inr (take 60 sample_state, 76)"
proof -
  have c: "continuation_ok sample_state" "length sample_state = 76" "take 4 sample_state = LAYQ"
    and u: "unshuffled sample_state = sample_state" by code_simp+
  have "inflates_to stored_step Start (drop 16 sample_wire) 76 sample_state"
    using stored_payload [of sample_state] envelope_parts(2) [of 2 76] c(2)
    by (simp add: sample_wire_def MAX_STATE_BYTES_def)
  moreover have "length sample_wire = 94" by code_simp
  moreover have "starts_with LAYZ sample_wire" "layz_header sample_wire = Inr (2, 76)"
    using envelope_parts [of 2 76] by (simp_all add: sample_wire_def MAX_STATE_BYTES_def)
  ultimately have "unpack_state stored_step Start sample_wire = Inr sample_state"
    using c u by (auto simp: unpack_state_iff MAX_STATE_BYTES_def)
  then show ?thesis
    using c inspect_agrees_unpack [OF stored_checksummed, of sample_wire "take 60 sample_state" 76] by auto
qed

text \<open>
  C23: the byte shuffle of a continuation is undone by \<open>unshuffle_f32\<close>, and \<open>unpack_state\<close> gives
  the same bytes back from any envelope whose payload decompresses to the shuffled state.
\<close>

theorem shuffle_roundtrip:
  assumes "shuffle_f32 raw = Inr s" "continuation_ok raw" "inflates_to step z0 data (length raw) s"
    "length raw \<le> MAX_STATE_BYTES" "length data + 16 \<le> MAX_STATE_BYTES"
  shows "unshuffle_f32 s = Inr raw \<and> unpack_state step z0 (envelope 2 (length raw) data) = Inr raw"
proof
  note f = shuffle_facts [OF assms(1)]
  have len: "60 \<le> length raw" using shuffle_f32_Inr(3) [OF assms(1)] .
  then have "u32_at 52 s = Inr (tokens_of s)" "u32_at 56 s = Inr (markers_of s)"
    using u32_fields [of s] f(2) by simp_all
  moreover have "body_offset s = body_offset raw" by (rule f(3))
  ultimately show "unshuffle_f32 s = Inr raw"
    using f(4,5) unfolding unshuffle_f32_def body_offset_def Let_def by simp
  have "continuation_ok s" using continuation_ok_prefix [OF len f(1) [symmetric]] f(2) assms(2) by simp
  moreover have "take 4 s = LAYQ"
    using prefix_fields(3) [OF len f(1) [symmetric]] shuffle_f32_Inr(5) [OF assms(1)] by simp
  ultimately have "open_raw 2 s = Inr raw"
    using unshuffled_shuffled [OF assms(1)] by (simp add: open_raw_iff)
  then show "unpack_state step z0 (envelope 2 (length raw) data) = Inr raw"
    using envelope_parts [of 2 "length raw" data] len assms(3-5)
    by (auto simp: unpack_state_iff open_raw_iff envelope_def)
qed

theorem shuffle_roundtrip_witness:
  "\<exists>s. shuffle_f32 sample_state = Inr s \<and> unshuffle_f32 s = Inr sample_state \<and>
     unpack_state stored_step Start (envelope 2 (length sample_state) (76 # s @ [0])) = Inr sample_state"
proof -
  have s: "shuffle_f32 sample_state = Inr sample_state" by code_simp
  have c: "continuation_ok sample_state" and l: "length sample_state = 76" by code_simp+
  then have p: "inflates_to stored_step Start (76 # sample_state @ [0]) (length sample_state) sample_state"
    using stored_payload [of sample_state] by simp
  from shuffle_roundtrip [OF s c p] s show ?thesis by (simp add: l MAX_STATE_BYTES_def)
qed

text \<open>
  The automatic width is a step that can be taken: at least one phase, at most sixteen and
  the caller's cap, and never past the thirty-two phases.
\<close>

theorem auto_width_bounds:
  assumes "0 \<le> completed" "completed < 32" "1 \<le> cap"
  shows "1 \<le> auto_width tokens mode completed cap \<and>
    auto_width tokens mode completed cap \<le> min 16 cap \<and>
    completed + auto_width tokens mode completed cap \<le> 32"
  using assms by (simp add: auto_width_def Let_def min_def max_def)

theorem auto_width_bounds_witness:
  "auto_width 50 ''f32'' 12 16 = 6 \<and> 12 + auto_width 50 ''f32'' 12 16 \<le> 32"
  using auto_width_bounds [of 12 16 50 "''f32''"] by (simp add: auto_width_def)

end
