(* ===== verification/Client_Query.thy ===== *)
theory Client_Query
  imports PyJson Candid_Text Query_Transport "HOL-Library.Product_Lexorder" "HOL-Library.List_Lexorder"
    "HOL-Library.Char_ord"
begin

text \<open>
  The stateless part of \<open>tools/client_held_query.py\<close>: which errors are worth a retry, the binary
  Candid request of a query, and the reading of its reply.
\<close>

section \<open>Transient failures\<close>

text \<open>\<open>str(error)\<close> for the two exceptions the client catches.\<close>

definition exn_text :: "exn \<Rightarrow> string" where
  "exn_text e = (case e of Failure s \<Rightarrow> s | TimeoutExpired s \<Rightarrow> s | _ \<Rightarrow> [])"

text \<open>\<open>\b(?:status(?:\s+code)?|http(?:\s+error)?)\s*[:=]?\s*(\d{3})\b\<close>\<close>

definition rx_status :: rx where
  "rx_status = Seqs [WordB,
     Alt (Seqs [Lit ''status'', Opt (Seq (Plus rx_space) (Lit ''code''))])
         (Seqs [Lit ''http'', Opt (Seq (Plus rx_space) (Lit ''error''))]),
     rx_spaces, Opt (Cls (\<lambda>c. c = CHR '':'' \<or> c = CHR ''='')), rx_spaces,
     Grp 1 (Seqs [Cls is_digit, Cls is_digit, Cls is_digit]), WordB]"

definition transient_failure :: "exn \<Rightarrow> bool" where
  "transient_failure e =
     (case e of TimeoutExpired _ \<Rightarrow> True
      | _ \<Rightarrow>
        let message = lower (exn_text e);
            statuses = map (group 1) (find_all rx_status message)
        in if statuses \<noteq> []
           then list_all (\<lambda>s. py_int 10 s \<in> {Inr 429, Inr 502, Inr 503, Inr 504}) statuses
           else list_ex (\<lambda>v. contains v message)
                  [''transport'', ''timed out'', ''connection refused'', ''connection reset'',
                   ''error sending request'', ''temporarily unavailable''])"

section \<open>The request\<close>

text \<open>The hash of a Candid field name, in 32-bit arithmetic.\<close>

definition field_hash :: "string \<Rightarrow> nat" where
  "field_hash name = unat (fold (\<lambda>b r. r * 223 + ucast b) (encode name) (0 :: 32 word))"

definition field_order :: "(nat \<times> string) list" where
  "field_order = sort (map (\<lambda>name. (field_hash name, name)) [''input_ids'', ''markers'', ''qtype_id''])"

definition is_nat32 :: "json \<Rightarrow> bool" where
  "is_nat32 j = (case j of JInt n \<Rightarrow> 0 \<le> n \<and> n \<le> 0xffffffff | _ \<Rightarrow> False)"

text \<open>\<open>struct.pack("<I", value)\<close>\<close>

definition pack_json :: "json \<Rightarrow> bytes res" where
  "pack_json j = (case j of
     JInt n \<Rightarrow> pack_uint 4 n
   | JBool b \<Rightarrow> pack_uint 4 (of_bool b)
   | _ \<Rightarrow> Inl StructError)"

definition field_type :: "nat \<times> string \<Rightarrow> bytes" where
  "field_type = (\<lambda>(key, name). uleb key @ (if name = ''qtype_id'' then [0x79] else [0x00]))"

definition field_value :: "json \<Rightarrow> json \<Rightarrow> nat \<times> string \<Rightarrow> bytes res" where
  "field_value inp qtype = (\<lambda>(key, name).
     if name = ''qtype_id'' then pack_json qtype
     else res_bind (item name inp) (\<lambda>vs. res_bind (py_iter vs) (\<lambda>js.
            res_bind (mapM pack_json js) (\<lambda>bs. Inr (uleb (length js) @ concat bs)))))"

text \<open>Type 0 is a vector of \<open>nat32\<close>, type 1 the record of the three fields.\<close>

definition request_table :: bytes where
  "request_table = ascii ''DIDL'' @ [0x02, 0x6d, 0x79, 0x6c, 0x03] @ concat (map field_type field_order)"

definition encode_input :: "json \<Rightarrow> int option \<Rightarrow> bytes res" where
  "encode_input inp begin_steps =
     res_bind (item ''input_ids'' inp) (\<lambda>ids.
     res_bind (item ''markers'' inp) (\<lambda>markers.
     res_bind (item ''qtype_id'' inp) (\<lambda>qtype.
     res_bind (py_len ids) (\<lambda>n.
       if \<not> (1 \<le> n \<and> n \<le> 128)
       then Inl (Failure ''query input is outside supported token/marker/qtype bounds'')
       else
     res_bind (py_len markers) (\<lambda>k.
       if \<not> (2 \<le> k \<and> k \<le> 7) \<or> \<not> list_ex (eq_int qtype) [0, 1, 2]
       then Inl (Failure ''query input is outside supported token/marker/qtype bounds'')
       else
     res_bind (py_iter ids) (\<lambda>is.
     res_bind (py_iter markers) (\<lambda>ms.
       if list_ex (\<lambda>v. \<not> is_nat32 v) (is @ ms @ [qtype])
       then Inl (Failure ''query input fields must be nat32 integers'')
       else
     res_bind (mapM (field_value inp qtype) field_order) (\<lambda>values.
       case begin_steps of
         None \<Rightarrow> Inr (request_table @ [0x01, 0x01] @ concat values)
       | Some steps \<Rightarrow>
           if \<not> (1 \<le> steps \<and> steps \<le> 16) then Inl (Failure ''query steps must be 1..16'')
           else res_bind (pack_uint 4 steps) (\<lambda>s.
                  Inr (request_table @ [0x02, 0x01, 0x79] @ concat values @ s))))))))))"

definition continue_table :: bytes where
  "continue_table = ascii ''DIDL'' @ [0x01, 0x6d, 0x7b, 0x02, 0x00, 0x79]"

definition encode_continue :: "bytes \<Rightarrow> int \<Rightarrow> bytes res" where
  "encode_continue state steps =
     (if \<not> (1 \<le> steps \<and> steps \<le> 16) then Inl (Failure ''query steps must be 1..16'')
      else res_bind (pack_uint 4 steps) (\<lambda>s. Inr (continue_table @ uleb (length state) @ state @ s)))"

section \<open>The reply\<close>

text \<open>\<open>logits\s*=\s*vec\s*\{([^}]*)\}\<close>\<close>

definition rx_logits :: rx where
  "rx_logits = Seqs [Lit ''logits'', rx_spaces, Lit ''='', rx_spaces, Lit ''vec'', rx_spaces, Lit ''{'',
     Grp 1 (Star (Cls (\<lambda>c. c \<noteq> CHR ''}''))), Lit ''}'']"

text \<open>\<open>float(v.strip().split(":")[0].replace("_", ""))\<close>\<close>

definition read_logit :: "string \<Rightarrow> fl res" where
  "read_logit v = py_float (remove_char (CHR ''_'') (hd (split_char (CHR '':'') (strip v))))"

definition read_logits :: "string \<Rightarrow> fl list res" where
  "read_logits body = mapM read_logit (filter (\<lambda>v. strip v \<noteq> []) (split_char (CHR '';'') body))"

definition decode_logits :: "string \<Rightarrow> fl list res" where
  "decode_logits reply =
     (case search rx_logits reply of
        None \<Rightarrow> Inl (Failure ''missing query logits'')
      | Some m \<Rightarrow>
          res_bind (read_logits (group 1 m)) (\<lambda>logits.
            if logits = [] \<or> list_ex (\<lambda>v. \<not> fl_finite v) logits
            then Inl (Failure ''invalid query logits'') else Inr logits))"

text \<open>\<open>variant\s*\{\s*Tag\s*=\<close>\<close>

definition rx_variant :: "string \<Rightarrow> rx" where
  "rx_variant tag = Seqs [Lit ''variant'', rx_spaces, Lit ''{'', rx_spaces, Lit tag, rx_spaces, Lit ''='']"

definition found :: "rx \<Rightarrow> string \<Rightarrow> bool" where
  "found r s = (search r s \<noteq> None)"

record progress =
  is_done :: bool
  completed :: int
  total_phases :: int
  instructions :: int
  plogits :: "fl list"
  pstate :: "bytes option"
  raw_state_bytes :: nat
  pbundle :: string
  pformat :: string

definition progress_field :: "string \<Rightarrow> string \<Rightarrow> int res" where
  "progress_field reply key =
     (case search (rx_field WordB key) reply of
        None \<Rightarrow> Inl (Failure (''missing query progress field: '' @ key))
      | Some m \<Rightarrow> read_number (group 1 m))"

text \<open>The checks on a continuation: its magic, revisions and step, and the model it names.\<close>

definition decode_state ::
  "('z \<Rightarrow> 'z inflate_step) \<Rightarrow> 'z \<Rightarrow> bytes \<Rightarrow> int \<Rightarrow> (nat \<times> string \<times> string) res" where
  "decode_state step z0 state c =
     res_bind (inspect_state step z0 state) (\<lambda>(raw, raw_size).
       if length raw < 60 \<or> take 4 raw \<notin> {LAYQ, LAYI}
       then Inl (Failure ''invalid continuation header'')
       else
         res_bind (u32_at 4 raw) (\<lambda>version.
         res_bind (u32_at 8 raw) (\<lambda>revision.
           if (version, revision) \<noteq> (1, if take 4 raw = LAYI then 2 else 1)
           then Inl (Failure ''unsupported continuation revision'')
           else
             res_bind (u32_at 44 raw) (\<lambda>phase.
               if int phase \<noteq> c
               then Inl (Failure ''continuation step differs from progress'')
               else Inr (raw_size, hex (take 32 (drop 12 raw)),
                         if take 4 raw = LAYI then ''int8'' else ''f32'')))))"

definition one_blob :: "bytes list \<Rightarrow> bytes res" where
  "one_blob blobs = (case blobs of
     [state] \<Rightarrow> Inr state
   | _ \<Rightarrow> Inl (Failure ''expected exactly one continuation blob''))"

definition decode_progress ::
  "('z \<Rightarrow> 'z inflate_step) \<Rightarrow> 'z \<Rightarrow> string \<Rightarrow> progress res" where
  "decode_progress step z0 reply =
     (if \<not> found (rx_variant ''Ok'') reply then Inl (Failure reply)
      else
        let fin = found (rx_variant ''Done'') reply
        in if \<not> fin \<and> \<not> found (rx_variant ''Continue'') reply
           then Inl (Failure ''invalid query progress variant'')
           else
             res_bind (progress_field reply ''completed'') (\<lambda>c.
             res_bind (progress_field reply ''total'') (\<lambda>t.
             res_bind (progress_field reply ''instructions'') (\<lambda>i.
               if fin then
                 res_bind (decode_logits reply) (\<lambda>ls.
                   Inr \<lparr>is_done = True, completed = c, total_phases = t, instructions = i, plogits = ls,
                        pstate = None, raw_state_bytes = 0, pbundle = [], pformat = []\<rparr>)
               else
                 res_bind (decode_blobs reply) (\<lambda>blobs.
                 res_bind (one_blob blobs) (\<lambda>state.
                 res_bind (decode_state step z0 state c) (\<lambda>(raw_size, b, f).
                   Inr \<lparr>is_done = False, completed = c, total_phases = t, instructions = i,
                        plogits = [], pstate = Some state, raw_state_bytes = raw_size,
                        pbundle = b, pformat = f\<rparr>)))))))"

section \<open>Lemmas: the request\<close>

lemma field_hashes:
  "field_hash ''input_ids'' = 460118595" "field_hash ''qtype_id'' = 941149999"
  "field_hash ''markers'' = 1744211321"
  by (simp_all add: field_hash_def encode_def utf8_char_def)

lemma field_order_eq:
  "field_order = [(460118595, ''input_ids''), (941149999, ''qtype_id''), (1744211321, ''markers'')]"
  by (simp add: field_order_def field_hashes)

definition nat32_of :: "json \<Rightarrow> nat" where
  "nat32_of j = (case j of JInt n \<Rightarrow> nat n | _ \<Rightarrow> 0)"

lemma nat32_bound: "is_nat32 j \<Longrightarrow> nat32_of j < 4294967296"
  by (auto simp: is_nat32_def nat32_of_def split: json.splits)

lemma pack_nat32: "is_nat32 j \<Longrightarrow> pack_json j = Inr (le_bytes 4 (nat32_of j))"
  by (auto simp: is_nat32_def nat32_of_def pack_json_def pack_uint_def split: json.splits)

lemma pack_nat32s:
  "list_all is_nat32 js \<Longrightarrow> mapM pack_json js = Inr (map (le_bytes 4) (map nat32_of js))"
  by (induction js) (simp_all add: pack_nat32)

text \<open>The three fields of an acceptable input, as numbers.\<close>

definition request_fields :: "json \<Rightarrow> (nat list \<times> nat \<times> nat list) option" where
  "request_fields inp =
     (case (res_bind (item ''input_ids'' inp) py_iter, item ''qtype_id'' inp,
            res_bind (item ''markers'' inp) py_iter) of
        (Inr is, Inr q, Inr ms) \<Rightarrow>
          if list_all is_nat32 (is @ ms @ [q]) \<and> 1 \<le> length is \<and> length is \<le> 128 \<and>
             2 \<le> length ms \<and> length ms \<le> 7 \<and> nat32_of q \<le> 2
          then Some (map nat32_of is, nat32_of q, map nat32_of ms) else None
      | _ \<Rightarrow> None)"

definition u32s :: "nat list \<Rightarrow> bytes" where
  "u32s ns = uleb (length ns) @ concat (map (le_bytes 4) ns)"

definition request_bytes :: "nat list \<times> nat \<times> nat list \<Rightarrow> nat option \<Rightarrow> bytes" where
  "request_bytes f steps = (case f of (ids, q, ms) \<Rightarrow>
     request_table @
     (case steps of None \<Rightarrow> [0x01, 0x01] | Some _ \<Rightarrow> [0x02, 0x01, 0x79]) @
     u32s ids @ le_bytes 4 q @ u32s ms @
     (case steps of None \<Rightarrow> [] | Some n \<Rightarrow> le_bytes 4 n))"

lemma eq_small: "list_ex (eq_int q) [0, 1, 2] \<Longrightarrow> is_nat32 q \<Longrightarrow> nat32_of q \<le> 2"
  by (auto simp: eq_int_def is_nat32_def nat32_of_def split: json.splits)

lemma field_value_vec:
  assumes "name \<noteq> ''qtype_id''" "item name inp = Inr vs" "py_iter vs = Inr js" "list_all is_nat32 js"
  shows "field_value inp q (key, name) = Inr (u32s (map nat32_of js))"
  using assms pack_nat32s [OF assms(4)] by (simp add: field_value_def u32s_def)

text \<open>What \<open>encode_input\<close> does on every input.\<close>

lemma encode_input_Inr:
  assumes "encode_input inp begin_steps = Inr bs"
  obtains f where "request_fields inp = Some f" "bs = request_bytes f (map_option nat begin_steps)"
    "case begin_steps of None \<Rightarrow> True | Some n \<Rightarrow> 1 \<le> n \<and> n \<le> 16"
proof -
  obtain ids ms q where it: "item ''input_ids'' inp = Inr ids" "item ''markers'' inp = Inr ms"
    "item ''qtype_id'' inp = Inr q"
    using assms by (auto simp: encode_input_def res_bind_Inr)
  obtain n k il ml where v: "py_len ids = Inr n" "py_len ms = Inr k" "py_iter ids = Inr il" "py_iter ms = Inr ml"
    and b: "1 \<le> n" "n \<le> 128" "2 \<le> k" "k \<le> 7" "list_ex (eq_int q) [0, 1, 2]"
    and t: "\<not> list_ex (\<lambda>v. \<not> is_nat32 v) (il @ ml @ [q])"
    using assms it by (auto simp: encode_input_def res_bind_Inr split: if_splits)
  have t': "list_all is_nat32 il" "list_all is_nat32 ml" "is_nat32 q"
    using t by (auto simp: list_ex_iff list_all_iff)
  have len: "length il = n" "length ml = k" using v py_iter_length by force+
  have f: "request_fields inp = Some (map nat32_of il, nat32_of q, map nat32_of ml)"
    using it v b t' len eq_small [OF b(5) t'(3)] by (simp add: request_fields_def)
  have vals: "mapM (field_value inp q) field_order =
      Inr [u32s (map nat32_of il), le_bytes 4 (nat32_of q), u32s (map nat32_of ml)]"
    using field_value_vec [OF _ it(1) v(3) t'(1)] field_value_vec [OF _ it(2) v(4) t'(2)]
      pack_nat32 [OF t'(3)]
    by (simp add: field_order_eq field_value_def)
  show thesis
  proof (rule that [OF f])
    show "bs = request_bytes (map nat32_of il, nat32_of q, map nat32_of ml) (map_option nat begin_steps)"
      using assms it v b t vals
      by (auto simp: encode_input_def request_bytes_def pack_uint_def split: option.splits if_splits)
    show "case begin_steps of None \<Rightarrow> True | Some n \<Rightarrow> 1 \<le> n \<and> n \<le> 16"
      using assms it v b t vals by (auto simp: encode_input_def split: option.splits if_splits)
  qed
qed

lemma encode_input_ok:
  assumes "request_fields inp = Some f" "case begin_steps of None \<Rightarrow> True | Some n \<Rightarrow> 1 \<le> n \<and> n \<le> 16"
  shows "encode_input inp begin_steps = Inr (request_bytes f (map_option nat begin_steps))"
proof -
  obtain ids ms q il ml where it: "item ''input_ids'' inp = Inr ids" "item ''markers'' inp = Inr ms"
    "item ''qtype_id'' inp = Inr q" and v: "py_iter ids = Inr il" "py_iter ms = Inr ml"
    and t: "list_all is_nat32 il" "list_all is_nat32 ml" "is_nat32 q"
    and b: "1 \<le> length il" "length il \<le> 128" "2 \<le> length ml" "length ml \<le> 7" "nat32_of q \<le> 2"
    and f: "f = (map nat32_of il, nat32_of q, map nat32_of ml)"
    using assms(1) by (auto simp: request_fields_def res_bind_Inr split: sum.splits if_splits)
  have l: "py_len ids = Inr (length il)" "py_len ms = Inr (length ml)" using v py_iter_length by auto
  have q: "list_ex (eq_int q) [0, 1, 2]"
    using t(3) b(5) by (auto simp: eq_int_def is_nat32_def nat32_of_def split: json.splits)
  have nt: "\<not> list_ex (\<lambda>v. \<not> is_nat32 v) (il @ ml @ [q])" using t by (auto simp: list_ex_iff list_all_iff)
  have vals: "mapM (field_value inp q) field_order =
      Inr [u32s (map nat32_of il), le_bytes 4 (nat32_of q), u32s (map nat32_of ml)]"
    using field_value_vec [OF _ it(1) v(1) t(1)] field_value_vec [OF _ it(2) v(2) t(2)]
      pack_nat32 [OF t(3)]
    by (simp add: field_order_eq field_value_def)
  show ?thesis
  proof (cases begin_steps)
    case None
    then show ?thesis using it v l b q nt vals f by (simp add: encode_input_def request_bytes_def)
  next
    case (Some n)
    then show ?thesis using it v l b q nt vals f assms(2)
      by (simp add: encode_input_def request_bytes_def pack_uint_def)
  qed
qed

text \<open>The reader of the two message types.\<close>

definition read_u32s :: "bytes \<Rightarrow> (nat list \<times> bytes) option" where
  "read_u32s bs = (case read_uleb bs of None \<Rightarrow> None | Some (n, r) \<Rightarrow> u32_codec.dec_many n r)"

interpretation u32s_codec: prefix_codec u32s read_u32s "list_all (\<lambda>v. v < 4294967296)"
  by unfold_locales (simp add: u32s_def read_u32s_def read_uleb_uleb u32_codec.dec_many_enc)

lemma request_bytes_inj:
  assumes "request_fields inp = Some f" "request_fields inp' = Some f'"
    and b: "\<forall>n. steps = Some n \<longrightarrow> n \<le> 16" "\<forall>n. steps' = Some n \<longrightarrow> n \<le> 16"
    and eq: "request_bytes f steps = request_bytes f' steps'"
  shows "f = f' \<and> steps = steps'"
proof -
  obtain ids q ms ids' q' ms' where f: "f = (ids, q, ms)" "f' = (ids', q', ms')"
    by (metis prod_cases3)
  have v: "list_all (\<lambda>v. v < 4294967296) ids" "list_all (\<lambda>v. v < 4294967296) ms" "q < 4294967296"
    "list_all (\<lambda>v. v < 4294967296) ids'" "list_all (\<lambda>v. v < 4294967296) ms'" "q' < 4294967296"
    using assms(1,2) nat32_bound unfolding f
    by (auto simp: request_fields_def list_all_iff split: sum.splits if_splits)
  have kind: "(steps = None) = (steps' = None)"
    using eq by (auto simp: request_bytes_def f split: option.splits)
  have e: "u32s ids @ le_bytes 4 q @ u32s ms @ (case steps of None \<Rightarrow> [] | Some n \<Rightarrow> le_bytes 4 n) =
      u32s ids' @ le_bytes 4 q' @ u32s ms' @ (case steps' of None \<Rightarrow> [] | Some n \<Rightarrow> le_bytes 4 n)"
    using eq kind by (auto simp: request_bytes_def f split: option.splits)
  note 1 = u32s_codec.enc_inj [OF v(1,4) e]
  note 2 = u32_codec.enc_inj [OF v(3,6) conjunct2 [OF 1]]
  note 3 = u32s_codec.enc_inj [OF v(2,5) conjunct2 [OF 2]]
  have "steps = steps'"
  proof (cases steps)
    case (Some n)
    then obtain n' where n': "steps' = Some n'" using kind by auto
    have nn: "n < 4294967296" "n' < 4294967296" using Some n' b by auto
    have "le_bytes 4 n @ [] = le_bytes 4 n' @ []" using 3 Some n' by simp
    then show ?thesis using u32_codec.enc_inj [OF nn] Some n' by blast
  qed (use kind in simp)
  then show ?thesis using 1 2 3 f by simp
qed

lemma encode_continue_Inr:
  "encode_continue state steps = Inr bs \<longleftrightarrow>
   1 \<le> steps \<and> steps \<le> 16 \<and> bs = continue_table @ uleb_frame state @ le_bytes 4 (nat steps)"
  by (auto simp: encode_continue_def pack_uint_def uleb_frame_def)

section \<open>Lemmas: the reply\<close>

lemma decode_logits_Inr:
  "decode_logits reply = Inr ls \<Longrightarrow> ls \<noteq> [] \<and> list_all fl_finite ls"
  by (auto simp: decode_logits_def res_iff list_ex_iff list_all_iff split: option.splits if_splits)

lemma one_blob_Inr: "one_blob blobs = Inr b \<longleftrightarrow> blobs = [b]"
  by (auto simp: one_blob_def split: list.splits)

lemma decode_progress_done:
  "decode_progress step z0 reply = Inr p \<Longrightarrow> is_done p \<Longrightarrow>
   decode_logits reply = Inr (plogits p) \<and> pstate p = None"
  by (auto simp: decode_progress_def Let_def res_iff split: if_splits)

lemma decode_progress_more:
  assumes "decode_progress step z0 reply = Inr p" "\<not> is_done p"
  obtains b where "pstate p = Some b" "decode_blobs reply = Inr [b]"
    "decode_state step z0 b (completed p) = Inr (raw_state_bytes p, pbundle p, pformat p)"
  using assms by (auto simp: decode_progress_def Let_def res_iff one_blob_Inr split: if_splits)

section \<open>Properties\<close>

text \<open>
  C25: \<open>encode_input\<close> returns a message exactly on the inputs with 1 to 128 token ids, 2 to 7
  markers, a question type of at most 2, all 32-bit integers, and 1 to 16 steps if any.
\<close>

theorem encode_input_outcome:
  "is_ok (encode_input inp begin_steps) =
     (request_fields inp \<noteq> None \<and> begin_steps \<in> {None} \<union> Some ` {1..16})"
proof
  assume "is_ok (encode_input inp begin_steps)"
  then obtain bs where "encode_input inp begin_steps = Inr bs" by (auto simp: is_ok_iff)
  then show "request_fields inp \<noteq> None \<and> begin_steps \<in> {None} \<union> Some ` {1..16}"
    by (rule encode_input_Inr) (cases begin_steps; simp)
next
  assume a: "request_fields inp \<noteq> None \<and> begin_steps \<in> {None} \<union> Some ` {1..16}"
  then obtain f where "request_fields inp = Some f" by auto
  from encode_input_ok [OF this, of begin_steps] a show "is_ok (encode_input inp begin_steps)"
    by auto
qed

text \<open>
  C24: two query requests with the same bytes carry the same token ids, markers, question type
  and number of steps: nothing of the input is lost or confused on the wire.
\<close>

theorem encode_input_injective:
  assumes "encode_input inp steps = Inr bs" "encode_input inp' steps' = Inr bs"
  shows "request_fields inp \<noteq> None \<and> request_fields inp = request_fields inp' \<and> steps = steps'"
proof -
  obtain f where f: "request_fields inp = Some f" "bs = request_bytes f (map_option nat steps)"
    and s: "case steps of None \<Rightarrow> True | Some n \<Rightarrow> 1 \<le> n \<and> n \<le> 16"
    by (rule encode_input_Inr [OF assms(1)])
  obtain f' where f': "request_fields inp' = Some f'" "bs = request_bytes f' (map_option nat steps')"
    and s': "case steps' of None \<Rightarrow> True | Some n \<Rightarrow> 1 \<le> n \<and> n \<le> 16"
    by (rule encode_input_Inr [OF assms(2)])
  have "f = f' \<and> map_option nat steps = map_option nat steps'"
    by (rule request_bytes_inj [OF f(1) f'(1)]) (use f f' s s' in \<open>auto split: option.splits\<close>)
  then show ?thesis using f(1) f'(1) s s' by (auto split: option.splits)
qed

definition sample_input :: json where
  "sample_input = JObj [(''input_ids'', JList [JInt 1, JInt 70000]), (''markers'', JList [JInt 0, JInt 1]),
     (''qtype_id'', JInt 2)]"

theorem encode_input_injective_witness:
  "\<exists>bs. encode_input sample_input (Some 3) = Inr bs \<and> request_fields sample_input = Some ([1, 70000], 2, [0, 1])"
proof -
  have f: "request_fields sample_input = Some ([1, 70000], 2, [0, 1])"
    by (simp add: sample_input_def request_fields_def is_nat32_def nat32_of_def)
  have "encode_input sample_input (Some 3) = Inr (request_bytes ([1, 70000], 2, [0, 1]) (Some 3))"
    using encode_input_ok [OF f, of "Some 3"] by simp
  with encode_input_injective [OF this this] f show ?thesis by blast
qed

text \<open>
  A continuation request is determined by its bytes: state and number of steps.
\<close>

theorem encode_continue_injective:
  assumes "encode_continue state steps = Inr bs" "encode_continue state' steps' = Inr bs"
  shows "state = state' \<and> steps = steps'"
proof -
  have r: "1 \<le> steps" "steps \<le> 16" "1 \<le> steps'" "steps' \<le> 16"
    and eq: "uleb_frame state @ le_bytes 4 (nat steps) = uleb_frame state' @ le_bytes 4 (nat steps')"
    using assms by (auto simp: encode_continue_Inr)
  note st = frame_codec.enc_inj [OF TrueI TrueI eq]
  then have eq': "le_bytes 4 (nat steps) @ [] = le_bytes 4 (nat steps') @ []" by simp
  have "nat steps < 4294967296" "nat steps' < 4294967296" using r by auto
  from u32_codec.enc_inj [OF this eq'] have "nat steps = nat steps'" by simp
  then show ?thesis using r st by simp
qed

theorem encode_continue_injective_witness:
  "\<exists>bs. encode_continue [1, 2] 3 = Inr bs \<and> (\<forall>s n. encode_continue s n = Inr bs \<longrightarrow> s = [1, 2] \<and> n = 3)"
proof -
  have e: "encode_continue [1, 2] 3 = Inr (continue_table @ uleb_frame [1, 2] @ le_bytes 4 3)"
    by (simp add: encode_continue_Inr)
  then show ?thesis using encode_continue_injective [OF _ e] by blast
qed

text \<open>
  C26: a progress reply that is accepted is coherent: finished, it has only finite logits and no
  state; unfinished, it has exactly one blob, which is a well-formed continuation of revision 1
  or 2, whose step is the reported one.
\<close>

theorem decode_progress_coherent:
  assumes "decode_progress step z0 reply = Inr p" "checksummed step" "step z0 \<noteq> Finished"
  shows "if is_done p then pstate p = None \<and> plogits p \<noteq> [] \<and> list_all fl_finite (plogits p)
    else \<exists>wire raw. pstate p = Some wire \<and> decode_blobs reply = Inr [wire] \<and>
      unpack_state step z0 wire = Inr raw \<and> continuation_ok raw \<and>
      raw_state_bytes p = length raw \<and>
      pformat p = (if take 4 raw = LAYI then ''int8'' else ''f32'') \<and>
      int (le_nat (take 4 (drop 44 raw))) = completed p \<and>
      pbundle p = hex (take 32 (drop 12 raw))"
proof (cases "is_done p")
  case True
  then show ?thesis using decode_progress_done [OF assms(1)] decode_logits_Inr by auto
next
  case False
  then obtain b where b: "pstate p = Some b" "decode_blobs reply = Inr [b]"
    and d: "decode_state step z0 b (completed p) = Inr (raw_state_bytes p, pbundle p, pformat p)"
    using decode_progress_more [OF assms(1)] by blast
  obtain h n where h: "inspect_state step z0 b = Inr (h, n)"
    using d by (auto simp: decode_state_def res_bind_Inr)
  then obtain raw where raw: "unpack_state step z0 b = Inr raw" "continuation_ok raw"
    "h = take 60 raw" "n = length raw"
    using inspect_state_unpack [OF assms(2,3)] by blast
  have len: "60 \<le> length raw" using raw(2) by (simp add: continuation_ok_def)
  then have lh: "length h = 60" "take 4 h = take 4 raw" "take 32 (drop 12 h) = take 32 (drop 12 raw)"
    "take 4 (drop 44 h) = take 4 (drop 44 raw)"
    using raw(3) by (simp_all add: drop_take min_def)
  then have "raw_state_bytes p = n" "pbundle p = hex (take 32 (drop 12 h))"
    "pformat p = (if take 4 h = LAYI then ''int8'' else ''f32'')"
    "int (le_nat (take 4 (drop 44 h))) = completed p"
    using d h by (auto simp: decode_state_def res_iff u32_at_def split: if_splits)
  then show ?thesis using False b raw lh by auto
qed

end
