(* ===== verification/Query_Session.thy ===== *)
theory Query_Session
  imports Client_Query
begin

text \<open>
  The class \<open>QuerySession\<close> of \<open>tools/client_held_query.py\<close>: one inference whose continuation is held
  by the client.  The command line tool is a parameter: it gets the command and the bytes of
  the argument file and answers in an outside world of any type.  Wall-clock fields are left out.
\<close>

section \<open>The session\<close>

record ('w, 'z) channel =
  run_icp :: "string list \<Rightarrow> bytes \<Rightarrow> ('w, string) io"
  args_path :: string
  env :: string
  did :: string
  zstep :: "'z \<Rightarrow> 'z inflate_step"
  zinit :: 'z

record failed_attempt =
  failed_method :: string
  failed_steps :: int
  failed_request_bytes :: nat
  failed_error :: string

record query_call =
  call_method :: string
  call_completed :: int
  call_instructions :: int
  call_steps :: int
  call_request_bytes :: nat
  call_continuation_bytes :: nat
  call_state_bytes :: nat

record session =
  inp :: json
  steps :: int
  auto :: bool
  auto_cap :: int
  compression :: string
  direct :: bool
  fused_begin :: bool
  prog :: "progress option"
  calls :: "query_call list"
  session_bundle :: "string option"
  retries :: int
  failed_attempts :: "failed_attempt list"
  activation_format :: string

definition input_length :: "json \<Rightarrow> nat res" where
  "input_length j = res_bind (item ''input_ids'' j) py_len"

definition new_session :: "json \<Rightarrow> int option \<Rightarrow> int \<Rightarrow> string \<Rightarrow> string \<Rightarrow> session res" where
  "new_session j given tries format compr =
     (if (case given of None \<Rightarrow> False | Some n \<Rightarrow> \<not> (1 \<le> n \<and> n \<le> 16))
      then Inl (Failure ''query steps must be 1..16'')
      else if compr \<noteq> ''auto'' \<and> compr \<noteq> ''none''
      then Inl (Failure ''query compression must be auto or none'')
      else
        res_bind (if given = None \<and> format = ''f32''
                  then res_bind (input_length j) (\<lambda>n. Inr (n \<le> 16)) else Inr False) (\<lambda>short.
          if format \<noteq> ''f32'' \<and> format \<noteq> ''int8''
          then Inl (Failure ''unsupported query activation format'')
          else Inr \<lparr>inp = j, steps = (case given of None \<Rightarrow> 1 | Some n \<Rightarrow> n), auto = (given = None),
                 auto_cap = 16, compression = compr, direct = short,
                 fused_begin = (given = None \<and> \<not> short), prog = None, calls = [], session_bundle = None,
                 retries = tries, failed_attempts = [], activation_format = format\<rparr>))"

section \<open>One request with its retries\<close>

definition caught :: "exn \<Rightarrow> bool" where
  "caught e = (case e of Failure _ \<Rightarrow> True | TimeoutExpired _ \<Rightarrow> True | _ \<Rightarrow> False)"

definition instruction_limit :: "exn \<Rightarrow> bool" where
  "instruction_limit e =
     (let message = lower (exn_text e)
      in contains ''instruction'' message \<and> (contains ''limit'' message \<or> contains ''exceeded'' message))"

text \<open>\<open>encode_continue(self.progress["state"], self.steps)\<close>\<close>

definition continue_payload :: "session \<Rightarrow> bytes res" where
  "continue_payload s = (case prog s of
     None \<Rightarrow> Inl TypeError
   | Some p \<Rightarrow> (case pstate p of
       Some state \<Rightarrow> encode_continue state (steps s)
     | None \<Rightarrow> res_bind (encode_continue [] (steps s)) (\<lambda>_. Inl TypeError)))"

definition record_failure :: "string \<Rightarrow> bytes \<Rightarrow> exn \<Rightarrow> session \<Rightarrow> session" where
  "record_failure meth payload e s =
     s\<lparr>failed_attempts := failed_attempts s @
        [\<lparr>failed_method = meth, failed_steps = steps s, failed_request_bytes = length payload,
          failed_error = take 1024 (exn_text e)\<rparr>]\<rparr>"

definition halve_steps :: "session \<Rightarrow> session" where
  "halve_steps s =
     (let n = max 1 (steps s div 2)
      in s\<lparr>steps := n, auto_cap := (if auto s then min (auto_cap s) n else auto_cap s)\<rparr>)"

definition smaller_payload :: "bool \<Rightarrow> session \<Rightarrow> bytes res" where
  "smaller_payload beginning s =
     (if beginning then encode_input (inp s) (Some (steps s)) else continue_payload s)"

lemma record_failure_simps [simp]:
  "steps (record_failure m b e s) = steps s" "retries (record_failure m b e s) = retries s"
  "fused_begin (record_failure m b e s) = fused_begin s" "auto (record_failure m b e s) = auto s"
  "prog (record_failure m b e s) = prog s" "calls (record_failure m b e s) = calls s"
  "inp (record_failure m b e s) = inp s" "direct (record_failure m b e s) = direct s"
  "session_bundle (record_failure m b e s) = session_bundle s" "compression (record_failure m b e s) = compression s"
  "activation_format (record_failure m b e s) = activation_format s"
  "auto_cap (record_failure m b e s) = auto_cap s"
  "length (failed_attempts (record_failure m b e s)) = Suc (length (failed_attempts s))"
  by (simp_all add: record_failure_def)

lemma halve_steps_simps [simp]:
  "steps (halve_steps s) = max 1 (steps s div 2)" "retries (halve_steps s) = retries s"
  "fused_begin (halve_steps s) = fused_begin s" "auto (halve_steps s) = auto s"
  "prog (halve_steps s) = prog s" "calls (halve_steps s) = calls s"
  "inp (halve_steps s) = inp s" "direct (halve_steps s) = direct s"
  "session_bundle (halve_steps s) = session_bundle s" "compression (halve_steps s) = compression s"
  "activation_format (halve_steps s) = activation_format s"
  "failed_attempts (halve_steps s) = failed_attempts s"
  by (simp_all add: halve_steps_def Let_def)

function (sequential) attempt_loop ::
  "('w, 'z) channel \<Rightarrow> string list \<Rightarrow> string \<Rightarrow> bool \<Rightarrow> bytes \<Rightarrow> int \<Rightarrow> session \<Rightarrow> 'w \<Rightarrow>
   (string \<times> bytes) res \<times> session \<times> 'w" where
  "attempt_loop ch command meth beginning payload attempts s w =
     (case run_icp ch command payload w of
        (Inr reply, w') \<Rightarrow> (Inr (reply, payload), s, w')
      | (Inl e, w') \<Rightarrow>
          if \<not> caught e then (Inl e, s, w')
          else
            let s1 = record_failure meth payload e s
            in if instruction_limit e \<and> (\<not> beginning \<or> fused_begin s1) \<and> 1 < steps s1
               then (case smaller_payload beginning (halve_steps s1) of
                       Inl e' \<Rightarrow> (Inl e', halve_steps s1, w')
                     | Inr payload' \<Rightarrow>
                         attempt_loop ch command meth beginning payload' attempts (halve_steps s1) w')
               else if \<not> transient_failure e \<or> retries s1 \<le> attempts then (Inl e, s1, w')
               else attempt_loop ch command meth beginning payload (attempts + 1) s1 w')"
  by pat_completeness auto
termination
  by (relation "measures [\<lambda>(_, _, _, _, _, _, s, _). nat (steps s),
        \<lambda>(_, _, _, _, _, attempts, s, _). nat (retries s - attempts)]") (auto simp: max_def)

declare attempt_loop.simps [simp del]

section \<open>One step\<close>

definition choose_width :: "session \<Rightarrow> session res" where
  "choose_width s =
     (if auto s \<and> \<not> direct s
      then res_bind (input_length (inp s)) (\<lambda>n.
             Inr (s\<lparr>steps := auto_width (int n) (activation_format s)
               (case prog s of None \<Rightarrow> 0 | Some p \<Rightarrow> completed p) (auto_cap s)\<rparr>))
      else Inr s)"

definition query_method :: "session \<Rightarrow> string" where
  "query_method s =
     (let beginning = (prog s = None);
          m = (if beginning then ''begin_token_inference_query'' else ''continue_token_inference_query'');
          m = (if activation_format s = ''int8'' then replace ''_query'' ''_int8_query'' m else m);
          m = (if beginning \<and> fused_begin s then replace ''_query'' ''_batch_query'' m else m);
          m = (if compression s = ''auto'' then replace ''_query'' ''_compressed_query'' m else m)
      in if direct s then ''infer_tokens_query'' else m)"

definition request_payload :: "session \<Rightarrow> bytes res" where
  "request_payload s =
     (if prog s = None then encode_input (inp s) (if fused_begin s then Some (steps s) else None)
      else continue_payload s)"

definition query_command :: "('w, 'z) channel \<Rightarrow> string \<Rightarrow> string list" where
  "query_command ch meth =
     [''canister'', ''call'', ''decision-engine'', meth, ''--args-file'', args_path ch, ''--args-format'',
      ''bin'', ''--query'', ''-e'', env ch, ''--candid'', did ch]"

definition read_reply :: "('w, 'z) channel \<Rightarrow> session \<Rightarrow> string \<Rightarrow> progress res" where
  "read_reply ch s reply =
     (if direct s then
        (if \<not> found (rx_variant ''Ok'') reply then Inl (Failure reply)
         else case search (rx_field WordB ''instructions'') reply of
                None \<Rightarrow> Inl (Failure ''missing short-query instruction count'')
              | Some m \<Rightarrow>
                  res_bind (decode_logits reply) (\<lambda>ls.
                  res_bind (read_number (group 1 m)) (\<lambda>i.
                    Inr \<lparr>is_done = True, completed = 32, total_phases = 32, instructions = i, plogits = ls,
                         pstate = None, raw_state_bytes = 0, pbundle = [], pformat = []\<rparr>)))
      else decode_progress (zstep ch) (zinit ch) reply)"

definition expected_completed :: "session \<Rightarrow> progress \<Rightarrow> int" where
  "expected_completed s next =
     (if direct s then 32
      else case prog s of
             None \<Rightarrow> if fused_begin s then min (steps s) (total_phases next) else 0
           | Some p \<Rightarrow> min (completed p + steps s) (total_phases p))"

text \<open>The checks on a reply; those after the bundle is stored leave it stored.\<close>

definition check_reply :: "session \<Rightarrow> progress \<Rightarrow> unit res \<times> session" where
  "check_reply s next =
     (let expected = expected_completed s next
      in if completed next \<noteq> expected \<or> \<not> (0 \<le> expected \<and> expected \<le> total_phases next)
         then (Inl (Failure ''unexpected query progress''), s)
         else if (case prog s of None \<Rightarrow> False | Some p \<Rightarrow> total_phases next \<noteq> total_phases p)
         then (Inl (Failure ''query phase count changed''), s)
         else if is_done next \<noteq> (expected = total_phases next)
         then (Inl (Failure ''query completion does not match phase count''), s)
         else case (if is_done next
                    then res_bind (item ''markers'' (inp s)) (\<lambda>ms. res_bind (py_len ms) (\<lambda>n.
                           if length (plogits next) \<noteq> n
                           then Inl (Failure ''query logit count differs from marker count'') else Inr ()))
                    else Inr ()) of
           Inl e \<Rightarrow> (Inl e, s)
         | Inr _ \<Rightarrow>
             if auto s \<and> total_phases next \<noteq> 32
             then (Inl (Failure ''automatic query grouping requires 32 phases''), s)
             else
               let s1 = (if direct s then s\<lparr>session_bundle := Some AUTO_BUNDLE\<rparr> else s)
               in if is_done next then (Inr (), s1)
                  else if pformat next \<noteq> activation_format s1
                  then (Inl (Failure ''query activation format changed''), s1)
                  else if session_bundle s1 \<notin> {None, Some [], Some (pbundle next)}
                  then (Inl (Failure ''query model changed''), s1)
                  else
                    let s2 = s1\<lparr>session_bundle := Some (pbundle next)\<rparr>
                    in if auto s2 \<and> (pbundle next \<noteq> AUTO_BUNDLE \<or> total_phases next \<noteq> 32)
                       then (Inl (Failure ''automatic query grouping requires the calibrated pack and 32 phases''), s2)
                       else (Inr (), s2))"

definition call_of :: "string \<Rightarrow> session \<Rightarrow> progress \<Rightarrow> bytes \<Rightarrow> query_call" where
  "call_of meth s next payload =
     \<lparr>call_method = meth, call_completed = expected_completed s next,
      call_instructions = instructions next,
      call_steps = (if prog s = None \<and> \<not> fused_begin s then 0 else steps s),
      call_request_bytes = length payload,
      call_continuation_bytes = (case pstate next of None \<Rightarrow> 0 | Some b \<Rightarrow> length b),
      call_state_bytes = raw_state_bytes next\<rparr>"

definition finished :: "session \<Rightarrow> bool" where
  "finished s = (case prog s of None \<Rightarrow> False | Some p \<Rightarrow> is_done p)"

definition advance :: "('w, 'z) channel \<Rightarrow> session \<Rightarrow> 'w \<Rightarrow> progress res \<times> session \<times> 'w" where
  "advance ch s w =
     (if finished s then (Inl (Failure ''query inference is already complete''), s, w)
      else case choose_width s of
        Inl e \<Rightarrow> (Inl e, s, w)
      | Inr s1 \<Rightarrow>
          let meth = query_method s1
          in case request_payload s1 of
               Inl e \<Rightarrow> (Inl e, s1, w)
             | Inr payload \<Rightarrow>
                 (case attempt_loop ch (query_command ch meth) meth (prog s1 = None) payload 0 s1 w of
                    (Inl e, s2, w2) \<Rightarrow> (Inl e, s2, w2)
                  | (Inr (reply, sent), s2, w2) \<Rightarrow>
                      (case read_reply ch s2 reply of
                         Inl e \<Rightarrow> (Inl e, s2, w2)
                       | Inr next \<Rightarrow>
                           (case check_reply s2 next of
                              (Inl e, s3) \<Rightarrow> (Inl e, s3, w2)
                            | (Inr _, s3) \<Rightarrow>
                                (Inr next, s3\<lparr>calls := calls s3 @ [call_of meth s2 next sent],
                                              prog := Some next\<rparr>, w2)))))"

section \<open>Lemmas: the retry loop\<close>

text \<open>What a request never changes in its session.\<close>

definition same_inference :: "session \<Rightarrow> session \<Rightarrow> bool" where
  "same_inference s t \<longleftrightarrow>
     prog t = prog s \<and> calls t = calls s \<and> inp t = inp s \<and> auto t = auto s \<and> direct t = direct s \<and>
     fused_begin t = fused_begin s \<and> retries t = retries s \<and> compression t = compression s \<and>
     activation_format t = activation_format s"

lemma same_inference_refl [simp]: "same_inference s s"
  by (simp add: same_inference_def)

lemma same_inference_trans: "same_inference s t \<Longrightarrow> same_inference t u \<Longrightarrow> same_inference s u"
  by (simp add: same_inference_def)

lemma same_inference_step [simp]:
  "same_inference s (record_failure m b e s)" "same_inference s (halve_steps (record_failure m b e s))"
  by (simp_all add: same_inference_def)

text \<open>How often a width can be halved, and how often one request can fail.\<close>

function halvings :: "int \<Rightarrow> nat" where
  "halvings n = (if n \<le> 1 then 0 else Suc (halvings (max 1 (n div 2))))"
  by auto
termination by (relation "measure nat") (auto simp: max_def)

declare halvings.simps [simp del]

lemma halvings_small: "n \<le> 1 \<Longrightarrow> halvings n = 0"
  by (subst halvings.simps) simp

lemma halvings_half: "1 < n \<Longrightarrow> halvings n = Suc (halvings (max 1 (n div 2)))"
  by (subst halvings.simps) simp

lemma halvings_bound: "n \<le> 2 ^ k \<Longrightarrow> halvings n \<le> k"
proof (induction k arbitrary: n)
  case (Suc k)
  show ?case
  proof (cases "1 < n")
    case True
    have "max 1 (n div 2) \<le> 2 ^ k" using Suc.prems by auto
    then show ?thesis using Suc.IH halvings_half [OF True] by simp
  qed (simp add: halvings_small)
qed (simp add: halvings_small)

definition failure_bound :: "int \<Rightarrow> int \<Rightarrow> nat" where
  "failure_bound tries n = nat tries + halvings n + 1"

lemmas attempt_cases = sum.splits prod.splits if_splits

text \<open>A request leaves the inference as it was, and only ever lowers the width.\<close>

lemma attempt_loop_frame:
  "attempt_loop ch command meth beginning payload attempts s w = (r, t, w') \<Longrightarrow>
   same_inference s t \<and> steps t \<le> steps s \<and> (1 \<le> steps s \<longrightarrow> 1 \<le> steps t) \<and>
   session_bundle t = session_bundle s \<and>
   length (failed_attempts t) \<le> length (failed_attempts s) + failure_bound (retries s - attempts) (steps s)"
proof (induction ch command meth beginning payload attempts s w rule: attempt_loop.induct)
  case (1 ch command meth beginning payload attempts s w)
  note step = attempt_loop.simps [of ch command meth beginning payload attempts s w]
  obtain q w1 where q: "run_icp ch command payload w = (q, w1)" by fastforce
  show ?case
  proof (cases q)
    case (Inr reply)
    then show ?thesis using "1.prems" q by (auto simp: step failure_bound_def)
  next
    case (Inl e)
    let ?s1 = "record_failure meth payload e s"
    let ?limit = "instruction_limit e \<and> (\<not> beginning \<or> fused_begin ?s1) \<and> 1 < steps ?s1"
    consider "\<not> caught e" | "caught e" ?limit | "caught e" "\<not> ?limit" "\<not> transient_failure e \<or> retries ?s1 \<le> attempts"
      | "caught e" "\<not> ?limit" "\<not> (\<not> transient_failure e \<or> retries ?s1 \<le> attempts)" by blast
    then show ?thesis
    proof cases
      case 1
      then show ?thesis using "1.prems" q Inl by (auto simp: step failure_bound_def)
    next
      case 2
      then have h: "failure_bound (retries s - attempts) (steps s) =
          Suc (failure_bound (retries s - attempts) (max 1 (steps s div 2)))"
        by (simp add: failure_bound_def halvings_half)
      have le: "max 1 (steps s div 2) \<le> steps s" using 2 by auto
      show ?thesis
      proof (cases "smaller_payload beginning (halve_steps ?s1)")
        case (Inl e')
        then show ?thesis using "1.prems" q \<open>q = Inl e\<close> 2 le h by (auto simp: step)
      next
        case (Inr payload')
        have "attempt_loop ch command meth beginning payload' attempts (halve_steps ?s1) w1 = (r, t, w')"
          using "1.prems" q Inl 2 Inr unfolding step Let_def by auto
        note ih = "1.IH"(1) [OF q [symmetric] Inl _ refl 2(2) Inr this, simplified 2(1), simplified]
        have "same_inference s t"
          using ih same_inference_trans [OF same_inference_step(2)] by blast
        moreover have "steps t \<le> steps s" using ih order_trans [OF _ le] by blast
        ultimately show ?thesis using ih h by simp
      qed
    next
      case 3
      then show ?thesis using "1.prems" q Inl by (auto simp: step failure_bound_def)
    next
      case 4
      have "attempt_loop ch command meth beginning payload (attempts + 1) ?s1 w1 = (r, t, w')"
        using "1.prems" q Inl 4 unfolding step Let_def by auto
      moreover have "failure_bound (retries s - attempts) (steps s) =
          Suc (failure_bound (retries s - (attempts + 1)) (steps s))"
        using 4(3) by (simp add: failure_bound_def nat_diff_distrib Suc_nat_eq_nat_zadd1)
      moreover note ih = "1.IH"(2) [OF q [symmetric] Inl _ refl 4(2,3), simplified 4(1), simplified]
      ultimately show ?thesis using same_inference_trans [OF same_inference_step(1)] by fastforce
    qed
  qed
qed

text \<open>The bytes last sent are the request of the session at the width it ended with.\<close>

lemma request_payload_cong:
  "same_inference s t \<Longrightarrow> steps t = steps s \<Longrightarrow> request_payload t = request_payload s"
  by (auto simp: same_inference_def request_payload_def continue_payload_def split: option.split)

lemma smaller_payload_request:
  "b = (prog s = None) \<Longrightarrow> \<not> b \<or> fused_begin s \<Longrightarrow> smaller_payload b s = request_payload s"
  by (auto simp: smaller_payload_def request_payload_def)

lemma attempt_loop_sent:
  "attempt_loop ch command meth beginning payload attempts s w = (Inr (reply, sent), t, w') \<Longrightarrow>
   beginning = (prog s = None) \<Longrightarrow> request_payload s = Inr payload \<Longrightarrow> request_payload t = Inr sent"
proof (induction ch command meth beginning payload attempts s w rule: attempt_loop.induct)
  case (1 ch command meth beginning payload attempts s w)
  note step = attempt_loop.simps [of ch command meth beginning payload attempts s w]
  obtain q w1 where q: "run_icp ch command payload w = (q, w1)" by fastforce
  show ?case
  proof (cases q)
    case (Inr reply')
    then show ?thesis using "1.prems" q unfolding step by simp
  next
    case (Inl e)
    let ?s1 = "record_failure meth payload e s"
    let ?limit = "instruction_limit e \<and> (\<not> beginning \<or> fused_begin ?s1) \<and> 1 < steps ?s1"
    have c: "caught e" using "1.prems"(1) q Inl by (auto simp: step split: if_splits)
    show ?thesis
    proof (cases ?limit)
      case True
      then obtain payload' where p: "smaller_payload beginning (halve_steps ?s1) = Inr payload'"
        using "1.prems"(1) q Inl c by (auto simp: step Let_def split: sum.splits)
      have "attempt_loop ch command meth beginning payload' attempts (halve_steps ?s1) w1 =
          (Inr (reply, sent), t, w')"
        using "1.prems"(1) q Inl c True p unfolding step Let_def by auto
      moreover have "request_payload (halve_steps ?s1) = Inr payload'"
        using p True "1.prems"(2) smaller_payload_request [of beginning "halve_steps ?s1"] by simp
      ultimately show ?thesis
        using "1.IH"(1) [OF q [symmetric] Inl _ refl True p] c "1.prems"(2) by simp
    next
      case False
      then have n: "\<not> (\<not> transient_failure e \<or> retries ?s1 \<le> attempts)"
        using "1.prems"(1) q Inl c by (auto simp: step Let_def split: if_splits)
      have "attempt_loop ch command meth beginning payload (attempts + 1) ?s1 w1 =
          (Inr (reply, sent), t, w')"
        using "1.prems"(1) q Inl c False n unfolding step Let_def by auto
      moreover have "request_payload ?s1 = Inr payload"
        using "1.prems"(3) request_payload_cong [OF same_inference_step(1)] by simp
      ultimately show ?thesis
        using "1.IH"(2) [OF q [symmetric] Inl _ refl False n] c "1.prems"(2) by simp
    qed
  qed
qed

section \<open>Lemmas: one step\<close>

lemma choose_width_frame:
  "choose_width s = Inr t \<Longrightarrow> same_inference s t \<and> session_bundle t = session_bundle s \<and>
     failed_attempts t = failed_attempts s \<and> auto_cap t = auto_cap s"
  by (auto simp: choose_width_def same_inference_def res_iff split: if_splits)

lemma auto_width_le: "auto_width tokens mode c cap \<le> 16"
  by (simp add: auto_width_def Let_def min_def)

lemma choose_width_steps: "choose_width s = Inr t \<Longrightarrow> steps t \<le> max (steps s) 16"
  by (auto simp: choose_width_def res_iff le_max_iff_disj auto_width_le split: if_splits)

lemma check_reply_frame:
  "check_reply s next = (r, t) \<Longrightarrow> same_inference s t \<and> steps t = steps s \<and>
     failed_attempts t = failed_attempts s"
  by (auto simp: check_reply_def Let_def same_inference_def split: if_splits sum.splits)

lemma check_reply_ok:
  assumes "check_reply s next = (Inr u, t)"
  shows "completed next = expected_completed s next" "0 \<le> completed next" "completed next \<le> total_phases next"
    "is_done next = (completed next = total_phases next)"
    "prog s = Some p \<Longrightarrow> total_phases next = total_phases p"
    "is_done next \<Longrightarrow> res_bind (item ''markers'' (inp s)) py_len = Inr (length (plogits next))"
    "\<not> is_done next \<Longrightarrow> pformat next = activation_format s \<and> session_bundle t = Some (pbundle next)"
    "auto s \<Longrightarrow> total_phases next = 32"
    "session_bundle s \<noteq> None \<Longrightarrow> session_bundle s \<noteq> Some [] \<Longrightarrow> \<not> direct s \<Longrightarrow> session_bundle t = session_bundle s"
  using assms
  by (auto simp: check_reply_def Let_def res_iff split: if_splits sum.splits)

text \<open>A bundle that is known is kept.\<close>

lemma check_reply_bundle:
  "check_reply s next = (r, t) \<Longrightarrow> session_bundle s = Some b \<Longrightarrow> b \<noteq> [] \<Longrightarrow> \<not> direct s \<Longrightarrow>
   session_bundle t = Some b"
  by (auto simp: check_reply_def Let_def split: if_splits sum.splits)

text \<open>A step that fails leaves the inference where it was.\<close>

lemma advance_error:
  assumes a: "advance ch s w = (Inl e, t, w')"
  shows "same_inference s t"
    and "session_bundle s = Some b \<Longrightarrow> b \<noteq> [] \<Longrightarrow> \<not> direct s \<Longrightarrow> session_bundle t = Some b"
    and "steps t \<le> max (steps s) 16"
proof -
  let ?keep = "\<lambda>u. session_bundle s = Some b \<longrightarrow> b \<noteq> [] \<longrightarrow> \<not> direct s \<longrightarrow> session_bundle u = Some b"
  have "same_inference s t \<and> ?keep t \<and> steps t \<le> max (steps s) 16"
  proof (cases "finished s \<or> is_ok (choose_width s) = False")
    case True
    then show ?thesis using a by (auto simp: advance_def is_ok_def split: sum.splits if_splits)
  next
    case False
    then obtain s1 where s1: "\<not> finished s" "choose_width s = Inr s1" by (auto simp: is_ok_iff)
    note w1 = choose_width_frame [OF s1(2)] choose_width_steps [OF s1(2)]
    show ?thesis
    proof (cases "request_payload s1")
      case (Inl e1)
      then show ?thesis using a s1 w1 by (simp add: advance_def Let_def)
    next
      case (Inr payload)
      obtain q s2 w2 where l: "attempt_loop ch (query_command ch (query_method s1)) (query_method s1)
          (prog s1 = None) payload 0 s1 w = (q, s2, w2)" by (metis prod_cases3)
      note s2 = attempt_loop_frame [OF l]
      have k2: "same_inference s s2 \<and> ?keep s2 \<and> steps s2 \<le> max (steps s) 16"
        using s2 w1 same_inference_trans by auto
      have "t = s2 \<or> (\<exists>next. check_reply s2 next = (Inl e, t))"
        using a s1 Inr l by (auto simp: advance_def Let_def split: sum.splits prod.splits)
      then show ?thesis
      proof
        assume "\<exists>next. check_reply s2 next = (Inl e, t)"
        then obtain nx where c: "check_reply s2 nx = (Inl e, t)" ..
        show ?thesis
          using k2 check_reply_frame [OF c] check_reply_bundle [OF c, of b] same_inference_trans
          by (auto simp: same_inference_def)
      qed (use k2 in simp)
    qed
  qed
  then show "same_inference s t" "session_bundle s = Some b \<Longrightarrow> b \<noteq> [] \<Longrightarrow> \<not> direct s \<Longrightarrow> session_bundle t = Some b"
    "steps t \<le> max (steps s) 16" by auto
qed

lemma advance_okE:
  assumes "advance ch s w = (Inr next, t, w')"
  obtains s1 payload s2 s3 reply sent where
    "\<not> finished s" "choose_width s = Inr s1" "request_payload s1 = Inr payload"
    "attempt_loop ch (query_command ch (query_method s1)) (query_method s1) (prog s1 = None) payload 0 s1 w =
       (Inr (reply, sent), s2, w')"
    "read_reply ch s2 reply = Inr next" "check_reply s2 next = (Inr (), s3)"
    "t = s3\<lparr>calls := calls s3 @ [call_of (query_method s1) s2 next sent], prog := Some next\<rparr>"
  using assms
  by (auto simp: advance_def Let_def split: if_splits sum.splits prod.splits)

lemma continue_payload_Inr:
  "continue_payload s = Inr b \<Longrightarrow> \<exists>p st. prog s = Some p \<and> pstate p = Some st \<and>
     encode_continue st (steps s) = Inr b \<and> 1 \<le> steps s \<and> steps s \<le> 16"
  by (auto simp: continue_payload_def encode_continue_Inr res_iff split: option.splits)

lemma read_reply_direct: "direct s \<Longrightarrow> read_reply ch s reply = Inr next \<Longrightarrow>
    is_done next \<and> completed next = 32 \<and> total_phases next = 32"
  by (auto simp: read_reply_def res_iff split: if_splits option.splits)

text \<open>What a successful step does.\<close>

lemma advance_ok:
  assumes "advance ch s w = (Inr next, t, w')"
  shows "prog t = Some next" "\<not> finished s"
    "\<exists>c. calls t = calls s @ [c] \<and> call_completed c = completed next \<and> call_instructions c = instructions next"
    "inp t = inp s \<and> auto t = auto s \<and> direct t = direct s \<and> fused_begin t = fused_begin s \<and>
      retries t = retries s \<and> activation_format t = activation_format s \<and> compression t = compression s"
    "0 \<le> completed next" "completed next \<le> total_phases next"
    "is_done next = (completed next = total_phases next)"
    "prog s = Some p \<Longrightarrow> total_phases next = total_phases p"
    "prog s = Some p \<Longrightarrow> \<not> direct s \<Longrightarrow>
      completed next = min (completed p + steps t) (total_phases p) \<and> 1 \<le> steps t \<and> steps t \<le> 16"
    "prog s = None \<Longrightarrow> \<not> direct s \<Longrightarrow>
      completed next = (if fused_begin s then min (steps t) (total_phases next) else 0)"
    "direct s \<Longrightarrow> is_done next"
    "is_done next \<Longrightarrow> res_bind (item ''markers'' (inp s)) py_len = Inr (length (plogits next))"
    "\<not> is_done next \<Longrightarrow> pformat next = activation_format s \<and> session_bundle t = Some (pbundle next)"
    "auto s \<Longrightarrow> total_phases next = 32"
proof -
  obtain s1 payload s2 s3 reply sent where a: "\<not> finished s" "choose_width s = Inr s1"
    "request_payload s1 = Inr payload"
    "attempt_loop ch (query_command ch (query_method s1)) (query_method s1) (prog s1 = None) payload 0 s1 w =
       (Inr (reply, sent), s2, w')"
    "read_reply ch s2 reply = Inr next" "check_reply s2 next = (Inr (), s3)"
    "t = s3\<lparr>calls := calls s3 @ [call_of (query_method s1) s2 next sent], prog := Some next\<rparr>"
    by (rule advance_okE [OF assms])
  have s2: "same_inference s s2"
    using choose_width_frame [OF a(2)] attempt_loop_frame [OF a(4)] same_inference_trans by blast
  note s3 = check_reply_frame [OF a(6)] and ok = check_reply_ok [OF a(6)]
  have sent: "request_payload s2 = Inr sent" using attempt_loop_sent [OF a(4) refl a(3)] .
  note frames = s2 [unfolded same_inference_def] s3 [unfolded same_inference_def]
  show "prog t = Some next" "\<not> finished s" using a by simp_all
  show "\<exists>c. calls t = calls s @ [c] \<and> call_completed c = completed next \<and> call_instructions c = instructions next"
    using a(7) frames ok(1) by (auto simp: call_of_def)
  show "inp t = inp s \<and> auto t = auto s \<and> direct t = direct s \<and> fused_begin t = fused_begin s \<and>
      retries t = retries s \<and> activation_format t = activation_format s \<and> compression t = compression s"
    using a(7) frames by simp
  show "0 \<le> completed next" "completed next \<le> total_phases next"
    "is_done next = (completed next = total_phases next)" using ok by simp_all
  show "prog s = Some p \<Longrightarrow> total_phases next = total_phases p" using ok(5) frames by simp
  show "completed next = min (completed p + steps t) (total_phases p) \<and> 1 \<le> steps t \<and> steps t \<le> 16"
    if "prog s = Some p" "\<not> direct s"
    using that ok(1) frames a(7) sent continue_payload_Inr [of s2 sent]
    by (auto simp: expected_completed_def request_payload_def)
  show "completed next = (if fused_begin s then min (steps t) (total_phases next) else 0)"
    if "prog s = None" "\<not> direct s"
    using that ok(1) frames a(7) by (auto simp: expected_completed_def)
  show "direct s \<Longrightarrow> is_done next" using read_reply_direct [OF _ a(5)] frames by simp
  show "is_done next \<Longrightarrow> res_bind (item ''markers'' (inp s)) py_len = Inr (length (plogits next))"
    using ok(6) frames by simp
  show "\<not> is_done next \<Longrightarrow> pformat next = activation_format s \<and> session_bundle t = Some (pbundle next)"
    using ok(7) frames a(7) by simp
  show "auto s \<Longrightarrow> total_phases next = 32" using ok(8) frames by simp
qed

text \<open>Progress is strict: a step from an unfinished inference completes more phases.\<close>

lemma advance_strict:
  assumes "advance ch s w = (Inr next, t, w')" "prog s = Some p" "\<not> is_done next"
  shows "completed p < completed next \<and> completed next < total_phases p"
proof -
  have d: "\<not> direct s" using advance_ok(11) [OF assms(1)] assms(3) by blast
  note n = advance_ok(9) [OF assms(1,2) d] and le = advance_ok(6,7) [OF assms(1)]
  have "completed next \<noteq> total_phases p" using le assms(3) advance_ok(8) [OF assms(1,2)] by simp
  then show ?thesis using n by (auto simp: min_def split: if_splits)
qed

section \<open>Running to the end\<close>

function (sequential) finish_loop :: "('w, 'z) channel \<Rightarrow> session \<Rightarrow> 'w \<Rightarrow> unit res \<times> session \<times> 'w" where
  "finish_loop ch s w =
     (if finished s then (Inr (), s, w)
      else case advance ch s w of
             (Inl e, t, w') \<Rightarrow> (Inl e, t, w')
           | (Inr _, t, w') \<Rightarrow> finish_loop ch t w')"
  by pat_completeness auto
termination
proof (relation "measures [\<lambda>(_, s, _). if prog s = None then 1 else 0,
    \<lambda>(_, s, _). case prog s of None \<Rightarrow> 0
       | Some p \<Rightarrow> if is_done p then 0 else Suc (nat (total_phases p - completed p))]")
  fix ch :: "('w, 'z) channel" and s :: session and w :: 'w and y u t w' nx
  assume run: "\<not> finished s" "(y, u) = advance ch s w" "y = Inr nx" "(t, w') = u"
  then have a: "advance ch s w = (Inr nx, t, w')" by (metis prod.inject)
  note t = advance_ok(1) [OF a]
  show "((ch, t, w'), ch, s, w) \<in> measures [\<lambda>(_, s, _). if prog s = None then 1 else 0,
    \<lambda>(_, s, _). case prog s of None \<Rightarrow> 0
       | Some p \<Rightarrow> if is_done p then 0 else Suc (nat (total_phases p - completed p))]"
  proof (cases "prog s")
    case None
    then show ?thesis using t by simp
  next
    case (Some p)
    then have "\<not> is_done p" using run(1) by (simp add: finished_def)
    then show ?thesis
      using Some t advance_strict [OF a Some] advance_ok(8) [OF a Some] by auto
  qed
qed simp

declare finish_loop.simps [simp del]

record query_result =
  result_input_tokens :: nat
  result_logits :: "fl list"
  result_format :: string
  result_instructions :: int
  result_max_instructions :: int
  result_calls :: nat
  result_steps :: "int option"
  result_compression :: string
  result_direct :: bool
  result_fused :: bool
  result_query_calls :: "query_call list"
  result_bundle :: "string option"
  result_failed :: "failed_attempt list"
  result_failed_bytes :: nat
  result_request_bytes :: nat
  result_response_bytes :: nat

definition summarize :: "session \<Rightarrow> query_result res" where
  "summarize s =
     (case prog s of
        None \<Rightarrow> Inl TypeError
      | Some p \<Rightarrow>
          res_bind (input_length (inp s)) (\<lambda>n.
          res_bind (if calls s = [] then Inl (ValueError ''max() arg is an empty sequence'')
                    else Inr (Max (set (map call_instructions (calls s))))) (\<lambda>mx.
            Inr \<lparr>result_input_tokens = n, result_logits = plogits p, result_format = activation_format s,
                 result_instructions = sum_list (map call_instructions (calls s)),
                 result_max_instructions = mx, result_calls = length (calls s),
                 result_steps = (if auto s then None else Some (steps s)),
                 result_compression = compression s, result_direct = direct s,
                 result_fused = fused_begin s, result_query_calls = calls s,
                 result_bundle = session_bundle s, result_failed = failed_attempts s,
                 result_failed_bytes = sum_list (map failed_request_bytes (failed_attempts s)),
                 result_request_bytes = sum_list (map call_request_bytes (calls s)),
                 result_response_bytes = sum_list (map call_continuation_bytes (calls s))\<rparr>)))"

definition finish :: "('w, 'z) channel \<Rightarrow> session \<Rightarrow> 'w \<Rightarrow> query_result res \<times> session \<times> 'w" where
  "finish ch s w = (case finish_loop ch s w of
     (Inl e, t, w') \<Rightarrow> (Inl e, t, w')
   | (Inr _, t, w') \<Rightarrow> (summarize t, t, w'))"

definition infer_queries ::
  "('w, 'z) channel \<Rightarrow> json \<Rightarrow> int option \<Rightarrow> string \<Rightarrow> string \<Rightarrow> 'w \<Rightarrow> query_result res \<times> 'w" where
  "infer_queries ch j given format compr w = (case new_session j given 2 format compr of
     Inl e \<Rightarrow> (Inl e, w)
   | Inr s \<Rightarrow> (case finish ch s w of (r, _, w') \<Rightarrow> (r, w')))"

section \<open>Lemmas: the session as a state machine\<close>

text \<open>One call of \<open>advance\<close>, whether it returns or raises.\<close>

inductive session_step :: "('w, 'z) channel \<Rightarrow> session \<times> 'w \<Rightarrow> session \<times> 'w \<Rightarrow> bool" for ch where
  advanced: "advance ch s w = (r, t, w') \<Longrightarrow> session_step ch (s, w) (t, w')"

definition session_initial :: "session \<times> 'w \<Rightarrow> bool" where
  "session_initial sw \<longleftrightarrow> (\<exists>j given tries format compr. new_session j given tries format compr = Inr (fst sw))"

definition progress_ok :: "session \<Rightarrow> progress \<Rightarrow> bool" where
  "progress_ok s p \<longleftrightarrow>
     0 \<le> completed p \<and> completed p \<le> total_phases p \<and> is_done p = (completed p = total_phases p) \<and>
     calls s \<noteq> [] \<and> call_completed (last (calls s)) = completed p \<and>
     (\<forall>c \<in> set (calls s). 0 \<le> call_completed c \<and> call_completed c \<le> completed p) \<and>
     (is_done p \<longrightarrow> res_bind (item ''markers'' (inp s)) py_len = Inr (length (plogits p))) \<and>
     (\<not> is_done p \<longrightarrow> \<not> direct s \<and> pbundle p \<noteq> [] \<and> session_bundle s = Some (pbundle p) \<and>
        pformat p = activation_format s) \<and>
     (auto s \<longrightarrow> total_phases p = 32)"

definition session_ok :: "session \<Rightarrow> bool" where
  "session_ok s \<longleftrightarrow>
     steps s \<le> 16 \<and> sorted_wrt (<) (map call_completed (calls s)) \<and>
     (case prog s of None \<Rightarrow> calls s = [] | Some p \<Rightarrow> progress_ok s p)"

lemma new_session_ok: "new_session j given tries format compr = Inr s \<Longrightarrow> session_ok s"
  by (auto simp: new_session_def session_ok_def res_iff split: if_splits option.splits)

lemma hex_nonempty: "bs \<noteq> [] \<Longrightarrow> hex bs \<noteq> []"
  by (cases bs) (simp_all add: hex_def hex_byte_def)

lemma decode_state_bundle:
  "decode_state step z0 b c = Inr (n, h, f) \<Longrightarrow> h \<noteq> []"
  by (auto simp: decode_state_def res_iff split: if_splits intro!: hex_nonempty)

lemma read_reply_bundle: "read_reply ch s reply = Inr p \<Longrightarrow> \<not> is_done p \<Longrightarrow> pbundle p \<noteq> []"
  by (auto simp: read_reply_def res_iff split: if_splits option.splits
      elim!: decode_progress_more dest: decode_state_bundle)

lemma advance_bundle: "advance ch s w = (Inr nx, t, w') \<Longrightarrow> \<not> is_done nx \<Longrightarrow> pbundle nx \<noteq> []"
  by (erule advance_okE) (rule read_reply_bundle)

lemma advance_steps: "advance ch s w = (Inr nx, t, w') \<Longrightarrow> steps t \<le> max (steps s) 16"
proof (erule advance_okE)
  fix s1 payload s2 s3 reply sent
  assume a: "choose_width s = Inr s1"
    "attempt_loop ch (query_command ch (query_method s1)) (query_method s1) (prog s1 = None) payload 0 s1 w =
       (Inr (reply, sent), s2, w')"
    "check_reply s2 nx = (Inr (), s3)"
    "t = s3\<lparr>calls := calls s3 @ [call_of (query_method s1) s2 nx sent], prog := Some nx\<rparr>"
  have "steps t = steps s2" using check_reply_frame [OF a(3)] a(4) by simp
  moreover have "steps s2 \<le> steps s1" using attempt_loop_frame [OF a(2)] by simp
  ultimately show ?thesis using choose_width_steps [OF a(1)] by simp
qed

lemma session_ok_error:
  assumes "advance ch s w = (Inl e, t, w')" "session_ok s"
  shows "session_ok t"
proof -
  note f = advance_error [OF assms(1)]
  have st: "steps t \<le> 16" using f(3) assms(2) by (simp add: session_ok_def)
  show ?thesis
  proof (cases "prog s")
    case None
    then show ?thesis using f(1) st assms(2) by (simp add: session_ok_def same_inference_def)
  next
    case (Some p)
    then have ok: "progress_ok s p" using assms(2) by (simp add: session_ok_def)
    have "session_bundle t = Some (pbundle p)" if "\<not> is_done p"
      using f(2) [of "pbundle p"] ok that by (simp add: progress_ok_def)
    then show ?thesis using f(1) st assms(2) Some ok
      by (simp add: session_ok_def same_inference_def progress_ok_def)
  qed
qed

lemma session_ok_advance:
  assumes "advance ch s w = (Inr nx, t, w')" "session_ok s"
  shows "session_ok t"
proof -
  note a = advance_ok [OF assms(1)]
  obtain c where c: "calls t = calls s @ [c]" "call_completed c = completed nx" using a(3) by blast
  have steps: "steps t \<le> 16" using advance_steps [OF assms(1)] assms(2) by (simp add: session_ok_def)
  have earlier: "\<forall>d \<in> set (calls s). 0 \<le> call_completed d \<and> call_completed d < completed nx"
  proof (cases "prog s")
    case None
    then show ?thesis using assms(2) by (simp add: session_ok_def)
  next
    case (Some p)
    then have ok: "progress_ok s p" using assms(2) by (simp add: session_ok_def)
    have "\<not> is_done p" using a(2) Some by (simp add: finished_def)
    then have "completed p < completed nx"
      using advance_strict [OF assms(1) Some] a(7) a(8) [OF Some] ok
      by (cases "is_done nx") (auto simp: progress_ok_def)
    then show ?thesis using ok by (auto simp: progress_ok_def)
  qed
  have "progress_ok t nx"
    unfolding progress_ok_def using a c earlier advance_bundle [OF assms(1)] by auto
  moreover have "sorted_wrt (<) (map call_completed (calls t))"
    using assms(2) c earlier by (auto simp: session_ok_def sorted_wrt_append)
  ultimately show ?thesis using steps a(1) by (simp add: session_ok_def)
qed

lemma session_step_ok: "session_step ch x y \<Longrightarrow> session_ok (fst x) \<Longrightarrow> session_ok (fst y)"
  by (cases rule: session_step.cases) (auto, metis session_ok_advance session_ok_error sum.exhaust)

interpretation session_machine:
  invariant_machine session_initial "session_step ch" "\<lambda>sw. session_ok (fst sw)"
  for ch :: "('w, 'z) channel"
  by unfold_locales (auto simp: session_initial_def intro: new_session_ok session_step_ok)

inductive_cases session_stepE: "session_step ch (s, w) (t, w')"

section \<open>Lemmas: what goes over the wire\<close>

text \<open>A channel that also writes down every command and argument file.\<close>

definition recording :: "('w, 'z) channel \<Rightarrow> ('w \<times> (string list \<times> bytes) list, 'z) channel" where
  "recording ch =
     \<lparr>run_icp = (\<lambda>command args (w, hist). case run_icp ch command args w of
        (r, w') \<Rightarrow> (r, (w', hist @ [(command, args)]))),
      args_path = args_path ch, env = env ch, did = did ch, zstep = zstep ch, zinit = zinit ch\<rparr>"

text \<open>A request of the inference at some width no larger than the given one.\<close>

definition request_at :: "session \<Rightarrow> bytes \<Rightarrow> bool" where
  "request_at s args \<longleftrightarrow> (\<exists>n \<le> steps s. request_payload (s\<lparr>steps := n\<rparr>) = Inr args)"

lemma request_at_self: "request_payload s = Inr b \<Longrightarrow> request_at s b"
  unfolding request_at_def by (intro exI [of _ "steps s"]) simp

lemma request_at_mono:
  assumes "request_at t b" "same_inference s t" "steps t \<le> steps s"
  shows "request_at s b"
proof -
  obtain n where n: "n \<le> steps t" "request_payload (t\<lparr>steps := n\<rparr>) = Inr b"
    using assms(1) by (auto simp: request_at_def)
  have "request_payload (s\<lparr>steps := n\<rparr>) = request_payload (t\<lparr>steps := n\<rparr>)"
    by (rule request_payload_cong) (use assms(2) in \<open>simp_all add: same_inference_def\<close>)
  then show ?thesis unfolding request_at_def using n assms(3) by (intro exI [of _ n]) simp
qed

definition log_ok :: "string list \<Rightarrow> session \<Rightarrow> (string list \<times> bytes) list \<Rightarrow> bool" where
  "log_ok command s sent \<longleftrightarrow> (\<forall>(c, b) \<in> set sent. c = command \<and> request_at s b)"

lemma log_ok_Cons: "log_ok command s ((c, b) # sent) \<longleftrightarrow> c = command \<and> request_at s b \<and> log_ok command s sent"
  by (simp add: log_ok_def)

lemma log_ok_mono:
  "log_ok command t sent \<Longrightarrow> same_inference s t \<Longrightarrow> steps t \<le> steps s \<Longrightarrow> log_ok command s sent"
  unfolding log_ok_def using request_at_mono by blast

lemma attempt_loop_log:
  "attempt_loop (recording ch) command meth beginning payload attempts s (w, hist) = (r, t, (w', hist')) \<Longrightarrow>
   beginning = (prog s = None) \<Longrightarrow> request_payload s = Inr payload \<Longrightarrow>
   \<exists>sent. hist' = hist @ sent \<and> length sent \<le> failure_bound (retries s - attempts) (steps s) \<and>
     log_ok command s sent"
proof (induction "recording ch" command meth beginning payload attempts s "(w, hist)"
    arbitrary: w hist rule: attempt_loop.induct)
  case (1 command meth beginning payload attempts s)
  note step = attempt_loop.simps [of "recording ch" command meth beginning payload attempts s "(w, hist)"]
  obtain q w1 where q0: "run_icp ch command payload w = (q, w1)" by fastforce
  let ?hist1 = "hist @ [(command, payload)]"
  have q: "run_icp (recording ch) command payload (w, hist) = (q, (w1, ?hist1))"
    by (simp add: recording_def q0)
  have self: "request_at s payload" using "1.prems"(3) by (rule request_at_self)
  have stop: ?case if "hist' = ?hist1"
    using that self by (intro exI [of _ "[(command, payload)]"]) (simp add: failure_bound_def log_ok_def)
  show ?case
  proof (cases q)
    case (Inr reply)
    then show ?thesis using "1.prems"(1) q stop unfolding step by simp
  next
    case (Inl e)
    let ?s1 = "record_failure meth payload e s"
    let ?limit = "instruction_limit e \<and> (\<not> beginning \<or> fused_begin ?s1) \<and> 1 < steps ?s1"
    consider "\<not> caught e"
      | payload' where "caught e" ?limit "smaller_payload beginning (halve_steps ?s1) = Inr payload'"
      | e' where "caught e" ?limit "smaller_payload beginning (halve_steps ?s1) = Inl e'"
      | "caught e" "\<not> ?limit" "\<not> transient_failure e \<or> retries ?s1 \<le> attempts"
      | "caught e" "\<not> ?limit" "\<not> (\<not> transient_failure e \<or> retries ?s1 \<le> attempts)"
      by (cases "smaller_payload beginning (halve_steps ?s1)") blast+
    then show ?thesis
    proof cases
      case 1
      then show ?thesis using "1.prems"(1) q Inl stop unfolding step by simp
    next
      case 2
      have "attempt_loop (recording ch) command meth beginning payload' attempts (halve_steps ?s1) (w1, ?hist1) =
          (r, t, (w', hist'))"
        using "1.prems"(1) q Inl 2 unfolding step Let_def by auto
      moreover have "request_payload (halve_steps ?s1) = Inr payload'"
        using 2 "1.prems"(2) smaller_payload_request [of beginning "halve_steps ?s1"] by simp
      ultimately obtain sent where sent: "hist' = ?hist1 @ sent" "log_ok command (halve_steps ?s1) sent"
        "length sent \<le> failure_bound (retries s - attempts) (max 1 (steps s div 2))"
        using "1.hyps"(1) [OF q [symmetric] Inl _ refl 2(2,3)] 2(1) "1.prems"(2) by auto
      have "log_ok command s sent"
        by (rule log_ok_mono [OF sent(2)]) (use 2 in auto)
      moreover have "failure_bound (retries s - attempts) (steps s) =
          Suc (failure_bound (retries s - attempts) (max 1 (steps s div 2)))"
        using 2 by (simp add: failure_bound_def halvings_half)
      ultimately show ?thesis using sent self
        by (intro exI [of _ "(command, payload) # sent"]) (simp add: log_ok_Cons)
    next
      case 3
      then show ?thesis using "1.prems"(1) q Inl stop unfolding step by simp
    next
      case 4
      then show ?thesis using "1.prems"(1) q Inl stop unfolding step Let_def by auto
    next
      case 5
      have "attempt_loop (recording ch) command meth beginning payload (attempts + 1) ?s1 (w1, ?hist1) =
          (r, t, (w', hist'))"
        using "1.prems"(1) q Inl 5 unfolding step Let_def by auto
      moreover have "request_payload ?s1 = Inr payload"
        using "1.prems"(3) request_payload_cong [OF same_inference_step(1)] by simp
      ultimately obtain sent where sent: "hist' = ?hist1 @ sent" "log_ok command ?s1 sent"
        "length sent \<le> failure_bound (retries s - (attempts + 1)) (steps s)"
        using "1.hyps"(2) [OF q [symmetric] Inl _ refl 5(2,3)] 5(1) "1.prems"(2) by auto
      have "log_ok command s sent" by (rule log_ok_mono [OF sent(2)]) simp_all
      moreover have "failure_bound (retries s - attempts) (steps s) =
          Suc (failure_bound (retries s - (attempts + 1)) (steps s))"
        using 5(3) by (simp add: failure_bound_def nat_diff_distrib Suc_nat_eq_nat_zadd1)
      ultimately show ?thesis using sent self
        by (intro exI [of _ "(command, payload) # sent"]) (simp add: log_ok_Cons)
    qed
  qed
qed

lemma recording_fields [simp]:
  "zstep (recording ch) = zstep ch" "zinit (recording ch) = zinit ch"
  "query_command (recording ch) m = query_command ch m"
  by (simp_all add: recording_def query_command_def)

lemma failure_bound_small: "n \<le> 16 \<Longrightarrow> failure_bound tries n \<le> nat tries + 5"
  using halvings_bound [of n 4] by (simp add: failure_bound_def)

lemma advance_requests:
  assumes "advance (recording ch) s (w, hist) = (r, t, (w', hist'))" "steps s \<le> 16"
  shows "\<exists>u sent. hist' = hist @ sent \<and> same_inference s u \<and> steps u \<le> 16 \<and>
    length sent \<le> nat (retries s) + 5 \<and> log_ok (query_command ch (query_method u)) u sent"
proof (cases "finished s \<or> \<not> is_ok (choose_width s)")
  case True
  then have "hist' = hist" using assms(1) by (auto simp: advance_def is_ok_def split: sum.splits if_splits)
  then show ?thesis using assms(2) by (intro exI [of _ s] exI [of _ "[]"]) (simp add: log_ok_def)
next
  case False
  then obtain s1 where s1: "\<not> finished s" "choose_width s = Inr s1" by (auto simp: is_ok_iff)
  have w1: "same_inference s s1" "steps s1 \<le> 16"
    using choose_width_frame [OF s1(2)] choose_width_steps [OF s1(2)] assms(2) by simp_all
  show ?thesis
  proof (cases "request_payload s1")
    case (Inl e1)
    then have "hist' = hist" using assms(1) s1 by (simp add: advance_def Let_def)
    then show ?thesis using w1 by (intro exI [of _ s1] exI [of _ "[]"]) (simp add: log_ok_def)
  next
    case (Inr payload)
    obtain q s2 w2 hist2 where l: "attempt_loop (recording ch) (query_command ch (query_method s1))
        (query_method s1) (prog s1 = None) payload 0 s1 (w, hist) = (q, s2, (w2, hist2))"
      by (metis prod_cases4)
    from attempt_loop_log [OF l refl Inr] obtain sent where sent: "hist2 = hist @ sent"
      "length sent \<le> failure_bound (retries s1 - 0) (steps s1)" "log_ok (query_command ch (query_method s1)) s1 sent"
      by blast
    have "hist' = hist2"
      using assms(1) s1 Inr l by (auto simp: advance_def Let_def split: sum.splits prod.splits)
    moreover have "failure_bound (retries s1 - 0) (steps s1) \<le> nat (retries s) + 5"
      using failure_bound_small [OF w1(2), of "retries s1"] w1(1) by (simp add: same_inference_def)
    ultimately show ?thesis using sent w1 by (intro exI [of _ s1] exI [of _ sent]) simp
  qed
qed

lemma finish_loop_ok:
  "finish_loop ch s w = (Inr u, t, w') \<Longrightarrow> session_ok s \<Longrightarrow> session_ok t \<and> finished t \<and> auto t = auto s"
proof (induction ch s w rule: finish_loop.induct)
  case (1 ch s w)
  show ?case
  proof (cases "finished s")
    case True
    then show ?thesis using "1.prems" by (simp add: finish_loop.simps [of ch s w])
  next
    case False
    obtain q s1 w1 where a: "advance ch s w = (q, s1, w1)" by (metis prod_cases3)
    then obtain nx where q: "q = Inr nx"
      using "1.prems"(1) False by (cases q) (simp_all add: finish_loop.simps [of ch s w])
    then have "finish_loop ch s1 w1 = (Inr u, t, w')"
      using "1.prems"(1) False a by (simp add: finish_loop.simps [of ch s w])
    then show ?thesis
      using "1.IH" [OF False a [symmetric] q refl] session_ok_advance [OF a [unfolded q] "1.prems"(2)]
        advance_ok(4) [OF a [unfolded q]] by simp
  qed
qed

lemma strict_ints_length:
  assumes "sorted_wrt (<) xs" "\<forall>x \<in> set xs. 0 \<le> x \<and> x \<le> (n::int)"
  shows "length xs \<le> nat (n + 1)"
proof -
  have "distinct xs" using assms(1) by (induction xs) auto
  then have "length xs = card (set xs)" by (simp add: distinct_card)
  also have "\<dots> \<le> card {0..n}" using assms(2) by (intro card_mono) auto
  finally show ?thesis by simp
qed

section \<open>Properties\<close>

text \<open>
  C1: whatever the network does, every state an inference can reach by calls of \<open>advance\<close>, those
  that raise included, satisfies the session invariant: the completed phases of the calls
  strictly increase, the progress is that of the last call, it is finished exactly when all
  phases are done, the model and the activation format of an unfinished one are pinned.
\<close>

theorem session_invariant:
  assumes "new_session j given tries format compr = Inr s0"
    and "(session_step ch)\<^sup>*\<^sup>* (s0, w0) (s, w)"
  shows "session_ok s"
proof -
  have "session_initial (s0, w0)" unfolding session_initial_def fst_conv using assms(1) by blast
  from session_machine.reachable_inv [OF this assms(2)] show ?thesis by simp
qed

text \<open>A channel for the witnesses that always gives the same answer.\<close>

definition always :: "string res \<Rightarrow> (unit, stored) channel" where
  "always r = \<lparr>run_icp = (\<lambda>_ _ w. (r, w)), args_path = ''args.bin'', env = ''local'', did = ''engine.did'',
     zstep = stored_step, zinit = Start\<rparr>"

definition short_reply :: string where
  "short_reply = ''variant{Ok=record{logits=vec{2;1};instructions=1_000}}''"

lemma sample_session: "new_session sample_input None 2 ''f32'' ''auto'' = Inr
    \<lparr>inp = sample_input, steps = 1, auto = True, auto_cap = 16, compression = ''auto'', direct = True,
     fused_begin = False, prog = None, calls = [], session_bundle = None, retries = 2,
     failed_attempts = [], activation_format = ''f32''\<rparr>"
  by (simp add: new_session_def input_length_def sample_input_def)

definition done_reply :: string where
  "done_reply = ''variant{Ok=variant{Done=record{completed=1;total=1;instructions=5;logits=vec{2;1}}}}''"

lemma sample_logits: "read_logits ''2;1'' = Inr [Fin 2, Fin 1]"
  using fl_round_of_int [of 2] fl_round_of_int [of 1]
  by (simp add: read_logits_def read_logit_def py_float_eval Let_def)

lemma short_reply_ok: "found (rx_variant ''Ok'') short_reply"
  by code_simp

lemma short_reply_instructions: "map_option (group 1) (search (rx_field WordB ''instructions'') short_reply) = Some ''1_000''"
  by code_simp

lemma short_reply_logits: "map_option (group 1) (search rx_logits short_reply) = Some ''2;1''"
  by code_simp

lemmas short_reply_parts = short_reply_ok short_reply_instructions short_reply_logits

lemma done_reply_ok: "found (rx_variant ''Ok'') done_reply"
  by code_simp

lemma done_reply_done: "found (rx_variant ''Done'') done_reply"
  by code_simp

lemma done_reply_completed: "map_option (group 1) (search (rx_field WordB ''completed'') done_reply) = Some ''1''"
  by code_simp

lemma done_reply_total: "map_option (group 1) (search (rx_field WordB ''total'') done_reply) = Some ''1''"
  by code_simp

lemma done_reply_instructions: "map_option (group 1) (search (rx_field WordB ''instructions'') done_reply) = Some ''5''"
  by code_simp

lemma done_reply_logits: "map_option (group 1) (search rx_logits done_reply) = Some ''2;1''"
  by code_simp

lemmas done_reply_parts = done_reply_ok done_reply_done done_reply_completed done_reply_total
  done_reply_instructions done_reply_logits

lemma sample_numbers: "read_number ''1_000'' = Inr 1000" "read_number ''1'' = Inr 1" "read_number ''5'' = Inr 5"
  by (simp_all add: read_number_def py_int_def parse_unsigned_def remove_char_def strip_def lstrip_def
      is_space_def digit_val_def is_digit_def Let_def)

lemma short_reply_read:
  "direct s \<Longrightarrow> read_reply ch s short_reply = Inr \<lparr>is_done = True, completed = 32, total_phases = 32,
     instructions = 1000, plogits = [Fin 2, Fin 1], pstate = None, raw_state_bytes = 0, pbundle = [], pformat = []\<rparr>"
  using short_reply_parts
  by (auto simp: read_reply_def decode_logits_def sample_logits sample_numbers)

lemma done_reply_read:
  "\<not> direct s \<Longrightarrow> read_reply ch s done_reply = Inr \<lparr>is_done = True, completed = 1, total_phases = 1,
     instructions = 5, plogits = [Fin 2, Fin 1], pstate = None, raw_state_bytes = 0, pbundle = [], pformat = []\<rparr>"
  using done_reply_parts
  by (auto simp: read_reply_def decode_progress_def progress_field_def decode_logits_def sample_logits sample_numbers)

lemma sample_request: "request_fields sample_input = Some ([1, 70000], 2, [0, 1])"
  by (simp add: sample_input_def request_fields_def is_nat32_def nat32_of_def)

text \<open>One more step of a sample inference that has one phase left.\<close>

definition sample_progress :: progress where
  "sample_progress = \<lparr>is_done = False, completed = 0, total_phases = 1, instructions = 3, plogits = [],
     pstate = Some [7], raw_state_bytes = 76, pbundle = ''ab'', pformat = ''f32''\<rparr>"

definition half_way :: session where
  "half_way = \<lparr>inp = sample_input, steps = 2, auto = False, auto_cap = 16, compression = ''none'', direct = False,
     fused_begin = False, prog = Some sample_progress,
     calls = [\<lparr>call_method = ''begin_token_inference_query'', call_completed = 0, call_instructions = 3,
       call_steps = 0, call_request_bytes = 60, call_continuation_bytes = 1, call_state_bytes = 76\<rparr>],
     session_bundle = Some ''ab'', retries = 2, failed_attempts = [], activation_format = ''f32''\<rparr>"

lemma half_way_ok: "session_ok half_way"
  by (simp add: session_ok_def half_way_def progress_ok_def sample_progress_def)

lemma half_way_direct: "\<not> direct half_way"
  by (simp add: half_way_def)

lemma half_way_step:
  assumes "\<And>c b. \<exists>w1. run_icp ch c b w = (Inr done_reply, w1)"
  shows "\<exists>nx t w1. advance ch half_way w = (Inr nx, t, w1) \<and> completed nx = 1"
proof -
  have p: "\<exists>b. request_payload half_way = Inr b"
    by (simp add: request_payload_def continue_payload_def half_way_def sample_progress_def encode_continue_Inr)
  then obtain b where b: "request_payload half_way = Inr b" ..
  have f: "\<not> finished half_way" "choose_width half_way = Inr half_way" "\<not> direct half_way"
    by (simp_all add: half_way_def finished_def sample_progress_def choose_width_def)
  obtain w1 where w1: "run_icp ch (query_command ch (query_method half_way)) b w = (Inr done_reply, w1)"
    using assms by blast
  have "check_reply half_way (\<lparr>is_done = True, completed = 1, total_phases = 1, instructions = 5,
      plogits = [Fin 2, Fin 1], pstate = None, raw_state_bytes = 0, pbundle = [], pformat = []\<rparr>) =
      (Inr (), half_way)"
    by (simp add: check_reply_def expected_completed_def half_way_def sample_progress_def sample_input_def)
  then show ?thesis using f b w1 done_reply_read [OF f(3), of ch]
    by (simp add: advance_def Let_def attempt_loop.simps)
qed

text \<open>A finished reply meets the hypotheses of \<open>decode_progress_coherent\<close>.\<close>

theorem decode_progress_coherent_witness:
  "\<exists>q. decode_progress stored_step Start done_reply = Inr q \<and> is_done q \<and> pstate q = None \<and>
     list_all fl_finite (plogits q)"
proof -
  let ?q = "\<lparr>is_done = True, completed = 1, total_phases = 1, instructions = 5, plogits = [Fin 2, Fin 1],
    pstate = None, raw_state_bytes = 0, pbundle = [], pformat = []\<rparr> :: progress"
  have r: "decode_progress stored_step Start done_reply = Inr ?q"
    using done_reply_read [OF half_way_direct, of "always (Inr [])"]
    by (simp add: read_reply_def half_way_direct always_def)
  from decode_progress_coherent [OF r stored_checksummed] show ?thesis using r by simp
qed

theorem session_invariant_witness:
  "\<exists>s0 s. new_session sample_input None 2 ''f32'' ''auto'' = Inr s0 \<and>
     session_step (always (Inl (Failure ''status 503''))) (s0, ()) (s, ()) \<and> session_ok s"
proof -
  obtain s0 where s0: "new_session sample_input None 2 ''f32'' ''auto'' = Inr s0"
    using sample_session by blast
  obtain r s where "advance (always (Inl (Failure ''status 503''))) s0 () = (r, s, ())"
    by (metis prod_cases3 old.unit.exhaust)
  then have step: "session_step (always (Inl (Failure ''status 503''))) (s0, ()) (s, ())" by (rule advanced)
  then have "session_ok s" by (rule session_invariant [OF s0 r_into_rtranclp])
  then show ?thesis using s0 step by blast
qed

text \<open>
  C22: a step that raises leaves the inference as it was: the continuation, the calls made, the
  input and the routing are unchanged, so it can be tried again.
\<close>

theorem failed_advance_keeps_state:
  assumes "advance ch s w = (Inl e, t, w')"
  shows "prog t = prog s \<and> calls t = calls s \<and> inp t = inp s \<and> direct t = direct s \<and>
    fused_begin t = fused_begin s \<and> activation_format t = activation_format s"
  using advance_error(1) [OF assms] by (simp add: same_inference_def)

theorem failed_advance_keeps_state_witness:
  "\<exists>e s t. new_session sample_input (Some 2) 2 ''f32'' ''none'' = Inr s \<and>
     advance (always (Inl (OSError ''no such file''))) s () = (Inl e, t, ()) \<and> calls t = calls s"
proof -
  let ?s = "\<lparr>inp = sample_input, steps = 2, auto = False, auto_cap = 16, compression = ''none'', direct = False,
     fused_begin = False, prog = None, calls = [], session_bundle = None, retries = 2,
     failed_attempts = [], activation_format = ''f32''\<rparr> :: session"
  have n: "new_session sample_input (Some 2) 2 ''f32'' ''none'' = Inr ?s"
    by (simp add: new_session_def)
  note f = sample_request
  have "advance (always (Inl (OSError ''no such file''))) ?s () = (Inl (OSError ''no such file''), ?s, ())"
    using encode_input_ok [OF f, of None]
    by (simp add: advance_def finished_def choose_width_def request_payload_def attempt_loop.simps
        always_def caught_def Let_def)
  from failed_advance_keeps_state [OF this] this n show ?thesis by blast
qed

text \<open>
  C21: progress is strict: a step from an unfinished inference completes more phases, never past
  the total, which stays the same; so \<open>finish\<close> always returns or raises (its recursion ends on
  every channel).
\<close>

theorem advance_progress:
  assumes "advance ch s w = (Inr nx, t, w')" "session_ok s" "prog s = Some p"
  shows "prog t = Some nx \<and> completed p < completed nx \<and> completed nx \<le> total_phases nx \<and>
    total_phases nx = total_phases p \<and> is_done nx = (completed nx = total_phases nx)"
proof -
  have "\<not> is_done p" using advance_ok(2) [OF assms(1)] assms(3) by (simp add: finished_def)
  moreover have "progress_ok s p" using assms(2,3) by (simp add: session_ok_def)
  ultimately have "completed p < completed nx"
    using advance_strict [OF assms(1,3)] advance_ok(7,8) [OF assms(1)] assms(3)
    by (cases "is_done nx") (auto simp: progress_ok_def)
  then show ?thesis using advance_ok(1,6,7) [OF assms(1)] advance_ok(8) [OF assms(1,3)] by blast
qed

theorem advance_progress_witness:
  "\<exists>nx t. advance (always (Inr done_reply)) half_way () = (Inr nx, t, ()) \<and> is_done nx"
proof -
  obtain nx t w1 where a: "advance (always (Inr done_reply)) half_way () = (Inr nx, t, w1)" "completed nx = 1"
    using half_way_step [of "always (Inr done_reply)" "()"] by (auto simp: always_def)
  have "prog half_way = Some sample_progress" by (simp add: half_way_def)
  from advance_progress [OF a(1) half_way_ok this] a show ?thesis by (simp add: sample_progress_def)
qed

text \<open>
  C9: one step sends a bounded number of requests, at most five more than the retries; all of
  them are the same command and the request of the same inference, at most at a smaller width.
\<close>

theorem retries_resend_same_request:
  assumes "advance (recording ch) s (w, hist) = (r, t, (w', hist'))" "session_ok s"
  shows "\<exists>u sent. hist' = hist @ sent \<and> length sent \<le> nat (retries s) + 5 \<and>
    prog u = prog s \<and> inp u = inp s \<and> steps u \<le> 16 \<and>
    (\<forall>(c, args) \<in> set sent. c = query_command ch (query_method u) \<and>
       (\<exists>n \<le> steps u. request_payload (u\<lparr>steps := n\<rparr>) = Inr args))"
proof -
  have "steps s \<le> 16" using assms(2) by (simp add: session_ok_def)
  from advance_requests [OF assms(1) this] obtain u sent where
    "hist' = hist @ sent" "same_inference s u" "steps u \<le> 16" "length sent \<le> nat (retries s) + 5"
    "log_ok (query_command ch (query_method u)) u sent" by blast
  then show ?thesis
    by (intro exI [of _ u] exI [of _ sent]) (auto simp: same_inference_def log_ok_def request_at_def)
qed

theorem retries_resend_same_request_witness:
  "\<exists>nx t sent. advance (recording (always (Inr done_reply))) half_way ((), []) = (Inr nx, t, ((), sent)) \<and>
     length sent \<le> 7"
proof -
  obtain nx t h where a: "advance (recording (always (Inr done_reply))) half_way ((), []) = (Inr nx, t, ((), h))"
    using half_way_step [of "recording (always (Inr done_reply))" "((), [])"]
    by (auto simp: always_def recording_def)
  have "retries half_way = 2" by (simp add: half_way_def)
  with retries_resend_same_request [OF a half_way_ok] a show ?thesis by auto
qed

text \<open>
  C20: a finished inference is complete: the result counts the calls of the session, their
  completed phases strictly increase, its totals are the sums over them, it has one logit for
  each marker, and with automatic grouping it took at most 33 calls.
\<close>

theorem finish_result:
  assumes "session_ok s" "finish ch s w = (Inr res, t, w')"
  shows "result_query_calls res = calls t \<and> result_calls res = length (calls t) \<and>
    sorted_wrt (<) (map call_completed (calls t)) \<and>
    result_instructions res = sum_list (map call_instructions (calls t)) \<and>
    (\<forall>c \<in> set (calls t). call_instructions c \<le> result_max_instructions res) \<and>
    res_bind (item ''markers'' (inp t)) py_len = Inr (length (result_logits res)) \<and>
    (\<exists>p. prog t = Some p \<and> is_done p \<and> call_completed (last (calls t)) = total_phases p) \<and>
    (auto s \<longrightarrow> result_calls res \<le> 33)"
proof -
  obtain u where loop: "finish_loop ch s w = (Inr u, t, w')" and sum: "summarize t = Inr res"
    using assms(2) by (auto simp: finish_def split: prod.splits sum.splits)
  note f = finish_loop_ok [OF loop assms(1)]
  then obtain p where p: "prog t = Some p" "is_done p" by (auto simp: finished_def split: option.splits)
  then have ok: "progress_ok t p" "sorted_wrt (<) (map call_completed (calls t))"
    using f by (simp_all add: session_ok_def)
  have r: "result_query_calls res = calls t" "result_calls res = length (calls t)"
    "result_instructions res = sum_list (map call_instructions (calls t))"
    "result_logits res = plogits p" "result_max_instructions res = Max (set (map call_instructions (calls t)))"
    using sum p by (auto simp: summarize_def res_iff split: if_splits)
  have "length (map call_completed (calls t)) \<le> nat (32 + 1)" if "auto s"
    using that ok f by (intro strict_ints_length) (auto simp: progress_ok_def)
  then show ?thesis using r p ok by (auto simp: progress_ok_def)
qed

theorem finish_result_witness:
  "\<exists>s res t. new_session sample_input None 2 ''f32'' ''auto'' = Inr s \<and>
     finish (always (Inr short_reply)) s () = (Inr res, t, ()) \<and> result_calls res = 1 \<and>
     result_instructions res = 1000 \<and> length (calls t) = 1"
proof -
  obtain s where n: "new_session sample_input None 2 ''f32'' ''auto'' = Inr s"
    and s: "prog s = None" "direct s" "auto s" "calls s = []" "inp s = sample_input" "\<not> fused_begin s"
    using sample_session by force
  obtain b where b: "request_payload s = Inr b"
    using encode_input_ok [OF sample_request, of None] s by (auto simp: request_payload_def)
  let ?p = "\<lparr>is_done = True, completed = 32, total_phases = 32, instructions = 1000,
    plogits = [Fin 2, Fin 1], pstate = None, raw_state_bytes = 0, pbundle = [], pformat = []\<rparr> :: progress"
  have c: "check_reply s ?p = (Inr (), s\<lparr>session_bundle := Some AUTO_BUNDLE\<rparr>)"
    using s by (simp add: check_reply_def expected_completed_def sample_input_def)
  obtain t where "advance (always (Inr short_reply)) s () = (Inr ?p, t, ())"
    and t: "prog t = Some ?p" "inp t = sample_input" "\<exists>k. calls t = [k] \<and> call_instructions k = 1000"
    using s b c short_reply_read [OF s(2), of "always (Inr short_reply)"]
    by (simp add: advance_def finished_def choose_width_def attempt_loop.simps always_def Let_def call_of_def)
  then have "finish_loop (always (Inr short_reply)) s () = (Inr (), t, ())"
    using s t by (simp add: finish_loop.simps finished_def)
  moreover obtain res where "summarize t = Inr res" "result_calls res = 1" "result_instructions res = 1000"
    using t by (auto simp: summarize_def input_length_def sample_input_def)
  ultimately have f: "finish (always (Inr short_reply)) s () = (Inr res, t, ())" and r: "result_calls res = 1"
    "result_instructions res = 1000" by (simp_all add: finish_def)
  have "length (calls t) = 1" using finish_result [OF new_session_ok [OF n] f] r by simp
  then show ?thesis using n f r by blast
qed

end
