(* ===== verification/Inference_Budget.thy ===== *)
theory Inference_Budget
  imports Prelude
begin

text \<open>
  \<open>tools/inference_budget.py\<close>: the routing of a budgeted inference.  From the shape of the
  input and the budget the caller asks for it chooses one direct update or a split into steps.
\<close>

section \<open>The calibrated constants\<close>

definition MODULE_HASH :: string where
  "MODULE_HASH = ''0xdd7013df97f0b2b039540cb94888aebd7239efe085d53935601f6206236d1b49''"

definition BUNDLE_HASH :: string where
  "BUNDLE_HASH = ''bb70b3f0f2806bef5d4b670f44bb606892067fc0ebd928bd682b98ebdb2dc092''"

definition MAX_SAFE_DIRECT_BUDGET :: int where "MAX_SAFE_DIRECT_BUDGET = 35000000000"
definition MIN_BUDGET :: int where "MIN_BUDGET = 2000000000"
definition DIRECT_BASE :: int where "DIRECT_BASE = 1200000000"
definition DIRECT_PER_TOKEN :: int where "DIRECT_PER_TOKEN = 310000000"

definition STEP_THRESHOLDS :: "(int \<times> int) list" where
  "STEP_THRESHOLDS = [(16, 28000000000), (8, 14000000000), (4, 7000000000),
     (2, 4000000000), (1, MIN_BUDGET)]"

lemmas budget_constants =
  MAX_SAFE_DIRECT_BUDGET_def MIN_BUDGET_def DIRECT_BASE_def DIRECT_PER_TOKEN_def
  STEP_THRESHOLDS_def

section \<open>The plan\<close>

record InferencePlan =
  mode :: string
  steps_per_call :: "int option"
  estimated_direct_instructions :: int
  requested_budget :: int
  effective_budget :: int

text \<open>The loop over the thresholds: the first one the budget covers.\<close>

fun pick_steps :: "(int \<times> int) list \<Rightarrow> int \<Rightarrow> int option" where
  "pick_steps [] effective = None"
| "pick_steps ((steps, threshold) # rest) effective =
     (if threshold \<le> effective then Some steps else pick_steps rest effective)"

definition plan_inference ::
  "int \<Rightarrow> int \<Rightarrow> int \<Rightarrow> int \<Rightarrow> string \<Rightarrow> string \<Rightarrow> InferencePlan res" where
  "plan_inference input_tokens marker_count qtype_id requested module_hash bundle_hash =
     (if module_hash \<noteq> MODULE_HASH \<or> bundle_hash \<noteq> BUNDLE_HASH
      then Inl (ValueError ''instruction calibration does not match installed Wasm and pack'')
      else if \<not> (1 \<le> input_tokens \<and> input_tokens \<le> 128) \<or>
              \<not> (2 \<le> marker_count \<and> marker_count \<le> 7) \<or> qtype_id \<notin> {0, 1, 2}
      then Inl (ValueError ''input is outside the calibrated model shape'')
      else if requested < MIN_BUDGET
      then Inl (ValueError ''budget must be at least 2,000,000,000 instructions'')
      else
        let effective = min requested MAX_SAFE_DIRECT_BUDGET;
            direct = DIRECT_BASE + DIRECT_PER_TOKEN * input_tokens
        in if direct \<le> effective
           then Inr \<lparr>mode = ''direct'', steps_per_call = None,
                     estimated_direct_instructions = direct,
                     requested_budget = requested, effective_budget = effective\<rparr>
           else case pick_steps STEP_THRESHOLDS effective of
                  Some steps \<Rightarrow>
                    Inr \<lparr>mode = ''stepped'', steps_per_call = Some steps,
                         estimated_direct_instructions = direct,
                         requested_budget = requested, effective_budget = effective\<rparr>
                | None \<Rightarrow> Inl (AssertionError ''minimum budget has no split route''))"

section \<open>Lemmas on the threshold table\<close>

lemma pick_steps_Some:
  "pick_steps ts b = Some s \<Longrightarrow> \<exists>t. (s, t) \<in> set ts \<and> t \<le> b"
  by (induction ts b rule: pick_steps.induct) (auto split: if_splits)

lemma pick_steps_None: "pick_steps ts b = None \<longleftrightarrow> (\<forall>(s, t) \<in> set ts. b < t)"
  by (induction ts b rule: pick_steps.induct) auto

lemma pick_steps_table:
  "MIN_BUDGET \<le> b \<Longrightarrow>
   pick_steps STEP_THRESHOLDS b =
     Some (if 28000000000 \<le> b then 16 else if 14000000000 \<le> b then 8
           else if 7000000000 \<le> b then 4 else if 4000000000 \<le> b then 2 else 1)"
  by (simp add: budget_constants)

text \<open>What a well-formed request is, and the exact outcome on it.\<close>

definition calibrated :: "int \<Rightarrow> int \<Rightarrow> int \<Rightarrow> string \<Rightarrow> string \<Rightarrow> bool" where
  "calibrated input_tokens marker_count qtype_id module_hash bundle_hash \<longleftrightarrow>
     module_hash = MODULE_HASH \<and> bundle_hash = BUNDLE_HASH \<and>
     1 \<le> input_tokens \<and> input_tokens \<le> 128 \<and> 2 \<le> marker_count \<and> marker_count \<le> 7 \<and>
     qtype_id \<in> {0, 1, 2}"

lemma plan_inference_calibrated:
  assumes "calibrated n m q mh bh" and "MIN_BUDGET \<le> b"
  shows "plan_inference n m q b mh bh =
    (let effective = min b MAX_SAFE_DIRECT_BUDGET;
         direct = DIRECT_BASE + DIRECT_PER_TOKEN * n;
         steps = the (pick_steps STEP_THRESHOLDS effective) in
     Inr \<lparr>mode = (if direct \<le> effective then ''direct'' else ''stepped''),
          steps_per_call = (if direct \<le> effective then None else Some steps),
          estimated_direct_instructions = direct,
          requested_budget = b, effective_budget = effective\<rparr>)"
proof -
  have "MIN_BUDGET \<le> min b MAX_SAFE_DIRECT_BUDGET"
    using assms(2) by (simp add: budget_constants)
  then obtain s where "pick_steps STEP_THRESHOLDS (min b MAX_SAFE_DIRECT_BUDGET) = Some s"
    using pick_steps_table by blast
  then show ?thesis
    using assms by (simp add: plan_inference_def calibrated_def Let_def)
qed

lemma plan_inference_uncalibrated:
  "\<not> calibrated n m q mh bh \<or> b < MIN_BUDGET \<Longrightarrow>
   \<exists>msg. plan_inference n m q b mh bh = Inl (ValueError msg)"
  by (auto simp: plan_inference_def calibrated_def)

section \<open>Properties\<close>

text \<open>
  The routing is total on the calibrated domain and refuses everything else with
  \<open>ValueError\<close>: the \<open>AssertionError\<close> at the end of the function is unreachable.
\<close>

theorem plan_inference_outcome:
  "(\<exists>p. plan_inference n m q b mh bh = Inr p) =
     (calibrated n m q mh bh \<and> MIN_BUDGET \<le> b) \<and>
   (\<forall>msg. plan_inference n m q b mh bh \<noteq> Inl (AssertionError msg))"
proof (cases "calibrated n m q mh bh \<and> MIN_BUDGET \<le> b")
  case True
  then show ?thesis by (simp add: plan_inference_calibrated Let_def)
next
  case False
  then obtain msg where "plan_inference n m q b mh bh = Inl (ValueError msg)"
    using plan_inference_uncalibrated by (metis not_le)
  with False show ?thesis by auto
qed

text \<open>
  C19: the route on a calibrated request.  It is direct exactly when the calibrated cost fits the
  budget, capped at the safe maximum, and never for more than 109 tokens; otherwise the width is
  the largest of the table whose threshold the budget covers.
\<close>

theorem plan_inference_route:
  assumes "calibrated n m q mh bh" "MIN_BUDGET \<le> b"
  shows "\<exists>p. plan_inference n m q b mh bh = Inr p \<and>
    requested_budget p = b \<and> effective_budget p = min b 35000000000 \<and>
    (mode p = ''direct'' \<longleftrightarrow> 1200000000 + 310000000 * n \<le> effective_budget p) \<and>
    (mode p = ''direct'' \<longrightarrow> n \<le> 109 \<and> steps_per_call p = None) \<and>
    (mode p \<noteq> ''direct'' \<longrightarrow> (\<exists>s t. steps_per_call p = Some s \<and> (s, t) \<in> set STEP_THRESHOLDS \<and>
       t \<le> effective_budget p \<and>
       (\<forall>(s', t') \<in> set STEP_THRESHOLDS. s < s' \<longrightarrow> effective_budget p < t')))"
proof -
  let ?e = "min b MAX_SAFE_DIRECT_BUDGET"
  have e: "MIN_BUDGET \<le> ?e" using assms(2) by (simp add: budget_constants)
  note plan = plan_inference_calibrated [OF assms, unfolded Let_def pick_steps_table [OF e]]
  show ?thesis
    unfolding plan using e by (auto simp: budget_constants)
qed

theorem plan_inference_route_witness:
  "\<exists>p. plan_inference 120 4 1 9000000000 MODULE_HASH BUNDLE_HASH = Inr p \<and>
     effective_budget p = 9000000000"
  using plan_inference_route [of 120 4 1 MODULE_HASH BUNDLE_HASH 9000000000]
  by (force simp: calibrated_def budget_constants)

text \<open>
  A larger budget never gets a weaker route: a direct plan stays direct, and a stepped plan
  does not get fewer phases per call.
\<close>

theorem plan_inference_mono:
  assumes "plan_inference n m q b mh bh = Inr p" "b \<le> b'"
  shows "\<exists>p'. plan_inference n m q b' mh bh = Inr p' \<and>
    (mode p = ''direct'' \<longrightarrow> mode p' = ''direct'') \<and>
    (mode p' = ''direct'' \<or> the (steps_per_call p) \<le> the (steps_per_call p'))"
proof -
  have c: "calibrated n m q mh bh" "MIN_BUDGET \<le> b"
    using assms(1) plan_inference_uncalibrated [of n m q mh bh b] by force+
  then have b': "MIN_BUDGET \<le> b'" using assms(2) by simp
  have e: "MIN_BUDGET \<le> min b MAX_SAFE_DIRECT_BUDGET" "MIN_BUDGET \<le> min b' MAX_SAFE_DIRECT_BUDGET"
    using c(2) b' by (simp_all add: budget_constants)
  note plan = plan_inference_calibrated [OF c, unfolded Let_def pick_steps_table [OF e(1)]]
  note plan' = plan_inference_calibrated [OF c(1) b', unfolded Let_def pick_steps_table [OF e(2)]]
  show ?thesis
    using assms unfolding plan plan' by (auto simp: budget_constants)
qed

theorem plan_inference_mono_witness:
  "\<exists>p'. plan_inference 120 4 1 30000000000 MODULE_HASH BUNDLE_HASH = Inr p'"
proof -
  have "\<exists>p. plan_inference 120 4 1 3000000000 MODULE_HASH BUNDLE_HASH = Inr p"
    by (simp add: plan_inference_def budget_constants MODULE_HASH_def BUNDLE_HASH_def)
  then obtain p where "plan_inference 120 4 1 3000000000 MODULE_HASH BUNDLE_HASH = Inr p" ..
  from plan_inference_mono [OF this, of 30000000000] show ?thesis by auto
qed

end
