(* ===== verification/Canister_Infer.thy ===== *)
theory Canister_Infer
  imports Command_Log Query_Session Inference_Budget
begin

text \<open>
  \<open>tools/canister_infer.py\<close>: the binary upload of a pack and its warm-up, the reading of a profile, token
  inference in one call or in resumable steps, and the routing of the command line (\<open>main\<close>).
\<close>

section \<open>Upload of a pack\<close>

fun ci_uleb :: "nat \<Rightarrow> bytes" where
  "ci_uleb value =
     (if 128 \<le> value then (word_of_nat (value mod 128) OR 128) # ci_uleb (value div 128)
      else [word_of_nat value])"

declare ci_uleb.simps [simp del]

text \<open>\<open>bytes(value)\<close> on a JSON value.\<close>

definition byte_of :: "json \<Rightarrow> byte res" where
  "byte_of j = (case j of
     JInt n \<Rightarrow> if 0 \<le> n \<and> n < 256 then Inr (word_of_int n) else Inl (ValueError ''bytes must be in range(0, 256)'')
   | JBool b \<Rightarrow> Inr (of_bool b)
   | _ \<Rightarrow> Inl TypeError)"

definition py_bytes :: "json \<Rightarrow> bytes res" where
  "py_bytes j = (case j of
     JInt n \<Rightarrow> if n < 0 then Inl (ValueError ''negative count'') else Inr (replicate (nat n) 0)
   | JBool b \<Rightarrow> Inr (if b then [0] else [])
   | JList js \<Rightarrow> mapM byte_of js
   | JObj kvs \<Rightarrow> if kvs = [] then Inr [] else Inl TypeError
   | _ \<Rightarrow> Inl TypeError)"

definition hashable_key :: "json \<Rightarrow> json res" where
  "hashable_key j = (case j of JList _ \<Rightarrow> Inl TypeError | JObj _ \<Rightarrow> Inl TypeError | _ \<Rightarrow> Inr j)"

definition added_tokens :: "json \<Rightarrow> (json \<times> json) list res" where
  "added_tokens tok =
     res_bind (item ''added_tokens'' tok) (\<lambda>ts. res_bind (py_iter ts) (\<lambda>ts.
       mapM (\<lambda>v. res_bind (item ''content'' v) (\<lambda>k. res_bind (hashable_key k) (\<lambda>k.
         res_bind (item ''id'' v) (\<lambda>i. Inr (k, i))))) ts))"

definition special_names :: "(string \<times> string) list" where
  "special_names = [(''cls'', ''[CLS]''), (''sep'', ''[SEP]''), (''mask'', ''[MASK]''), (''pad'', ''[PAD]'')]"

definition special_fields :: "(json \<times> json) list \<Rightarrow> string res" where
  "special_fields tokens =
     res_bind (mapM (\<lambda>(field, name).
       res_bind (of_option (KeyError name) (dict_get (JStr name) tokens)) (\<lambda>i.
       res_bind (py_str i) (\<lambda>t. Inr (field @ '' = '' @ t @ '' : nat32'')))) special_names) (\<lambda>fields.
     Inr (join ''; '' fields))"

definition MIB :: nat where
  "MIB = 1024 * 1024"

definition upload_table :: bytes where
  "upload_table = ascii ''DIDL'' @ [0x01, 0x6d, 0x7b, 0x02, 0x78, 0x00]"

definition chunk_message :: "nat \<Rightarrow> bytes \<Rightarrow> bytes res" where
  "chunk_message off chunk =
     res_bind (pack_uint 8 (int off)) (\<lambda>o8. Inr (upload_table @ o8 @ ci_uleb (length chunk) @ chunk))"

text \<open>\<open>while chunk := stream.read(1024 * 1024)\<close>\<close>

function send_file :: "'w system \<Rightarrow> icp \<Rightarrow> string \<Rightarrow> bytes \<Rightarrow> nat \<Rightarrow> ('w, nat) io" where
  "send_file S c argsfile content off =
     (if content = [] then io_ret off
      else let chunk = take MIB content
        in io_bind (io_lift (chunk_message off chunk)) (\<lambda>m.
           io_then (sys_write S argsfile m)
           (io_bind (io_lift (did_of c ''decision-engine'')) (\<lambda>d.
            io_bind (run S c [''canister'', ''call'', ''decision-engine'', ''upload_chunk'', ''--args-file'', argsfile,
                ''--args-format'', ''bin'', ''-e'', icp_env c, ''--candid'', d] True OwnIdentity 300) (\<lambda>result.
              if \<not> contains ''Ok'' result then io_raise (Failure result)
              else send_file S c argsfile (drop MIB content) (off + length chunk))))))"
  by auto
termination by (relation "measure (\<lambda>(_, _, _, content, _). length content)") (auto simp: MIB_def)

declare send_file.simps [simp del]

text \<open>\<open>for i in range(count or 1024)\<close>; \<open>n\<close> counts what is left.\<close>

fun warm_steps :: "'w system \<Rightarrow> icp \<Rightarrow> nat option \<Rightarrow> nat \<Rightarrow> nat \<Rightarrow> ('w, unit) io" where
  "warm_steps S c count i 0 = io_raise (Failure ''warmup did not complete'')"
| "warm_steps S c count i (Suc n) =
     io_bind (call S c ''decision-engine'' ''warmup_next'' ''()'' True 600) (\<lambda>result.
       if \<not> contains ''Ok'' result then io_raise (Failure result)
       else if contains ''true'' result
       then io_guard (case count of None \<Rightarrow> True | Some k \<Rightarrow> Suc i = k) (Failure ''unexpected warmup tensor count'')
       else warm_steps S c count (Suc i) n)"

definition warmup :: "'w system \<Rightarrow> icp \<Rightarrow> nat option \<Rightarrow> ('w, unit) io" where
  "warmup S c count =
     io_bind (call S c ''decision-engine'' ''start_warmup'' ''()'' True 300) (\<lambda>result.
       if \<not> contains ''Ok'' result then io_raise (Failure result)
       else warm_steps S c count 0 (case count of None \<Rightarrow> 1024 | Some k \<Rightarrow> if k = 0 then 1024 else k))"

definition upload :: "'w system \<Rightarrow> icp \<Rightarrow> string \<Rightarrow> string \<Rightarrow> ('w, unit) io" where
  "upload S c argsfile directory =
     io_bind (sys_read S (path_join directory ''manifest.json'')) (\<lambda>raw.
     io_bind (io_lift (json_loads_bytes raw)) (\<lambda>manifest.
     io_bind (sys_read S (path_join directory ''tokenizer.json'')) (\<lambda>tok.
     io_bind (io_lift (res_bind (item ''tokenizer_sha256'' manifest) py_bytes)) (\<lambda>expected.
     io_then (io_guard (sha256 tok = expected) (Failure ''tokenizer hash mismatch''))
     (io_bind (io_lift (res_bind (json_loads_bytes tok) added_tokens)) (\<lambda>tokens.
      io_bind (io_lift (special_fields tokens)) (\<lambda>fields.
      let literals = join ''; '' (map (\<lambda>(_, name). json_string name) special_names)
      in io_bind (call S c ''decision-engine'' ''begin_upload''
            (''('' @ blob raw @ '', '' @ nat_str (length tok) @ '' : nat64, record { '' @ fields @
             ''; literals = vec { '' @ literals @ '' } })'') True 300) (\<lambda>result.
         io_then (io_guard (contains ''Ok'' result) (Failure result))
         (io_bind (sys_read S (path_join directory ''model.bin'')) (\<lambda>model.
          io_bind (send_file S c argsfile model 0) (\<lambda>off.
          io_bind (sys_read S (path_join directory ''tokenizer.json'')) (\<lambda>tok2.
          io_bind (send_file S c argsfile tok2 off) (\<lambda>_.
          io_bind (io_lift (res_bind (item ''tensors'' manifest) py_len)) (\<lambda>n.
          io_then (warmup S c (Some n))
          (io_bind (io_lift (item ''format'' manifest)) (\<lambda>_. io_ret ()))))))))))))))))"

section \<open>Reading a profile\<close>

text \<open>How many characters up to and with the brace that closes the depth.\<close>

fun scan_close :: "nat \<Rightarrow> string \<Rightarrow> nat res" where
  "scan_close 0 s = Inr 0"
| "scan_close (Suc d) [] = Inl IndexError"
| "scan_close (Suc d) (c # cs) =
     res_bind (scan_close (if c = CHR ''{'' then Suc (Suc d) else if c = CHR ''}'' then d else Suc d) cs)
       (\<lambda>n. Inr (Suc n))"

record cost =
  cost_name :: string
  cost_shape :: "int list"
  cost_instructions :: int

definition matched :: "rx \<Rightarrow> string \<Rightarrow> string res" where
  "matched r s = of_option TypeError (map_option (group 1) (search r s))"

definition rx_cost_name :: rx where
  "rx_cost_name = Seqs [Lit ''name'', rx_spaces, Lit ''='', rx_spaces, Lit [CHR 0x22],
     Grp 1 (Plus (Cls (\<lambda>c. c \<noteq> CHR 0x22))), Lit [CHR 0x22]]"

definition rx_cost_shape :: rx where
  "rx_cost_shape = Seqs [Lit ''shape'', rx_spaces, Lit ''='', rx_spaces, Lit ''vec'', rx_spaces, Lit ''{'',
     Grp 1 (Star (Cls (\<lambda>c. c \<noteq> CHR ''}''))), Lit ''}'']"

definition shape_entry :: "string \<Rightarrow> int res" where
  "shape_entry v = py_int 10 (remove_char (CHR ''_'') (hd (split_char (CHR '':'') (strip v))))"

definition parse_cost :: "string \<Rightarrow> cost res" where
  "parse_cost r =
     res_bind (matched rx_cost_name r) (\<lambda>nm.
     res_bind (matched rx_cost_shape r) (\<lambda>sh.
     res_bind (mapM shape_entry (filter (\<lambda>v. strip v \<noteq> []) (split_char (CHR '';'') sh))) (\<lambda>shape.
     res_bind (res_bind (matched (rx_field (Lit []) ''instructions'') r) read_number) (\<lambda>i.
       Inr \<lparr>cost_name = nm, cost_shape = shape, cost_instructions = i\<rparr>))))"

lemma split_once_shorter:
  assumes "split_once sep s = Some (a, b)" "sep \<noteq> []"
  shows "length b < length s"
proof -
  obtain i where i: "find_sub sep s = Some i" "b = drop (i + length sep) s"
    using assms(1) by (auto simp: split_once_def)
  have "0 < length s" using assms(2) i(1) by (cases s) auto
  then show ?thesis using i(2) assms(2) by simp
qed

text \<open>The records of the body, from the rest of it after the position \<open>pos\<close>.\<close>

function parse_records :: "string \<Rightarrow> cost list res" where
  "parse_records body = (case split_once ''record {'' body of
     None \<Rightarrow> Inr []
   | Some (_, tail) \<Rightarrow>
       res_bind (scan_close 1 tail) (\<lambda>n.
       res_bind (parse_cost (take (n - 1) tail)) (\<lambda>k.
       res_bind (parse_records (drop n tail)) (\<lambda>ks. Inr (k # ks)))))"
  by auto
termination
proof (relation "measure length")
  fix body p a tail n
  assume "split_once ''record {'' body = Some p" "(a, tail) = p"
  then have "split_once ''record {'' body = Some (a, tail)" by simp
  from split_once_shorter [OF this] have "length tail < length body" by simp
  then show "(drop n tail, body) \<in> measure length" by simp
qed simp

declare parse_records.simps [simp del]

definition parse_costs :: "string \<Rightarrow> cost list res" where
  "parse_costs reply =
     (case split_once ''costs = vec {'' reply of
        None \<Rightarrow> Inl (ValueError ''substring not found'')
      | Some (_, tail) \<Rightarrow> res_bind (scan_close 1 tail) (\<lambda>n. parse_records (take (n - 1) tail)))"

section \<open>Inference\<close>

text \<open>\<open>bytes.fromhex\<close>: pairs of digits, ASCII white space between them.\<close>

definition hex_space :: "char \<Rightarrow> bool" where
  "hex_space c \<longleftrightarrow> 9 \<le> code c \<and> code c \<le> 13 \<or> code c = 32"

fun from_hex :: "string \<Rightarrow> bytes res" where
  "from_hex [] = Inr []"
| "from_hex [a] = (if hex_space a then Inr [] else Inl (ValueError ''non-hexadecimal number found in fromhex() arg''))"
| "from_hex (a # b # cs) =
     (if hex_space a then from_hex (b # cs)
      else case (hex_digit_val a, hex_digit_val b) of
        (Some x, Some y) \<Rightarrow> res_bind (from_hex cs) (\<lambda>bs. Inr (word_of_nat (16 * x + y) # bs))
      | _ \<Rightarrow> Inl (ValueError ''non-hexadecimal number found in fromhex() arg''))"

text \<open>\<open>f"{n:,}"\<close>\<close>

definition commas :: "int \<Rightarrow> string" where
  "commas n = (if n < 0 then ''-'' else []) @ rev (join '','' (groups_of 3 (rev (nat_str (nat \<bar>n\<bar>)))))"

record inference =
  inf_input_tokens :: nat
  inf_logits :: "fl list"
  inf_instructions :: int
  inf_step_instructions :: "int list"
  inf_start_instructions :: "int option"
  inf_completed_steps :: "int list"
  inf_steps_per_call :: "int option"
  inf_update_calls :: nat
  inf_start_request_id :: "string option"
  inf_profiles :: "cost list list"

record stepping =
  costs :: "int list"
  profiles :: "cost list list"
  completed_steps :: "int list"
  last_reply :: string

definition json_texts :: "string \<Rightarrow> json \<Rightarrow> string res" where
  "json_texts key input =
     res_bind (item key input) (\<lambda>vs. res_bind (py_iter vs) (\<lambda>vs. res_bind (mapM py_str vs) (\<lambda>ts.
       Inr (join ''; '' ts))))"

definition input_args :: "json \<Rightarrow> string res" where
  "input_args input =
     res_bind (json_texts ''input_ids'' input) (\<lambda>ids.
     res_bind (json_texts ''markers'' input) (\<lambda>markers.
     res_bind (res_bind (item ''qtype_id'' input) py_str) (\<lambda>q.
       Inr (''(record { input_ids = vec { '' @ ids @ '' }; markers = vec { '' @ markers @
            '' }; qtype_id = '' @ q @ '' : nat32 })''))))"

definition not_behind_underscore :: rx where
  "not_behind_underscore = NotBehind (\<lambda>c. c = CHR ''_'')"

definition field_of :: "rx \<Rightarrow> string \<Rightarrow> string \<Rightarrow> int res" where
  "field_of before key reply = res_bind (matched (rx_field before key) reply) read_number"

definition over_budget :: "string \<Rightarrow> int option \<Rightarrow> int \<Rightarrow> unit res" where
  "over_budget what limit used = (case limit of
     None \<Rightarrow> Inr ()
   | Some m \<Rightarrow>
       if m < used
       then Inl (Failure (what @ '' used '' @ commas used @ '' instructions, above budget '' @ commas m))
       else Inr ())"

text \<open>The reply to one step call, checked against the step before it.\<close>

definition read_step :: "bool \<Rightarrow> int \<Rightarrow> int option \<Rightarrow> int \<Rightarrow> int \<Rightarrow> string \<Rightarrow> stepping \<Rightarrow> (int \<times> stepping) res" where
  "read_step profile k limit phases step reply st =
     res_bind (if profile \<and> contains ''Ok'' reply
               then res_bind (parse_costs reply) (\<lambda>ps.
                    res_bind (of_option (ValueError ''substring not found'') (find_sub ''progress = record'' reply)) (\<lambda>i.
                      Inr (''Ok '' @ drop i reply, st\<lparr>profiles := profiles st @ [ps]\<rparr>)))
               else Inr (reply, st)) (\<lambda>(reply, st).
     if \<not> contains ''Ok'' reply then Inl (Failure reply)
     else
     res_bind (field_of not_behind_underscore ''instructions'' reply) (\<lambda>cost.
     res_bind (over_budget ''update'' limit cost) (\<lambda>_.
     res_bind (field_of (Lit []) ''completed'' reply) (\<lambda>done.
       if done \<noteq> min (step + k) phases
       then Inl (Failure (''unexpected batch progress: '' @ int_str step @ '' -> '' @ int_str done))
       else Inr (done, st\<lparr>costs := costs st @ [cost], completed_steps := completed_steps st @ [done],
                        last_reply := reply\<rparr>)))))"

definition step_method :: "bool \<Rightarrow> int \<Rightarrow> string" where
  "step_method profile k =
     (if profile then ''profile_token_step''
      else if k = 1 then ''step_token_inference'' else ''step_token_inference_batch'')"

definition step_args :: "string \<Rightarrow> int \<Rightarrow> int \<Rightarrow> string" where
  "step_args job k step =
     (if k = 1 then ''('' @ job @ '', '' @ int_str step @ '' : nat32)''
      else ''('' @ job @ '', '' @ int_str step @ '' : nat32, '' @ int_str k @ '' : nat32)'')"

text \<open>\<open>while step < total\<close>; what is left of the phases is fuel enough.\<close>

fun step_loop ::
  "nat \<Rightarrow> 'w system \<Rightarrow> icp \<Rightarrow> bool \<Rightarrow> int \<Rightarrow> int option \<Rightarrow> string \<Rightarrow> int \<Rightarrow> int \<Rightarrow> stepping \<Rightarrow> ('w, stepping) io" where
  "step_loop fuel S c profile k limit job phases step st =
     (if phases \<le> step then io_ret st
      else case fuel of
        0 \<Rightarrow> io_raise OutOfFuel
      | Suc n \<Rightarrow>
          io_bind (call S c ''decision-engine'' (step_method profile k) (step_args job k step) True 600) (\<lambda>reply.
          io_bind (io_lift (read_step profile k limit phases step reply st)) (\<lambda>(step', st').
            step_loop n S c profile k limit job phases step' st')))"

declare step_loop.simps [simp del]

definition job_of :: "string \<Rightarrow> string res" where
  "job_of reply =
     res_bind (decode_blobs reply) (\<lambda>ids.
       case ids of
         [i] \<Rightarrow> if length i = 32 then Inr (blob i) else Inl (Failure (''invalid job id: '' @ reply))
       | _ \<Rightarrow> Inl (Failure (''invalid job id: '' @ reply)))"

text \<open>The reply to the combined start: its steps are done, and are the first entry of each list.\<close>

definition read_batch_start :: "int \<Rightarrow> int option \<Rightarrow> int \<Rightarrow> string \<Rightarrow> (int \<times> stepping) res" where
  "read_batch_start k limit phases reply =
     res_bind (field_of (Lit []) ''completed'' reply) (\<lambda>step.
       if step \<noteq> min k phases then Inl (Failure ''unexpected initial batch progress'')
       else
     res_bind (field_of not_behind_underscore ''instructions'' reply) (\<lambda>cost.
     res_bind (over_budget ''update'' limit cost) (\<lambda>_.
       Inr (step, \<lparr>costs = [cost], profiles = [], completed_steps = [step], last_reply = reply\<rparr>))))"

definition fresh_stepping :: "string \<Rightarrow> stepping" where
  "fresh_stepping reply = \<lparr>costs = [], profiles = [], completed_steps = [], last_reply = reply\<rparr>"

definition start_id_of :: "'w system \<Rightarrow> string option \<Rightarrow> ('w, bytes) io" where
  "start_id_of S request_id =
     io_bind (case request_id of None \<Rightarrow> sys_token S 32 | Some t \<Rightarrow> io_lift (from_hex t)) (\<lambda>i.
     io_then (io_guard (length i = 32) (Failure ''request_id must be 32 bytes of hex'')) (io_ret i))"

definition rx_any_logits :: rx where
  "rx_any_logits = Seqs [Lit ''logits'', rx_spaces, Lit ''='', rx_spaces,
     Opt (Seq (Lit ''opt'') (Plus rx_space)), Lit ''vec'', rx_spaces, Lit ''{'',
     Grp 1 (Star (Cls (\<lambda>c. c \<noteq> CHR ''}''))), Lit ''}'']"

text \<open>The end of \<open>infer\<close>: the answer is read from the last reply.\<close>

definition read_inference ::
  "json \<Rightarrow> bool \<Rightarrow> bool \<Rightarrow> int \<Rightarrow> int option \<Rightarrow> bytes option \<Rightarrow> int option \<Rightarrow> stepping \<Rightarrow> inference res" where
  "read_inference input stepped combined k limit start_id start_cost st =
     (let reply = last_reply st
      in if \<not> contains ''Ok'' reply then Inl (Failure reply)
         else case (search rx_any_logits reply,
                    search (rx_field (Lit []) (if stepped then ''cumulative_instructions'' else ''instructions'')) reply) of
           (Some ml, Some mi) \<Rightarrow>
             res_bind (read_number (group 1 mi)) (\<lambda>measured.
             res_bind (if stepped then Inr () else over_budget ''update'' limit measured) (\<lambda>_.
             res_bind (read_logits (group 1 ml)) (\<lambda>logits.
             res_bind (res_bind (item ''input_ids'' input) py_len) (\<lambda>n.
               Inr \<lparr>inf_input_tokens = n, inf_logits = logits, inf_instructions = measured,
                    inf_step_instructions = costs st, inf_start_instructions = start_cost,
                    inf_completed_steps = completed_steps st,
                    inf_steps_per_call = (if stepped then Some k else None),
                    inf_update_calls = (if \<not> stepped then 1 else if combined then length (costs st) else 1 + length (costs st)),
                    inf_start_request_id = map_option hex start_id, inf_profiles = profiles st\<rparr>))))
         | _ \<Rightarrow> Inl (Failure (''unexpected inference result: '' @ reply)))"

text \<open>The start of a stepped run: the job, its phases, the step reached and the cost of a plain start.\<close>

definition start_stepped ::
  "'w system \<Rightarrow> icp \<Rightarrow> string \<Rightarrow> bool \<Rightarrow> int \<Rightarrow> int option \<Rightarrow> bytes option \<Rightarrow>
   ('w, string \<times> int \<times> int \<times> int option \<times> stepping) io" where
  "start_stepped S c args combined k limit start_id =
     io_bind (case start_id of
         Some i \<Rightarrow> call S c ''decision-engine'' ''start_token_inference_batch''
           (butlast args @ '', '' @ blob i @ '', '' @ int_str k @ '' : nat32)'') True 600
       | None \<Rightarrow> call S c ''decision-engine'' ''start_token_inference'' args True 300) (\<lambda>reply.
     io_then (io_guard (contains ''Ok'' reply) (Failure reply))
     (io_bind (io_lift (if combined then Inr None else
         (case search (rx_field not_behind_underscore ''instructions'') reply of
            None \<Rightarrow> Inl (Failure (''missing start instruction count: '' @ reply))
          | Some m \<Rightarrow> res_bind (read_number (group 1 m)) (\<lambda>n.
              res_bind (over_budget ''start'' limit n) (\<lambda>_. Inr (Some n)))))) (\<lambda>start_cost.
     io_bind (io_lift (job_of reply)) (\<lambda>job.
     io_bind (io_lift (field_of (Lit []) ''total'' reply)) (\<lambda>phases.
     io_bind (io_lift (if combined then read_batch_start k limit phases reply
                       else Inr (0, fresh_stepping reply))) (\<lambda>(step, st).
       io_ret (job, phases, step, start_cost, st)))))))"

definition infer ::
  "'w system \<Rightarrow> icp \<Rightarrow> string \<Rightarrow> bool \<Rightarrow> bool \<Rightarrow> int \<Rightarrow> string option \<Rightarrow> int option \<Rightarrow> ('w, inference) io" where
  "infer S c input_path stepped profile steps_arg request_id limit =
     io_then (io_guard (1 \<le> steps_arg \<and> steps_arg \<le> 16) (Failure ''steps_per_call must be 1..16''))
     (let k = (if profile then 1 else steps_arg);
          combined = (stepped \<and> \<not> profile \<and> 1 < k)
      in io_bind (sys_read S input_path) (\<lambda>raw.
         io_bind (io_lift (json_loads_bytes raw)) (\<lambda>input.
         io_bind (io_lift (input_args input)) (\<lambda>args.
           if stepped then
             io_bind (if combined then io_bind (start_id_of S request_id) (\<lambda>i. io_ret (Some i)) else io_ret None) (\<lambda>start_id.
             io_bind (start_stepped S c args combined k limit start_id) (\<lambda>(job, phases, step, start_cost, st).
             io_bind (step_loop (nat (phases - step)) S c profile k limit job phases step st) (\<lambda>st.
               io_lift (read_inference input stepped combined k limit start_id start_cost st))))
           else
             io_bind (call S c ''decision-engine'' ''infer_tokens'' args True 600) (\<lambda>reply.
               io_lift (read_inference input stepped combined k limit None None (fresh_stepping reply)))))))"

section \<open>The command line\<close>

record infer_args =
  a_pack :: "string option"
  a_input :: string
  a_profile :: bool
  a_query_int8 :: bool
  a_stepped :: bool
  a_query_stepped :: bool
  a_query_steps :: "int option"
  a_query_compression :: string
  a_steps :: int
  a_budget :: "int option"
  a_warmup :: bool
  a_initialize :: bool
  a_request_id :: "string option"
  a_identity :: string
  a_project_root :: string

definition has_request_id :: "infer_args \<Rightarrow> bool" where
  "has_request_id a = (a_request_id a \<noteq> None \<and> a_request_id a \<noteq> Some [])"

text \<open>\<open>parser.error\<close> exits.\<close>

definition check_options :: "infer_args \<Rightarrow> unit res" where
  "check_options a =
     (if a_query_int8 a \<and> \<not> a_query_stepped a
      then Inl (SystemExit ''--query-int8 requires --query-stepped'')
      else if a_query_stepped a \<and>
        (a_stepped a \<or> a_profile a \<or> a_budget a \<noteq> None \<or> has_request_id a \<or> a_steps a \<noteq> 16)
      then Inl (SystemExit ''--query-stepped cannot be combined with update inference options'')
      else if \<not> a_query_stepped a \<and> a_query_steps a \<noteq> None
      then Inl (SystemExit ''--query-steps-per-call requires --query-stepped'')
      else if \<not> a_query_stepped a \<and> a_query_compression a \<noteq> ''auto''
      then Inl (SystemExit ''--query-compression requires --query-stepped'')
      else if a_budget a \<noteq> None \<and> (a_stepped a \<or> a_profile a \<or> a_steps a \<noteq> 16)
      then Inl (SystemExit ''--max-update-instructions selects the inference route; omit --stepped, --profile and --steps-per-call'')
      else Inr ())"

definition check_calibrated_files :: "'w system \<Rightarrow> infer_args \<Rightarrow> ('w, unit) io" where
  "check_calibrated_files S a =
     (if a_budget a = None then io_ret ()
      else io_then (case a_pack a of
           None \<Rightarrow> io_ret ()
         | Some dir \<Rightarrow> io_bind (sys_read S (path_join dir ''manifest.json'')) (\<lambda>raw.
             io_guard (hex (sha256 raw) = BUNDLE_HASH) (Failure ''budget calibration does not match the requested pack'')))
         (if a_initialize a
          then io_bind (sys_read S (path_join (BUILD S) ''decision-engine.wasm'')) (\<lambda>wasm.
             io_guard (''0x'' @ hex (sha256 wasm) = MODULE_HASH)
               (Failure ''budget calibration does not match the Wasm to install''))
          else io_ret ()))"

definition initialize :: "'w system \<Rightarrow> icp \<Rightarrow> infer_args \<Rightarrow> ('w, unit) io" where
  "initialize S c a =
     io_bind (ensure_identity S c (a_identity a)) (\<lambda>owner.
     io_then (ensure_cycles S c ''10t'')
     (io_then (ensure_canister S c ''decision-engine'')
     (io_then (run S c [''canister'', ''install'', ''decision-engine'', ''-e'', ''local'', ''-y'', ''-m'', ''install'',
         ''--wasm'', path_join (BUILD S) ''decision-engine.wasm'', ''--args'', ''('' @ principal owner @ '')'']
         True OwnIdentity 600)
       (io_ret ()))))"

definition engine_status :: "'w system \<Rightarrow> icp \<Rightarrow> ('w, json) io" where
  "engine_status S c =
     io_bind (run S c [''canister'', ''status'', ''decision-engine'', ''-e'', ''local'', ''--json''] True OwnIdentity 300)
       (\<lambda>t. io_lift (json_loads t))"

text \<open>The hash of the active bundle: the only blob of \<open>info\<close>, of 32 bytes.\<close>

definition active_bundle :: "'w system \<Rightarrow> icp \<Rightarrow> ('w, bytes) io" where
  "active_bundle S c =
     io_bind (query S c ''decision-engine'' ''info'' ''()'') (\<lambda>t.
     io_bind (io_lift (decode_blobs t)) (\<lambda>bs.
       case bs of
         [b] \<Rightarrow> if length b = 32 then io_ret b else io_raise (Failure ''invalid active bundle response'')
       | _ \<Rightarrow> io_raise (Failure ''invalid active bundle response'')))"

definition text_or_empty :: "json \<Rightarrow> string" where
  "text_or_empty j = (case j of JStr s \<Rightarrow> s | _ \<Rightarrow> [])"

text \<open>A question type in the tuple (0, 1, 2) as its number; any other value is -1.\<close>

definition qtype_number :: "json \<Rightarrow> int" where
  "qtype_number q = (if eq_int q 0 then 0 else if eq_int q 1 then 1 else if eq_int q 2 then 2 else -1)"

definition error_text :: "exn \<Rightarrow> string" where
  "error_text e = (case e of ValueError m \<Rightarrow> m | KeyError k \<Rightarrow> [CHR 0x27] @ k @ [CHR 0x27] | _ \<Rightarrow> [])"

definition plan_for :: "json \<Rightarrow> int \<Rightarrow> json \<Rightarrow> bytes \<Rightarrow> InferencePlan res" where
  "plan_for input budget before active =
     (case res_bind (item ''input_ids'' input) (\<lambda>ids. res_bind (py_len ids) (\<lambda>n.
           res_bind (item ''markers'' input) (\<lambda>ms. res_bind (py_len ms) (\<lambda>k.
           res_bind (item ''qtype_id'' input) (\<lambda>q.
           res_bind (item ''module_hash'' before) (\<lambda>mh.
             plan_inference (int n) (int k) (qtype_number q) budget (text_or_empty mh) (hex active))))))) of
        Inl (KeyError k) \<Rightarrow> Inl (Failure (''cannot route budgeted inference: '' @ error_text (KeyError k)))
      | Inl TypeError \<Rightarrow> Inl (Failure (''cannot route budgeted inference: '' @ error_text TypeError))
      | Inl (ValueError m) \<Rightarrow> Inl (Failure (''cannot route budgeted inference: '' @ error_text (ValueError m)))
      | r \<Rightarrow> r)"

text \<open>The plan, with the status and the bundle it was made for.\<close>

definition make_plan :: "'w system \<Rightarrow> icp \<Rightarrow> infer_args \<Rightarrow> int \<Rightarrow> ('w, InferencePlan \<times> json \<times> bytes) io" where
  "make_plan S c a budget =
     io_bind (engine_status S c) (\<lambda>before.
     io_bind (active_bundle S c) (\<lambda>active.
     io_bind (sys_read S (a_input a)) (\<lambda>raw.
     io_bind (io_lift (json_loads_bytes raw)) (\<lambda>input.
     io_bind (io_lift (plan_for input budget before active)) (\<lambda>plan.
     io_then (io_guard (\<not> (has_request_id a \<and> steps_per_call plan \<in> {None, Some 1}))
       (Failure ''--request-id requires split inference with at least 2 steps per call''))
     (io_ret (plan, before, active)))))))"

text \<open>The session's channel: the arguments are written to a file before the command.\<close>

definition query_channel ::
  "'w system \<Rightarrow> icp \<Rightarrow> ('z \<Rightarrow> 'z inflate_step) \<Rightarrow> 'z \<Rightarrow> string \<Rightarrow> string \<Rightarrow> ('w, 'z) channel" where
  "query_channel S c zs z0 tmp d =
     \<lparr>run_icp = (\<lambda>command payload. io_then (sys_write S tmp payload) (run S c command True OwnIdentity 300)),
      args_path = tmp, env = icp_env c, did = d, zstep = zs, zinit = z0\<rparr>"

datatype answer = Queried query_result | Updated inference

definition run_queries ::
  "('z \<Rightarrow> 'z inflate_step) \<Rightarrow> 'z \<Rightarrow> string \<Rightarrow> 'w system \<Rightarrow> icp \<Rightarrow> infer_args \<Rightarrow> ('w, query_result) io" where
  "run_queries zs z0 tmp S c a =
     io_bind (sys_read S (a_input a)) (\<lambda>raw.
     io_bind (io_lift (json_loads_bytes raw)) (\<lambda>input.
     io_bind (io_lift (did_of c ''decision-engine'')) (\<lambda>d.
       infer_queries (query_channel S c zs z0 tmp d) input (a_query_steps a)
         (if a_query_int8 a then ''int8'' else ''f32'') (a_query_compression a))))"

definition run_updates :: "'w system \<Rightarrow> icp \<Rightarrow> infer_args \<Rightarrow> InferencePlan option \<Rightarrow> ('w, inference) io" where
  "run_updates S c a plan =
     infer S c (a_input a)
       (case plan of Some p \<Rightarrow> mode p = ''stepped'' | None \<Rightarrow> a_stepped a \<or> a_profile a)
       (a_profile a)
       (case plan of Some p \<Rightarrow> (case steps_per_call p of Some k \<Rightarrow> if k = 0 then a_steps a else k | None \<Rightarrow> a_steps a)
        | None \<Rightarrow> a_steps a)
       (a_request_id a) (map_option effective_budget plan)"

record budget_report =
  b_route :: string
  b_requested :: int
  b_effective :: int
  b_estimated :: int
  b_max_observed :: int

record infer_report =
  r_answer :: answer
  r_canister :: json
  r_module_hash :: json
  r_memory :: int
  r_input_sha256 :: string
  r_bundle :: string
  r_budget :: "budget_report option"

definition update_costs :: "inference \<Rightarrow> int list" where
  "update_costs r = inf_step_instructions r @ (case inf_start_instructions r of None \<Rightarrow> [] | Some n \<Rightarrow> [n])"

definition budget_of :: "InferencePlan \<Rightarrow> inference \<Rightarrow> budget_report" where
  "budget_of plan r =
     \<lparr>b_route = mode plan, b_requested = requested_budget plan, b_effective = effective_budget plan,
      b_estimated = estimated_direct_instructions plan,
      b_max_observed = (if update_costs r = [] then inf_instructions r else Max (set (update_costs r)))\<rparr>"

text \<open>\<open>int(status["memory_size"].replace("_", ""))\<close>\<close>

definition memory_size :: "json \<Rightarrow> int res" where
  "memory_size status =
     res_bind (item ''memory_size'' status) (\<lambda>j. case j of JStr t \<Rightarrow> read_number t | _ \<Rightarrow> Inl AttributeError)"

definition same_module :: "json \<Rightarrow> json \<Rightarrow> bool res" where
  "same_module status before =
     res_bind (item ''module_hash'' status) (\<lambda>m. res_bind (item ''module_hash'' before) (\<lambda>b. Inr (m = b)))"

text \<open>Nothing was exchanged while the queries ran, and the answer is of the active bundle.\<close>

definition check_queried :: "json \<Rightarrow> json option \<Rightarrow> bytes \<Rightarrow> answer \<Rightarrow> unit res" where
  "check_queried status before active r = (case (r, before) of
     (Queried q, Some b) \<Rightarrow>
       res_bind (same_module status b) (\<lambda>same.
         if \<not> same \<or> result_bundle q \<noteq> Some (hex active)
         then Inl (Failure ''installed Wasm or pack changed during query inference'') else Inr ())
   | _ \<Rightarrow> Inr ())"

definition check_budgeted ::
  "json \<Rightarrow> (InferencePlan \<times> json \<times> bytes) option \<Rightarrow> bytes \<Rightarrow> answer \<Rightarrow> budget_report option res" where
  "check_budgeted status plan active r = (case (plan, r) of
     (Some (p, before, active_before), Updated i) \<Rightarrow>
       res_bind (same_module status before) (\<lambda>same.
         if \<not> same \<or> active \<noteq> active_before
         then Inl (Failure ''installed Wasm or pack changed during budgeted inference'')
         else Inr (Some (budget_of p i)))
   | _ \<Rightarrow> Inr None)"

definition final_report ::
  "'w system \<Rightarrow> icp \<Rightarrow> infer_args \<Rightarrow> (InferencePlan \<times> json \<times> bytes) option \<Rightarrow> json option \<Rightarrow> answer \<Rightarrow>
   ('w, infer_report) io" where
  "final_report S c a plan query_before r =
     io_bind (engine_status S c) (\<lambda>status.
     io_bind (io_lift (item ''id'' status)) (\<lambda>can.
     io_bind (io_lift (item ''module_hash'' status)) (\<lambda>mh.
     io_bind (io_lift (memory_size status)) (\<lambda>mem.
     io_bind (sys_read S (a_input a)) (\<lambda>raw.
     io_bind (active_bundle S c) (\<lambda>active.
     io_bind (io_lift (check_queried status query_before active r)) (\<lambda>_.
     io_bind (io_lift (check_budgeted status plan active r)) (\<lambda>budget.
     io_then (case a_pack a of
         None \<Rightarrow> io_ret ()
       | Some dir \<Rightarrow> io_bind (sys_read S (path_join dir ''manifest.json'')) (\<lambda>m.
           io_guard (hex active = hex (sha256 m)) (Failure ''active bundle does not match uploaded manifest'')))
     (io_ret \<lparr>r_answer = r, r_canister = can, r_module_hash = mh, r_memory = mem,
        r_input_sha256 = hex (sha256 raw), r_bundle = hex active, r_budget = budget\<rparr>)))))))))"

text \<open>The whole command; the report is returned where the code prints it.\<close>

definition infer_main ::
  "('z \<Rightarrow> 'z inflate_step) \<Rightarrow> 'z \<Rightarrow> string \<Rightarrow> 'w system \<Rightarrow> infer_args \<Rightarrow> ('w, infer_report) io" where
  "infer_main zs z0 tmp S a =
     io_bind (io_lift (check_options a)) (\<lambda>_.
     io_then (check_calibrated_files S a)
     (let c = new_icp S (a_project_root a) ''local'' (a_identity a)
      in io_then (require_local_network S c)
        (io_bind (network_status S c) (\<lambda>status.
         io_then (io_guard (status \<noteq> JNull) (Failure ''start this project's local network first''))
         (io_then (io_when (a_initialize a) (initialize S c a))
         (io_then (case a_pack a of
             Some dir \<Rightarrow> upload S c tmp dir
           | None \<Rightarrow> io_when (a_warmup a) (warmup S c None))
         (io_bind (case a_budget a of
             None \<Rightarrow> io_ret None
           | Some b \<Rightarrow> io_bind (make_plan S c a b) (\<lambda>p. io_ret (Some p))) (\<lambda>plan.
          if a_query_stepped a
          then io_bind (engine_status S c) (\<lambda>before.
               io_bind (run_queries zs z0 tmp S c a) (\<lambda>q.
                 final_report S c a plan (Some before) (Queried q)))
          else io_bind (run_updates S c a (map_option fst plan)) (\<lambda>i.
                 final_report S c a plan None (Updated i))))))))))"

end
