(* ===== verification/Infer_Proofs.thy ===== *)
theory Infer_Proofs
  imports Canister_Infer
begin

text \<open>
  What token inference of \<open>tools/canister_infer.py\<close> guarantees: a stepped run issues one call for each
  group of phases and reports exactly those, it ends, and a budgeted run keeps every update within
  the budget it was planned for.
\<close>

section \<open>The two encoders of lengths\<close>

lemma ci_uleb_uleb: "ci_uleb n = uleb n"
  by (induction n rule: uleb.induct) (subst ci_uleb.simps, subst uleb.simps, simp)

section \<open>A stepped run\<close>

definition fits :: "int option \<Rightarrow> int \<Rightarrow> bool" where
  "fits limit x = (case limit of None \<Rightarrow> True | Some m \<Rightarrow> x \<le> m)"

lemma over_budget_Inr: "over_budget what limit used = Inr u \<longleftrightarrow> fits limit used"
  by (auto simp: over_budget_def fits_def split: option.split)

text \<open>The phases done after each of the first \<open>n\<close> groups of \<open>k\<close>.\<close>

definition marks :: "int \<Rightarrow> int \<Rightarrow> nat \<Rightarrow> int list" where
  "marks k phases n = map (\<lambda>i. min (int (Suc i) * k) phases) [0..<n]"

lemma length_marks [simp]: "length (marks k p n) = n"
  by (simp add: marks_def)

lemma marks_simps [simp]:
  "marks k p 0 = []" "marks k p (Suc n) = marks k p n @ [min (int (Suc n) * k) p]"
  by (simp_all add: marks_def)

text \<open>A run after \<open>n\<close> groups, all within the limit.\<close>

definition marked :: "bool \<Rightarrow> int \<Rightarrow> int option \<Rightarrow> int \<Rightarrow> nat \<Rightarrow> int \<Rightarrow> stepping \<Rightarrow> bool" where
  "marked profile k limit p n step st \<longleftrightarrow>
     step = (if n = 0 then 0 else min (int n * k) p) \<and> (n \<le> 1 \<or> (int n - 1) * k < p) \<and>
     completed_steps st = marks k p n \<and> length (costs st) = n \<and> (\<forall>x \<in> set (costs st). fits limit x) \<and>
     (profile \<longrightarrow> length (profiles st) = n)"

lemma read_step_marked:
  assumes "read_step profile k limit p step reply st = Inr (step', st')" "marked profile k limit p n step st"
    and "step < p" "1 \<le> k"
  shows "marked profile k limit p (Suc n) step' st' \<and> step = int n * k \<and> step < step'"
proof -
  have s: "step = int n * k" using assms(2,3) by (auto simp: marked_def split: if_splits)
  obtain reply' st1 cost where st1:
      "(if profile \<and> contains ''Ok'' reply
               then res_bind (parse_costs reply) (\<lambda>ps.
                    res_bind (of_option (ValueError ''substring not found'') (find_sub ''progress = record'' reply)) (\<lambda>i.
                      Inr (''Ok '' @ drop i reply, st\<lparr>profiles := profiles st @ [ps]\<rparr>)))
               else Inr (reply, st)) = Inr (reply', st1)"
    and r: "contains ''Ok'' reply'" "fits limit cost" "step' = min (step + k) p"
      "st' = st1\<lparr>costs := costs st1 @ [cost], completed_steps := completed_steps st1 @ [step'], last_reply := reply'\<rparr>"
    using assms(1) unfolding read_step_def res_bind_Inr
    by (auto simp: res_iff over_budget_Inr split: if_splits)
  have p: "costs st1 = costs st" "completed_steps st1 = completed_steps st"
      "profile \<Longrightarrow> length (profiles st1) = Suc (length (profiles st))"
    using st1 r(1) by (auto simp: res_iff split: if_splits)
  have "step' = min (int (Suc n) * k) p" using r(3) s by (simp add: algebra_simps)
  moreover have "n \<le> 0 \<or> (int (Suc n) - 1) * k < p" using s assms(3) by simp
  moreover have "step < step'" using r(3) assms(3,4) by simp
  ultimately show ?thesis using assms(2) s p r(2,4) unfolding marked_def by simp
qed

text \<open>The same system with a transcript: every command with what the system answered.\<close>

type_synonym answer = "int \<times> string \<times> string"
type_synonym exchange = "string list \<times> answer res"

definition transcribed :: "'w system \<Rightarrow> ('w \<times> exchange list) system" where
  "transcribed S = \<lparr>
     sys_run = (\<lambda>cmd t (w, h). case sys_run S cmd t w of (r, w') \<Rightarrow> (r, (w', h @ [(cmd, r)]))),
     sys_exists = (\<lambda>p. lift_log (sys_exists S p)),
     sys_read = (\<lambda>p. lift_log (sys_read S p)),
     sys_write = (\<lambda>p b. lift_log (sys_write S p b)),
     sys_report = (\<lambda>p j. lift_log (sys_report S p j)),
     sys_token = (\<lambda>n. lift_log (sys_token S n)),
     sys_time_ns = lift_log (sys_time_ns S),
     repo_root = repo_root S\<rparr>"

text \<open>What a tool gets of an answer: both streams.\<close>

definition answer_text :: "answer \<Rightarrow> string" where
  "answer_text = (\<lambda>(code, out, err). out @ err)"

lemma call_transcriptE:
  assumes "call (transcribed S) c ''decision-engine'' meth args ok t (w, h) = (Inr reply, (w', h'))"
    and "did_of c ''decision-engine'' = Inr d"
  shows "\<exists>x. h' = h @ [(engine_command c d meth args, Inr x)] \<and> reply = answer_text x"
  using assms
  by (auto simp: call_def run_def icp_command_def identity_truthy_def transcribed_def engine_command_def io_bind_def
      answer_text_def split: prod.splits sum.splits if_splits)

lemma transcribed_call:
  "call S c ''decision-engine'' meth args ok t w = (Inr reply, w') \<Longrightarrow> did_of c ''decision-engine'' = Inr d \<Longrightarrow>
   \<exists>x. call (transcribed S) c ''decision-engine'' meth args ok t (w, h) =
     (Inr reply, (w', h @ [(engine_command c d meth args, Inr x)]))"
  by (auto simp: call_def run_def icp_command_def identity_truthy_def transcribed_def engine_command_def io_bind_def
      split: prod.splits sum.splits if_splits)

definition step_command :: "icp \<Rightarrow> string \<Rightarrow> bool \<Rightarrow> int \<Rightarrow> string \<Rightarrow> nat \<Rightarrow> string list" where
  "step_command c d profile k job i = engine_command c d (step_method profile k) (step_args job k (int i * k))"

lemma step_loop_marked:
  assumes k: "1 \<le> k"
  shows "step_loop fuel S c profile k limit job p step st w = (Inr st', w') \<Longrightarrow> marked profile k limit p n step st \<Longrightarrow>
    \<exists>step'. marked profile k limit p (length (costs st')) step' st' \<and> p \<le> step' \<and> n \<le> length (costs st')"
proof (induction fuel arbitrary: n step st w)
  case 0
  then show ?case by (auto simp: step_loop.simps marked_def split: if_splits)
next
  case (Suc fuel)
  show ?case
  proof (cases "p \<le> step")
    case True
    then show ?thesis using Suc.prems by (auto simp: step_loop.simps marked_def)
  next
    case False
    then obtain reply w1 step1 st1 where st1: "read_step profile k limit p step reply st = Inr (step1, st1)"
      and go: "step_loop fuel S c profile k limit job p step1 st1 w1 = (Inr st', w')"
      using Suc.prems(1) by (subst (asm) step_loop.simps) (auto simp: res_iff)
    from read_step_marked [OF st1 Suc.prems(2) _ k] False
    have "marked profile k limit p (Suc n) step1 st1" by simp
    from Suc.IH [OF go this] show ?thesis by auto
  qed
qed

lemma step_loop_log:
  assumes d: "did_of c ''decision-engine'' = Inr d" and k: "1 \<le> k"
  shows "step_loop fuel (transcribed S) c profile k limit job p step st (w, h) = (Inr st', (w', h')) \<Longrightarrow>
    marked profile k limit p n step st \<Longrightarrow>
    \<exists>es. h' = h @ es \<and> map fst es = map (step_command c d profile k job) [n..<length (costs st')] \<and> list_all (\<lambda>x. is_ok (snd x)) es"
proof (induction fuel arbitrary: n step st w h)
  case 0
  then show ?case by (auto simp: step_loop.simps marked_def split: if_splits)
next
  case (Suc fuel)
  show ?case
  proof (cases "p \<le> step")
    case True
    then show ?thesis using Suc.prems by (auto simp: step_loop.simps marked_def)
  next
    case False
    then obtain reply w1 h1 step1 st1 where
      r: "call (transcribed S) c ''decision-engine'' (step_method profile k) (step_args job k step) True 600 (w, h) =
        (Inr reply, (w1, h1))"
      and st1: "read_step profile k limit p step reply st = Inr (step1, st1)"
      and go: "step_loop fuel (transcribed S) c profile k limit job p step1 st1 (w1, h1) = (Inr st', (w', h'))"
      using Suc.prems(1) by (subst (asm) step_loop.simps) (auto simp: res_iff)
    from read_step_marked [OF st1 Suc.prems(2) _ k] False
    have m: "marked profile k limit p (Suc n) step1 st1" and s: "step = int n * k" by simp_all
    obtain x where "h1 = h @ [(step_command c d profile k job n, Inr x)]"
      using call_transcriptE [OF r d] s by (auto simp: step_command_def)
    moreover obtain es where "h' = h1 @ es" "map fst es = map (step_command c d profile k job) [Suc n..<length (costs st')]"
        "list_all (\<lambda>x. is_ok (snd x)) es"
      using Suc.IH [OF go m] by blast
    moreover have "Suc n \<le> length (costs st')" using step_loop_marked [OF k go m] by blast
    ultimately show ?thesis
      by (intro exI [of _ "(step_command c d profile k job n, Inr x) # es"]) (simp add: upt_conv_Cons)
  qed
qed

text \<open>How many groups of \<open>k\<close> a positive number of phases needs.\<close>

lemma marked_count:
  assumes "marked profile k limit p n step st" "p \<le> step" "0 < p" "1 \<le> k"
  shows "int n = (p + k - 1) div k"
proof -
  have n: "0 < n" "p \<le> int n * k" "n \<le> 1 \<or> (int n - 1) * k < p"
    using assms by (auto simp: marked_def split: if_splits)
  then have "(int n - 1) * k < p" using assms(3) by (cases "n = 1") auto
  then have "(p + k - 1) = k * int n + (p - 1 - (int n - 1) * k)" by (simp add: algebra_simps)
  moreover have "0 \<le> p - 1 - (int n - 1) * k" "p - 1 - (int n - 1) * k < k"
    using n(2) \<open>(int n - 1) * k < p\<close> by (simp_all add: algebra_simps)
  ultimately show ?thesis
    by (metis div_mult_self4 div_pos_pos_trivial add.right_neutral add.commute less_le_trans assms(4) zero_less_one less_irrefl)
qed

lemma start_stepped_marked:
  assumes run: "start_stepped S c args combined k limit start_id w = (Inr (job, p, step, start_cost, st), w')"
    and p: "combined \<Longrightarrow> \<not> profile"
  shows "marked profile k limit p (of_bool combined) step st \<and>
    (if combined then start_cost = None else \<exists>x. start_cost = Some x \<and> fits limit x)"
proof -
  obtain reply where s: "(if combined then Inr None else
         (case search (rx_field not_behind_underscore ''instructions'') reply of
            None \<Rightarrow> Inl (Failure (''missing start instruction count: '' @ reply))
          | Some m \<Rightarrow> res_bind (read_number (group 1 m)) (\<lambda>n.
              res_bind (over_budget ''start'' limit n) (\<lambda>_. Inr (Some n))))) = Inr start_cost"
    and b: "(if combined then read_batch_start k limit p reply else Inr (0, fresh_stepping reply)) = Inr (step, st)"
    using run unfolding start_stepped_def io_bind_Inr io_then_Inr io_lift_Inr io_guard_Inr
    by (auto simp: split: prod.splits)
  have "if combined then start_cost = None else \<exists>x. start_cost = Some x \<and> fits limit x"
    using s by (auto simp: res_iff over_budget_Inr split: option.splits if_splits)
  moreover have "marked profile k limit p (of_bool combined) step st"
    using b p by (cases combined)
      (auto simp: read_batch_start_def res_iff over_budget_Inr marked_def fresh_stepping_def split: if_splits)
  ultimately show ?thesis by blast
qed

lemma start_stepped_log:
  assumes d: "did_of c ''decision-engine'' = Inr d" and start_id: "combined \<longleftrightarrow> start_id \<noteq> None"
    and run: "start_stepped (transcribed S) c args combined k limit start_id (w, h) = (Inr (job, p, step, start_cost, st), (w', h'))"
  shows "\<exists>a x. h' = h @ [(engine_command c d
      (if combined then ''start_token_inference_batch'' else ''start_token_inference'') a, Inr x)] \<and>
    field_of (Lit []) ''total'' (answer_text x) = Inr p \<and> job_of (answer_text x) = Inr job"
proof -
  obtain reply where r: "(case start_id of
         Some i \<Rightarrow> call (transcribed S) c ''decision-engine'' ''start_token_inference_batch''
           (butlast args @ '', '' @ blob i @ '', '' @ int_str k @ '' : nat32)'') True 600
       | None \<Rightarrow> call (transcribed S) c ''decision-engine'' ''start_token_inference'' args True 300) (w, h) =
       (Inr reply, (w', h'))"
    and t: "field_of (Lit []) ''total'' reply = Inr p" "job_of reply = Inr job"
    using run unfolding start_stepped_def io_bind_Inr io_then_Inr io_lift_Inr io_guard_Inr
    by (auto simp: split: prod.splits)
  show ?thesis
  proof (cases start_id)
    case None
    then show ?thesis using r t start_id call_transcriptE [OF _ d, of S "''start_token_inference''" args True 300 w h reply w' h']
      by auto
  next
    case (Some i)
    then show ?thesis using r t start_id call_transcriptE [OF _ d, of S "''start_token_inference_batch''"
        "butlast args @ '', '' @ blob i @ '', '' @ int_str k @ '' : nat32)''" True 600 w h reply w' h'] by auto
  qed
qed

lemma read_inference_Inr:
  assumes "read_inference input stepped combined k limit start_id start_cost st = Inr r"
  shows "inf_step_instructions r = costs st \<and> inf_start_instructions r = start_cost \<and>
    inf_completed_steps r = completed_steps st \<and> inf_profiles r = profiles st \<and>
    inf_update_calls r = (if \<not> stepped then 1 else if combined then length (costs st) else 1 + length (costs st)) \<and>
    inf_steps_per_call r = (if stepped then Some k else None) \<and>
    (\<not> stepped \<longrightarrow> fits limit (inf_instructions r))"
  using assms
  by (auto simp: read_inference_def Let_def res_iff over_budget_Inr split: if_splits option.splits)

text \<open>
  What a stepped run did and reports: the specification of \<open>infer\<close>.  The exchanges are the start, whose
  answer names the job and the total of phases, and one step for each further group; every one of
  them was answered.
\<close>

definition stepped_report ::
  "icp \<Rightarrow> string \<Rightarrow> bool \<Rightarrow> int \<Rightarrow> int option \<Rightarrow> int \<Rightarrow> exchange list \<Rightarrow> inference \<Rightarrow> bool" where
  "stepped_report c d profile k limit p es r \<longleftrightarrow>
     (let n = length (inf_completed_steps r) in
       int n = (if 0 < p then (p + k - 1) div k else if k = 1 then 0 else 1) \<and>
       inf_completed_steps r = marks k p n \<and> (0 < p \<longrightarrow> last (inf_completed_steps r) = p) \<and>
       length (inf_step_instructions r) = n \<and> (profile \<longrightarrow> length (inf_profiles r) = n) \<and>
       (\<forall>x \<in> set (update_costs r). fits limit x) \<and> update_costs r \<noteq> [] \<and> inf_update_calls r = length es \<and>
       (\<exists>a job first later. es = (engine_command c d
             (if k = 1 then ''start_token_inference'' else ''start_token_inference_batch'') a, Inr first) # later \<and>
           field_of (Lit []) ''total'' (answer_text first) = Inr p \<and> job_of (answer_text first) = Inr job \<and>
           map fst later = map (step_command c d profile k job) [(if k = 1 then 0 else 1)..<n] \<and>
           list_all (\<lambda>x. is_ok (snd x)) later))"

lemma quiet_log:
  "sys_read (transcribed S) f (w, h) = (r, (w', h')) \<Longrightarrow> h' = h"
  "start_id_of (transcribed S) rid (w, h) = (r1, (w', h')) \<Longrightarrow> h' = h"
  by (auto simp: start_id_of_def transcribed_def lift_log_def io_bind_def io_then_def io_guard_def
      split: prod.splits sum.splits option.splits if_splits)

lemma io_bind_tuple:
  "io_bind m (\<lambda>(a, b, x, y, z). f a b x y z) w = (Inr r, w'') \<longleftrightarrow>
     (\<exists>a b x y z w'. m w = (Inr (a, b, x, y, z), w') \<and> f a b x y z w' = (Inr r, w''))"
  by (auto simp: io_bind_Inr)

lemma infer_stepped_parts:
  assumes run: "infer S c path True profile kk rid limit w = (Inr r, w')"
    and k: "k = (if profile then 1 else kk)" and comb: "combined \<longleftrightarrow> \<not> profile \<and> 1 < k"
  obtains raw input args w1 start_id w2 job p step start_cost st w3 st' where
    "1 \<le> kk" "sys_read S path w = (Inr raw, w1)"
    "(if combined then io_bind (start_id_of S rid) (\<lambda>i. io_ret (Some i)) else io_ret None) w1 = (Inr start_id, w2)"
    "start_stepped S c args combined k limit start_id w2 = (Inr (job, p, step, start_cost, st), w3)"
    "step_loop (nat (p - step)) S c profile k limit job p step st w3 = (Inr st', w')"
    "read_inference input True combined k limit start_id start_cost st' = Inr r"
proof -
  have c: "(True \<and> \<not> profile \<and> 1 < k) = combined" using comb by simp
  from run show thesis
    unfolding infer_def io_then_Inr Let_def k [symmetric] c if_True io_bind_tuple io_bind_Inr io_lift_Inr io_guard_Inr
    by (clarify, unfold io_bind_Inr io_lift_Inr, clarify) (rule that; assumption)
qed

lemma marks_last: "0 < n \<Longrightarrow> last (marks k p n) = min (int n * k) p"
  by (cases n) simp_all

text \<open>Without a phase to run there is no step.\<close>

lemma step_loop_idle:
  assumes "step_loop fuel S c profile k limit job p step st w = (Inr st', w')" "marked profile k limit p n step st" "1 \<le> k"
  shows "p \<le> 0 \<longrightarrow> n \<le> 1 \<longrightarrow> length (costs st') = n"
proof (intro impI)
  assume "p \<le> 0" "n \<le> 1"
  then have "p \<le> step" using assms(2,3) by (auto simp: marked_def le_Suc_eq split: if_splits)
  then show "length (costs st') = n" using assms by (simp add: step_loop.simps marked_def)
qed

lemma infer_stepped_report:
  assumes d: "did_of c ''decision-engine'' = Inr d"
    and run: "infer (transcribed S) c path True profile kk rid limit (w, h) = (Inr r, (w', h'))"
  shows "\<exists>p es. h' = h @ es \<and> stepped_report c d profile (if profile then 1 else kk) limit p es r"
proof -
  define k combined where k: "k = (if profile then 1 else kk)" and comb: "combined \<longleftrightarrow> \<not> profile \<and> 1 < k"
  obtain raw input args w1 h1 start_id w2 h2 job p step start_cost st w3 h3 st' where
    1: "1 \<le> kk" and raw: "sys_read (transcribed S) path (w, h) = (Inr raw, (w1, h1))"
    and i: "(if combined then io_bind (start_id_of (transcribed S) rid) (\<lambda>i. io_ret (Some i)) else io_ret None) (w1, h1) =
      (Inr start_id, (w2, h2))"
    and s: "start_stepped (transcribed S) c args combined k limit start_id (w2, h2) =
      (Inr (job, p, step, start_cost, st), (w3, h3))"
    and l: "step_loop (nat (p - step)) (transcribed S) c profile k limit job p step st (w3, h3) = (Inr st', (w', h'))"
    and r: "read_inference input True combined k limit start_id start_cost st' = Inr r"
    by (rule infer_stepped_parts [OF run k comb]) auto
  have k1: "1 \<le> k" "combined \<longleftrightarrow> k \<noteq> 1" using 1 by (auto simp: k comb)
  have w: "h2 = h" and sid: "combined \<longleftrightarrow> start_id \<noteq> None"
    using quiet_log(1) [OF raw] i by (auto simp: res_iff split: if_splits dest: quiet_log(2))
  obtain a x where a: "h3 = h @ [(engine_command c d
      (if combined then ''start_token_inference_batch'' else ''start_token_inference'') a, Inr x)]"
    and x: "field_of (Lit []) ''total'' (answer_text x) = Inr p" "job_of (answer_text x) = Inr job"
    using start_stepped_log [OF d sid s] w by blast
  have m: "marked profile k limit p (of_bool combined) step st"
    and c0: "if combined then start_cost = None else \<exists>x. start_cost = Some x \<and> fits limit x"
    using start_stepped_marked [OF s, of profile] comb by auto
  define n where "n = length (costs st')"
  obtain step' where n: "of_bool combined \<le> n" "marked profile k limit p n step' st'" "p \<le> step'"
    using step_loop_marked [OF k1(1) l m] unfolding n_def by blast
  obtain es where es: "h' = h3 @ es" "map fst es = map (step_command c d profile k job) [of_bool combined..<n]"
      "list_all (\<lambda>x. is_ok (snd x)) es"
    using step_loop_log [OF d k1(1) l m] unfolding n_def by blast
  let ?start = "(engine_command c d (if k = 1 then ''start_token_inference'' else ''start_token_inference_batch'') a, Inr x)"
  have h': "h' = h @ ?start # es" using es(1) a k1(2) by auto
  have count: "int n = (if 0 < p then (p + k - 1) div k else if k = 1 then 0 else 1)"
    using marked_count [OF n(2,3) _ k1(1)] step_loop_idle [OF l m k1(1)] k1(2) unfolding n_def by auto
  have at_total: "0 < p \<longrightarrow> last (marks k p n) = p"
    using n(2,3) by (auto simp: marks_last marked_def split: if_splits)
  note f = read_inference_Inr [OF r]
  have "map fst es = map (step_command c d profile k job) [(if k = 1 then 0 else 1)..<n]" using es(2) k1(2) by auto
  moreover have "inf_update_calls r = Suc (length es)"
    using f n(1) arg_cong [OF es(2), of length] unfolding n_def by (auto split: if_splits)
  ultimately have "stepped_report c d profile k limit p (?start # es) r"
    using n f c0 count at_total es(3) x k1(2)
    by (auto simp: stepped_report_def Let_def marked_def update_costs_def)
  with h' k show ?thesis by blast
qed

section \<open>A run ends\<close>

lemma fuel_bind_lift:
  "m \<noteq> Inl OutOfFuel \<Longrightarrow> (\<And>x. m = Inr x \<Longrightarrow> fuel_free (f x)) \<Longrightarrow> fuel_free (io_bind (io_lift m) f)"
  by (cases m) (auto intro: fuel_intros)

lemma fuel_Pair [simp]: "fuel_free (Pair r) \<longleftrightarrow> r \<noteq> Inl OutOfFuel"
  by (simp add: fuel_free_def)

lemma scan_close_free: "scan_close d s \<noteq> Inl OutOfFuel"
  by (induction d s rule: scan_close.induct) (auto simp: res_iff)

lemma matched_free: "matched r s \<noteq> Inl OutOfFuel"
  by (auto simp: matched_def of_option_def split: option.split)

lemma field_of_free: "field_of b key reply \<noteq> Inl OutOfFuel"
  by (auto simp: field_of_def res_iff matched_free fuel_read)

lemma parse_cost_free: "parse_cost r \<noteq> Inl OutOfFuel"
  using mapM_free [of shape_entry OutOfFuel] py_int_fuel
  by (auto simp: parse_cost_def res_iff matched_free fuel_read shape_entry_def)

lemma parse_records_free: "parse_records body \<noteq> Inl OutOfFuel"
proof (induction body rule: parse_records.induct)
  case (1 body)
  then show ?case
    by (subst parse_records.simps)
      (auto simp: res_iff scan_close_free parse_cost_free split: option.splits)
qed

lemma parse_costs_free: "parse_costs reply \<noteq> Inl OutOfFuel"
  by (auto simp: parse_costs_def res_iff scan_close_free parse_records_free split: option.split)

lemma over_budget_free: "over_budget what limit used \<noteq> Inl OutOfFuel"
  by (simp add: over_budget_def split: option.split)

lemma hex_append_free: "hex_append s \<noteq> Inl OutOfFuel"
  by (auto simp: hex_append_def res_iff py_int_fuel)

lemma decode_body_free: "decode_body s \<noteq> Inl OutOfFuel"
  by (induction s rule: decode_body.induct)
    (auto simp: res_iff hex_append_free numeral_2_eq_2 split: option.splits list.splits)

lemma decode_blobs_free: "decode_blobs s \<noteq> Inl OutOfFuel"
  unfolding decode_blobs_def by (intro mapM_free decode_body_free)

lemma read_step_free: "read_step profile k limit p step reply st \<noteq> Inl OutOfFuel"
  by (auto simp: read_step_def res_iff parse_costs_free field_of_free over_budget_free of_option_def
      split: option.split)

lemma read_step_next: "read_step profile k limit p step reply st = Inr (step', st') \<Longrightarrow> step' = min (step + k) p"
  by (auto simp: read_step_def res_iff split: if_splits)

lemma step_loop_free:
  assumes "fuel_free_system S" "1 \<le> k"
  shows "nat (p - step) \<le> fuel \<Longrightarrow> fuel_free (step_loop fuel S c profile k limit job p step st)"
proof (induction fuel arbitrary: step st)
  case 0
  then show ?case by (simp add: step_loop.simps fuel_intros)
next
  case (Suc fuel)
  have "fuel_free (step_loop fuel S c profile k limit job p step' st')"
    if "read_step profile k limit p step reply st = Inr (step', st')" "step < p" for reply step' st'
    using Suc.IH Suc.prems read_step_next [OF that(1)] that(2) assms(2) by simp
  then show ?case
    using assms(1) read_step_free
    by (subst step_loop.simps) (auto intro!: fuel_intros fuel_bind_lift)
qed

lemma read_logits_free: "read_logits s \<noteq> Inl OutOfFuel"
  unfolding read_logits_def by (intro mapM_free) (simp add: read_logit_def py_float_fuel)

lemma from_hex_free: "from_hex s \<noteq> Inl OutOfFuel"
  by (induction s rule: from_hex.induct) (auto simp: res_iff split: option.split)

lemma py_iter_free: "py_iter j \<noteq> Inl OutOfFuel" "py_len j \<noteq> Inl OutOfFuel" "py_str j \<noteq> Inl OutOfFuel"
  by (auto simp: py_iter_def py_len_def py_str_def split: json.split)

lemma input_args_free: "input_args input \<noteq> Inl OutOfFuel"
  using mapM_free [of py_str OutOfFuel]
  by (auto simp: input_args_def json_texts_def res_iff fuel_read py_iter_free)

lemma read_inference_free: "read_inference input stepped combined k limit i c0 st \<noteq> Inl OutOfFuel"
  by (auto simp: read_inference_def Let_def res_iff fuel_read over_budget_free read_logits_free py_iter_free
      split: option.split)

lemma start_id_free: "fuel_free_system S \<Longrightarrow> fuel_free (start_id_of S rid)"
  by (auto simp: start_id_of_def from_hex_free intro!: fuel_intros)

lemma start_stepped_free: "fuel_free_system S \<Longrightarrow> fuel_free (start_stepped S c args combined k limit i)"
proof -
  assume S: "fuel_free_system S"
  have "job_of reply \<noteq> Inl OutOfFuel" for reply
    by (auto simp: job_of_def res_iff decode_blobs_free split: list.split)
  moreover have "read_batch_start k limit p reply \<noteq> Inl OutOfFuel" for p reply
    by (auto simp: read_batch_start_def res_iff field_of_free over_budget_free)
  ultimately show ?thesis using S
    by (auto simp: start_stepped_def field_of_free res_iff fuel_read over_budget_free fresh_stepping_def
        split: option.splits if_splits intro!: fuel_intros)
qed

lemma infer_free:
  assumes "fuel_free_system S"
  shows "fuel_free (infer S c path stepped profile k rid limit)"
proof (cases "1 \<le> k")
  case True
  then have "1 \<le> (if profile then 1 else k)" by simp
  note loop = step_loop_free [OF assms this]
  show ?thesis
    using assms start_id_free [OF assms] start_stepped_free [OF assms] loop
    by (auto simp: infer_def Let_def json_loads_bytes_fuel input_args_free read_inference_free intro!: fuel_intros)
next
  case False
  then show ?thesis by (simp add: infer_def fuel_intros)
qed

section \<open>A budgeted run\<close>

lemma infer_within:
  assumes run: "infer S c path stepped profile kk rid limit w = (Inr r, w')"
  shows "(\<forall>x \<in> set (update_costs r). fits limit x) \<and>
    inf_steps_per_call r = (if stepped then Some (if profile then 1 else kk) else None) \<and>
    (if stepped then update_costs r \<noteq> []
     else update_costs r = [] \<and> inf_update_calls r = 1 \<and> fits limit (inf_instructions r))"
proof (cases stepped)
  case True
  define k combined where k: "k = (if profile then 1 else kk)" and comb: "combined \<longleftrightarrow> \<not> profile \<and> 1 < k"
  obtain input args start_id w2 job p step start_cost st w3 st' where 1: "1 \<le> kk"
    and s: "start_stepped S c args combined k limit start_id w2 = (Inr (job, p, step, start_cost, st), w3)"
    and l: "step_loop (nat (p - step)) S c profile k limit job p step st w3 = (Inr st', w')"
    and r: "read_inference input True combined k limit start_id start_cost st' = Inr r"
    by (rule infer_stepped_parts [OF _ k comb]) (use run True in auto)
  have k1: "1 \<le> k" using 1 by (simp add: k)
  have m: "marked profile k limit p (of_bool combined) step st"
    and c0: "if combined then start_cost = None else \<exists>x. start_cost = Some x \<and> fits limit x"
    using start_stepped_marked [OF s, of profile] comb by auto
  from step_loop_marked [OF k1 l m] have n: "of_bool combined \<le> length (costs st')"
    and all: "\<forall>x \<in> set (costs st'). fits limit x" by (auto simp: marked_def)
  show ?thesis using True n all c0 read_inference_Inr [OF r]
    by (cases combined) (auto simp: update_costs_def k)
next
  case False
  then obtain input i c0 reply where "read_inference input False c0 i limit None None (fresh_stepping reply) = Inr r"
    using run unfolding infer_def Let_def by (auto simp: res_iff)
  from read_inference_Inr [OF this] False show ?thesis
    by (simp add: update_costs_def fresh_stepping_def)
qed

lemma plan_for_Inr:
  assumes "plan_for input budget before active = Inr p"
  shows "\<exists>mh n k q. item ''module_hash'' before = Inr mh \<and>
    plan_inference n k q budget (text_or_empty mh) (hex active) = Inr p"
  using assms unfolding plan_for_def
  by (auto simp: res_iff split: sum.splits exn.splits)

text \<open>What a plan promises.\<close>

lemma plan_facts:
  assumes "plan_inference n k q b mh bh = Inr p"
  shows "mh = MODULE_HASH \<and> bh = BUNDLE_HASH \<and> requested_budget p = b \<and> MIN_BUDGET \<le> b \<and>
    effective_budget p = min b MAX_SAFE_DIRECT_BUDGET \<and> mode p \<in> {''direct'', ''stepped''} \<and>
    (mode p = ''direct'' \<longrightarrow> steps_per_call p = None \<and> estimated_direct_instructions p \<le> effective_budget p) \<and>
    (mode p = ''stepped'' \<longrightarrow> (\<exists>s t. steps_per_call p = Some s \<and> (s, t) \<in> set STEP_THRESHOLDS \<and> t \<le> effective_budget p))"
proof -
  have c: "calibrated n k q mh bh" "MIN_BUDGET \<le> b"
    using assms plan_inference_uncalibrated [of n k q mh bh b] by force+
  have "MIN_BUDGET \<le> min b MAX_SAFE_DIRECT_BUDGET" using c(2) by (simp add: budget_constants)
  from pick_steps_table [OF this] obtain s t where s: "pick_steps STEP_THRESHOLDS (min b MAX_SAFE_DIRECT_BUDGET) = Some s"
    "(s, t) \<in> set STEP_THRESHOLDS" "t \<le> min b MAX_SAFE_DIRECT_BUDGET"
    using pick_steps_Some by blast
  define e where "e = min b MAX_SAFE_DIRECT_BUDGET"
  have mh: "mh = MODULE_HASH" "bh = BUNDLE_HASH" using c(1) by (simp_all add: calibrated_def)
  have p: "p = \<lparr>mode = (if DIRECT_BASE + DIRECT_PER_TOKEN * n \<le> e then ''direct'' else ''stepped''),
      steps_per_call = (if DIRECT_BASE + DIRECT_PER_TOKEN * n \<le> e then None else Some s),
      estimated_direct_instructions = DIRECT_BASE + DIRECT_PER_TOKEN * n, requested_budget = b, effective_budget = e\<rparr>"
    using assms [symmetric]
    unfolding plan_inference_calibrated [OF c] Let_def e_def [symmetric] s(1) [folded e_def] by (simp only: sum.inject option.sel)
  show ?thesis
    using c(2) s(2,3) unfolding p e_def [symmetric] by (cases "DIRECT_BASE + DIRECT_PER_TOKEN * n \<le> e") (auto simp: mh)
qed

text \<open>What \<open>make_plan\<close> returns was planned for the module and the bundle it returns.\<close>

lemma make_plan_Inr:
  assumes "make_plan S c a b w = (Inr (p, before, active), w')"
  shows "\<exists>mh n k q. item ''module_hash'' before = Inr mh \<and>
    plan_inference n k q b (text_or_empty mh) (hex active) = Inr p"
  using assms unfolding make_plan_def by (auto simp: res_iff dest!: plan_for_Inr)

lemma final_report_Inr:
  assumes "final_report S c a plan query_before r w = (Inr rep, w')"
  obtains status active mh budget where
    "item ''module_hash'' status = Inr mh" "check_budgeted status plan active r = Inr budget"
    "r_answer rep = r" "r_budget rep = budget" "r_module_hash rep = mh" "r_bundle rep = hex active"
  using assms unfolding final_report_def by (auto simp: res_iff)

lemma main_budgeted:
  assumes "infer_main zs z0 tmp S a w = (Inr rep, w')" "a_budget a = Some b"
  obtains c p before active i v0 v1 v2 v3 where
    "make_plan S c a b v0 = (Inr (p, before, active), v1)"
    "run_updates S c a (Some p) v1 = (Inr i, v2)"
    "final_report S c a (Some (p, before, active)) None (Updated i) v2 = (Inr rep, v3)"
proof -
  have "\<not> a_query_stepped a"
    using assms by (auto simp: infer_main_def check_options_def res_iff split: if_splits)
  then show thesis
    using assms that unfolding infer_main_def Let_def by (auto simp: res_iff)
qed

section \<open>Properties\<close>

text \<open>
  C7: a stepped run that returns has run all phases.  It issued one start, whose answer says how many phases
  there are, and then one call for each further group of them, each from where the last one ended; it
  reports one count of completed phases and one cost for each group, the last count being the total
  of the answer, as many update calls as it issued, and no cost above the limit it was given.
\<close>

theorem infer_stepped_calls:
  assumes "did_of c ''decision-engine'' = Inr d"
    and "infer (transcribed S) c path True profile k request_id limit (w, h) = (Inr r, (w', h'))"
  shows "\<exists>phases es. h' = h @ es \<and> stepped_report c d profile (if profile then 1 else k) limit phases es r"
  by (rule infer_stepped_report [OF assms])

text \<open>C40: inference ends: what is left of the phases is fuel enough, for every answer of the engine.\<close>

theorem infer_ends:
  assumes "fuel_free_system S"
  shows "fst (infer S c path stepped profile k request_id limit w) \<noteq> Inl OutOfFuel"
  using infer_free [OF assms] by (simp add: fuel_free_def)

text \<open>
  C14: a budgeted run that returns kept its promise: it ran on the calibrated module and bundle, no
  update cost more than the effective budget, which is the requested one up to the safe maximum,
  the reported maximum bounds every update, and its route is a single update that was estimated to
  fit, or steps of a width whose threshold the budget covers.
\<close>

theorem budgeted_run_within_budget:
  assumes "infer_main zs z0 tmp S a w = (Inr rep, w')" "a_budget a = Some b"
  shows "\<exists>i br. r_answer rep = Updated i \<and> r_budget rep = Some br \<and>
    r_module_hash rep = JStr MODULE_HASH \<and> r_bundle rep = BUNDLE_HASH \<and>
    b_requested br = b \<and> MIN_BUDGET \<le> b \<and> b_effective br = min b 35000000000 \<and>
    b_max_observed br \<le> b_effective br \<and> (\<forall>x \<in> set (update_costs i). x \<le> b_max_observed br) \<and>
    (if b_route br = ''direct''
     then inf_update_calls i = 1 \<and> b_max_observed br = inf_instructions i \<and> b_estimated br \<le> b_effective br
     else \<exists>s t. inf_steps_per_call i = Some s \<and> (s, t) \<in> set STEP_THRESHOLDS \<and> t \<le> b_effective br)"
proof -
  obtain c p before active i v0 v1 v2 v3 where
    plan: "make_plan S c a b v0 = (Inr (p, before, active), v1)"
    and upd: "run_updates S c a (Some p) v1 = (Inr i, v2)"
    and fin: "final_report S c a (Some (p, before, active)) None (Updated i) v2 = (Inr rep, v3)"
    by (rule main_budgeted [OF assms])
  obtain mh n k q where mh: "item ''module_hash'' before = Inr mh"
    and pl: "plan_inference n k q b (text_or_empty mh) (hex active) = Inr p"
    using make_plan_Inr [OF plan] by blast
  note f = plan_facts [OF pl]
  have prof: "\<not> a_profile a"
    using assms by (auto simp: infer_main_def check_options_def res_iff split: if_splits)
  have w: "(\<forall>x \<in> set (update_costs i). x \<le> effective_budget p) \<and>
      (if mode p = ''stepped'' then update_costs i \<noteq> [] \<and> inf_steps_per_call i = steps_per_call p
       else update_costs i = [] \<and> inf_update_calls i = 1 \<and> inf_instructions i \<le> effective_budget p)"
    using infer_within [OF upd [unfolded run_updates_def]] f prof
    by (auto simp: fits_def STEP_THRESHOLDS_def split: if_splits)
  obtain status active2 mh2 budget where
    fr: "item ''module_hash'' status = Inr mh2" "check_budgeted status (Some (p, before, active)) active2 (Updated i) = Inr budget"
      "r_answer rep = Updated i" "r_budget rep = budget" "r_module_hash rep = mh2" "r_bundle rep = hex active2"
    by (rule final_report_Inr [OF fin])
  then have b: "budget = Some (budget_of p i)" "active2 = active" "mh2 = mh"
    using mh by (auto simp: check_budgeted_def same_module_def res_iff split: if_splits)
  have "mh = JStr MODULE_HASH"
    using f by (cases mh) (auto simp: text_or_empty_def MODULE_HASH_def)
  then have ans: "r_answer rep = Updated i" "r_budget rep = Some (budget_of p i)" "r_module_hash rep = JStr MODULE_HASH"
      "r_bundle rep = BUNDLE_HASH"
    using fr b f by simp_all
  have obs: "b_max_observed (budget_of p i) \<le> effective_budget p"
      "\<forall>x \<in> set (update_costs i). x \<le> b_max_observed (budget_of p i)"
    using w by (auto simp: budget_of_def split: if_splits)
  have br: "b_route (budget_of p i) = mode p" "b_requested (budget_of p i) = b" "MIN_BUDGET \<le> b"
      "b_effective (budget_of p i) = effective_budget p" "effective_budget p = min b 35000000000"
      "b_estimated (budget_of p i) = estimated_direct_instructions p"
    using f by (simp_all add: budget_of_def MAX_SAFE_DIRECT_BUDGET_def)
  have route: "if mode p = ''direct''
     then inf_update_calls i = 1 \<and> b_max_observed (budget_of p i) = inf_instructions i \<and>
       estimated_direct_instructions p \<le> effective_budget p
     else \<exists>s t. inf_steps_per_call i = Some s \<and> (s, t) \<in> set STEP_THRESHOLDS \<and> t \<le> effective_budget p"
    using f w by (cases "mode p = ''direct''") (auto simp: budget_of_def)
  show ?thesis
    using route obs
    by (intro exI [of _ i] exI [of _ "budget_of p i"] conjI) (assumption | simp only: br ans)+
qed

section \<open>Witnesses\<close>

text \<open>A system that answers the commands from a list, and every read from one file.\<close>

definition scripted :: "string \<Rightarrow> string list system" where
  "scripted file = \<lparr>
     sys_run = (\<lambda>_ _ w. case w of [] \<Rightarrow> (Inl (OSError ''no answer''), []) | a # as \<Rightarrow> (Inr (0, a, []), as)),
     sys_exists = (\<lambda>_. io_ret True),
     sys_read = (\<lambda>_. io_ret (encode file)), sys_write = (\<lambda>_ _. io_ret ()),
     sys_report = (\<lambda>_ _. io_ret ()), sys_token = (\<lambda>n. io_ret (replicate n 0)), sys_time_ns = io_ret 0,
     repo_root = ''/repo''\<rparr>"

definition infer_icp :: icp where
  "infer_icp = \<lparr>icp_root = ''/repo'', icp_env = ''local'', icp_identity = ''tester'',
     icp_did = [(''decision-engine'', ''engine.did'')]\<rparr>"

definition token_file :: string where
  "token_file = ''{'' @ json_string ''input_ids'' @ '':[1,2],'' @ json_string ''markers'' @ '':[0,1],'' @
     json_string ''qtype_id'' @ '':1}''"

definition started_reply :: string where
  "started_reply = ''Ok completed=16;total=32;instructions=900;'' @ blob (replicate 32 7)"

definition stepped_reply :: string where
  "stepped_reply = ''Ok completed=32;instructions=800;logits=vec{2;1};cumulative_instructions=1_000''"

definition token_input :: json where
  "token_input =
     JObj [(''input_ids'', JList [JInt 1, JInt 2]), (''markers'', JList [JInt 0, JInt 1]), (''qtype_id'', JInt 1)]"

lemma token_file_json: "json_loads_bytes (encode token_file) = Inr token_input"
proof -
  have "json_loads token_file = Inr token_input" by code_simp
  then show ?thesis by (simp add: json_loads_bytes_def utf8_decode_encode)
qed

lemma token_input_args: "input_args token_input =
    Inr ''(record { input_ids = vec { 1; 2 }; markers = vec { 0; 1 }; qtype_id = 1 : nat32 })''"
  by code_simp

lemma started_ok: "contains ''Ok'' started_reply" by code_simp
lemma started_job: "decode_blobs started_reply = Inr [replicate 32 7]" by code_simp
lemma started_total: "field_of (Lit []) ''total'' started_reply = Inr 32" by code_simp
lemma started_completed: "field_of (Lit []) ''completed'' started_reply = Inr 16" by code_simp
lemma started_cost: "field_of not_behind_underscore ''instructions'' started_reply = Inr 900" by code_simp
lemmas started_values = started_ok started_job started_total started_completed started_cost

lemma stepped_ok: "contains ''Ok'' stepped_reply" by code_simp
lemma stepped_completed: "field_of (Lit []) ''completed'' stepped_reply = Inr 32" by code_simp
lemma stepped_cost: "field_of not_behind_underscore ''instructions'' stepped_reply = Inr 800" by code_simp
lemmas stepped_values = stepped_ok stepped_completed stepped_cost

lemma stepped_logits: "map_option (group 1) (search rx_any_logits stepped_reply) = Some ''2;1''" by code_simp

lemma stepped_total:
  "map_option (group 1) (search (rx_field (Lit []) ''cumulative_instructions'') stepped_reply) = Some ''1_000''"
  by code_simp

lemma scripted_call: "call (scripted f) infer_icp ''decision-engine'' meth args ok t (a # as) = (Inr a, as)"
  by (simp add: call_def run_def icp_command_def identity_truthy_def scripted_def io_bind_def infer_icp_def did_of_def)

lemma scripted_input: "sys_read (scripted f) p w = (Inr (encode f), w)" "sys_token (scripted f) n w = (Inr (replicate n 0), w)"
  by (simp_all add: scripted_def)

lemma infer_did_of: "did_of infer_icp ''decision-engine'' = Inr ''engine.did''"
  by (simp add: infer_icp_def did_of_def)

lemma scripted_transcribed:
  "call (transcribed (scripted f)) infer_icp ''decision-engine'' meth args ok t (a # as, h) =
     (Inr a, (as, h @ [(engine_command infer_icp ''engine.did'' meth args, Inr (0, a, []))]))"
  by (simp add: call_def run_def icp_command_def identity_truthy_def transcribed_def engine_command_def scripted_def
      io_bind_def infer_icp_def did_of_def)

theorem infer_stepped_calls_witness:
  "\<exists>r h es. infer (transcribed (scripted token_file)) infer_icp ''in'' True False 16 None (Some 1000)
       ([started_reply, stepped_reply], []) = (Inr r, ([], h)) \<and> length h = 2 \<and>
     inf_completed_steps r = [16, 32] \<and> stepped_report infer_icp ''engine.did'' False 16 (Some 1000) 32 h r"
proof -
  obtain ml mi where m: "search rx_any_logits stepped_reply = Some ml" "group (Suc 0) ml = ''2;1''"
    "search (rx_field (Lit []) ''cumulative_instructions'') stepped_reply = Some mi" "group (Suc 0) mi = ''1_000''"
    using stepped_logits stepped_total by auto
  have q: "sys_read (transcribed S) p (w, h) = (case sys_read S p w of (r, w') \<Rightarrow> (r, (w', h)))"
    "sys_token (transcribed S) n (w, h) = (case sys_token S n w of (r, w') \<Rightarrow> (r, (w', h)))" for S :: "'w system" and p n w h
    by (simp_all add: transcribed_def lift_log_def)
  have "\<exists>r h. infer (transcribed (scripted token_file)) infer_icp ''in'' True False 16 None (Some 1000)
       ([started_reply, stepped_reply], []) = (Inr r, ([], h)) \<and> length h = 2 \<and>
     inf_completed_steps r = [16, 32]"
    by (simp add: infer_def io_then_def io_bind_def q scripted_input token_file_json token_input_args start_id_of_def
        start_stepped_def scripted_transcribed started_values job_of_def read_batch_start_def over_budget_def)
      (simp add: step_loop.simps io_bind_def scripted_transcribed read_step_def stepped_values over_budget_def
        read_inference_def m sample_numbers sample_logits token_input_def)
  then obtain r h where run: "infer (transcribed (scripted token_file)) infer_icp ''in'' True False 16 None (Some 1000)
       ([started_reply, stepped_reply], []) = (Inr r, ([], h))" and l: "length h = 2" "inf_completed_steps r = [16, 32]" by blast
  from infer_stepped_calls [OF infer_did_of run] obtain p where p: "stepped_report infer_icp ''engine.did'' False 16 (Some 1000) p h r"
    by auto
  then have "0 < p \<longrightarrow> last (inf_completed_steps r) = p" "p \<le> 0 \<longrightarrow> length (inf_completed_steps r) = 1"
    by (auto simp: stepped_report_def Let_def)
  then have "p = 32" using l(2) by (cases "0 < p") auto
  with run l p show ?thesis by blast
qed

theorem infer_ends_witness:
  "fst (infer (scripted token_file) infer_icp ''in'' True False 16 None None []) \<noteq> Inl OutOfFuel"
proof -
  have "fuel_free_system (scripted token_file)"
    by (auto simp: fuel_free_system_def fuel_free_def scripted_def split: list.split)
  from infer_ends [OF this] show ?thesis .
qed

text \<open>The answers to a budgeted run in one update.\<close>

definition budget_args :: infer_args where
  "budget_args = \<lparr>a_pack = None, a_input = ''in'', a_profile = False, a_query_int8 = False, a_stepped = False,
     a_query_stepped = False, a_query_steps = None, a_query_compression = ''auto'', a_steps = 16,
     a_budget = Some 2000000000, a_warmup = False, a_initialize = False, a_request_id = None,
     a_identity = ''tester'', a_project_root = ''/repo''\<rparr>"

lemma budget_args_fields:
  "a_pack budget_args = None" "a_input budget_args = ''in''" "\<not> a_profile budget_args" "\<not> a_query_int8 budget_args"
  "\<not> a_stepped budget_args" "\<not> a_query_stepped budget_args" "a_query_steps budget_args = None"
  "a_query_compression budget_args = ''auto''" "a_steps budget_args = 16" "a_budget budget_args = Some 2000000000"
  "\<not> a_warmup budget_args" "\<not> a_initialize budget_args" "a_request_id budget_args = None"
  "a_identity budget_args = ''tester''" "a_project_root budget_args = ''/repo''"
  by (simp_all add: budget_args_def)

definition bundle_bytes :: bytes where
  "bundle_bytes = [0xbb, 0x70, 0xb3, 0xf0, 0xf2, 0x80, 0x6b, 0xef, 0x5d, 0x4b, 0x67, 0x0f, 0x44, 0xbb, 0x60, 0x68, 0x92, 0x06, 0x7f, 0xc0, 0xeb, 0xd9, 0x28, 0xbd, 0x68, 0x2b, 0x98, 0xeb, 0xdb, 0x2d, 0xc0, 0x92]"

lemma bundle_hex: "hex bundle_bytes = BUNDLE_HASH"
  by code_simp

lemma bundle_read: "decode_blobs (blob bundle_bytes) = Inr [bundle_bytes]"
  using decode_blobs_one [of "[]" "[]" bundle_bytes] by (simp add: contains_def)

definition network_text :: string where
  "network_text = ''{'' @ json_string ''managed'' @ '':true,'' @ json_string ''api_url'' @ '':'' @ json_string ''h'' @ ''}''"

definition status_text :: string where
  "status_text = ''{'' @ json_string ''id'' @ '':1,'' @ json_string ''module_hash'' @ '':'' @ json_string MODULE_HASH @
     '','' @ json_string ''memory_size'' @ '':'' @ json_string ''5'' @ ''}''"

definition direct_reply :: string where
  "direct_reply = ''Ok logits=vec{2;1};instructions=5''"

lemma network_json:
  "read_status Inr network_text = Inr (JObj [(''managed'', JBool True), (''api_url'', JStr ''h'')])"
  by code_simp

lemma status_json:
  "json_loads status_text = Inr (JObj [(''id'', JInt 1), (''module_hash'', JStr MODULE_HASH), (''memory_size'', JStr ''5'')])"
  by code_simp

lemma direct_ok: "contains ''Ok'' direct_reply" by code_simp
lemma direct_logits: "map_option (group 1) (search rx_any_logits direct_reply) = Some ''2;1''" by code_simp
lemma direct_cost: "map_option (group 1) (search (rx_field (Lit []) ''instructions'') direct_reply) = Some ''5''"
  by code_simp

lemma scripted_run:
  "icp_command c args i = Inr cmd \<Longrightarrow> run (scripted f) c args ok i t (a # as) = (Inr a, as)"
  by (simp add: run_def scripted_def io_bind_def)

definition budget_answers :: "string list" where
  "budget_answers = [network_text, network_text, status_text, blob bundle_bytes, direct_reply, status_text, blob bundle_bytes]"

lemma budget_run:
  "\<exists>rep. infer_main zs z0 tmp (scripted token_file) budget_args budget_answers = (Inr rep, [])"
proof -
  let ?S = "scripted token_file"
  let ?c = "new_icp ?S ''/repo'' ''local'' ''tester''"
  obtain ml mi where m: "search rx_any_logits direct_reply = Some ml" "group (Suc 0) ml = ''2;1''"
    "search (rx_field (Lit []) ''instructions'') direct_reply = Some mi" "group (Suc 0) mi = ''5''"
    using direct_logits direct_cost by auto
  have run: "run ?S ?c (a # as) ok OwnIdentity t (x # xs) = (Inr x, xs)" for a as ok t x xs
  proof -
    obtain cmd where "icp_command ?c (a # as) OwnIdentity = Inr cmd"
      by (cases "a \<in> {''network'', ''identity''}") (auto simp: icp_command_def Let_def identity_truthy_def)
    then show ?thesis by (rule scripted_run)
  qed
  have d: "did_of ?c ''decision-engine'' = Inr (path_join (BUILD ?S) ''decision-engine.did'')"
    by (simp add: did_of_def new_icp_def)
  have net: "any_network_status ?S ?c (network_text # xs) =
      (Inr (JObj [(''managed'', JBool True), (''api_url'', JStr ''h'')]), xs)" for xs
    by (simp add: any_network_status_def io_bind_def run network_json)
  have status: "engine_status ?S ?c (status_text # xs) =
      (Inr (JObj [(''id'', JInt 1), (''module_hash'', JStr MODULE_HASH), (''memory_size'', JStr ''5'')]), xs)" for xs
    by (simp add: engine_status_def io_bind_def run status_json)
  have active: "active_bundle ?S ?c (blob bundle_bytes # xs) = (Inr bundle_bytes, xs)" for xs
    by (simp add: active_bundle_def query_def io_bind_def run d bundle_read) (simp add: bundle_bytes_def)
  obtain p where p: "plan_inference 2 2 1 2000000000 MODULE_HASH BUNDLE_HASH = Inr p" "mode p = ''direct''"
      "steps_per_call p = None" and budget_effective: "effective_budget p = 2000000000"
    by (simp add: plan_inference_def budget_constants)
  have plan: "make_plan ?S ?c budget_args 2000000000 (status_text # blob bundle_bytes # xs) = (Inr (p, JObj [(''id'', JInt 1), (''module_hash'', JStr MODULE_HASH),
      (''memory_size'', JStr ''5'')], bundle_bytes), xs)" for xs
    using p by (simp add: make_plan_def io_bind_def io_then_def status active scripted_input token_file_json plan_for_def token_input_def
      bundle_hex text_or_empty_def qtype_number_def eq_int_def budget_args_def has_request_id_def)
  have upd: "\<exists>i. run_updates ?S ?c budget_args (Some p) (direct_reply # xs) = (Inr i, xs)" for xs
    using p by (simp add: run_updates_def budget_args_def infer_def io_then_def io_bind_def scripted_input token_file_json
        token_input_args call_def d run read_inference_def fresh_stepping_def direct_ok m sample_numbers sample_logits
        over_budget_def budget_effective) (simp add: token_input_def)
  obtain i where upd: "run_updates ?S ?c budget_args (Some p) [direct_reply, status_text, blob bundle_bytes] =
      (Inr i, [status_text, blob bundle_bytes])" using upd by blast
  have fin: "\<exists>rep. final_report ?S ?c budget_args (Some (p, JObj [(''id'', JInt 1), (''module_hash'', JStr MODULE_HASH),
      (''memory_size'', JStr ''5'')], bundle_bytes)) None (Updated i) [status_text, blob bundle_bytes] = (Inr rep, [])"
    by (simp add: final_report_def io_bind_def io_then_def status active scripted_input memory_size_def sample_numbers
        check_queried_def check_budgeted_def same_module_def budget_args_def)
  show ?thesis
    using plan upd fin net
    by (simp add: infer_main_def check_options_def check_calibrated_files_def require_local_network_def network_status_def
        remote_network_def usable_network_def truthy_def budget_args_fields budget_answers_def io_bind_def io_then_def Let_def)
qed


theorem budgeted_run_within_budget_witness:
  "\<exists>rep br i. infer_main (\<lambda>_. Finished) () ''tmp'' (scripted token_file) budget_args budget_answers = (Inr rep, []) \<and>
     r_budget rep = Some br \<and> r_answer rep = Updated i \<and> b_max_observed br \<le> 2000000000"
proof -
  obtain rep where run: "infer_main (\<lambda>_. Finished) () ''tmp'' (scripted token_file) budget_args budget_answers = (Inr rep, [])"
    using budget_run [of "\<lambda>_. Finished" "()" "''tmp''"] by (rule exE)
  from budgeted_run_within_budget [OF this budget_args_fields(10)] obtain i br where
    "r_answer rep = Updated i" "r_budget rep = Some br" "b_effective br = min 2000000000 35000000000"
    "b_max_observed br \<le> b_effective br" by blast
  with run show ?thesis by auto
qed

end
