(* ===== verification/Local_Integration.thy ===== *)
theory Local_Integration
  imports Measure_Proofs
begin

text \<open>
  \<open>tools/local_integration.py\<close>: the integration run of the three canisters on a local replica.  The
  file repeats the wrapper and the canonical hashing of \<open>measure_inference.py\<close>; the repeated
  functions have the prefix \<open>li_\<close> and are proved equal to the others where they are.
\<close>

section \<open>Canonical hashing and the compilation of a schema\<close>

definition li_SPECIAL :: "(string \<times> int) list" where
  "li_SPECIAL = [(''cls'', 1), (''sep'', 2), (''mask'', 3), (''pad'', 0)]"

abbreviation li_special :: "string \<Rightarrow> int" where
  "li_special k \<equiv> the (map_of li_SPECIAL k)"

definition li_SPECIAL_LITERALS :: "string list" where
  "li_SPECIAL_LITERALS = [''[CLS]'', ''[SEP]'', ''[MASK]'', ''[PAD]'']"

definition FIXTURE_BUNDLE :: bytes where
  "FIXTURE_BUNDLE = ascii ''TEST-ONLY-STATE-INDEPENDENT-FIXTURE-v1''"

definition FIXTURE_TOKENIZER :: bytes where
  "FIXTURE_TOKENIZER = ascii ''TEST-ONLY-WHITESPACE-TOKENIZER-v1''"

definition AMOUNT :: int where "AMOUNT = 100"
definition FEE :: int where "FEE = 10"

definition li_canon_bytes :: "bytes \<Rightarrow> bytes \<Rightarrow> bytes res" where
  "li_canon_bytes value buf = res_bind (to_bytes_be 8 (int (length value))) (\<lambda>l. Inr (buf @ l @ value))"

definition li_canon_u64 :: "int \<Rightarrow> bytes \<Rightarrow> bytes res" where
  "li_canon_u64 value buf = res_bind (to_bytes_be 8 value) (\<lambda>l. Inr (buf @ l))"

definition li_canon_text :: "string \<Rightarrow> bytes \<Rightarrow> bytes res" where
  "li_canon_text value buf = li_canon_bytes (encode value) buf"

definition li_canon_new :: "string \<Rightarrow> bytes res" where
  "li_canon_new domain = li_canon_bytes (encode domain) []"

definition li_canon_finish :: "bytes \<Rightarrow> bytes" where
  "li_canon_finish buf = sha256 buf"

definition li_fixture_encode :: "string \<Rightarrow> int list" where
  "li_fixture_encode text = map (\<lambda>word. 10 + int (be_nat (take 2 (sha256 (encode word))))) (split_ws text)"

datatype rule =
    NoulTrue int
  | ChoiceIs string int
  | ScoreTailAtMost int int

record li_schema =
  ls_id :: string
  ls_version :: int
  ls_primitive :: string
  ls_tag :: int
  ls_instructions :: string
  ls_options :: "(string \<times> string) list"
  ls_rule :: rule

text \<open>The inner dict of a compiled schema has no tag; the rule is added by the workflow.\<close>

record inner_schema =
  in_id :: string
  in_version :: int
  in_primitive :: string
  in_instructions :: string
  in_options :: "(string \<times> string) list"

record li_compiled =
  lc_schema :: inner_schema
  lc_hash :: bytes
  lc_tokenizer :: bytes
  lc_prefix :: "int list"
  lc_markers :: "nat list"
  lc_qtype_id :: int

fun li_mark_options :: "(string \<times> string) list \<Rightarrow> int list \<Rightarrow> nat list \<Rightarrow> int list \<times> nat list" where
  "li_mark_options [] toks markers = (toks, markers)"
| "li_mark_options ((_, text) # opts) toks markers =
     li_mark_options opts (toks @ [li_special ''mask''] @ li_fixture_encode text) (markers @ [length toks])"

fun li_canon_options :: "(string \<times> string) list \<Rightarrow> bytes \<Rightarrow> bytes res" where
  "li_canon_options [] h = Inr h"
| "li_canon_options ((i, text) # opts) h =
     res_bind (li_canon_text i h) (\<lambda>h. res_bind (li_canon_text text h) (li_canon_options opts))"

definition li_prefix :: "li_schema \<Rightarrow> int list \<times> nat list" where
  "li_prefix s =
     (let question = ls_primitive s @ '' question: '' @ ls_instructions s;
          (toks, markers) = li_mark_options (ls_options s)
            ([li_special ''cls''] @ li_fixture_encode question @ [li_special ''sep'']) []
      in (toks @ [li_special ''sep''], markers))"

definition compile_schema :: "li_schema \<Rightarrow> int \<Rightarrow> li_compiled res" where
  "compile_schema s qtype_id =
     (let (toks, markers) = li_prefix s
      in if 64 < length toks
         then Inl (Failure (''fixture prefix '' @ nat_str (length toks) @ '' exceeds MAX_PREFIX''))
         else
     (let tokenizer_hash = sha256 FIXTURE_TOKENIZER
      in res_bind (li_canon_new ''ic-laya/schema/v1'') (\<lambda>h.
         res_bind (li_canon_text (ls_id s) h) (\<lambda>h.
         res_bind (li_canon_u64 (ls_version s) h) (\<lambda>h.
         res_bind (li_canon_u64 (ls_tag s) h) (\<lambda>h.
         res_bind (li_canon_text (ls_instructions s) h) (\<lambda>h.
         res_bind (li_canon_u64 (int (length (ls_options s))) h) (\<lambda>h.
         res_bind (li_canon_options (ls_options s) h) (\<lambda>h.
         res_bind (li_canon_bytes tokenizer_hash h) (\<lambda>h.
         res_bind (li_canon_text ''Compact128-v1'' h) (\<lambda>h.
           Inr \<lparr>lc_schema = \<lparr>in_id = ls_id s, in_version = ls_version s, in_primitive = ls_primitive s,
                  in_instructions = ls_instructions s, in_options = ls_options s\<rparr>,
                lc_hash = li_canon_finish h, lc_tokenizer = tokenizer_hash, lc_prefix = toks,
                lc_markers = markers, lc_qtype_id = qtype_id\<rparr>)))))))))))"

definition schemas :: "li_schema list" where
  "schemas = [
     \<lparr>ls_id = ''RefundRequested'', ls_version = 1, ls_primitive = ''Noul'', ls_tag = 1,
      ls_instructions = ''Does the customer ask for a refund?'',
      ls_options = [(''false'', ''false''), (''true'', ''true'')], ls_rule = NoulTrue 900000\<rparr>,
     \<lparr>ls_id = ''PaymentAction'', ls_version = 1, ls_primitive = ''Choice'', ls_tag = 0,
      ls_instructions = ''Choose the handling action for this request.'',
      ls_options = [(''execute'', ''process refund''), (''reject'', ''reject request''), (''review'', ''human review'')],
      ls_rule = ChoiceIs ''execute'' 900000\<rparr>,
     \<lparr>ls_id = ''PaymentRisk'', ls_version = 1, ls_primitive = ''Score'', ls_tag = 2,
      ls_instructions = ''Rate request risk from minimal to severe.'',
      ls_options = [(''minimal'', ''minimal risk''), (''low'', ''low risk''), (''medium'', ''moderate risk''),
        (''high'', ''high risk''), (''severe'', ''severe risk'')], ls_rule = ScoreTailAtMost 3 50000\<rparr>]"

section \<open>Candid text\<close>

definition li_blob :: "bytes \<Rightarrow> string" where
  "li_blob value = ''blob '' @ [CHR 0x22] @ concat (map esc value) @ [CHR 0x22]"

definition li_principal :: "string \<Rightarrow> string" where
  "li_principal p = ''principal '' @ json_string p"

definition li_principal_of :: "bytes \<Rightarrow> string" where
  "li_principal_of raw =
     (let body = take 29 raw;
          checksum = be_bytes 4 (unat (crc32 body));
          text = rstrip_char (CHR ''='') (lower (b32encode (checksum @ body)))
      in join ''-'' (groups_of 5 text))"

function (sequential) li_decode_body :: "string \<Rightarrow> bytes res" where
  "li_decode_body [] = Inr []"
| "li_decode_body (c # cs) =
     (if c = CHR 0x5C \<and> 2 \<le> length (c # cs)
      then res_bind (hex_append (take 2 cs)) (\<lambda>b.
             res_bind (li_decode_body (drop 2 cs)) (\<lambda>r. Inr (b # r)))
      else res_bind (li_decode_body cs) (\<lambda>r. Inr (utf8_char c @ r)))"
  by pat_completeness auto
termination by (relation "measure length") auto

definition li_decode_blobs :: "string \<Rightarrow> bytes list res" where
  "li_decode_blobs output = mapM li_decode_body (blob_bodies output)"

definition blob_arg :: "string \<Rightarrow> bytes res" where
  "blob_arg output =
     res_bind (li_decode_blobs output) (\<lambda>blobs. case blobs of
       [] \<Rightarrow> Inl (Failure (''no blob in output:\<newline>'' @ output))
     | b # _ \<Rightarrow> Inr b)"

definition li_candid_schema :: "inner_schema \<Rightarrow> string" where
  "li_candid_schema s =
     ''record { id = '' @ json_string (in_id s) @ ''; version = '' @ int_str (in_version s) @
     '' : nat64; primitive = variant { '' @ in_primitive s @ '' }; instructions = '' @
     json_string (in_instructions s) @ ''; options = vec { '' @
     join ''; '' (map (\<lambda>(i, t). ''record { id = '' @ json_string i @ ''; text = '' @ json_string t @ '' }'') (in_options s)) @
     '' } }''"

definition li_special_text :: string where
  "li_special_text =
     ''record { cls = '' @ int_str (li_special ''cls'') @ '' : nat32; sep = '' @ int_str (li_special ''sep'') @
     '' : nat32; mask = '' @ int_str (li_special ''mask'') @ '' : nat32; pad = '' @ int_str (li_special ''pad'') @
     '' : nat32; literals = vec { '' @ join ''; '' (map json_string li_SPECIAL_LITERALS) @ '' } }''"

definition li_candid_compiled :: "li_compiled \<Rightarrow> string" where
  "li_candid_compiled s =
     ''record { schema = '' @ li_candid_schema (lc_schema s) @ ''; schema_hash = '' @ li_blob (lc_hash s) @
     ''; tokenizer_hash = '' @ li_blob (lc_tokenizer s) @
     ''; prefix = vec { '' @ join ''; '' (map int_str (lc_prefix s)) @
     '' }; markers = vec { '' @ join ''; '' (map nat_str (lc_markers s)) @
     '' }; special = '' @ li_special_text @ ''; qtype_id = '' @ int_str (lc_qtype_id s) @ '' : nat32 }''"

definition candid_rule :: "rule \<Rightarrow> string" where
  "candid_rule r = (case r of
     NoulTrue m \<Rightarrow> ''variant { NoulTrue = record { minimum_ppm = '' @ int_str m @ '' : nat32 } }''
   | ChoiceIs i m \<Rightarrow> ''variant { ChoiceIs = record { option_id = '' @ json_string i @ ''; minimum_ppm = '' @ int_str m @
       '' : nat32 } }''
   | ScoreTailAtMost b m \<Rightarrow> ''variant { ScoreTailAtMost = record { first_bad_bin = '' @ int_str b @
       '' : nat32; maximum_ppm = '' @ int_str m @ '' : nat32 } }'')"

section \<open>The wrapper\<close>

definition li_new_icp :: "'w system \<Rightarrow> string \<Rightarrow> string \<Rightarrow> string \<Rightarrow> icp" where
  "li_new_icp S project_root e ident =
     \<lparr>icp_root = project_root, icp_env = e, icp_identity = ident,
      icp_did = map (\<lambda>name. (name, path_join (BUILD S) (name @ ''.did'')))
        [''decision-engine'', ''executor'', ''mock-ledger'']\<rparr>"

definition li_run :: "'w system \<Rightarrow> icp \<Rightarrow> string list \<Rightarrow> bool \<Rightarrow> ident_arg \<Rightarrow> ('w, string) io" where
  "li_run S c args expect_ok identity =
     io_bind (io_lift
       (let command = ''icp'' # args @ [''--project-root-override'', icp_root c]
        in if \<not> identity_truthy identity then Inr command
           else case args of
             [] \<Rightarrow> Inl IndexError
           | a # _ \<Rightarrow>
               if a \<in> {''network'', ''identity''} then Inr command
               else Inr (command @ [''--identity'', case identity of Identity n \<Rightarrow> n | _ \<Rightarrow> icp_identity c]))) (\<lambda>command.
     io_bind (sys_run S command (Some 300)) (\<lambda>(returncode, out, err).
       if expect_ok \<and> returncode \<noteq> 0
       then io_raise (Failure (join '' '' command @ ''\<newline>'' @ out @ ''\<newline>'' @ err))
       else io_ret (out @ err)))"

definition li_call :: "'w system \<Rightarrow> icp \<Rightarrow> string \<Rightarrow> string \<Rightarrow> string \<Rightarrow> bool \<Rightarrow> ('w, string) io" where
  "li_call S c canister meth args expect_ok =
     io_bind (io_lift (did_of c canister)) (\<lambda>d.
       li_run S c [''canister'', ''call'', canister, meth, args, ''-e'', icp_env c, ''--candid'', d] expect_ok OwnIdentity)"

definition li_check :: "bool \<Rightarrow> string \<Rightarrow> ('w, unit) io" where
  "li_check condition label = (if \<not> condition then io_raise (Failure label) else io_ret ())"

definition li_known_identities :: "'w system \<Rightarrow> icp \<Rightarrow> ('w, (json \<times> json) list) io" where
  "li_known_identities S c =
     io_bind (li_run S c [''identity'', ''list'', ''--json''] True NoIdentity) (\<lambda>listing.
       case from_brace listing of
         None \<Rightarrow> io_raise (Failure (''could not read identity list:\<newline>'' @ listing))
       | Some text \<Rightarrow> io_lift (res_bind (json_loads text) identity_entries))"

definition li_ensure_identity :: "'w system \<Rightarrow> icp \<Rightarrow> string \<Rightarrow> ('w, string) io" where
  "li_ensure_identity S c name =
     io_bind (li_known_identities S c) (\<lambda>known.
     io_bind (if dict_get (JStr name) known = None
              then io_then (li_run S c [''identity'', ''new'', name, ''--storage'', ''plaintext'', ''-q''] True NoIdentity)
                     (li_known_identities S c)
              else io_ret known) (\<lambda>known.
       case dict_get (JStr name) known of
         None \<Rightarrow> io_raise (Failure (''identity '' @ name @ '' missing after creation''))
       | Some p \<Rightarrow> io_lift (text_of p)))"

definition li_canister_principal :: "'w system \<Rightarrow> icp \<Rightarrow> string \<Rightarrow> ('w, json) io" where
  "li_canister_principal S c name =
     io_bind (li_run S c [''canister'', ''status'', name, ''-e'', icp_env c, ''--json''] False OwnIdentity)
       (\<lambda>raw. io_lift (read_status (get ''id'') raw))"

definition li_ensure_cycles :: "'w system \<Rightarrow> icp \<Rightarrow> string \<Rightarrow> ('w, unit) io" where
  "li_ensure_cycles S c amount =
     io_bind (li_run S c [''cycles'', ''balance'', ''-e'', icp_env c] False OwnIdentity) (\<lambda>balance.
     io_bind (io_lift (case search rx_cycles balance of
                None \<Rightarrow> Inr False
              | Some m \<Rightarrow> res_bind (read_number (group 1 m)) (\<lambda>n. Inr (0 < n)))) (\<lambda>funded.
       if funded then io_ret ()
       else io_then (li_run S c [''cycles'', ''mint'', ''--cycles'', amount, ''-e'', icp_env c] True OwnIdentity)
              (io_ret ())))"

definition li_ensure_canister :: "'w system \<Rightarrow> icp \<Rightarrow> string \<Rightarrow> ('w, string) io" where
  "li_ensure_canister S c name =
     io_bind (li_canister_principal S c name) (\<lambda>p0.
     io_then (io_when (p0 = JNull)
       (io_then (li_run S c [''canister'', ''create'', name, ''-e'', icp_env c, ''-q''] True OwnIdentity) (io_ret ())))
     (io_bind (li_canister_principal S c name) (\<lambda>p.
       if p = JNull then io_raise (Failure (''canister '' @ name @ '' has no principal after create''))
       else io_lift (text_of p))))"

definition li_any_network_status :: "'w system \<Rightarrow> icp \<Rightarrow> ('w, json) io" where
  "li_any_network_status S c =
     io_bind (li_run S c [''network'', ''status'', ''-e'', icp_env c, ''--json''] False OwnIdentity)
       (\<lambda>raw. io_lift (read_status Inr raw))"

definition li_network_status :: "'w system \<Rightarrow> icp \<Rightarrow> ('w, json) io" where
  "li_network_status S c =
     io_bind (li_any_network_status S c) (\<lambda>status.
     io_bind (io_lift (usable_network status)) (\<lambda>ok. io_ret (if ok then status else JNull)))"

definition li_require_local_network :: "'w system \<Rightarrow> icp \<Rightarrow> ('w, unit) io" where
  "li_require_local_network S c =
     io_bind (li_any_network_status S c) (\<lambda>status.
     io_bind (io_lift (remote_network status)) (\<lambda>remote.
       if remote
       then io_bind (io_lift (res_bind (get ''api_url'' status) py_str)) (\<lambda>url.
              io_raise (Failure (''environment '' @ [CHR 0x27] @ icp_env c @ [CHR 0x27] @ '' points at '' @ url @
                '', which is not a local network. This test mints cycles, installs canisters, and wipes '' @
                ''state, so it only runs against a locally launched replica.'')))
       else io_ret ()))"

section \<open>Arguments of the workflow\<close>

definition zero_subaccount :: bytes where
  "zero_subaccount = replicate 32 0"

definition account :: "string \<Rightarrow> string" where
  "account owner = ''record { owner = '' @ li_principal owner @ ''; subaccount = '' @ li_blob zero_subaccount @ '' }''"

definition proposal :: "string \<Rightarrow> string \<Rightarrow> int \<Rightarrow> int \<Rightarrow> string" where
  "proposal ledger recipient amount fee =
     ''(record { ledger = '' @ li_principal ledger @ ''; from_subaccount = '' @ li_blob zero_subaccount @
     ''; to = ('' @ account recipient @ ''); amount = '' @ int_str amount @ '' : nat; fee = '' @ int_str fee @ '' : nat })''"

definition operation :: "bytes \<Rightarrow> string \<Rightarrow> string \<Rightarrow> string" where
  "operation i evidence prop =
     ''(record { id = '' @ li_blob i @ ''; revision = 1 : nat64; evidence = '' @ json_string evidence @
     ''; proposal = '' @ prop @ ''; status = variant { Available } })''"

definition li_calibration :: "li_compiled \<Rightarrow> bytes" where
  "li_calibration s = sha256 (encode (''TEST-ONLY-calibration-'' @ in_id (lc_schema s)))"

definition li_calibration_args :: "li_compiled \<Rightarrow> bytes \<Rightarrow> int \<Rightarrow> string" where
  "li_calibration_args s bundle now_ns =
     ''(record { id = '' @ li_blob (li_calibration s) @ ''; model = '' @ li_blob bundle @ ''; schema = '' @
     li_blob (lc_hash s) @ ''; tokenizer = '' @ li_blob (lc_tokenizer s) @
     ''; temperature = 1.0; expires_at_ns = '' @ int_str now_ns @ '' : nat64; holdout_hash = '' @
     li_blob (sha256 (ascii ''SYNTHETIC-NOT-REAL-HOLDOUT'')) @ ''; sample_count = 1 : nat64; test_only = true })''"

definition signal :: "li_compiled \<times> rule \<Rightarrow> string" where
  "signal = (\<lambda>(s, r). ''(record { schema = '' @ li_candid_compiled s @ ''; calibration = '' @ li_blob (li_calibration s) @
     ''; rule = '' @ candid_rule r @ '' })'')"

definition plan_args :: "bytes \<Rightarrow> bytes \<Rightarrow> string list \<Rightarrow> string" where
  "plan_args plan_id bundle signals =
     ''(record { id = '' @ li_blob plan_id @ ''; version = 1 : nat64; model = '' @ li_blob bundle @
     ''; signals = vec { '' @ join ''; '' signals @ '' } })''"

definition grant_args :: "bytes \<Rightarrow> string \<Rightarrow> bytes \<Rightarrow> string \<Rightarrow> int \<Rightarrow> string" where
  "grant_args grant_id owner plan_id ledger now_ns =
     ''(record { id = '' @ li_blob grant_id @ ''; revision = 1 : nat64; delegate = '' @ li_principal owner @
     ''; plan = '' @ li_blob plan_id @ ''; ledger = '' @ li_principal ledger @
     ''; from_subaccount = '' @ li_blob zero_subaccount @ ''; recipients = vec { '' @ account owner @
     '' }; max_amount = 1000 : nat; max_fee = 10 : nat; total_cap = 1000 : nat; window_cap = 500 : nat; '' @
     ''window_ns = 60_000_000_000 : nat64; expires_at_ns = '' @ int_str now_ns @ '' : nat64; revoked = false; '' @
     ''total = record { spent = 0 : nat; reserved = 0 : nat }; windows = vec {} })''"

definition submit_args :: "bytes \<Rightarrow> bytes \<Rightarrow> nat \<Rightarrow> string" where
  "submit_args op grant nonce = ''('' @ li_blob op @ '', '' @ li_blob grant @ '', '' @ nat_str nonce @ '' : nat64)''"

definition request_arg :: "bytes \<Rightarrow> string" where
  "request_arg r = ''('' @ li_blob r @ '')''"

section \<open>The workflow\<close>

definition install_canister :: "'w system \<Rightarrow> icp \<Rightarrow> string \<Rightarrow> string \<Rightarrow> string \<Rightarrow> ('w, unit) io" where
  "install_canister S c name mode args =
     io_then (li_run S c [''canister'', ''install'', name, ''-e'', icp_env c, ''-y'', ''-m'', mode,
       ''--wasm'', path_join (BUILD S) (name @ ''.wasm''), ''--args'', args] True OwnIdentity) (io_ret ())"

text \<open>A call whose reply is not looked at.\<close>

definition send :: "'w system \<Rightarrow> icp \<Rightarrow> string \<Rightarrow> string \<Rightarrow> string \<Rightarrow> ('w, unit) io" where
  "send S c canister meth args = io_then (li_call S c canister meth args True) (io_ret ())"

definition now_ns :: int where
  "now_ns = 4000000000000000000"

definition grant_id :: bytes where "grant_id = sha256 (ascii ''TEST-ONLY-grant-1'')"
definition plan_id :: bytes where "plan_id = sha256 (ascii ''TEST-ONLY-refund-plan-v1'')"
definition operation_id :: bytes where "operation_id = sha256 (ascii ''trusted-demo-invoice-1'')"
definition outside_id :: bytes where "outside_id = sha256 (ascii ''TEST-ONLY-outside-allowlist'')"
definition second_operation :: bytes where "second_operation = sha256 (ascii ''trusted-demo-invoice-2'')"

definition install_all :: "'w system \<Rightarrow> icp \<Rightarrow> bool \<Rightarrow> string \<Rightarrow> string \<Rightarrow> ('w, unit) io" where
  "install_all S c keep_state owner engine =
     (let mode = (if keep_state then ''upgrade'' else ''reinstall'')
      in io_then (install_canister S c ''decision-engine'' mode (''('' @ li_principal owner @ '')''))
        (io_then (install_canister S c ''executor'' mode
           (''('' @ li_principal owner @ '', '' @ li_principal engine @ '')''))
        (io_then (install_canister S c ''mock-ledger'' mode (''('' @ li_principal owner @ '')''))
        (li_check True (''all three canisters installed ('' @ mode @ '')'')))))"

text \<open>The engine: the fixture, the caller, the schemas and their calibrations.\<close>

definition configure_engine :: "'w system \<Rightarrow> icp \<Rightarrow> string \<Rightarrow> ('w, (li_compiled \<times> rule) list) io" where
  "configure_engine S c executor =
     (let bundle = sha256 FIXTURE_BUNDLE
      in io_bind (li_call S c ''decision-engine'' ''enable_synthetic_fixture'' ''()'' True) (\<lambda>out.
         io_bind (io_lift (li_decode_blobs out)) (\<lambda>blobs.
         io_then (li_check (bundle \<in> set blobs) ''engine reports the fixture bundle id'')
         (io_then (send S c ''decision-engine'' ''allow_caller'' (''('' @ li_principal executor @ '', 1000)''))
         (io_then (li_check True ''executor admitted as an engine caller'')
         (io_bind (io_lift (mapM (\<lambda>s. res_bind (compile_schema s (ls_tag s)) (\<lambda>k. Inr (k, ls_rule s))) schemas)) (\<lambda>compiled.
          io_then (io_for compiled (\<lambda>(s, _). send S c ''decision-engine'' ''register_schema''
             (''('' @ li_candid_schema (lc_schema s) @ '', '' @ int_str (lc_qtype_id s) @ '')'')))
          (io_then (li_check True ''three schemas registered and compiled'')
          (io_then (io_for compiled (\<lambda>(s, _). send S c ''decision-engine'' ''register_calibration''
             (li_calibration_args s bundle now_ns)))
          (io_then (li_check True ''three calibrations registered'')
          (io_ret compiled)))))))))))"

text \<open>The executor: the plan, the trusted operation and the grant.\<close>

definition configure_executor ::
  "'w system \<Rightarrow> icp \<Rightarrow> (li_compiled \<times> rule) list \<Rightarrow> string \<Rightarrow> string \<Rightarrow> ('w, unit) io" where
  "configure_executor S c compiled owner ledger =
     io_then (send S c ''executor'' ''register_plan''
       (plan_args plan_id (sha256 FIXTURE_BUNDLE) (map signal compiled)))
     (io_then (li_check True ''plan registered'')
     (io_then (send S c ''executor'' ''register_operation''
       (operation operation_id ''The customer reports a duplicate payment and requests a refund.''
         (proposal ledger owner AMOUNT FEE)))
     (io_then (li_check True ''trusted operation registered'')
     (io_then (send S c ''executor'' ''register_grant'' (grant_args grant_id owner plan_id ledger now_ns))
     (li_check True ''grant registered'')))))"

text \<open>A submit as another identity: the name is part of the arguments.\<close>

definition submit_as :: "'w system \<Rightarrow> icp \<Rightarrow> string \<Rightarrow> ('w, string) io" where
  "submit_as S c name =
     io_bind (io_lift (did_of c ''executor'')) (\<lambda>d.
       li_run S c [''canister'', ''call'', ''executor'', ''submit'', submit_args operation_id grant_id 0,
         ''-e'', icp_env c, ''--candid'', d, ''--identity'', name] False NoIdentity)"

definition check_rejections :: "'w system \<Rightarrow> icp \<Rightarrow> string \<Rightarrow> string \<Rightarrow> ('w, unit) io" where
  "check_rejections S c owner ledger =
     (let stranger = li_principal_of (take 29 (sha256 (ascii ''not-an-allowlisted-recipient'')));
          intruder_name = icp_identity c @ ''-intruder''
      in io_bind (li_call S c ''executor'' ''register_operation''
           (operation outside_id ''outside allowlist'' (proposal ledger stranger 1 1)) True) (\<lambda>registered.
         io_then (li_check (contains ''Ok'' registered) ''operation outside the allowlist is still registrable'')
         (io_bind (li_call S c ''executor'' ''submit'' (submit_args outside_id grant_id 0) True) (\<lambda>denied.
          io_then (li_check (contains ''Denied'' denied) ''submit for a non-allowlisted recipient is denied'')
          (io_bind (li_ensure_identity S c intruder_name) (\<lambda>intruder.
           io_then (io_guard (intruder \<noteq> owner) (Failure ''intruder identity unexpectedly equals the owner''))
           (io_bind (submit_as S c intruder_name) (\<lambda>intruded.
            io_then (li_check (contains ''Unauthorized'' intruded)
              (''principal outside the grant is unauthorized ('' @ take 12 intruder @ ''...): '' @ take 200 (strip intruded)))
            (io_bind (submit_as S c ''anonymous'') (\<lambda>anonymous.
             li_check (contains ''Unauthorized'' anonymous)
               (''anonymous caller is unauthorized: '' @ take 200 (strip anonymous))))))))))))"

definition enable_mock :: "'w system \<Rightarrow> icp \<Rightarrow> string \<Rightarrow> ('w, unit) io" where
  "enable_mock S c ledger =
     io_then (send S c ''mock-ledger'' ''ic_laya_mock_profile'' ''()'')
     (io_then (send S c ''executor'' ''register_mock_ledger'' (''('' @ li_principal ledger @ '')''))
     (io_then (send S c ''executor'' ''set_mode'' ''(variant { Mock })'')
     (io_then (li_check True ''mock ledger registered and executor in Mock mode'')
     (io_then (send S c ''executor'' ''pause'' ''(false)'')
     (li_check True ''executor unpaused by the owner'')))))"

text \<open>\<open>for step in ...: advance\<close>; the label is for the message.\<close>

fun advance_steps :: "'w system \<Rightarrow> icp \<Rightarrow> string \<Rightarrow> bytes \<Rightarrow> nat list \<Rightarrow> ('w, unit) io" where
  "advance_steps S c label r [] = io_ret ()"
| "advance_steps S c label r (i # is) =
     io_bind (li_call S c ''executor'' ''advance'' (request_arg r) True) (\<lambda>status.
       if contains ''Err'' status
       then io_raise (Failure (label @ nat_str i @ '' failed: '' @ status))
       else advance_steps S c label r is)"

text \<open>The test of the number of committed transfers.\<close>

definition ends_with :: "string \<Rightarrow> string \<Rightarrow> bool" where
  "ends_with suf s = suffix suf s"

definition committed_once :: "string \<Rightarrow> bool" where
  "committed_once reply \<longleftrightarrow> contains ''1 : nat64'' reply \<or> ends_with ''(1 : nat64)'' (strip reply)"

text \<open>From the submit to the settled request: the request is the first blob of the reply.\<close>

definition settle :: "'w system \<Rightarrow> icp \<Rightarrow> bytes \<Rightarrow> ('w, unit) io" where
  "settle S c r =
     io_then (send S c ''executor'' ''advance'' (request_arg r))
     (io_bind (li_call S c ''executor'' ''get_request'' (request_arg r) True) (\<lambda>partial.
      io_then (li_check (\<not> contains ''ReadyToDispatch'' partial)
        ''request with one of three signals is not ReadyToDispatch'')
      (io_then (advance_steps S c ''advance '' r [2, 3])
      (io_bind (li_call S c ''executor'' ''get_request'' (request_arg r) True) (\<lambda>final.
       io_then (li_check (contains ''ReadyToDispatch'' final) ''three sequential questions evaluated to ReadyToDispatch'')
       (io_then (send S c ''mock-ledger'' ''set_fault'' ''(variant { CommitThenCallbackTrap })'')
       (io_bind (li_call S c ''executor'' ''dispatch'' (request_arg r) False) (\<lambda>_.
        io_bind (li_call S c ''executor'' ''get_request'' (request_arg r) True) (\<lambda>state.
        io_then (li_check (contains ''OutcomeUnknown'' state) ''lost reply is recorded as OutcomeUnknown, not failure'')
        (io_then (li_check (\<not> contains ''Submitted'' state) ''request did not stay in Submitted'')
        (io_bind (li_call S c ''mock-ledger'' ''committed_transfers'' ''()'' True) (\<lambda>committed.
         io_then (li_check (committed_once committed)
           (''ledger committed the transfer despite the lost reply (raw: '' @ take 80 (strip committed) @ '')''))
         (io_then (send S c ''mock-ledger'' ''set_fault'' ''(variant { None })'')
         (io_then (send S c ''executor'' ''retry_mock_transfer'' (request_arg r))
         (io_bind (li_call S c ''executor'' ''get_request'' (request_arg r) True) (\<lambda>final.
          io_then (li_check (contains ''Succeeded'' final) ''duplicate reply settles the request'')
          (io_bind (li_call S c ''mock-ledger'' ''committed_transfers'' ''()'' True) (\<lambda>committed.
           li_check (committed_once committed)
             (''ledger committed exactly once, not twice (raw: '' @ take 80 (strip committed) @ '')'')))))))))))))))))))"

definition leave_unknown_for_upgrade :: "'w system \<Rightarrow> icp \<Rightarrow> bytes \<Rightarrow> string \<Rightarrow> string \<Rightarrow> ('w, unit) io" where
  "leave_unknown_for_upgrade S c grant ledger owner =
     io_then (send S c ''executor'' ''register_operation''
       (operation second_operation ''second trusted invoice'' (proposal ledger owner AMOUNT FEE)))
     (io_bind (li_call S c ''executor'' ''submit'' (submit_args second_operation grant 1) True) (\<lambda>submitted.
      io_then (io_guard (contains ''Ok'' submitted) (Failure (''second submit failed: '' @ strip submitted)))
      (io_bind (io_lift (blob_arg submitted)) (\<lambda>second.
       io_then (advance_steps S c ''second advance '' second [0, 1, 2])
       (io_then (send S c ''mock-ledger'' ''set_fault'' ''(variant { CommitThenCallbackTrap })'')
       (io_bind (li_call S c ''executor'' ''dispatch'' (request_arg second) False) (\<lambda>_.
        io_bind (li_call S c ''executor'' ''get_request'' (request_arg second) True) (\<lambda>state.
        li_check (contains ''OutcomeUnknown'' state) ''second request is stranded in OutcomeUnknown for the upgrade''))))))))"

definition verify_upgrade_guard :: "'w system \<Rightarrow> icp \<Rightarrow> string \<Rightarrow> ('w, int) io" where
  "verify_upgrade_guard S c install_args =
     io_bind (li_run S c [''canister'', ''install'', ''executor'', ''-e'', icp_env c, ''-y'', ''-m'', ''upgrade'',
         ''--wasm'', path_join (BUILD S) ''executor.wasm'', ''--args'', install_args] False OwnIdentity) (\<lambda>blocked.
     io_then (li_check (contains ''unresolved transfer'' blocked)
       (''upgrade is refused while a transfer is unresolved: '' @
          (let t = strip blocked in drop (length t - 160) t)))
     (io_then (li_check True ''the unresolved reservation therefore survives the refused upgrade'')
     (io_ret 0)))"

definition run_workflow :: "'w system \<Rightarrow> icp \<Rightarrow> bool \<Rightarrow> bool \<Rightarrow> ('w, int) io" where
  "run_workflow S c keep_state verify_upgrade =
     io_bind (li_ensure_identity S c (icp_identity c)) (\<lambda>owner.
     io_then (li_ensure_cycles S c ''10t'')
     (io_bind (li_ensure_canister S c ''decision-engine'') (\<lambda>engine.
      io_bind (li_ensure_canister S c ''executor'') (\<lambda>executor.
      io_bind (li_ensure_canister S c ''mock-ledger'') (\<lambda>ledger.
      io_then (install_all S c keep_state owner engine)
      (io_bind (configure_engine S c executor) (\<lambda>compiled.
       io_then (configure_executor S c compiled owner ledger)
       (io_then (check_rejections S c owner ledger)
       (io_then (enable_mock S c ledger)
       (io_bind (li_call S c ''executor'' ''submit'' (submit_args operation_id grant_id 0) True) (\<lambda>submitted.
        io_then (io_guard (contains ''Ok'' submitted) (Failure (''submit failed: '' @ strip submitted)))
        (io_bind (io_lift (blob_arg submitted)) (\<lambda>r.
         io_then (settle S c r)
         (io_then (leave_unknown_for_upgrade S c grant_id ledger owner)
         (if verify_upgrade
          then verify_upgrade_guard S c (''('' @ li_principal owner @ '', '' @ li_principal owner @ '')'')
          else io_ret 0)))))))))))))))"

section \<open>The port of a URL\<close>

text \<open>
  \<open>urlparse(url).port\<close>: the scheme, the part after \<open>//\<close> up to a path, a query or a fragment, what
  follows the last \<open>@\<close> of it, and what follows the first colon of that.  A bracketed host and a
  character that is not ASCII are outside the model.
\<close>

definition unsafe_removed :: "string \<Rightarrow> string" where
  "unsafe_removed url = filter (\<lambda>c. c \<notin> set [CHR 0x09, CHR 0x0A, CHR 0x0D]) (dropWhile (\<lambda>c. code c \<le> 32) url)"

definition scheme_char :: "char \<Rightarrow> bool" where
  "scheme_char c \<longleftrightarrow> is_digit c \<or> 97 \<le> code (to_lower c) \<and> code (to_lower c) \<le> 122 \<or> c \<in> set ''+-.''"

definition after_scheme :: "string \<Rightarrow> string" where
  "after_scheme url = (case split_once '':'' url of
     Some (sch, tail) \<Rightarrow>
       if sch \<noteq> [] \<and> \<not> is_digit (hd sch) \<and> hd sch \<notin> set ''+-.'' \<and> list_all scheme_char sch then tail else url
   | None \<Rightarrow> url)"

definition netloc :: "string \<Rightarrow> string" where
  "netloc url = (let tail = after_scheme (unsafe_removed url)
     in if starts_with ''//'' tail then takeWhile (\<lambda>c. c \<notin> set ''/?#'') (drop 2 tail) else [])"

definition url_port :: "string \<Rightarrow> int option res" where
  "url_port url =
     (let host = rev (takeWhile (\<lambda>c. c \<noteq> CHR ''@'') (rev (netloc url)))
      in if \<not> list_all (\<lambda>c. code c < 128) url \<or> CHR ''['' \<in> set (netloc url) \<or> CHR '']'' \<in> set (netloc url)
         then Inl OutsideModel
         else case split_once '':'' host of
           None \<Rightarrow> Inr None
         | Some (_, p) \<Rightarrow>
             if p = [] then Inr None
             else if \<not> list_all is_digit p then Inl (ValueError ''Port could not be cast to integer value'')
             else res_bind (py_int 10 p) (\<lambda>n.
               if n \<le> 65535 then Inr (Some n) else Inl (ValueError ''Port out of range 0-65535'')))"

section \<open>The command line\<close>

record li_args =
  l_keep :: bool
  l_env :: string
  l_identity :: string
  l_port :: int
  l_keep_state :: bool
  l_skip_upgrade :: bool

definition port_text :: "int option \<Rightarrow> string" where
  "port_text p = (case p of None \<Rightarrow> ''None'' | Some n \<Rightarrow> int_str n)"

text \<open>\<open>urlparse(status["api_url"]).port != args.port\<close>\<close>

definition check_port :: "json \<Rightarrow> int \<Rightarrow> unit res" where
  "check_port status port =
     res_bind (res_bind (item ''api_url'' status) text_of) (\<lambda>url.
     res_bind (url_port url) (\<lambda>actual.
       if actual \<noteq> Some port
       then Inl (Failure (''network is listening on port '' @ port_text actual @ '', but --port '' @ int_str port @
         '' was requested. --port only asserts; change gateway.port in icp.yaml or pass --port '' @ port_text actual @ ''.''))
       else Inr ()))"

definition li_main :: "'w system \<Rightarrow> li_args \<Rightarrow> ('w, int) io" where
  "li_main S a =
     io_then (io_for [''decision-engine'', ''executor'', ''mock-ledger''] (\<lambda>wasm.
       io_bind (sys_exists S (path_join (BUILD S) (wasm @ ''.wasm''))) (\<lambda>there.
         io_guard there (Failure (''missing build/'' @ wasm @ ''.wasm; run bash tools/build_one.sh '' @ wasm @ '' first'')))))
     (let c = li_new_icp S (repo_root S) (l_env a) (l_identity a)
      in io_then (li_require_local_network S c)
        (io_bind (li_network_status S c) (\<lambda>status.
           let started_here = (status = JNull)
           in io_bind (if started_here
                then io_then (li_run S c [''network'', ''start'', ''-d'', ''-e'', l_env a] True OwnIdentity)
                       (li_network_status S c)
                else io_ret status) (\<lambda>status.
              io_bind (io_lift (check_port status (l_port a))) (\<lambda>_.
              io_finally (run_workflow S c (l_keep_state a) (\<not> l_skip_upgrade a))
                (io_when (started_here \<and> \<not> l_keep a)
                  (io_then (li_run S c [''network'', ''stop'', ''-e'', l_env a] False OwnIdentity) (io_ret ()))))))))"

end
