(* ===== verification/Local_Proofs.thy ===== *)
theory Local_Proofs
  imports Local_Integration
begin

text \<open>
  What the integration run of \<open>tools/local_integration.py\<close> guarantees: which of its repeated functions
  are those of \<open>measure_inference.py\<close>, which commands it issues and under which identities, in which
  order a run that passes has moved the requests, and when it leaves a network running.
\<close>

section \<open>The repeated functions\<close>

lemma li_wrapper_eq:
  "li_new_icp = new_icp" "li_run S c args ok i = run S c args ok i 300"
  "li_call S c can meth a ok = call S c can meth a ok 300" "li_check = check"
  by (simp_all add: fun_eq_iff li_new_icp_def new_icp_def li_run_def run_def icp_command_def
      li_call_def call_def li_check_def check_def io_guard_def)

lemma li_network_eq:
  "li_known_identities = known_identities" "li_canister_principal = canister_principal"
  "li_ensure_cycles = ensure_cycles" "li_any_network_status = any_network_status"
  by (simp_all add: fun_eq_iff li_known_identities_def known_identities_def li_canister_principal_def
      canister_principal_def li_ensure_cycles_def ensure_cycles_def li_any_network_status_def
      any_network_status_def li_wrapper_eq cong: if_cong)

lemma li_setup_eq:
  "li_ensure_identity = ensure_identity" "li_ensure_canister = ensure_canister"
  "li_network_status = network_status" "li_require_local_network = require_local_network"
  by (simp_all add: fun_eq_iff li_ensure_identity_def ensure_identity_def li_ensure_canister_def
      ensure_canister_def li_network_status_def network_status_def li_require_local_network_def
      require_local_network_def li_wrapper_eq li_network_eq cong: if_cong)

lemmas li_eqs = li_wrapper_eq li_network_eq li_setup_eq

lemma li_text_eq: "li_blob = blob" "li_principal = principal" "li_principal_of = principal_of"
  "li_decode_body s = decode_body_hex s" "li_decode_blobs = decode_blobs_hex"
proof -
  show b: "li_decode_body s = decode_body_hex s" for s
  proof (induction s rule: decode_body_hex.induct)
    case (2 c cs)
    then show ?case by (cases cs) (auto cong: res_bind_cong)
  qed simp
  then have "li_decode_body = decode_body_hex" by (rule ext)
  then show "li_decode_blobs = decode_blobs_hex"
    by (intro ext) (simp only: li_decode_blobs_def decode_blobs_hex_def)
qed (simp_all add: fun_eq_iff li_blob_def blob_def li_principal_def principal_def li_principal_of_def principal_of_def)

lemma li_canon_eq:
  "li_SPECIAL = SPECIAL" "li_fixture_encode = fixture_encode" "li_canon_bytes = canon_bytes"
  "li_canon_u64 = canon_u64" "li_canon_text = canon_text" "li_canon_new = canon_new" "li_canon_finish = canon_finish"
  "li_special_text = candid_special"
  by (simp_all add: fun_eq_iff li_SPECIAL_def SPECIAL_def li_fixture_encode_def fixture_encode_def
      li_canon_bytes_def canon_bytes_def li_canon_u64_def canon_u64_def li_canon_text_def canon_text_def
      li_canon_new_def canon_new_def li_canon_finish_def canon_finish_def li_special_text_def
      candid_special_def li_SPECIAL_LITERALS_def SPECIAL_LITERALS_def)

lemma li_mark_options_eq: "li_mark_options os toks ms = mark_options os toks ms"
  by (induction os toks ms rule: mark_options.induct) (simp_all add: li_canon_eq)

lemma li_canon_options_eq: "li_canon_options os h = canon_options os h"
  by (induction os h rule: canon_options.induct) (simp_all add: li_canon_eq cong: res_bind_cong)

section \<open>The commands of a run\<close>

lemma submit_as_orderly:
  assumes "n \<in> names"
  shows "emits (orderly c names) (submit_as (logged S) c n)"
  unfolding submit_as_def li_eqs
proof (intro emits_intros emits_run)
  fix d cmd
  let ?args = "[''canister'', ''call'', ''executor'', ''submit'', submit_args operation_id grant_id 0,
      ''-e'', icp_env c, ''--candid'', d, ''--identity'', n]"
  assume cmd: "icp_command c ?args NoIdentity = Inr cmd"
  have "?args = [''canister'', ''call'', ''executor'', ''submit'', submit_args operation_id grant_id 0,
      ''-e'', icp_env c, ''--candid'', d] @ [''--identity'', n] @ []" by simp
  then have "sublist [''--identity'', n] ?args" unfolding sublist_def by blast
  with assms have "addressed c names cmd" by (intro addressed_none [OF cmd]) auto
  moreover have "\<not> manages_network cmd" using command_manages_network [OF cmd] by auto
  ultimately show "orderly c names cmd" by (simp add: orderly_def)
qed

lemma send_orderly [emits_intros]:
  "icp_identity c \<in> names \<Longrightarrow> emits (orderly c names) (send (logged S) c can meth a)"
  by (simp add: send_def li_eqs emits_intros)

lemma advance_steps_orderly [emits_intros]:
  "icp_identity c \<in> names \<Longrightarrow> emits (orderly c names) (advance_steps (logged S) c l r is)"
  by (induction "is") (auto simp: li_eqs intro!: emits_intros)

lemma run_workflow_orderly:
  assumes names: "{icp_identity c, icp_identity c @ ''-intruder'', ''anonymous''} \<subseteq> names"
  shows "emits (orderly c names) (run_workflow (logged S) c keep verify)"
proof -
  have own: "icp_identity c \<in> names" using names by simp
  have "emits (orderly c names) (install_all (logged S) c keep owner engine)" for owner engine
    using own by (auto simp: install_all_def install_canister_def Let_def li_eqs intro!: emits_intros)
  moreover have "emits (orderly c names) (configure_engine (logged S) c executor)" for executor
    using own by (auto simp: configure_engine_def Let_def li_eqs intro!: emits_intros)
  moreover have "emits (orderly c names) (configure_executor (logged S) c compiled owner ledger)" for compiled owner ledger
    using own by (auto simp: configure_executor_def li_eqs intro!: emits_intros)
  moreover have "emits (orderly c names) (check_rejections (logged S) c owner ledger)" for owner ledger
    using names by (auto simp: check_rejections_def Let_def li_eqs intro!: emits_intros submit_as_orderly)
  moreover have "emits (orderly c names) (enable_mock (logged S) c ledger)" for ledger
    using own by (auto simp: enable_mock_def li_eqs intro!: emits_intros)
  moreover have "emits (orderly c names) (settle (logged S) c r)" for r
    using own by (auto simp: settle_def li_eqs intro!: emits_intros)
  moreover have "emits (orderly c names) (leave_unknown_for_upgrade (logged S) c g ledger owner)" for g ledger owner
    using own by (auto simp: leave_unknown_for_upgrade_def li_eqs intro!: emits_intros)
  moreover have "emits (orderly c names) (verify_upgrade_guard (logged S) c a)" for a
    using own by (auto simp: verify_upgrade_guard_def li_eqs intro!: emits_intros)
  ultimately show ?thesis
    using own by (auto simp: run_workflow_def li_eqs intro!: emits_intros)
qed

text \<open>
  C34: every command of a run is bound to the repository's project, and names one of three identities
  unless it manages the network or the identities: the given one, the intruder derived from it, and
  the anonymous one; the ambient default is never used.
\<close>

theorem li_main_addressed:
  "emits (addressed (li_new_icp S (repo_root S) (l_env a) (l_identity a))
      {l_identity a, l_identity a @ ''-intruder'', ''anonymous''}) (li_main (logged S) a)"
proof -
  let ?c = "new_icp S (repo_root S) (l_env a) (l_identity a)"
  let ?names = "{l_identity a, l_identity a @ ''-intruder'', ''anonymous''}"
  have c: "new_icp (logged S) (repo_root (logged S)) (l_env a) (l_identity a) = ?c"
    by (simp add: new_icp_def BUILD_def logged_def)
  have i: "icp_identity ?c = l_identity a" by (simp add: new_icp_def)
  have weak: "emits (orderly ?c ?names) m \<Longrightarrow> emits (addressed ?c ?names) m" for m :: "('a \<times> string list list, 'b) io"
    by (erule emits_mono) (simp add: orderly_def)
  have "emits (addressed ?c ?names) (run (logged S) ?c as ok OwnIdentity t)" for as ok t
    by (rule run_addressed) (simp add: i)
  moreover have "emits (addressed ?c ?names) (run_workflow (logged S) ?c k v)" for k v
    by (rule weak, rule run_workflow_orderly) (simp add: i)
  moreover have "emits (addressed ?c ?names) (require_local_network (logged S) ?c)"
      "emits (addressed ?c ?names) (network_status (logged S) ?c)"
    by (rule weak, rule setup_orderly, simp add: i)+
  ultimately show ?thesis
    unfolding li_main_def Let_def li_eqs c by (intro emits_intros) auto
qed

section \<open>The order of a run\<close>

text \<open>What a command asks the executor to do with a request, and with which request.\<close>

definition request_event :: "string list \<Rightarrow> (string \<times> string) list" where
  "request_event cmd = (case cmd of
     _ # _ # verb # can # meth # arg # _ \<Rightarrow>
       if verb = ''call'' \<and> can = ''executor'' \<and> meth \<in> {''advance'', ''dispatch'', ''retry_mock_transfer''}
       then [(meth, arg)] else []
   | _ \<Rightarrow> [])"

definition request_trace :: "string list list \<Rightarrow> (string \<times> string) list" where
  "request_trace s = concat (map request_event s)"

lemma request_trace_simps [simp]:
  "request_trace [] = []" "request_trace (a # s) = request_event a @ request_trace s"
  "request_trace (s @ t) = request_trace s @ request_trace t"
  by (simp_all add: request_trace_def)

text \<open>What is true of the events of a computation, and of whether it returned.\<close>

definition follows :: "(bool \<Rightarrow> (string \<times> string) list \<Rightarrow> bool) \<Rightarrow> ('w \<times> string list list, 'a) io \<Rightarrow> bool" where
  "follows Q m \<longleftrightarrow> (\<forall>w h r w' h'. m (w, h) = (r, (w', h')) \<longrightarrow> (\<exists>s. h' = h @ s \<and> Q (is_ok r) (request_trace s)))"

lemma follows_mono: "follows P m \<Longrightarrow> (\<And>b t. P b t \<Longrightarrow> Q b t) \<Longrightarrow> follows Q m"
  unfolding follows_def by blast

lemma follows_bind:
  assumes "follows P m" "\<And>x. follows R (f x)" "\<And>t. P False t \<Longrightarrow> Q False t"
    and "\<And>t b u. P True t \<Longrightarrow> R b u \<Longrightarrow> Q b (t @ u)"
  shows "follows Q (io_bind m f)"
  unfolding follows_def
proof (intro allI impI)
  fix w h r w' h'
  assume r: "io_bind m f (w, h) = (r, (w', h'))"
  obtain q w1 h1 where q: "m (w, h) = (q, (w1, h1))" by (metis prod_cases3)
  then obtain s where s: "h1 = h @ s" "P (is_ok q) (request_trace s)" using assms(1) unfolding follows_def by blast
  show "\<exists>s. h' = h @ s \<and> Q (is_ok r) (request_trace s)"
  proof (cases q)
    case (Inl e)
    then show ?thesis using r q s assms(3) by (auto simp: io_bind_def)
  next
    case (Inr x)
    then have "f x (w1, h1) = (r, (w', h'))" using r q by (simp add: io_bind_def)
    then obtain t where "h' = h1 @ t" "R (is_ok r) (request_trace t)" using assms(2) unfolding follows_def by blast
    then show ?thesis using s Inr assms(4) by (intro exI [of _ "s @ t"]) simp
  qed
qed

text \<open>A computation tracks a list of events: all of them when it returns, a prefix when it raises.\<close>

definition tracks :: "(string \<times> string) list \<Rightarrow> ('w \<times> string list list, 'a) io \<Rightarrow> bool" where
  "tracks L m \<longleftrightarrow> follows (\<lambda>b t. if b then t = L else prefix t L) m"

abbreviation quiet :: "string list \<Rightarrow> bool" where
  "quiet cmd \<equiv> request_event cmd = []"

named_theorems tracks_intros \<open>the events of a program, by its structure\<close>

lemma quiet_trace: "list_all quiet s \<Longrightarrow> request_trace s = []"
  by (induction s) auto

lemma follows_quiet: "emits quiet m \<Longrightarrow> follows (\<lambda>b t. t = []) m"
  unfolding emits_def follows_def by (metis quiet_trace)

lemma follows_silent:
  assumes "emits quiet m" "\<And>x. follows Q (f x)" "Q False []"
  shows "follows Q (io_bind m f)"
  using assms by (intro follows_bind [OF follows_quiet, where R = Q]) auto

lemma follows_silent_then: "emits quiet m \<Longrightarrow> follows Q k \<Longrightarrow> Q False [] \<Longrightarrow> follows Q (io_then m k)"
  unfolding io_then_def by (rule follows_silent)

lemma tracks_quiet: "emits quiet m \<Longrightarrow> tracks [] m"
  unfolding tracks_def by (rule follows_mono [OF follows_quiet]) auto

lemma tracks_bind: "tracks L1 m \<Longrightarrow> (\<And>x. tracks L2 (f x)) \<Longrightarrow> tracks (L1 @ L2) (io_bind m f)"
  unfolding tracks_def
  by (rule follows_bind [where P = "\<lambda>b t. if b then t = L1 else prefix t L1" and
      R = "\<lambda>b t. if b then t = L2 else prefix t L2"]) auto

lemma tracks_silent [tracks_intros]:
  "emits quiet m \<Longrightarrow> (\<And>x. tracks L (f x)) \<Longrightarrow> tracks L (io_bind m f)"
  "emits quiet m \<Longrightarrow> tracks L k \<Longrightarrow> tracks L (io_then m k)"
  using tracks_bind [of "[]" m L f] tracks_bind [of "[]" m L "\<lambda>_. k"] tracks_quiet
  by (auto simp: io_then_def)

lemma tracks_raise [tracks_intros]: "tracks L (io_raise e)"
  by (auto simp: tracks_def follows_def)

lemma tracks_if [tracks_intros]: "(b \<Longrightarrow> tracks L m) \<Longrightarrow> (\<not> b \<Longrightarrow> tracks L k) \<Longrightarrow> tracks L (if b then m else k)"
  by simp

lemma tracks_call:
  assumes "meth \<in> {''advance'', ''dispatch'', ''retry_mock_transfer''}"
  shows "tracks [(meth, arg)] (call (logged S) c ''executor'' meth arg ok t)"
proof -
  have "request_event cmd = [(meth, arg)]"
    if "icp_command c [''canister'', ''call'', ''executor'', meth, arg, ''-e'', icp_env c, ''--candid'', d] OwnIdentity = Inr cmd"
    for d cmd
    using that assms by (auto simp: icp_command_def identity_truthy_def request_event_def)
  then show ?thesis
    by (auto simp: tracks_def follows_def call_def run_def logged_def io_bind_def split: prod.splits sum.splits if_splits)
qed

lemma tracks_event [tracks_intros]:
  assumes "meth \<in> {''advance'', ''dispatch'', ''retry_mock_transfer''}"
  shows "(\<And>x. tracks L (f x)) \<Longrightarrow>
      tracks ((meth, arg) # L) (io_bind (call (logged S) c ''executor'' meth arg ok t) f)"
    and "tracks L k \<Longrightarrow> tracks ((meth, arg) # L) (io_then (send (logged S) c ''executor'' meth arg) k)"
  using tracks_bind [OF tracks_call [OF assms], of L f arg S c ok t]
    tracks_bind [OF tracks_call [OF assms], of L "\<lambda>_. k" arg S c True 300]
  by (simp_all add: send_def li_eqs io_then_def io_bind_assoc)

text \<open>The other commands are quiet.\<close>

lemma run_quiet [emits_intros]:
  assumes "verb \<noteq> ''call''"
  shows "emits quiet (run (logged S) c (g # verb # as) ok i t)"
proof (rule emits_run)
  fix cmd assume "icp_command c (g # verb # as) i = Inr cmd"
  then obtain tail where "cmd = ''icp'' # g # verb # tail"
    by (auto simp: icp_command_def Let_def split: if_splits)
  with assms show "quiet cmd" by (simp add: request_event_def split: list.split)
qed

lemma call_quiet [emits_intros]:
  assumes "can \<noteq> ''executor'' \<or> meth \<notin> {''advance'', ''dispatch'', ''retry_mock_transfer''}"
  shows "emits quiet (run (logged S) c (g # verb # can # meth # as) ok i t)"
    and "emits quiet (call (logged S) c can meth a ok t)" "emits quiet (send (logged S) c can meth a)"
proof -
  show run: "emits quiet (run (logged S) c (g # verb # can # meth # as) ok i t)" for g verb as ok i t
  proof (rule emits_run)
    fix cmd assume "icp_command c (g # verb # can # meth # as) i = Inr cmd"
    then obtain tail where "cmd = ''icp'' # g # verb # can # meth # tail"
      by (auto simp: icp_command_def Let_def split: if_splits)
    with assms show "quiet cmd" by (simp add: request_event_def split: list.split)
  qed
  show "emits quiet (call (logged S) c can meth a ok t)" for ok t
    unfolding call_def by (intro emits_intros run)
  then show "emits quiet (send (logged S) c can meth a)"
    by (simp add: send_def li_eqs emits_intros)
qed

lemma setup_quiet [emits_intros]:
  "emits quiet (known_identities (logged S) c)" "emits quiet (canister_principal (logged S) c n)"
  "emits quiet (ensure_cycles (logged S) c amount)" "emits quiet (any_network_status (logged S) c)"
  unfolding known_identities_def canister_principal_def ensure_cycles_def any_network_status_def
  by (auto intro!: emits_intros)

lemma prepare_quiet [emits_intros]:
  "emits quiet (ensure_identity (logged S) c n)" "emits quiet (ensure_canister (logged S) c n)"
  "emits quiet (require_local_network (logged S) c)" "emits quiet (network_status (logged S) c)"
  unfolding ensure_identity_def ensure_canister_def require_local_network_def network_status_def
  by (auto intro!: emits_intros)

lemma stages_quiet [emits_intros]:
  "emits quiet (install_all (logged S) c keep owner engine)" "emits quiet (configure_engine (logged S) c executor)"
  "emits quiet (configure_executor (logged S) c compiled owner ledger)"
  "emits quiet (check_rejections (logged S) c owner ledger)" "emits quiet (enable_mock (logged S) c ledger)"
  "emits quiet (verify_upgrade_guard (logged S) c a)"
  unfolding install_all_def install_canister_def configure_engine_def configure_executor_def check_rejections_def
    submit_as_def enable_mock_def verify_upgrade_guard_def Let_def li_eqs
  by (auto intro!: emits_intros)

text \<open>What a request goes through: three questions and one dispatch.\<close>

definition dispatched :: "bytes \<Rightarrow> (string \<times> string) list" where
  "dispatched r = replicate 3 (''advance'', request_arg r) @ [(''dispatch'', request_arg r)]"

lemma dispatched_eq: "dispatched r = [(''advance'', request_arg r), (''advance'', request_arg r),
    (''advance'', request_arg r), (''dispatch'', request_arg r)]"
  by (simp add: dispatched_def numeral_3_eq_3)

lemma advance_tracks:
  "tracks (replicate (length is) (''advance'', request_arg r)) (advance_steps (logged S) c l r is)"
proof (induction "is")
  case Nil
  show ?case by (simp add: tracks_quiet emits_intros)
next
  case (Cons i "is")
  then show ?case by (simp add: li_eqs) (rule tracks_event; simp add: tracks_intros)
qed

lemma tracks_advance [tracks_intros]:
  "tracks L k \<Longrightarrow> tracks ((''advance'', request_arg r) # (''advance'', request_arg r) # L)
     (io_then (advance_steps (logged S) c l r [i, j]) k)"
  "tracks L k \<Longrightarrow> tracks ((''advance'', request_arg r) # (''advance'', request_arg r) # (''advance'', request_arg r) # L)
     (io_then (advance_steps (logged S) c l r [i, j, n]) k)"
  using tracks_bind [OF advance_tracks [of "[i, j]"], of L "\<lambda>_. k" r S c l]
    tracks_bind [OF advance_tracks [of "[i, j, n]"], of L "\<lambda>_. k" r S c l]
  by (simp_all add: io_then_def)

lemma settle_tracks:
  "tracks (dispatched r @ [(''retry_mock_transfer'', request_arg r)]) (settle (logged S) c r)"
  unfolding dispatched_eq append.simps settle_def li_eqs
  by ((rule tracks_event, (simp; fail)) | (rule tracks_advance)
      | (rule tracks_silent, (intro emits_intros; simp; fail)) | (rule tracks_quiet, (intro emits_intros; simp; fail)))+

text \<open>The whole of a workflow: the second request is left dispatched.\<close>

definition workflow_trace :: "bool \<Rightarrow> (string \<times> string) list \<Rightarrow> bool" where
  "workflow_trace passed t \<longleftrightarrow> (\<exists>r1 r2.
     let run = dispatched r1 @ [(''retry_mock_transfer'', request_arg r1)] @ dispatched r2
     in if passed then t = run else prefix t run)"

lemma leave_follows:
  "follows (\<lambda>b t. \<exists>r. if b then t = dispatched r else prefix t (dispatched r))
     (leave_unknown_for_upgrade (logged S) c g ledger owner)"
proof -
  have rest: "tracks (dispatched r)
     (io_then (advance_steps (logged S) c ''second advance '' r [0, 1, 2])
     (io_then (send (logged S) c ''mock-ledger'' ''set_fault'' ''(variant { CommitThenCallbackTrap })'')
     (io_bind (call (logged S) c ''executor'' ''dispatch'' (request_arg r) False 300) (\<lambda>_.
      io_bind (call (logged S) c ''executor'' ''get_request'' (request_arg r) True 300) (\<lambda>state.
      check (b state) (l state))))))" for r b l
    unfolding dispatched_eq
    by ((rule tracks_event, (simp; fail)) | (rule tracks_advance)
      | (rule tracks_silent, (intro emits_intros; simp; fail)) | (rule tracks_quiet, (intro emits_intros; simp; fail)))+
  let ?Q = "\<lambda>b t. \<exists>r. if b then t = dispatched r else prefix t (dispatched r)"
  have rest': "follows ?Q m" if "tracks (dispatched r) m" for r and m :: "('a \<times> string list list, unit) io"
    using that unfolding tracks_def by (rule follows_mono) blast
  have Q: "?Q False []" by auto
  show ?thesis
    unfolding leave_unknown_for_upgrade_def li_eqs
    by (((rule follows_silent_then | rule follows_silent), (intro emits_intros; simp; fail))+;
      (rule Q | rule rest' [OF rest]))
qed

lemma run_workflow_follows: "follows workflow_trace (run_workflow (logged S) c keep verify)"
proof -
  let ?R = "\<lambda>b t. \<exists>r. if b then t = dispatched r else prefix t (dispatched r)"
  have tail: "emits quiet (if verify then verify_upgrade_guard (logged S) c a else io_ret 0)" for a
    by (auto intro!: emits_intros)
  have two: "follows ?R (io_then (leave_unknown_for_upgrade (logged S) c g ledger owner)
      (if verify then verify_upgrade_guard (logged S) c a else io_ret 0))" for g ledger owner a
    unfolding io_then_def
    by (rule follows_bind [OF leave_follows follows_quiet [OF tail]]) (simp, metis append.right_neutral prefix_order.refl)
  have more: "workflow_trace b ((dispatched r @ [(''retry_mock_transfer'', request_arg r)]) @ u)" if "?R b u" for b u r
  proof -
    from that obtain r2 where "if b then u = dispatched r2 else prefix u (dispatched r2)" ..
    then show ?thesis unfolding workflow_trace_def by (intro exI [of _ r] exI [of _ r2]) (auto split: if_splits)
  qed
  have stop: "workflow_trace False t" if "prefix t (dispatched r @ [(''retry_mock_transfer'', request_arg r)])" for t r
    using prefix_prefix [OF that, of "dispatched []"] unfolding workflow_trace_def by auto
  have one: "follows workflow_trace (io_then (settle (logged S) c r)
      (io_then (leave_unknown_for_upgrade (logged S) c g ledger owner)
      (if verify then verify_upgrade_guard (logged S) c a else io_ret 0)))" for r g ledger owner a
    unfolding io_then_def [of "settle _ _ _"]
    by (rule follows_bind [OF settle_tracks [unfolded tracks_def] two]) (use more stop in \<open>simp_all\<close>)
  have Q: "workflow_trace False []" by (simp add: workflow_trace_def)
  show ?thesis
    unfolding run_workflow_def li_eqs
    by (((rule follows_silent_then | rule follows_silent), (intro emits_intros; simp; fail))+;
      (rule Q | rule one))
qed

lemma follows_finally:
  assumes "follows Q m" "emits quiet f" "\<And>t. Q True t \<Longrightarrow> Q False t"
  shows "follows Q (io_finally m f)"
  unfolding follows_def
proof (intro allI impI)
  fix w h r w' h'
  assume r: "io_finally m f (w, h) = (r, (w', h'))"
  obtain q w1 h1 where q: "m (w, h) = (q, (w1, h1))" by (metis prod_cases3)
  obtain p w2 h2 where p: "f (w1, h1) = (p, (w2, h2))" by (metis prod_cases3)
  obtain s where s: "h1 = h @ s" "Q (is_ok q) (request_trace s)" using assms(1) q unfolding follows_def by blast
  obtain t where t: "h2 = h1 @ t" "list_all quiet t" using assms(2) p unfolding emits_def by blast
  have "h' = h2" "is_ok r = (is_ok p \<and> is_ok q)" using r q p by (auto simp: io_finally_def split: sum.splits)
  moreover have "Q (is_ok p \<and> is_ok q) (request_trace s)"
    using s(2) assms(3) by (cases "is_ok q"; cases "is_ok p") auto
  ultimately show "\<exists>s. h' = h @ s \<and> Q (is_ok r) (request_trace s)"
    using s t by (intro exI [of _ "s @ t"]) (simp add: quiet_trace)
qed

text \<open>
  C12: in every run the requests move in one order, whatever the replies are: three questions of the
  first request and its dispatch, its retry with the same request, then three questions and the
  dispatch of the second; a run that raises has done a first part of it.
\<close>

theorem li_main_order:
  "case li_main (logged S) a (w, h) of (r, (_, h')) \<Rightarrow>
     \<exists>s. h' = h @ s \<and> workflow_trace (is_ok r) (request_trace s)"
proof -
  have Q: "workflow_trace False []" by (simp add: workflow_trace_def)
  have weak: "workflow_trace True t \<Longrightarrow> workflow_trace False t" for t
    by (auto simp: workflow_trace_def Let_def)
  have "follows workflow_trace (io_finally (run_workflow (logged S) c k v)
      (io_when b (io_then (run (logged S) c [''network'', ''stop'', ''-e'', l_env a] False OwnIdentity 300) (io_ret ()))))"
    for c k v b
    by (rule follows_finally [OF run_workflow_follows _ weak]) (auto intro!: emits_intros)
  then have "follows workflow_trace (li_main (logged S) a)"
    unfolding li_main_def Let_def li_eqs
    by (intro follows_silent_then follows_silent Q) (auto intro!: emits_intros)
  then show ?thesis unfolding follows_def by (auto split: prod.split)
qed

section \<open>A network that is left running\<close>

lemma status_logged:
  "any_network_status S c w = (r, w') \<Longrightarrow>
   any_network_status (logged S) c (w, h) = (r, (w', h @ [status_command c]))"
  by (auto simp: any_network_status_def run_def logged_def io_bind_def status_command_def
      split: prod.splits sum.splits if_splits)

lemma start_logged:
  "run S c [''network'', ''start'', ''-d'', ''-e'', icp_env c] True OwnIdentity 300 w = (r, w') \<Longrightarrow>
   run (logged S) c [''network'', ''start'', ''-d'', ''-e'', icp_env c] True OwnIdentity 300 (w, h) =
     (r, (w', h @ [start_command c]))"
  by (auto simp: run_def logged_def io_bind_def start_command_def split: prod.splits sum.splits if_splits)

text \<open>
  A run that starts the network and then finds it on another port than the asked one raises
  without stopping it: its commands end with the status after the start, outside the
  \<open>try ... finally\<close> that stops what the run has started.
\<close>

theorem port_mismatch_leaves_network:
  assumes "c = new_icp S (repo_root S) (l_env a) (l_identity a)"
    and "\<And>p. sys_exists S p w = (Inr True, w)"
    and "any_network_status S c w = (Inr st1, w1)" "remote_network st1 = Inr False"
    and "any_network_status S c w1 = (Inr st2, w2)" "usable_network st2 = Inr False"
    and "run S c [''network'', ''start'', ''-d'', ''-e'', l_env a] True OwnIdentity 300 w2 = (Inr out, w3)"
    and "any_network_status S c w3 = (Inr st3, w4)" "usable_network st3 = Inr True"
    and "check_port st3 (l_port a) = Inl e"
  shows "li_main (logged S) a (w, h) =
      (Inl e, (w4, h @ [status_command c, status_command c, start_command c, status_command c])) \<and>
    stop_command c \<notin> {status_command c, start_command c}"
proof -
  have c: "new_icp (logged S) (repo_root (logged S)) (l_env a) (l_identity a) = c" and env: "icp_env c = l_env a"
    using assms(1) by (simp_all add: new_icp_def BUILD_def logged_def)
  have there: "sys_exists (logged S) p (w, h) = (Inr True, (w, h))" for p
    using assms(2) by (simp add: logged_def lift_log_def)
  have "li_main (logged S) a (w, h) =
      (Inl e, (w4, h @ [status_command c, status_command c, start_command c, status_command c]))"
    using assms(4,6,9,10) there status_logged [OF assms(3), of h] status_logged [OF assms(5), of "h @ [status_command c]"]
      start_logged [OF assms(7) [folded env], of "h @ [status_command c, status_command c]"]
      status_logged [OF assms(8), of "h @ [status_command c, status_command c, start_command c]"]
    unfolding li_main_def Let_def li_eqs c
    by (simp add: io_bind_def io_then_def require_local_network_def network_status_def env)
  then show ?thesis by (simp add: stop_command_def status_command_def start_command_def)
qed

section \<open>The test of the number of transfers\<close>

lemma committed_redundant: "committed_once reply \<longleftrightarrow> contains ''1 : nat64'' reply"
proof -
  have "contains ''1 : nat64'' reply" if suf: "suffix ''(1 : nat64)'' (strip reply)"
  proof -
    obtain a where a: "strip reply = a @ ''(1 : nat64)''" using suf unfolding suffix_def by (elim exE)
    obtain b where b: "lstrip reply = strip reply @ b"
      unfolding strip_def by (metis rev_append rev_rev_ident takeWhile_dropWhile_id)
    have "reply = takeWhile is_space reply @ lstrip reply" by (simp add: lstrip_def)
    then have "reply = (takeWhile is_space reply @ a @ ''('') @ ''1 : nat64'' @ ('')'' @ b)" using a b by simp
    then show ?thesis by (metis contains_self)
  qed
  then show ?thesis by (auto simp: committed_once_def ends_with_def)
qed

text \<open>
  The test that the ledger committed once looks for \<open>1 : nat64\<close> anywhere in the reply, its second
  disjunct adds nothing, and every count that ends in the digit 1 passes it.
\<close>

theorem committed_once_accepts_more:
  "committed_once (''('' @ nat_str (10 * n + 1) @ '' : nat64)'') \<and>
   (committed_once reply \<longleftrightarrow> contains ''1 : nat64'' reply)"
proof -
  have one: "[digit_char 1] = ''1''" by code_simp
  have "nat_str (10 * n + 1) = (if n = 0 then [] else nat_str n) @ ''1''"
  proof (cases "n = 0")
    case True
    then show ?thesis using one by (simp add: nat_str.simps)
  next
    case False
    then have "\<not> 10 * n + 1 < 10" "(10 * n + 1) div 10 = n" "(10 * n + 1) mod 10 = 1" by presburger+
    then have "nat_str (10 * n + 1) = nat_str n @ [digit_char 1]" by (subst nat_str.simps) simp
    then show ?thesis using False one by simp
  qed
  then have "''('' @ nat_str (10 * n + 1) @ '' : nat64)'' =
      (''('' @ (if n = 0 then [] else nat_str n)) @ ''1 : nat64'' @ '')''" by simp
  then show ?thesis unfolding committed_redundant by (metis contains_self)
qed

section \<open>The compilation of a schema\<close>

text \<open>The schema as \<open>measure_inference.py\<close> has it, and the token of a word.\<close>

definition measured_schema :: "li_schema \<Rightarrow> schema" where
  "measured_schema s = \<lparr>schema_id = ls_id s, schema_primitive = ls_primitive s, schema_tag = ls_tag s,
     schema_instructions = ls_instructions s, schema_options = ls_options s\<rparr>"

definition word_token :: "string \<Rightarrow> int" where
  "word_token w = 10 + int (be_nat (take 2 (sha256 (encode w))))"

lemma fixture_encode_words: "fixture_encode t = map word_token (split_ws t)"
  by (simp add: fixture_encode_def word_token_def)

lemma split_ws_word:
  "list_all (\<lambda>c. \<not> is_space c) p \<Longrightarrow> acc \<noteq> [] \<or> p \<noteq> [] \<Longrightarrow>
   split_ws_acc acc (p @ CHR '' '' # t) = (rev acc @ p) # split_ws_acc [] t"
  by (induction p arbitrary: acc) (auto simp: is_space_def)

lemma is_space_to_lower: "is_space (to_lower c) = is_space c"
proof (cases "65 \<le> code c \<and> code c \<le> 90 \<or> 192 \<le> code c \<and> code c \<le> 222 \<and> code c \<noteq> 215")
  case True
  then have "code (to_lower c) = code c + 32" by (auto simp: to_lower_def)
  with True show ?thesis by (auto simp: is_space_def)
next
  case False
  then show ?thesis by (auto simp: to_lower_def)
qed

lemma mark_options_length:
  "length x = length y \<Longrightarrow> \<exists>r m. mark_options os (x @ t) ms = (x @ r, m) \<and> mark_options os (y @ t) ms = (y @ r, m)"
proof (induction os "x @ t" ms arbitrary: t rule: mark_options.induct)
  case (2 i txt0 opts markers)
  from "2.hyps" [of "t @ [special ''mask''] @ fixture_encode txt0"] "2.prems" show ?case by simp
qed auto

lemma compile_schema_eq:
  assumes "ls_version s = 1"
  shows "compile_schema s q = (if 64 < length (fst (li_prefix s))
     then Inl (Failure (''fixture prefix '' @ nat_str (length (fst (li_prefix s))) @ '' exceeds MAX_PREFIX''))
     else res_bind (schema_canonical (measured_schema s) (sha256 FIXTURE_TOKENIZER)) (\<lambda>h.
       Inr \<lparr>lc_schema = \<lparr>in_id = ls_id s, in_version = ls_version s, in_primitive = ls_primitive s,
              in_instructions = ls_instructions s, in_options = ls_options s\<rparr>,
            lc_hash = canon_finish h, lc_tokenizer = sha256 FIXTURE_TOKENIZER, lc_prefix = fst (li_prefix s),
            lc_markers = snd (li_prefix s), lc_qtype_id = q\<rparr>))"
  using assms
  by (simp add: compile_schema_def schema_canonical_def measured_schema_def li_canon_eq li_canon_options_eq
      res_bind_assoc Let_def split: prod.split)

text \<open>
  C29: the two compilations of a schema agree on the hash, on the positions of the markers and on
  every token but one: the word that names the primitive is hashed as it is written here and in
  lower case there.
\<close>

theorem compile_schema_agrees:
  assumes "compile_schema s q = Inr k" "ls_version s = 1"
    and "ls_primitive s \<noteq> []" "list_all (\<lambda>c. \<not> is_space c) (ls_primitive s)"
  shows "\<exists>c toks. compiled_schema (measured_schema s) (sha256 FIXTURE_TOKENIZER) = Inr c \<and>
    lc_hash k = compiled_hash c \<and> lc_tokenizer k = compiled_tokenizer c \<and> lc_markers k = compiled_markers c \<and>
    lc_prefix k = 1 # word_token (ls_primitive s) # toks \<and>
    compiled_prefix c = 1 # word_token (lower (ls_primitive s)) # toks \<and> length (lc_prefix k) \<le> 64"
proof -
  let ?words = "map word_token (split_ws_acc [] (''question: '' @ ls_instructions s))"
  have enc: "fixture_encode (p @ '' question: '' @ ls_instructions s) = word_token p # ?words"
    if "p \<noteq> []" "list_all (\<lambda>c. \<not> is_space c) p" for p
    using split_ws_word [of p "[]" "''question: '' @ ls_instructions s"] that
    by (simp add: fixture_encode_words split_ws_def)
  have low: "lower (ls_primitive s) \<noteq> []" "list_all (\<lambda>c. \<not> is_space c) (lower (ls_primitive s))"
    using assms(3,4) by (auto simp: lower_def list_all_iff is_space_to_lower)
  obtain r m where
    mo: "mark_options (ls_options s) ([1, word_token (ls_primitive s)] @ ?words @ [2]) [] = ([1, word_token (ls_primitive s)] @ r, m)"
      "mark_options (ls_options s) ([1, word_token (lower (ls_primitive s))] @ ?words @ [2]) [] =
        ([1, word_token (lower (ls_primitive s))] @ r, m)"
    using mark_options_length [of "[1, word_token (ls_primitive s)]" "[1, word_token (lower (ls_primitive s))]"
      "ls_options s" "?words @ [2]" "[]"] by auto
  have sp: "special ''cls'' = 1" "special ''sep'' = 2" by (simp_all add: SPECIAL_def)
  have lp: "li_prefix s = ([1, word_token (ls_primitive s)] @ r @ [2], m)"
    using mo(1) enc [OF assms(3,4)] by (simp add: li_prefix_def Let_def li_canon_eq li_mark_options_eq sp)
  have cp: "schema_prefix (lower (ls_primitive s) @ '' question: '' @ ls_instructions s) (ls_options s) =
      ([1, word_token (lower (ls_primitive s))] @ r @ [2], m)"
    using mo(2) enc [OF low] by (simp add: schema_prefix_def Let_def sp)
  obtain h where h: "schema_canonical (measured_schema s) (sha256 FIXTURE_TOKENIZER) = Inr h"
    and k: "lc_hash k = canon_finish h" "lc_tokenizer k = sha256 FIXTURE_TOKENIZER" "lc_prefix k = fst (li_prefix s)"
      "lc_markers k = snd (li_prefix s)" "length (fst (li_prefix s)) \<le> 64"
    using assms(1) unfolding compile_schema_eq [OF assms(2)] by (auto simp: res_iff split: if_splits)
  show ?thesis
    using h k lp cp by (simp add: compiled_schema_def measured_schema_def)
qed

lemma first_words:
  "length (split_ws ''Noul question: Does the customer ask for a refund?'') = 9"
  "length (split_ws ''false'') = 1" "length (split_ws ''true'') = 1"
  by code_simp+

lemma compiled_first: "\<exists>k. compile_schema (hd schemas) 1 = Inr k"
proof -
  have v: "ls_version (hd schemas) = 1" and m: "measured_schema (hd schemas) = hd SCHEMAS"
    by (simp_all add: schemas_def SCHEMAS_def measured_schema_def)
  have "length (fst (li_prefix (hd schemas))) = 16"
    using first_words
    by (simp add: li_prefix_def schemas_def Let_def li_canon_eq fixture_encode_words split: prod.split)
  moreover obtain h where "schema_canonical (hd SCHEMAS) (sha256 FIXTURE_TOKENIZER) = Inr h"
    using SCHEMAS_hashable [OF length_sha256, of "hd SCHEMAS"] by (auto simp: schema_canonical_Inr SCHEMAS_def)
  ultimately show ?thesis by (simp add: compile_schema_eq [OF v] m)
qed

theorem compile_schema_agrees_witness:
  "\<exists>k c toks. compile_schema (hd schemas) 1 = Inr k \<and>
     compiled_schema (hd SCHEMAS) (sha256 FIXTURE_TOKENIZER) = Inr c \<and> lc_hash k = compiled_hash c \<and>
     lc_prefix k = 1 # word_token ''Noul'' # toks \<and> compiled_prefix c = 1 # word_token ''noul'' # toks"
proof -
  obtain k where k: "compile_schema (hd schemas) 1 = Inr k" using compiled_first ..
  have s: "ls_version (hd schemas) = 1" "ls_primitive (hd schemas) = ''Noul''" "measured_schema (hd schemas) = hd SCHEMAS"
    by (simp_all add: schemas_def SCHEMAS_def measured_schema_def)
  have "lower ''Noul'' = ''noul''" "list_all (\<lambda>c. \<not> is_space c) ''Noul''" by code_simp+
  with compile_schema_agrees [OF k s(1)] s k show ?thesis by auto
qed

text \<open>A system in which a started network listens on port 4943.\<close>

definition started_text :: string where
  "started_text = ''{'' @ json_string ''managed'' @ '':true,'' @ json_string ''api_url'' @ '':'' @
     json_string ''http://localhost:4943'' @ ''}''"

lemma started_json:
  "read_status Inr started_text = Inr (JObj [(''managed'', JBool True), (''api_url'', JStr ''http://localhost:4943'')])"
  by code_simp

lemma started_port: "url_port ''http://localhost:4943'' = Inr (Some 4943)"
  by code_simp

definition answering :: "string list system" where
  "answering = \<lparr>
     sys_run = (\<lambda>_ _ w. (Inr (0, hd w, []), tl w)), sys_exists = (\<lambda>_. io_ret True), sys_read = (\<lambda>_. io_ret []),
     sys_write = (\<lambda>_ _. io_ret ()), sys_report = (\<lambda>_ _. io_ret ()), sys_token = (\<lambda>n. io_ret (replicate n 0)),
     sys_time_ns = io_ret 0, repo_root = ''/repo''\<rparr>"

definition port_args :: li_args where
  "port_args = \<lparr>l_keep = False, l_env = ''local'', l_identity = ''tester'', l_port = 8000, l_keep_state = False,
     l_skip_upgrade = False\<rparr>"

theorem port_mismatch_leaves_network_witness:
  "\<exists>e c. li_main (logged answering) port_args ([[], [], [], started_text], []) =
     (Inl e, ([], [status_command c, status_command c, start_command c, status_command c]))"
proof -
  let ?c = "new_icp answering (repo_root answering) (l_env port_args) (l_identity port_args)"
  let ?st = "JObj [(''managed'', JBool True), (''api_url'', JStr ''http://localhost:4943'')]"
  have run: "run answering ?c [''network'', v, x, y, z] ok OwnIdentity 300 (a # as) = (Inr a, as)" for v x y z ok a as
    by (simp add: run_def answering_def io_bind_def)
  have none: "any_network_status answering ?c ([] # as) = (Inr JNull, as)" for as
    using run [of _ _ _ _ _ "[]"] by (simp add: any_network_status_def io_bind_def read_status_def from_brace_def)
  have some: "any_network_status answering ?c [started_text] = (Inr ?st, [])"
    using run [of _ _ _ _ _ started_text "[]"] by (simp add: any_network_status_def io_bind_def started_json)
  have st: "remote_network JNull = Inr False" "usable_network JNull = Inr False" "usable_network ?st = Inr True"
    by (simp_all add: remote_network_def usable_network_def truthy_def)
  have start: "run answering ?c [''network'', ''start'', ''-d'', ''-e'', l_env port_args] True OwnIdentity 300 ([] # as) = (Inr [], as)"
    for as by (rule run)
  obtain e where e: "check_port ?st (l_port port_args) = Inl e"
    by (auto simp: check_port_def text_of_def started_port port_args_def)
  have ex: "sys_exists answering p w = (Inr True, w)" for p w by (simp add: answering_def)
  from port_mismatch_leaves_network [OF refl ex none st(1) none st(2) start some st(3) e, of "[]"]
  show ?thesis by auto
qed

end
