(* ===== verification/Batch_Planner.thy ===== *)
theory Batch_Planner
  imports PyText
begin

text \<open>
  \<open>plan_batches\<close> of \<open>tools/explore_query_conditions.py\<close>: the grouping of phases into queries that
  moves the fewest intermediate bytes, by dynamic programming from the last phase to the first.
\<close>

section \<open>The planner\<close>

text \<open>A plan from a phase on: the bytes, the calls and the widths of the calls.\<close>

type_synonym plan = "int \<times> int \<times> nat list"

text \<open>
  The inner loop over the ends \<open>j\<close> of the first group: \<open>cost\<close> is the cost up to before \<open>j\<close>, \<open>best\<close> the
  plans found so far, \<open>sizes\<close> the dict of state sizes.
\<close>

fun group_ends ::
  "int list \<Rightarrow> (nat \<Rightarrow> int option) \<Rightarrow> int \<Rightarrow> (nat \<Rightarrow> plan option) \<Rightarrow> nat \<Rightarrow> int \<Rightarrow> nat list \<Rightarrow> plan list res" where
  "group_ends costs sizes budget best i cost [] = Inr []"
| "group_ends costs sizes budget best i cost (j # js) =
     (let cost = cost + costs ! (j - 1)
      in if budget < cost then Inr []
         else case best j of
           None \<Rightarrow> group_ends costs sizes budget best i cost js
         | Some (bytes, calls, widths) \<Rightarrow>
             res_bind (if j < length costs
                       then res_bind (of_option (KeyError (nat_str j)) (sizes j)) (\<lambda>z. Inr (2 * z))
                       else Inr 0) (\<lambda>z.
             res_bind (group_ends costs sizes budget best i cost js) (\<lambda>ps.
               Inr ((bytes + z, calls + 1, (j - i) # widths) # ps))))"

text \<open>\<open>min(candidates, key=lambda v: v[:2])\<close>: the first one with the least bytes, then the fewest calls.\<close>

definition plan_less :: "plan \<Rightarrow> plan \<Rightarrow> bool" where
  "plan_less p q \<longleftrightarrow> fst p < fst q \<or> fst p = fst q \<and> fst (snd p) < fst (snd q)"

definition best_plan :: "plan list \<Rightarrow> plan option" where
  "best_plan ps = (case ps of [] \<Rightarrow> None | p # ps \<Rightarrow> Some (fold (\<lambda>q p. if plan_less q p then q else p) ps p))"

text \<open>\<open>for i in range(n - 1, -1, -1)\<close>: \<open>i\<close> phases are left to plan.\<close>

fun plan_from ::
  "int list \<Rightarrow> (nat \<Rightarrow> int option) \<Rightarrow> int \<Rightarrow> nat \<Rightarrow> nat \<Rightarrow> (nat \<Rightarrow> plan option) \<Rightarrow> (nat \<Rightarrow> plan option) res" where
  "plan_from costs sizes budget maximum 0 best = Inr best"
| "plan_from costs sizes budget maximum (Suc i) best =
     res_bind (group_ends costs sizes budget best i 0 [Suc i ..< Suc (min (length costs) (i + maximum))]) (\<lambda>candidates.
       plan_from costs sizes budget maximum i
         (case best_plan candidates of None \<Rightarrow> best | Some p \<Rightarrow> best(i := Some p)))"

definition plan_batches :: "int list \<Rightarrow> (nat \<Rightarrow> int option) \<Rightarrow> int \<Rightarrow> nat \<Rightarrow> nat list res" where
  "plan_batches costs sizes budget maximum =
     res_bind (plan_from costs sizes budget maximum (length costs) [length costs \<mapsto> (0, 0, [])]) (\<lambda>best.
       case best 0 of
         None \<Rightarrow> Inl (Failure ''a single phase exceeds the selected handler budget'')
       | Some (_, _, widths) \<Rightarrow> Inr widths)"

section \<open>What a schedule is\<close>

text \<open>
  A schedule from phase \<open>i\<close> on: groups of at most \<open>maximum\<close> phases, each within the budget, up to the
  last phase.  Its bytes are twice the state after each group but the last.
\<close>

definition group_cost :: "int list \<Rightarrow> nat \<Rightarrow> nat \<Rightarrow> int" where
  "group_cost costs i w = sum_list (take w (drop i costs))"

fun schedule :: "int list \<Rightarrow> int \<Rightarrow> nat \<Rightarrow> nat \<Rightarrow> nat list \<Rightarrow> bool" where
  "schedule costs budget maximum i [] = (i = length costs)"
| "schedule costs budget maximum i (w # ws) =
     (1 \<le> w \<and> w \<le> maximum \<and> i + w \<le> length costs \<and> group_cost costs i w \<le> budget \<and>
      schedule costs budget maximum (i + w) ws)"

fun schedule_bytes :: "int list \<Rightarrow> (nat \<Rightarrow> int option) \<Rightarrow> nat \<Rightarrow> nat list \<Rightarrow> int" where
  "schedule_bytes costs sizes i [] = 0"
| "schedule_bytes costs sizes i (w # ws) =
     (if i + w < length costs then 2 * the (sizes (i + w)) else 0) + schedule_bytes costs sizes (i + w) ws"

definition sizes_known :: "int list \<Rightarrow> (nat \<Rightarrow> int option) \<Rightarrow> bool" where
  "sizes_known costs sizes \<longleftrightarrow> (\<forall>j \<in> {1..<length costs}. sizes j \<noteq> None)"

text \<open>What the table holds of a phase: a schedule with its figures, and none is better.\<close>

definition optimal ::
  "int list \<Rightarrow> (nat \<Rightarrow> int option) \<Rightarrow> int \<Rightarrow> nat \<Rightarrow> nat \<Rightarrow> plan option \<Rightarrow> bool" where
  "optimal costs sizes budget maximum i p = (case p of
     None \<Rightarrow> \<not> (\<exists>ws. schedule costs budget maximum i ws)
   | Some (bytes, calls, ws) \<Rightarrow>
       schedule costs budget maximum i ws \<and> bytes = schedule_bytes costs sizes i ws \<and> calls = int (length ws) \<and>
       (\<forall>vs. schedule costs budget maximum i vs \<longrightarrow>
          bytes < schedule_bytes costs sizes i vs \<or>
          bytes = schedule_bytes costs sizes i vs \<and> length ws \<le> length vs))"

section \<open>The least plan\<close>

lemma best_plan_None [simp]: "best_plan ps = None \<longleftrightarrow> ps = []"
  by (simp add: best_plan_def split: list.split)

lemma fold_plan_least:
  "let m = fold (\<lambda>q p. if plan_less q p then q else p) ps p in
     (m = p \<or> m \<in> set ps) \<and> (\<forall>q \<in> insert p (set ps). \<not> plan_less q m)"
proof (induction ps arbitrary: p)
  case Nil
  then show ?case by (simp add: plan_less_def)
next
  case (Cons a ps)
  let ?p = "if plan_less a p then a else p"
  let ?m = "fold (\<lambda>q p. if plan_less q p then q else p) ps ?p"
  have ih: "?m = ?p \<or> ?m \<in> set ps" "\<forall>q \<in> insert ?p (set ps). \<not> plan_less q ?m"
    using Cons.IH [of ?p] by (simp_all add: Let_def)
  have trans: "plan_less x y \<Longrightarrow> \<not> plan_less z y \<Longrightarrow> \<not> plan_less z x \<or> plan_less z x \<and> plan_less z y" for x y z
    by (auto simp: plan_less_def)
  have "\<not> plan_less a ?m \<and> \<not> plan_less p ?m"
  proof (cases "plan_less a p")
    case True
    then have "\<not> plan_less a ?m" using ih(2) by simp
    moreover have "\<not> plan_less p ?m" using True \<open>\<not> plan_less a ?m\<close> by (auto simp: plan_less_def)
    ultimately show ?thesis by simp
  next
    case False
    then have "\<not> plan_less p ?m" using ih(2) by simp
    moreover have "\<not> plan_less a ?m" using False \<open>\<not> plan_less p ?m\<close> by (auto simp: plan_less_def)
    ultimately show ?thesis by simp
  qed
  then show ?case using ih by (auto simp: Let_def split: if_splits)
qed

lemma best_plan_Some:
  assumes "best_plan ps = Some m"
  shows "m \<in> set ps" and "q \<in> set ps \<Longrightarrow> \<not> plan_less q m"
proof -
  obtain p qs where ps: "ps = p # qs" and m: "m = fold (\<lambda>q p. if plan_less q p then q else p) qs p"
    using assms by (auto simp: best_plan_def split: list.splits)
  show "m \<in> set ps" "q \<in> set ps \<Longrightarrow> \<not> plan_less q m"
    using fold_plan_least [of qs p] unfolding m [symmetric] ps Let_def by auto
qed

section \<open>The table is optimal\<close>

lemma group_cost_0 [simp]: "group_cost costs i 0 = 0"
  by (simp add: group_cost_def)

lemma group_cost_Suc:
  "i + w < length costs \<Longrightarrow> group_cost costs i (Suc w) = group_cost costs i w + costs ! (i + w)"
  by (simp add: group_cost_def take_Suc_conv_app_nth)

lemma group_cost_mono:
  assumes "\<forall>c \<in> set costs. 0 \<le> c" and "w \<le> v"
  shows "group_cost costs i w \<le> group_cost costs i v"
proof -
  have "take v (drop i costs) = take w (drop i costs) @ take (v - w) (drop w (drop i costs))"
    using assms(2) by (metis le_add_diff_inverse take_add)
  moreover have "0 \<le> sum_list (take (v - w) (drop w (drop i costs)))"
    by (rule sum_list_nonneg) (meson assms(1) in_set_dropD in_set_takeD)
  ultimately show ?thesis by (simp add: group_cost_def)
qed

text \<open>The candidate that ends its first group before \<open>j\<close>.\<close>

definition candidate :: "int list \<Rightarrow> (nat \<Rightarrow> int option) \<Rightarrow> nat \<Rightarrow> nat \<Rightarrow> plan \<Rightarrow> plan" where
  "candidate costs sizes i j p =
     (fst p + (if j < length costs then 2 * the (sizes j) else 0), fst (snd p) + 1, (j - i) # snd (snd p))"

lemma collect_from_Suc:
  assumes "R j p" and only: "\<And>q. R j q \<Longrightarrow> q = p"
  shows "{f k q | k q. j \<le> k \<and> R k q} = insert (f j p) {f k q | k q. Suc j \<le> k \<and> R k q}"
proof (intro set_eqI iffI)
  fix x assume "x \<in> {f k q | k q. j \<le> k \<and> R k q}"
  then obtain k q where x: "x = f k q" "j \<le> k" "R k q" by blast
  then show "x \<in> insert (f j p) {f k q | k q. Suc j \<le> k \<and> R k q}"
    using only [of q] by (cases "k = j") (simp, metis (mono_tags, lifting) CollectI insertI2 le_neq_implies_less Suc_leI)
next
  fix x assume "x \<in> insert (f j p) {f k q | k q. Suc j \<le> k \<and> R k q}"
  then show "x \<in> {f k q | k q. j \<le> k \<and> R k q}" using assms(1) Suc_leD by blast
qed

lemma group_ends_candidates:
  assumes "sizes_known costs sizes" "\<forall>c \<in> set costs. 0 \<le> c" "i < j" "hi \<le> length costs"
  shows "\<exists>ps. group_ends costs sizes budget best i (group_cost costs i (j - 1 - i)) [j ..< Suc hi] = Inr ps \<and>
    set ps = {candidate costs sizes i k p | k p. j \<le> k \<and> k \<le> hi \<and> group_cost costs i (k - i) \<le> budget \<and> best k = Some p}"
  using assms(3)
proof (induction "Suc hi - j" arbitrary: j)
  case 0
  then show ?case by auto
next
  case (Suc n)
  have j: "[j ..< Suc hi] = j # [Suc j ..< Suc hi]" and jh: "j \<le> hi"
    using Suc.hyps(2) by (auto intro: upt_conv_Cons)
  have cost: "group_cost costs i (j - 1 - i) + costs ! (j - 1) = group_cost costs i (j - i)"
    using group_cost_Suc [of i "j - 1 - i" costs] Suc.prems jh assms(4) by (simp add: Suc_diff_Suc)
  obtain ps where ps: "group_ends costs sizes budget best i (group_cost costs i (j - i)) [Suc j ..< Suc hi] = Inr ps"
    and set_ps: "set ps = {candidate costs sizes i k p | k p. Suc j \<le> k \<and> k \<le> hi \<and> group_cost costs i (k - i) \<le> budget \<and> best k = Some p}"
  proof -
    have "\<exists>ps. group_ends costs sizes budget best i (group_cost costs i (Suc j - 1 - i)) [Suc j ..< Suc hi] = Inr ps \<and>
        set ps = {candidate costs sizes i k p | k p. Suc j \<le> k \<and> k \<le> hi \<and> group_cost costs i (k - i) \<le> budget \<and> best k = Some p}"
      by (rule Suc.hyps(1)) (use Suc.hyps(2) Suc.prems in arith)+
    then show ?thesis by (elim exE conjE) (rule that, simp_all del: upt_Suc split_paired_Ex)
  qed
  note step = group_ends.simps(2) [of costs sizes budget best i "group_cost costs i (j - 1 - i)" j "[Suc j ..< Suc hi]",
    unfolded cost Let_def, folded j]
  show ?case
  proof (cases "budget < group_cost costs i (j - i)")
    case True
    then have above: "budget < group_cost costs i (k - i)" if "j \<le> k" for k
      using group_cost_mono [OF assms(2), of "j - i" "k - i" i] that by (auto simp: diff_le_mono)
    show ?thesis unfolding step using True by (auto simp del: upt_Suc dest: above)
  next
    case False
    have known: "\<exists>z. sizes j = Some z" if "j < length costs"
      using assms(1) that Suc.prems by (auto simp: sizes_known_def)
    show ?thesis
    proof (cases "best j")
      case None
      then have "best k = Some p \<Longrightarrow> j \<le> k \<longleftrightarrow> Suc j \<le> k" for k p
        by (cases "k = j") auto
      then have "{candidate costs sizes i k p | k p. j \<le> k \<and> k \<le> hi \<and> group_cost costs i (k - i) \<le> budget \<and> best k = Some p}
          = set ps" unfolding set_ps by blast
      then show ?thesis unfolding step using False None ps by (simp del: upt_Suc split_paired_Ex)
    next
      case (Some p)
      have split: "{candidate costs sizes i k p | k p. j \<le> k \<and> k \<le> hi \<and> group_cost costs i (k - i) \<le> budget \<and> best k = Some p}
          = insert (candidate costs sizes i j p) (set ps)"
        unfolding set_ps by (rule collect_from_Suc) (use Some False jh in simp_all)
      show ?thesis unfolding step split using False Some ps known
        by (cases p) (auto simp: of_option_def candidate_def simp del: upt_Suc)
    qed
  qed
qed

lemma optimal_end: "optimal costs sizes budget maximum (length costs) (Some (0, 0, []))"
proof -
  have "schedule costs budget maximum (length costs) vs \<Longrightarrow> vs = []" for vs by (cases vs) auto
  then show ?thesis by (fastforce simp: optimal_def)
qed

text \<open>The least candidate is an optimal plan of phase \<open>i\<close>, when the table is optimal behind it.\<close>

lemma optimal_step:
  assumes opt: "\<And>k. i < k \<Longrightarrow> k \<le> length costs \<Longrightarrow> optimal costs sizes budget maximum k (best k)"
    and i: "i < length costs"
    and ps: "set ps = {candidate costs sizes i k p | k p.
      Suc i \<le> k \<and> k \<le> min (length costs) (i + maximum) \<and> group_cost costs i (k - i) \<le> budget \<and> best k = Some p}"
  shows "optimal costs sizes budget maximum i (best_plan ps)"
proof -
  have reach: "\<exists>p. candidate costs sizes i (i + w) p \<in> set ps \<and>
      (fst p < schedule_bytes costs sizes (i + w) ws \<or>
       fst p = schedule_bytes costs sizes (i + w) ws \<and> fst (snd p) \<le> int (length ws))"
    if s: "schedule costs budget maximum i (w # ws)" for w ws
  proof -
    have o: "optimal costs sizes budget maximum (i + w) (best (i + w))" using s by (intro opt) auto
    then obtain p where p: "best (i + w) = Some p"
      using s by (cases "best (i + w)") (auto simp: optimal_def)
    have "candidate costs sizes i (i + w) p \<in> set ps"
      unfolding ps by (rule CollectI, rule exI [of _ "i + w"], rule exI [of _ p]) (use p s in simp)
    moreover have "schedule costs budget maximum (i + w) ws" using s by simp
    ultimately show ?thesis using o p by (intro exI [of _ p]) (cases p, auto simp: optimal_def)
  qed
  have nonempty: "\<exists>w ws. vs = w # ws" if "schedule costs budget maximum i vs" for vs
    using that i by (cases vs) auto
  show ?thesis
  proof (cases "best_plan ps")
    case None
    then have "\<not> schedule costs budget maximum i vs" for vs
      using nonempty [of vs] reach by (metis best_plan_None empty_iff list.set(1))
    then show ?thesis unfolding None by (simp add: optimal_def)
  next
    case (Some m)
    note mem = best_plan_Some(1) [OF Some] and least = best_plan_Some(2) [OF Some]
    obtain k b c us where k: "Suc i \<le> k" "k \<le> min (length costs) (i + maximum)" "group_cost costs i (k - i) \<le> budget"
      and bk: "best k = Some (b, c, us)" and m: "m = candidate costs sizes i k (b, c, us)"
      using mem unfolding ps by auto
    have o: "optimal costs sizes budget maximum k (Some (b, c, us))" using opt [of k] k bk by simp
    have "b + (if k < length costs then 2 * the (sizes k) else 0) < schedule_bytes costs sizes i vs \<or>
        b + (if k < length costs then 2 * the (sizes k) else 0) = schedule_bytes costs sizes i vs \<and> Suc (length us) \<le> length vs"
      if "schedule costs budget maximum i vs" for vs
    proof -
      note s = that
      obtain w ws where vs: "vs = w # ws" using nonempty [OF s] by blast
      obtain p where p: "candidate costs sizes i (i + w) p \<in> set ps"
        "fst p < schedule_bytes costs sizes (i + w) ws \<or>
         fst p = schedule_bytes costs sizes (i + w) ws \<and> fst (snd p) \<le> int (length ws)"
        using reach s vs by blast
      have "c = int (length us)" using o by (simp add: optimal_def)
      then show ?thesis using least [OF p(1)] p(2)
        unfolding m vs by (auto simp: plan_less_def candidate_def)
    qed
    then show ?thesis using o k i unfolding Some m
      by (auto simp: optimal_def candidate_def)
  qed
qed

lemma plan_from_optimal:
  assumes "sizes_known costs sizes" "\<forall>c \<in> set costs. 0 \<le> c"
    and "i \<le> length costs"
    and "\<forall>k. i \<le> k \<longrightarrow> k \<le> length costs \<longrightarrow> optimal costs sizes budget maximum k (best k)"
    and "\<forall>k < i. best k = None"
  shows "\<exists>t. plan_from costs sizes budget maximum i best = Inr t \<and>
    (\<forall>k \<le> length costs. optimal costs sizes budget maximum k (t k))"
  using assms(3-5)
proof (induction i arbitrary: best)
  case 0
  then show ?case by simp
next
  case (Suc i)
  let ?hi = "min (length costs) (i + maximum)"
  obtain ps where ps: "group_ends costs sizes budget best i 0 [Suc i ..< Suc ?hi] = Inr ps"
    and set_ps: "set ps = {candidate costs sizes i k p | k p. Suc i \<le> k \<and> k \<le> ?hi \<and> group_cost costs i (k - i) \<le> budget \<and> best k = Some p}"
    using group_ends_candidates [OF assms(1,2), of i "Suc i" ?hi budget best]
    by (auto simp del: upt_Suc split_paired_Ex)
  have opt: "optimal costs sizes budget maximum i (best_plan ps)"
    by (rule optimal_step [OF _ _ set_ps]) (use Suc.prems in auto)
  let ?best = "case best_plan ps of None \<Rightarrow> best | Some p \<Rightarrow> best(i := Some p)"
  have at: "?best i = best_plan ps" and off: "\<And>k. k \<noteq> i \<Longrightarrow> ?best k = best k"
    using Suc.prems(3) by (cases "best_plan ps"; simp del: best_plan_None)+
  have now: "optimal costs sizes budget maximum k (?best k)" if "i \<le> k" "k \<le> length costs" for k
    using that opt Suc.prems(2) at off [of k] by (cases "k = i") simp_all
  have "\<exists>t. plan_from costs sizes budget maximum i ?best = Inr t \<and>
    (\<forall>k \<le> length costs. optimal costs sizes budget maximum k (t k))"
    by (rule Suc.IH) (use Suc.prems now off in auto)
  then show ?case using ps by simp
qed

text \<open>
  C5: \<open>plan_batches\<close> is right.  When every state size is known and no cost is negative, it returns the
  widths of a schedule that no schedule beats in bytes moved, nor in calls at the same bytes; and it
  raises exactly when there is no schedule at all, with the message of the tool.
\<close>

theorem plan_batches_optimal:
  assumes "sizes_known costs sizes" and "\<forall>c \<in> set costs. 0 \<le> c"
  shows "case plan_batches costs sizes budget maximum of
    Inl e \<Rightarrow> e = Failure ''a single phase exceeds the selected handler budget'' \<and>
             \<not> (\<exists>ws. schedule costs budget maximum 0 ws)
  | Inr ws \<Rightarrow> schedule costs budget maximum 0 ws \<and>
      (\<forall>vs. schedule costs budget maximum 0 vs \<longrightarrow>
         schedule_bytes costs sizes 0 ws < schedule_bytes costs sizes 0 vs \<or>
         schedule_bytes costs sizes 0 ws = schedule_bytes costs sizes 0 vs \<and> length ws \<le> length vs)"
proof -
  let ?n = "length costs"
  have "\<forall>k. ?n \<le> k \<longrightarrow> k \<le> ?n \<longrightarrow> optimal costs sizes budget maximum k ([?n \<mapsto> (0, 0, [])] k)"
    using optimal_end by simp
  then obtain t where t: "plan_from costs sizes budget maximum ?n [?n \<mapsto> (0, 0, [])] = Inr t"
    and "optimal costs sizes budget maximum 0 (t 0)"
    using plan_from_optimal [OF assms order_refl, of budget maximum "[?n \<mapsto> (0, 0, [])]"] by auto
  then show ?thesis by (auto simp: plan_batches_def optimal_def split: option.splits)
qed

lemma plan_batches_optimal_witness:
  "plan_batches [3, 4, 5, 2] [1 \<mapsto> 10, 2 \<mapsto> 7, 3 \<mapsto> 9] 9 16 = Inr [2, 2] \<and>
   schedule_bytes [3, 4, 5, 2] [1 \<mapsto> 10, 2 \<mapsto> 7, 3 \<mapsto> 9] 0 [2, 2] = 14 \<and>
   \<not> (\<exists>vs. schedule [3, 4, 5, 2] 9 16 0 vs \<and>
      schedule_bytes [3, 4, 5, 2] [1 \<mapsto> 10, 2 \<mapsto> 7, 3 \<mapsto> 9] 0 vs < 14)"
proof -
  have known: "sizes_known [3, 4, 5, 2] [1 \<mapsto> 10, 2 \<mapsto> 7, 3 \<mapsto> (9::int)]"
    by (auto simp: sizes_known_def less_Suc_eq numeral_eq_Suc)
  have run: "plan_batches [3, 4, 5, 2] [1 \<mapsto> 10, 2 \<mapsto> 7, 3 \<mapsto> 9] 9 16 = Inr [2, 2]"
    by code_simp
  have bytes: "schedule_bytes [3, 4, 5, 2] [1 \<mapsto> 10, 2 \<mapsto> 7, 3 \<mapsto> 9] 0 [2, 2] = 14"
    by code_simp
  show ?thesis
    using plan_batches_optimal [OF known, of 9 16] unfolding run sum.case bytes by fastforce
qed

end
