(* ===== verification/Planned_Run.thy ===== *)
theory Planned_Run
  imports Batch_Planner Query_Session
begin

text \<open>
  \<open>payload_bytes\<close> and \<open>checked_run\<close> of \<open>tools/explore_query_conditions.py\<close>: one inference over the
  client-held queries that follows a batch schedule exactly, and is refused when it did not.
\<close>

section \<open>The run\<close>

definition payload_bytes :: "query_result \<Rightarrow> nat" where
  "payload_bytes r = result_request_bytes r + result_response_bytes r"

text \<open>\<open>for width in steps\<close>\<close>

fun run_widths :: "('w, 'z) channel \<Rightarrow> nat list \<Rightarrow> session \<Rightarrow> 'w \<Rightarrow> unit res \<times> session \<times> 'w" where
  "run_widths ch [] s w = (Inr (), s, w)"
| "run_widths ch (n # ns) s w =
     (case prog s of
        None \<Rightarrow> (Inl TypeError, s, w)
      | Some p \<Rightarrow>
          if is_done p then (Inl (Failure ''plan has extra phases''), s, w)
          else case advance ch (s\<lparr>steps := int n\<rparr>) w of
                 (Inl e, t, w') \<Rightarrow> (Inl e, t, w')
               | (Inr _, t, w') \<Rightarrow> run_widths ch ns t w')"

text \<open>\<open>result["logits"] != expected\<close>: a NaN differs from every number.\<close>

definition same_logits :: "fl list \<Rightarrow> fl list \<Rightarrow> bool" where
  "same_logits = list_all2 (\<lambda>x y. x = y \<and> x \<noteq> NaN)"

text \<open>The result comes with its \<open>requested_batch_schedule\<close>.\<close>

definition checked_run ::
  "('w, 'z) channel \<Rightarrow> json \<Rightarrow> string \<Rightarrow> nat list \<Rightarrow> fl list \<Rightarrow> 'w \<Rightarrow> (query_result \<times> nat list) res \<times> 'w" where
  "checked_run ch j mode widths expected w =
     (case widths of
        [] \<Rightarrow> (Inl IndexError, w)
      | n # _ \<Rightarrow>
        (case new_session j (Some (int n)) 2 mode ''none'' of
           Inl e \<Rightarrow> (Inl e, w)
         | Inr s0 \<Rightarrow>
         (case advance ch s0 w of
            (Inl e, _, w1) \<Rightarrow> (Inl e, w1)
          | (Inr _, s1, w1) \<Rightarrow>
          (case run_widths ch widths s1 w1 of
             (Inl e, _, w2) \<Rightarrow> (Inl e, w2)
           | (Inr _, s2, w2) \<Rightarrow>
               if \<not> finished s2 then (Inl (Failure ''plan is incomplete''), w2)
               else
                 (case finish ch s2 w2 of
                    (Inl e, _, w3) \<Rightarrow> (Inl e, w3)
                  | (Inr result, _, w3) \<Rightarrow>
                      if result_failed result \<noteq> [] then (Inl (Failure ''planned inference needed a retry''), w3)
                      else if \<not> same_logits (result_logits result) expected
                      then (Inl (Failure ''grouping changed logits''), w3)
                      else (Inr (result, widths), w3))))))"

section \<open>Runs without a failed attempt\<close>

lemma attempt_loop_clean:
  "attempt_loop ch command meth beginning payload attempts s w = (r, t, w') \<Longrightarrow>
   length (failed_attempts s) \<le> length (failed_attempts t) \<and>
   (length (failed_attempts t) = length (failed_attempts s) \<longrightarrow> t = s)"
proof (induction ch command meth beginning payload attempts s w rule: attempt_loop.induct)
  case (1 ch command meth beginning payload attempts s w)
  note step = attempt_loop.simps [of ch command meth beginning payload attempts s w]
  obtain q w1 where q: "run_icp ch command payload w = (q, w1)" by fastforce
  show ?case
  proof (cases q)
    case (Inr reply)
    then show ?thesis using "1.prems" q unfolding step by simp
  next
    case (Inl e)
    let ?s1 = "record_failure meth payload e s"
    let ?limit = "instruction_limit e \<and> (\<not> beginning \<or> fused_begin ?s1) \<and> 1 < steps ?s1"
    consider "\<not> caught e"
      | payload' where "caught e" ?limit "smaller_payload beginning (halve_steps ?s1) = Inr payload'"
      | e' where "caught e" ?limit "smaller_payload beginning (halve_steps ?s1) = Inl e'"
      | "caught e" "\<not> ?limit" "\<not> transient_failure e \<or> retries ?s1 \<le> attempts"
      | "caught e" "\<not> ?limit" "\<not> (\<not> transient_failure e \<or> retries ?s1 \<le> attempts)"
      by (cases "smaller_payload beginning (halve_steps ?s1)") blast+
    then show ?thesis
    proof cases
      case 1
      then show ?thesis using "1.prems" q Inl unfolding step by simp
    next
      case 2
      have "attempt_loop ch command meth beginning payload' attempts (halve_steps ?s1) w1 = (r, t, w')"
        using "1.prems"(1) q Inl 2 unfolding step Let_def by auto
      from "1.IH"(1) [OF q [symmetric] Inl _ refl 2(2,3) this] 2(1) show ?thesis by auto
    next
      case 3
      then show ?thesis using "1.prems" q Inl unfolding step by auto
    next
      case 4
      then show ?thesis using "1.prems" q Inl unfolding step Let_def by auto
    next
      case 5
      have "attempt_loop ch command meth beginning payload (attempts + 1) ?s1 w1 = (r, t, w')"
        using "1.prems"(1) q Inl 5 unfolding step Let_def by auto
      from "1.IH"(2) [OF q [symmetric] Inl _ refl 5(2,3) this] 5(1) show ?thesis by auto
    qed
  qed
qed

text \<open>A step of a session of fixed width that needed no retry was made at that width.\<close>

lemma advance_clean:
  assumes a: "advance ch s w = (Inr nx, t, w')" and fixed: "\<not> auto s"
  shows "length (failed_attempts s) \<le> length (failed_attempts t)"
    and "failed_attempts t = [] \<Longrightarrow> steps t = steps s"
    and "failed_attempts t = [] \<Longrightarrow> \<exists>c. calls t = calls s @ [c] \<and>
      call_steps c = (if prog s = None \<and> \<not> fused_begin s then 0 else steps s)"
proof -
  obtain s1 payload s2 s3 reply sent where r: "choose_width s = Inr s1"
    "attempt_loop ch (query_command ch (query_method s1)) (query_method s1) (prog s1 = None) payload 0 s1 w =
       (Inr (reply, sent), s2, w')"
    "check_reply s2 nx = (Inr (), s3)"
    "t = s3\<lparr>calls := calls s3 @ [call_of (query_method s1) s2 nx sent], prog := Some nx\<rparr>"
    by (rule advance_okE [OF a])
  have s1: "s1 = s" using r(1) fixed by (simp add: choose_width_def)
  note l = attempt_loop_clean [OF r(2)] and k = check_reply_frame [OF r(3)]
  show "length (failed_attempts s) \<le> length (failed_attempts t)" using l k r(4) s1 by simp
  show "steps t = steps s" if "failed_attempts t = []" using that l k r(4) s1 by simp
  show "\<exists>c. calls t = calls s @ [c] \<and> call_steps c = (if prog s = None \<and> \<not> fused_begin s then 0 else steps s)"
    if "failed_attempts t = []"
    using that l k r(4) s1 by (simp add: call_of_def same_inference_def)
qed

text \<open>What a run over \<open>ns\<close> did, from a session with progress \<open>p\<close>.\<close>

lemma run_widths_clean:
  assumes "run_widths ch ns s w = (Inr (), t, w')" "prog s = Some p" "\<not> auto s" "\<not> direct s"
    and "failed_attempts t = []" "completed p \<le> total_phases p"
  shows "failed_attempts s = [] \<and> \<not> auto t \<and> \<not> direct t \<and> inp t = inp s \<and>
    map call_steps (calls t) = map call_steps (calls s) @ map int ns \<and>
    (\<forall>n \<in> set ns. 1 \<le> n \<and> n \<le> 16) \<and>
    (\<exists>q. prog t = Some q \<and> total_phases q = total_phases p \<and>
      completed q = min (completed p + int (sum_list ns)) (total_phases p) \<and>
      (ns \<noteq> [] \<longrightarrow> is_done q = (completed q = total_phases q) \<and> \<not> is_done p) \<and>
      (ns = [] \<longrightarrow> q = p)) \<and>
    (ns \<noteq> [] \<longrightarrow> is_done p = (completed p = total_phases p) \<longrightarrow>
      completed p + int (sum_list (butlast ns)) < total_phases p) \<and>
    (session_ok s \<longrightarrow> session_ok t)"
  using assms
proof (induction ns arbitrary: s w p)
  case Nil
  then show ?case by simp
next
  case (Cons n ns)
  note fixed = Cons.prems(3,4)
  obtain nx u w1 where d: "\<not> is_done p" and a: "advance ch (s\<lparr>steps := int n\<rparr>) w = (Inr nx, u, w1)"
    and run: "run_widths ch ns u w1 = (Inr (), t, w')"
    using Cons.prems(1,2) by (auto split: if_splits sum.splits prod.splits)
  note ok = advance_ok [OF a] and cl = advance_clean [OF a]
  have nx: "prog u = Some nx" and u: "\<not> auto u" "\<not> direct u" "inp u = inp s"
    using ok(1,4) fixed by simp_all
  note ih = Cons.IH [OF run nx u(1,2) Cons.prems(5) ok(6)]
  have clean: "failed_attempts u = []" using ih by simp
  then have s: "failed_attempts s = []" using cl(1) fixed by simp
  have st: "steps u = int n" using cl(2) fixed clean by simp
  have comp: "completed nx = min (completed p + int n) (total_phases p)" "1 \<le> n" "n \<le> 16"
    using ok(9) [of p] Cons.prems(2) fixed st by simp_all
  have tot: "total_phases nx = total_phases p" using ok(8) [of p] Cons.prems(2) by simp
  have wf: "session_ok u" if "session_ok s"
  proof (rule session_ok_advance [OF a])
    show "session_ok (s\<lparr>steps := int n\<rparr>)"
      using that comp(3) Cons.prems(2) by (simp add: session_ok_def progress_ok_def)
  qed
  have calls: "map call_steps (calls u) = map call_steps (calls s) @ [int n]"
    using cl(3) fixed clean Cons.prems(2) by auto
  have more: "completed p + int (sum_list (butlast (n # ns))) < total_phases p"
    if "is_done p = (completed p = total_phases p)"
  proof (cases "ns = []")
    case True
    then show ?thesis using that d Cons.prems(6) by simp
  next
    case False
    then have "completed nx + int (sum_list (butlast ns)) < total_phases nx" using ih ok(7) by simp
    then show ?thesis using False comp tot by (simp add: min_def split: if_splits)
  qed
  obtain q where q: "prog t = Some q" "total_phases q = total_phases nx"
    "completed q = min (completed nx + int (sum_list ns)) (total_phases nx)"
    "ns \<noteq> [] \<longrightarrow> is_done q = (completed q = total_phases q)" "ns = [] \<longrightarrow> q = nx"
    using ih by blast
  have "is_done q = (completed q = total_phases q)" using q ok(7) by (cases "ns = []") auto
  moreover have "completed q = min (completed p + int (sum_list (n # ns))) (total_phases p)"
    using q(3) comp tot by (auto simp: min_def)
  ultimately have "\<exists>q. prog t = Some q \<and> total_phases q = total_phases p \<and>
      completed q = min (completed p + int (sum_list (n # ns))) (total_phases p) \<and>
      is_done q = (completed q = total_phases q)"
    using q tot by auto
  then show ?case using ih s calls comp u d more wf by auto
qed

lemma finish_finished: "finished s \<Longrightarrow> finish ch s w = (summarize s, s, w)"
  by (simp add: finish_def finish_loop.simps)

lemma summarize_Inr:
  "summarize s = Inr r \<Longrightarrow> result_query_calls r = calls s \<and> result_calls r = length (calls s) \<and>
     result_failed r = failed_attempts s \<and> (\<exists>p. prog s = Some p \<and> result_logits r = plogits p)"
  by (auto simp: summarize_def res_iff split: option.splits if_splits)

lemma new_session_fixed:
  "new_session j (Some n) tries mode compr = Inr s \<Longrightarrow>
     steps s = n \<and> \<not> auto s \<and> \<not> direct s \<and> \<not> fused_begin s \<and> prog s = None \<and> calls s = [] \<and> inp s = j"
  by (auto simp: new_session_def split: if_splits)

text \<open>
  C15: a checked run that returns followed its schedule exactly.  It made one call to begin and one
  for each width, at that width and in that order, none was retried; the last call, and no
  earlier one, completes all phases; and the logits are those expected.
\<close>

theorem checked_run_follows_plan:
  assumes "checked_run ch j mode widths expected w = (Inr (res, requested), w')"
  shows "requested = widths \<and> map call_steps (result_query_calls res) = 0 # map int widths \<and>
    (\<forall>n \<in> set widths. 1 \<le> n \<and> n \<le> 16) \<and>
    result_failed res = [] \<and> same_logits (result_logits res) expected \<and>
    (\<exists>phases. call_completed (last (result_query_calls res)) = phases \<and>
       int (sum_list (butlast widths)) < phases \<and> phases \<le> int (sum_list widths)) \<and>
    res_bind (item ''markers'' j) py_len = Inr (length (result_logits res))"
proof -
  obtain n rest0 where widths: "widths = n # rest0" using assms by (auto simp: checked_run_def split: list.splits)
  obtain s0 nx s1 w1 s2 w2 s3 w3 where
    new: "new_session j (Some (int n)) 2 mode ''none'' = Inr s0"
    and a: "advance ch s0 w = (Inr nx, s1, w1)"
    and run: "run_widths ch widths s1 w1 = (Inr (), s2, w2)"
    and fin: "finished s2" "finish ch s2 w2 = (Inr res, s3, w3)"
    and last: "result_failed res = []" "same_logits (result_logits res) expected" "requested = widths"
    using assms unfolding widths checked_run_def list.case
    by (auto split: sum.splits prod.splits if_splits)
  note s0 = new_session_fixed [OF new] and ok = advance_ok [OF a]
  have r: "summarize s2 = Inr res" using fin(2) unfolding finish_finished [OF fin(1)] by (elim Pair_inject)
  note sum = summarize_Inr [OF r]
  then have clean: "failed_attempts s2 = []" using last(1) by simp
  have begun: "\<not> auto s1" "\<not> direct s1" "inp s1 = j" "completed nx = 0"
    using ok(4,10) s0 by simp_all
  note plan = run_widths_clean [OF run ok(1) begun(1,2) clean ok(6)]
  have "map call_steps (calls s1) = [0]"
    using advance_clean(3) [OF a] s0 plan by auto
  then have calls: "map call_steps (calls s2) = 0 # map int widths" using plan by simp
  obtain q where q: "prog s2 = Some q" "completed q = min (int (sum_list widths)) (total_phases nx)"
    "total_phases q = total_phases nx" "is_done q = (completed q = total_phases q)"
    using plan begun(4) widths by auto
  have over: "is_done q" using fin(1) q(1) by (simp add: finished_def)
  have before: "int (sum_list (butlast widths)) < total_phases nx"
    using plan begun(4) ok(7) widths by simp
  have ok2: "session_ok s2"
    using plan session_ok_advance [OF a new_session_ok [OF new]] by simp
  have "call_completed (last (calls s2)) = completed q"
    using ok2 q(1) by (simp add: session_ok_def progress_ok_def)
  moreover have "res_bind (item ''markers'' j) py_len = Inr (length (plogits q))"
    using ok2 q(1) over plan begun(3) by (simp add: session_ok_def progress_ok_def)
  ultimately show ?thesis using last calls sum q over before plan by auto
qed

text \<open>A begin reply: one phase to go, of a model named by 32 letters.\<close>

definition begin_state :: bytes where
  "begin_state = LAYQ @ [1, 0, 0, 0, 1, 0, 0, 0] @ replicate 32 97 @ [0, 0, 0, 0, 0, 0, 0, 0, 1, 0, 0, 0, 2, 0, 0, 0] @
     replicate 12 7"

definition begin_reply :: string where
  "begin_reply = ''variant{Ok=variant{Continue=record{completed=0;total=1;instructions=3;state='' @ blob begin_state @ ''}}}''"

lemma begin_reply_ok: "found (rx_variant ''Ok'') begin_reply"
  by code_simp

lemma begin_reply_more: "\<not> found (rx_variant ''Done'') begin_reply"
  by code_simp

lemma begin_reply_continue: "found (rx_variant ''Continue'') begin_reply"
  by code_simp

lemma begin_reply_completed: "map_option (group 1) (search (rx_field WordB ''completed'') begin_reply) = Some ''0''"
  by code_simp

lemma begin_reply_total: "map_option (group 1) (search (rx_field WordB ''total'') begin_reply) = Some ''1''"
  by code_simp

lemma begin_reply_instructions: "map_option (group 1) (search (rx_field WordB ''instructions'') begin_reply) = Some ''3''"
  by code_simp

lemma begin_reply_blob: "decode_blobs begin_reply = Inr [begin_state]"
  unfolding begin_reply_def append_assoc [symmetric]
  by (subst append_assoc, rule decode_blobs_one(1)) (simp_all add: contains_def)

lemma begin_state_parts:
  "length begin_state = 72" "take 4 begin_state = LAYQ" "starts_with LAYZ begin_state = False" "LAYQ \<noteq> LAYI"
  "u32_at 4 begin_state = Inr 1" "u32_at 8 begin_state = Inr 1" "u32_at 44 begin_state = Inr 0"
  "u32_at 52 begin_state = Inr 1" "u32_at 56 begin_state = Inr 2"
  "take 32 (drop 12 begin_state) = replicate 32 97"
  by code_simp+

lemma begin_reply_state:
  "decode_state stored_step Start begin_state 0 = Inr (72, hex (replicate 32 97), ''f32'')"
  using begin_state_parts
  by (simp add: decode_state_def inspect_state_def check_header_def MAX_STATE_BYTES_def Let_def u32_at_take drop_take)

lemma replies_read: "read_number ''0'' = Inr 0" "read_number ''3'' = Inr 3"
  by (simp_all add: read_number_def py_int_def parse_unsigned_def remove_char_def strip_def lstrip_def
      is_space_def digit_val_def is_digit_def Let_def)

lemma progress_field_found:
  "map_option (group 1) (search (rx_field WordB key) reply) = Some v \<Longrightarrow> progress_field reply key = read_number v"
  by (auto simp: progress_field_def)

lemmas begin_reply_fields = begin_reply_completed [THEN progress_field_found] begin_reply_total [THEN progress_field_found]
  begin_reply_instructions [THEN progress_field_found]

lemma begin_reply_read:
  "decode_progress stored_step Start begin_reply = Inr \<lparr>is_done = False, completed = 0, total_phases = 1,
     instructions = 3, plogits = [], pstate = Some begin_state, raw_state_bytes = 72,
     pbundle = hex (replicate 32 97), pformat = ''f32''\<rparr>"
  by (simp only: decode_progress_def begin_reply_ok begin_reply_more begin_reply_continue begin_reply_fields
      replies_read sample_numbers begin_reply_blob one_blob_def begin_reply_state Let_def res_bind_simps
      not_True_eq_False not_False_eq_True simp_thms if_False if_True list.case prod.case)

text \<open>A channel that answers the begin query and then the one continuation, each by its name.\<close>

definition one_phase :: "(unit, stored) channel" where
  "one_phase = (always (Inr []))\<lparr>run_icp := \<lambda>command _ w.
     (if command ! 3 = ''begin_token_inference_query'' then (Inr begin_reply, w) else (Inr done_reply, w))\<rparr>"

lemma one_phase_simps [simp]: "zstep one_phase = stored_step" "zinit one_phase = Start"
  by (simp_all add: one_phase_def always_def)

theorem checked_run_follows_plan_witness:
  "\<exists>res. checked_run one_phase sample_input ''f32'' [2] [Fin 2, Fin 1] () = (Inr (res, [2]), ()) \<and>
     map call_steps (result_query_calls res) = [0, 2] \<and> result_failed res = []"
proof -
  obtain s0 where new: "new_session sample_input (Some 2) 2 ''f32'' ''none'' = Inr s0"
    and s0: "s0 = \<lparr>inp = sample_input, steps = 2, auto = False, auto_cap = 16, compression = ''none'', direct = False,
      fused_begin = False, prog = None, calls = [], session_bundle = None, retries = 2, failed_attempts = [],
      activation_format = ''f32''\<rparr>"
    by (simp add: new_session_def)
  let ?p = "\<lparr>is_done = False, completed = 0, total_phases = 1, instructions = 3, plogits = [], pstate = Some begin_state,
    raw_state_bytes = 72, pbundle = hex (replicate 32 97), pformat = ''f32''\<rparr> :: progress"
  let ?q = "\<lparr>is_done = True, completed = 1, total_phases = 1, instructions = 5, plogits = [Fin 2, Fin 1],
    pstate = None, raw_state_bytes = 0, pbundle = [], pformat = []\<rparr> :: progress"
  obtain b where b: "request_payload s0 = Inr b"
    using encode_input_ok [OF sample_request, of None] by (auto simp: s0 request_payload_def)
  have first: "read_reply one_phase s0 begin_reply = Inr ?p"
    by (simp add: read_reply_def s0 begin_reply_read)
  have m0: "query_method s0 = ''begin_token_inference_query''"
    by (simp add: query_method_def s0)
  obtain s1 where a: "advance one_phase s0 () = (Inr ?p, s1, ())"
    and s1: "s1 = s0\<lparr>session_bundle := Some (hex (replicate 32 97)), prog := Some ?p,
      calls := [call_of ''begin_token_inference_query'' s0 ?p b]\<rparr>"
    using first b m0
    by (simp add: advance_def finished_def choose_width_def s0 Let_def attempt_loop.simps query_command_def
        one_phase_def check_reply_def expected_completed_def)
  let ?s = "s1\<lparr>steps := 2\<rparr>"
  obtain c where c: "request_payload ?s = Inr c"
    by (auto simp: s1 s0 request_payload_def continue_payload_def encode_continue_Inr)
  have second: "read_reply one_phase ?s done_reply = Inr ?q"
    by (rule done_reply_read) (simp add: s1 s0)
  have m1: "query_method ?s = ''continue_token_inference_query''"
    by (simp add: query_method_def s1 s0)
  obtain s2 where a2: "advance one_phase ?s () = (Inr ?q, s2, ())"
    and s2: "prog s2 = Some ?q" "failed_attempts s2 = []" "inp s2 = sample_input" "calls s2 \<noteq> []"
    using second c m1
    by (simp add: advance_def finished_def choose_width_def s0 s1 Let_def attempt_loop.simps query_command_def
        one_phase_def check_reply_def expected_completed_def sample_input_def)
  have run: "run_widths one_phase [2] s1 () = (Inr (), s2, ())"
    using a2 by (simp add: s1)
  obtain res where sum: "summarize s2 = Inr res" "result_logits res = [Fin 2, Fin 1]" "result_failed res = []"
    using s2 by (auto simp: summarize_def input_length_def sample_input_def)
  have fin: "finished s2" using s2 by (simp add: finished_def)
  have r: "checked_run one_phase sample_input ''f32'' [2] [Fin 2, Fin 1] () = (Inr (res, [2]), ())"
    using new a run fin finish_finished [OF fin, of one_phase "()"] sum
    by (simp add: checked_run_def same_logits_def)
  from checked_run_follows_plan [OF r] r show ?thesis by auto
qed

end
