(* ===== verification/Sns_Triage.thy ===== *)
theory Sns_Triage
  imports Canister_Infer
begin

text \<open>
  \<open>tools/sns_proposal_triage.py\<close>: the review priority of a proposal to an SNS, from its structured
  action and the parameter values in its rendering, and the supplementary advisory.  \<open>str\<close> of a
  value that is not a number, a text or a boolean is the parameter \<open>shown\<close>.
\<close>

section \<open>Numbers and the rendering\<close>

definition EXTREME_FACTOR :: int where "EXTREME_FACTOR = 1000"
definition REVIEW_FACTOR :: int where "REVIEW_FACTOR = 10"

definition PARAMETERS :: "(string \<times> string) list" where
  "PARAMETERS =
     [(''neuron_minimum_dissolve_delay_to_vote_seconds'', ''minimum voting dissolve delay''),
      (''max_dissolve_delay_seconds'', ''maximum dissolve delay''),
      (''neuron_minimum_stake_e8s'', ''minimum neuron stake'')]"

definition positive_int :: "json \<Rightarrow> bool" where
  "positive_int j = (case j of JInt n \<Rightarrow> 0 < n | _ \<Rightarrow> False)"

text \<open>A quotient of decimals keeps 28 significant digits, rounded half to even.\<close>

definition decimal_round :: "nat \<Rightarrow> nat" where
  "decimal_round n =
     (let k = length (nat_str n) - 28; q = n div 10 ^ k; r = n mod 10 ^ k
      in if k = 0 then n
         else (if 10 ^ k < 2 * r \<or> 2 * r = 10 ^ k \<and> odd q then q + 1 else q) * 10 ^ k)"

text \<open>\<open>format(Decimal(e8s) / Decimal(100_000_000), ",.8f")\<close> with the trailing zeros and point cut.\<close>

definition tokens_text :: "int \<Rightarrow> string" where
  "tokens_text e8s =
     (let n = decimal_round (nat e8s); fraction = nat_str (n mod 100000000)
      in rstrip_char (CHR ''.'') (rstrip_char (CHR ''0'')
           (commas (int (n div 100000000)) @ ''.'' @ replicate (8 - length fraction) (CHR ''0'') @ fraction)))"

definition rx_parameter :: "string \<Rightarrow> rx" where
  "rx_parameter name = Seqs [WordB, Lit name, Lit '':'', rx_spaces, Lit ''Some('', rx_spaces,
     Grp 1 (Plus (Cls is_digit))]"

text \<open>The value of a parameter in the section of the current parameters.\<close>

definition current_parameter :: "json \<Rightarrow> string \<Rightarrow> int option res" where
  "current_parameter rendering name =
     (case rendering of
        JStr s \<Rightarrow>
          (case split_once ''## Current nervous system parameters:'' s of
             None \<Rightarrow> Inr None
           | Some (_, behind) \<Rightarrow>
               let current = (case split_once (''\<newline>## '') behind of None \<Rightarrow> behind | Some (cur, _) \<Rightarrow> cur)
               in case search (rx_parameter name) current of
                    None \<Rightarrow> Inr None
                  | Some m \<Rightarrow> res_bind (py_int 10 (group 1 m)) (\<lambda>n. Inr (Some n)))
      | _ \<Rightarrow> Inr None)"

section \<open>Priorities\<close>

datatype priority = Standard | Review | Critical_Review

text \<open>Their order is that of urgency.\<close>

fun rank :: "priority \<Rightarrow> nat" where
  "rank Standard = 0"
| "rank Review = 1"
| "rank Critical_Review = 2"

instantiation priority :: linorder
begin

definition less_eq_priority :: "priority \<Rightarrow> priority \<Rightarrow> bool" where
  "less_eq_priority p q \<longleftrightarrow> rank p \<le> rank q"

definition less_priority :: "priority \<Rightarrow> priority \<Rightarrow> bool" where
  "less_priority p q \<longleftrightarrow> rank p < rank q"

instance
proof
  fix p q :: priority
  show "p \<le> q \<Longrightarrow> q \<le> p \<Longrightarrow> p = q"
    by (cases p; cases q) (simp_all add: less_eq_priority_def)
qed (auto simp: less_eq_priority_def less_priority_def)

end

text \<open>\<open>if priority != "critical_review": priority = "review"\<close>\<close>

definition to_review :: "priority \<Rightarrow> priority" where
  "to_review p = (if p \<noteq> Critical_Review then Review else p)"

record change =
  field :: string
  old_value :: int
  new_value :: int
  direction :: string
  change_factor :: rat

record review =
  priority :: priority
  reasons :: "string list"
  changes :: "change list"

section \<open>Triage\<close>

text \<open>One of the \<open>PARAMETERS\<close>; \<open>new\<close> is its proposed value.\<close>

definition measure_parameter :: "json \<Rightarrow> (string \<times> json) list \<Rightarrow> string \<times> string \<Rightarrow> review \<Rightarrow> review res" where
  "measure_parameter rendering payload kl v =
     (case kl of (key, label) \<Rightarrow>
      case map_of payload key of
        None \<Rightarrow> Inr v
      | Some JNull \<Rightarrow> Inr v
      | Some new \<Rightarrow>
        res_bind (current_parameter rendering key) (\<lambda>old.
          case (old, new) of
            (Some o', JInt n) \<Rightarrow>
              if \<not> (0 < o' \<and> 0 < n)
              then Inr (v\<lparr>priority := to_review (priority v),
                          reasons := reasons v @ [label @ '': historical value or proposed value is unavailable'']\<rparr>)
              else
                let dir = (if o' < n then ''increase'' else if n < o' then ''decrease'' else ''unchanged'')
                in res_bind (int_truediv n o') (\<lambda>up. res_bind (int_truediv o' n) (\<lambda>down.
                   let factor = max up down;
                       v = v\<lparr>changes := changes v @ [\<lparr>field = key, old_value = o', new_value = n,
                              direction = dir, change_factor = factor\<rparr>]\<rparr>;
                       why = label @ '': '' @ int_str o' @ '' to '' @ int_str n @ '' ('' @ format_g factor @
                             ''x '' @ dir @ '')''
                   in if o' * EXTREME_FACTOR \<le> n \<or> n * EXTREME_FACTOR \<le> o'
                      then Inr (v\<lparr>priority := Critical_Review, reasons := reasons v @ [why]\<rparr>)
                      else if o' * REVIEW_FACTOR \<le> n \<or> n * REVIEW_FACTOR \<le> o'
                      then Inr (v\<lparr>priority := to_review (priority v), reasons := reasons v @ [why]\<rparr>)
                      else Inr v))
          | _ \<Rightarrow> Inr (v\<lparr>priority := to_review (priority v),
                        reasons := reasons v @ [label @ '': historical value or proposed value is unavailable'']\<rparr>)))"

text \<open>Any other field of the payload.\<close>

definition check_field :: "json \<Rightarrow> string \<times> json \<Rightarrow> review \<Rightarrow> review res" where
  "check_field rendering kv v =
     (case kv of (key, new) \<Rightarrow>
      if new = JNull \<or> key \<in> fst ` set PARAMETERS then Inr v
      else
        res_bind (current_parameter rendering key) (\<lambda>old.
          case (old, new) of
            (Some o', JInt n) \<Rightarrow>
              if n \<noteq> o'
              then Inr (v\<lparr>priority := to_review (priority v),
                          reasons := reasons v @ [key @ '': '' @ int_str o' @ '' to '' @ int_str n]\<rparr>)
              else Inr v
          | _ \<Rightarrow> Inr (v\<lparr>priority := to_review (priority v),
                        reasons := reasons v @ [key @ '': change cannot be verified from historical values'']\<rparr>)))"

fun run_all :: "('a \<Rightarrow> review \<Rightarrow> review res) \<Rightarrow> 'a list \<Rightarrow> review \<Rightarrow> review res" where
  "run_all f [] v = Inr v"
| "run_all f (x # xs) v = res_bind (f x v) (run_all f xs)"

definition fresh_review :: review where
  "fresh_review = \<lparr>priority = Standard, reasons = [], changes = []\<rparr>"

definition asking_review :: "string \<Rightarrow> review" where
  "asking_review why = \<lparr>priority = Review, reasons = [why], changes = []\<rparr>"

text \<open>\<open>str(value)\<close>\<close>

definition str_of :: "(json \<Rightarrow> string) \<Rightarrow> json \<Rightarrow> string" where
  "str_of shown j = (case j of
     JStr s \<Rightarrow> s
   | JInt n \<Rightarrow> int_str n
   | JBool b \<Rightarrow> (if b then ''True'' else ''False'')
   | JNull \<Rightarrow> ''None''
   | _ \<Rightarrow> shown j)"

definition field_or_null :: "string \<Rightarrow> (string \<times> json) list \<Rightarrow> json" where
  "field_or_null key kvs = (case map_of kvs key of Some v \<Rightarrow> v | None \<Rightarrow> JNull)"

definition amount_of :: "json \<Rightarrow> json" where
  "amount_of payload = (case payload of JObj kvs \<Rightarrow> field_or_null ''amount_e8s'' kvs | _ \<Rightarrow> JNull)"

definition review_action :: "(json \<Rightarrow> string) \<Rightarrow> json \<Rightarrow> json \<Rightarrow> json \<Rightarrow> review res" where
  "review_action shown action payload rendering =
     (if action = JStr ''ManageNervousSystemParameters'' then
        (case payload of
           JObj kvs \<Rightarrow>
             if \<not> list_ex (\<lambda>(_, value). value \<noteq> JNull) kvs
             then Inr (asking_review ''parameter payload contains no proposed values'')
             else res_bind (run_all (measure_parameter rendering kvs) PARAMETERS fresh_review)
                    (run_all (check_field rendering) kvs)
         | _ \<Rightarrow> Inr (asking_review ''parameter payload is unavailable''))
      else if action = JStr ''MintSnsTokens'' then
        (case amount_of payload of
           JInt n \<Rightarrow>
             if 0 < n
             then Inr (asking_review (''token mint: '' @ tokens_text n @
                    '' tokens to one account; supply comparison unavailable''))
             else Inr (asking_review ''token mint: amount is unavailable'')
         | _ \<Rightarrow> Inr (asking_review ''token mint: amount is unavailable''))
      else if action = JStr ''ManageSnsMetadata'' then
        (case payload of
           JObj _ \<Rightarrow> Inr fresh_review
         | _ \<Rightarrow> Inr (asking_review ''metadata payload is unavailable''))
      else Inr (asking_review (''unsupported action type: '' @
             (if truthy action then str_of shown action else ''missing''))))"

record triaged =
  proposal_id :: json
  action_type :: json
  outcome :: review
  extra_human_review_required :: bool

definition triage :: "(json \<Rightarrow> string) \<Rightarrow> json \<Rightarrow> triaged res" where
  "triage shown proposal =
     (case proposal of
        JObj kvs \<Rightarrow>
          let action = field_or_null ''proposal_action_type'' kvs
          in res_bind (review_action shown action (field_or_null ''proposal_action_payload'' kvs)
               (field_or_null ''payload_text_rendering'' kvs)) (\<lambda>v.
             Inr \<lparr>proposal_id = field_or_null ''id'' kvs, action_type = action, outcome = v,
                  extra_human_review_required = (priority v \<noteq> Standard)\<rparr>)
      | _ \<Rightarrow> Inl (ValueError ''proposal must be a JSON object''))"

section \<open>Lemmas: reading a parameter\<close>

lemma star_class_run:
  "q \<in> set (star n (advance1 P) (b, s, g)) \<Longrightarrow>
     \<exists>t. s = t @ fst (snd q) \<and> list_all P t \<and> snd (snd q) = g"
proof (induction n arbitrary: b s)
  case (Suc n)
  show ?case
  proof (cases s)
    case (Cons c cs)
    show ?thesis
    proof (cases "q = (b, s, g)")
      case False
      then have P: "P c" and q: "q \<in> set (star n (advance1 P) (Some c, cs, g))"
        using Suc.prems Cons by (auto split: if_splits)
      from Suc.IH [OF q] obtain t where "cs = t @ fst (snd q)" "list_all P t" "snd (snd q) = g" by blast
      then show ?thesis using P Cons by (intro exI [of _ "c # t"]) simp
    qed simp
  qed (use Suc.prems in auto)
qed simp

lemma plus_class_run:
  assumes "q \<in> set (matches (Plus (Cls P)) (b, s, g))"
  shows "\<exists>t. s = t @ fst (snd q) \<and> t \<noteq> [] \<and> list_all P t \<and> snd (snd q) = g"
proof (cases s)
  case (Cons c cs)
  then have P: "P c" and q: "q \<in> set (star (length cs) (advance1 P) (Some c, cs, g))"
    using assms by (auto split: if_splits)
  from star_class_run [OF q] obtain t where "cs = t @ fst (snd q)" "list_all P t" "snd (snd q) = g" by blast
  then show ?thesis using P Cons by (intro exI [of _ "c # t"]) simp
qed (use assms in simp)

lemma group_class_run:
  assumes "q \<in> set (matches (Grp 1 (Plus (Cls P))) (b, s, g))"
  shows "\<exists>t. t \<noteq> [] \<and> list_all P t \<and> snd (snd q) = (1, t) # g"
proof -
  obtain r where r: "r \<in> set (matches (Plus (Cls P)) (b, s, g))"
    and q: "snd (snd q) = (1, take (length s - length (fst (snd r))) s) # snd (snd r)"
    using assms by (auto simp del: matches.simps(3))
  obtain t where "s = t @ fst (snd r)" "t \<noteq> []" "list_all P t" "snd (snd r) = g"
    using plus_class_run [OF r] by blast
  then show ?thesis using q by (intro exI [of _ t]) simp
qed

lemma Seqs_last:
  "rs \<noteq> [] \<Longrightarrow> q \<in> set (matches (Seqs rs) p) \<Longrightarrow> \<exists>p'. q \<in> set (matches (last rs) p')"
proof (induction rs arbitrary: p rule: Seqs.induct)
  case (3 r s rs)
  then obtain p1 where "q \<in> set (matches (Seqs (s # rs)) p1)" by auto
  from "3.IH" [OF _ this] show ?case by simp
qed auto

lemma search_from_match:
  "search_from r b s = Some m \<Longrightarrow> \<exists>b s. match_at r b s = Some m"
  by (induction s arbitrary: b) (auto split: option.splits)

lemma rx_parameter_digits:
  assumes "search (rx_parameter name) text = Some m"
  shows "group 1 m \<noteq> []" "list_all is_digit (group 1 m)"
proof -
  obtain b s where "match_at (rx_parameter name) b s = Some m"
    using assms search_from_match unfolding search_def by blast
  then obtain q qs where "matches (rx_parameter name) (b, s, []) = q # qs" and g: "groups m = snd (snd q)"
    unfolding match_at_def by (cases "matches (rx_parameter name) (b, s, [])") (auto split: prod.splits)
  then have q: "q \<in> set (matches (rx_parameter name) (b, s, []))" by simp
  obtain p' where "q \<in> set (matches (Grp 1 (Plus (Cls is_digit))) p')"
    using Seqs_last [OF _ q [unfolded rx_parameter_def]] by (auto simp del: matches.simps)
  then obtain t where "t \<noteq> []" "list_all is_digit t" "groups m = (1, t) # snd (snd p')"
    using group_class_run [of q is_digit "fst p'" "fst (snd p')" "snd (snd p')"] g by auto
  then show "group 1 m \<noteq> []" "list_all is_digit (group 1 m)" by (simp_all add: group_def)
qed

lemma parse_digits_digits:
  "list_all is_digit t \<Longrightarrow> t \<noteq> [] \<or> \<not> us \<Longrightarrow> \<exists>n. parse_digits 10 us acc t = Some n"
proof (induction t arbitrary: us acc)
  case (Cons c t)
  then have "c \<noteq> CHR ''_''" "digit_val c = Some (code c - 48)" "code c - 48 < 10"
    by (auto simp: is_digit_def digit_val_def)
  then show ?case using Cons by simp
qed simp

lemma py_int_digits:
  assumes "list_all is_digit t" "t \<noteq> []"
  shows "\<exists>n. py_int 10 t = Inr (int n)"
proof -
  have nospace: "is_digit c \<Longrightarrow> \<not> is_space c" for c by (auto simp: is_digit_def is_space_def)
  have "lstrip t = t" using assms nospace by (cases t) (auto simp: lstrip_def)
  moreover have "dropWhile is_space (rev t) = rev t"
    using assms nospace by (cases t rule: rev_cases) auto
  ultimately have "strip t = t" by (simp add: strip_def)
  moreover obtain c cs where "t = c # cs" "c \<noteq> CHR ''-''" "c \<noteq> CHR ''+''"
    using assms by (cases t) (fastforce simp: is_digit_def)+
  moreover obtain n where "parse_digits 10 True 0 t = Some n" using parse_digits_digits assms by blast
  ultimately show ?thesis by (simp add: py_int_def parse_unsigned_def)
qed

text \<open>Reading a parameter never raises, and what it reads is not negative.\<close>

lemma current_parameter_ok: "\<exists>v. current_parameter rendering name = Inr v \<and> (\<forall>n. v = Some n \<longrightarrow> 0 \<le> n)"
proof -
  have read: "\<exists>n. py_int 10 (group 1 m) = Inr (int n)" if "search (rx_parameter name) s = Some m" for m s
    using py_int_digits rx_parameter_digits [OF that] by blast
  show ?thesis
    by (auto simp: current_parameter_def Let_def split: json.split option.split prod.split dest!: read)
qed

lemma fl_round_finite:
  assumes "0 \<le> q" "q \<le> 2 ^ 1023"
  shows "\<exists>r. fl_round binary64 q = Fin r"
proof -
  let ?v = "round_rat binary64 q"
  have "\<bar>?v - q\<bar> \<le> \<bar>q\<bar> * pow2 (- 53) + pow2 (min_exp binary64 - 1)"
    using round_rat_error [of binary64 q] by (simp add: binary64_def)
  moreover have "pow2 (min_exp binary64 - 1) \<le> 1"
    using pow2_mono [of "min_exp binary64 - 1" 0] by (simp add: binary64_def pow2_def)
  moreover have "\<bar>q\<bar> * pow2 (- 53) \<le> q / 2" using assms(1) by (simp add: pow2_def)
  ultimately have "?v \<le> q + q / 2 + 1" using assms(1) by linarith
  also have "\<dots> < 2 ^ 1024" using assms(2) by simp
  finally have "?v < pow2 (max_exp binary64)" using pow2_nat [of 1024] by (simp add: binary64_def)
  moreover have "0 \<le> ?v" using assms(1) by (rule round_rat_nonneg)
  moreover have "0 < pow2 (max_exp binary64)" by simp
  ultimately show ?thesis by (auto simp: fl_round_def Let_def)
qed

lemma int_truediv_cases:
  assumes "0 < a" "0 < b"
  shows "(\<exists>q. int_truediv a b = Inr q) \<or> int_truediv a b = Inl OverflowError \<and> b * 2 ^ 1023 < a"
proof (cases "b * 2 ^ 1023 < a")
  case True
  then show ?thesis using assms by (auto simp: int_truediv_def split: fl.split)
next
  case False
  have "of_int a / of_int b \<le> (2 ^ 1023 :: rat)"
  proof -
    have "(of_int a :: rat) \<le> of_int (b * 2 ^ 1023)" using False by (subst of_int_le_iff) simp
    then show ?thesis using assms(2) by (simp add: divide_le_eq mult.commute)
  qed
  then obtain r where "fl_round binary64 (of_int a / of_int b) = Fin r"
    using fl_round_finite assms by fastforce
  then show ?thesis using assms by (simp add: int_truediv_def)
qed

lemma int_truediv_raises: "int_truediv a b = Inl e \<Longrightarrow> b \<noteq> 0 \<Longrightarrow> e = OverflowError"
  by (auto simp: int_truediv_def split: if_splits fl.splits)

section \<open>The priority of one field\<close>

text \<open>
  What one proposed value asks for on its own: nothing when it equals its historical value or, for
  a measured parameter, differs by less than the review factor; a critical review when a measured
  parameter changes by the extreme factor or more, in either direction; a review otherwise.
\<close>

definition field_priority :: "json \<Rightarrow> string \<times> json \<Rightarrow> priority" where
  "field_priority rendering kv =
     (case kv of (key, new) \<Rightarrow>
      if new = JNull then Standard
      else case (current_parameter rendering key, new) of
        (Inr (Some o'), JInt n) \<Rightarrow>
          if key \<in> fst ` set PARAMETERS
          then (if \<not> (0 < o' \<and> 0 < n) then Review
                else if o' * 1000 \<le> n \<or> n * 1000 \<le> o' then Critical_Review
                else if o' * 10 \<le> n \<or> n * 10 \<le> o' then Review else Standard)
          else (if n = o' then Standard else Review)
      | _ \<Rightarrow> Review)"

text \<open>A measured change so large that its factor is no float.\<close>

definition beyond_float :: "json \<Rightarrow> string \<times> json \<Rightarrow> bool" where
  "beyond_float rendering kv =
     (case (current_parameter rendering (fst kv), snd kv) of
        (Inr (Some o'), JInt n) \<Rightarrow>
          fst kv \<in> fst ` set PARAMETERS \<and> 0 < o' \<and> 0 < n \<and> (o' * 2 ^ 1023 < n \<or> n * 2 ^ 1023 < o')
      | _ \<Rightarrow> False)"

lemma priority_order [simp]:
  "Standard \<le> p" "max p Standard = p" "max Standard p = p" "max p Critical_Review = Critical_Review"
  "max p Review = to_review p" "\<not> (p < Standard)" "p \<le> Standard \<longleftrightarrow> p = Standard" "to_review p \<noteq> Standard"
  by (cases p; simp add: max_def less_eq_priority_def less_priority_def to_review_def)+

text \<open>A step asks for \<open>p\<close>: it raises the priority to it and says why, unless it asks for nothing.\<close>

definition asks :: "(review \<Rightarrow> review res) \<Rightarrow> priority \<Rightarrow> bool \<Rightarrow> bool" where
  "asks f p far \<longleftrightarrow> (\<forall>v. case f v of
     Inr u \<Rightarrow> priority u = max (priority v) p \<and>
       (\<exists>ws. reasons u = reasons v @ ws \<and> (ws = [] \<longleftrightarrow> p = Standard))
   | Inl e \<Rightarrow> e = OverflowError \<and> far)"

lemma asks_same: "asks Inr Standard far"
  by (simp add: asks_def)

lemma asks_review: "asks (\<lambda>v. Inr (v\<lparr>priority := to_review (priority v), reasons := reasons v @ [why]\<rparr>)) Review far"
  by (simp add: asks_def)

lemma field_of_parameter: "(key, label) \<in> set PARAMETERS \<Longrightarrow> key \<in> fst ` set PARAMETERS"
  by force

lemma measure_parameter_asks:
  assumes "(key, label) \<in> set PARAMETERS" "map_of kvs key = Some new"
  shows "asks (measure_parameter rendering kvs (key, label)) (field_priority rendering (key, new))
    (beyond_float rendering (key, new))"
proof -
  note key = field_of_parameter [OF assms(1)]
  obtain old where old: "current_parameter rendering key = Inr old" using current_parameter_ok by blast
  show ?thesis
  proof (cases "\<exists>o' n. old = Some o' \<and> new = JInt n \<and> 0 < o' \<and> 0 < n")
    case False
    then have "measure_parameter rendering kvs (key, label) = (if new = JNull then Inr else (\<lambda>v.
        Inr (v\<lparr>priority := to_review (priority v),
          reasons := reasons v @ [label @ '': historical value or proposed value is unavailable'']\<rparr>)))"
      using assms(2) old by (auto simp: measure_parameter_def fun_eq_iff split: json.split option.split)
    moreover have "field_priority rendering (key, new) = (if new = JNull then Standard else Review)"
      using False old key by (auto simp: field_priority_def split: json.split option.split)
    ultimately show ?thesis by (simp add: asks_same asks_review)
  next
    case True
    then obtain o' n where on: "old = Some o'" "new = JInt n" "0 < o'" "0 < n" by blast
    show ?thesis
    proof (cases "(\<exists>up. int_truediv n o' = Inr up) \<and> (\<exists>down. int_truediv o' n = Inr down)")
      case True
      then show ?thesis using on assms(2) old key
        by (auto simp: asks_def measure_parameter_def field_priority_def Let_def EXTREME_FACTOR_def REVIEW_FACTOR_def)
    next
      case False
      then have far: "beyond_float rendering (key, new)"
        using int_truediv_cases [OF on(4,3)] int_truediv_cases [OF on(3,4)] old on key
        by (auto simp: beyond_float_def)
      have "measure_parameter rendering kvs (key, label) v = Inl OverflowError" for v
        using False int_truediv_cases [OF on(4,3)] int_truediv_cases [OF on(3,4)] on assms(2) old
        by (auto simp: measure_parameter_def Let_def)
      then show ?thesis using far by (simp add: asks_def)
    qed
  qed
qed

lemma measure_parameter_absent:
  "map_of kvs key = None \<Longrightarrow> asks (measure_parameter rendering kvs (key, label)) Standard far"
  by (simp add: asks_def measure_parameter_def)

lemma check_field_asks:
  "asks (check_field rendering (key, new))
     (if key \<in> fst ` set PARAMETERS then Standard else field_priority rendering (key, new)) False"
proof -
  obtain old where old: "current_parameter rendering key = Inr old" using current_parameter_ok by blast
  show ?thesis
    using old by (auto simp: asks_def check_field_def field_priority_def split: json.split option.split)
qed

text \<open>A run of steps raises the priority to the most urgent of them.\<close>

lemma run_all_asks:
  assumes "\<forall>x \<in> set xs. asks (f x) (g x) (far x)"
  shows "case run_all f xs v of
    Inr u \<Rightarrow> (\<forall>p. priority u \<le> p \<longleftrightarrow> priority v \<le> p \<and> (\<forall>x \<in> set xs. g x \<le> p)) \<and>
      (\<exists>ws. reasons u = reasons v @ ws \<and> (ws = [] \<longleftrightarrow> (\<forall>x \<in> set xs. g x = Standard)))
  | Inl e \<Rightarrow> e = OverflowError \<and> (\<exists>x \<in> set xs. far x)"
  using assms
proof (induction xs arbitrary: v)
  case (Cons x xs)
  have x: "asks (f x) (g x) (far x)" using Cons.prems by simp
  show ?case
  proof (cases "f x v")
    case (Inl e)
    then show ?thesis using x [unfolded asks_def, rule_format, of v] by simp
  next
    case (Inr u)
    have u: "priority u = max (priority v) (g x)"
      "\<exists>ws. reasons u = reasons v @ ws \<and> (ws = [] \<longleftrightarrow> g x = Standard)"
      using x [unfolded asks_def, rule_format, of v] Inr by simp_all
    have "case run_all f xs u of
        Inr t \<Rightarrow> (\<forall>p. priority t \<le> p \<longleftrightarrow> priority u \<le> p \<and> (\<forall>x \<in> set xs. g x \<le> p)) \<and>
          (\<exists>ws. reasons t = reasons u @ ws \<and> (ws = [] \<longleftrightarrow> (\<forall>x \<in> set xs. g x = Standard)))
      | Inl e \<Rightarrow> e = OverflowError \<and> (\<exists>x \<in> set xs. far x)"
      using Cons.IH [of u] Cons.prems by simp
    then show ?thesis using Inr u by (cases "run_all f xs u") auto
  qed
qed simp

section \<open>Lemmas: a parameter proposal\<close>

abbreviation CHANGE_PARAMETERS :: json where
  "CHANGE_PARAMETERS \<equiv> JStr ''ManageNervousSystemParameters''"

text \<open>What the loop over \<open>PARAMETERS\<close> asks for.\<close>

definition measured_priority :: "json \<Rightarrow> (string \<times> json) list \<Rightarrow> string \<times> string \<Rightarrow> priority" where
  "measured_priority rendering kvs kl = (case map_of kvs (fst kl) of
     None \<Rightarrow> Standard | Some new \<Rightarrow> field_priority rendering (fst kl, new))"

definition other_priority :: "json \<Rightarrow> string \<times> json \<Rightarrow> priority" where
  "other_priority rendering kv =
     (if fst kv \<in> fst ` set PARAMETERS then Standard else field_priority rendering kv)"

lemma review_parameters:
  assumes "list_ex (\<lambda>(_, value). value \<noteq> JNull) kvs"
  shows "case review_action shown CHANGE_PARAMETERS (JObj kvs) rendering of
    Inr u \<Rightarrow> (\<forall>p. priority u \<le> p \<longleftrightarrow> (\<forall>kl \<in> set PARAMETERS. measured_priority rendering kvs kl \<le> p) \<and>
                   (\<forall>kv \<in> set kvs. other_priority rendering kv \<le> p)) \<and>
      (reasons u = [] \<longleftrightarrow> priority u = Standard)
  | Inl e \<Rightarrow> e = OverflowError \<and> (\<exists>kv \<in> set kvs. beyond_float rendering kv)"
proof -
  let ?far = "\<lambda>kl. \<exists>new. map_of kvs (fst kl) = Some new \<and> beyond_float rendering (fst kl, new)"
  have one: "\<forall>kl \<in> set PARAMETERS. asks (measure_parameter rendering kvs kl) (measured_priority rendering kvs kl) (?far kl)"
  proof
    fix kl assume kl: "kl \<in> set PARAMETERS"
    obtain key label where k: "kl = (key, label)" by (cases kl)
    show "asks (measure_parameter rendering kvs kl) (measured_priority rendering kvs kl) (?far kl)"
      using measure_parameter_asks [of key label kvs _ rendering] kl measure_parameter_absent
      unfolding k measured_priority_def by (cases "map_of kvs key") auto
  qed
  have two: "\<forall>kv \<in> set kvs. asks (check_field rendering kv) (other_priority rendering kv) False"
    using check_field_asks unfolding other_priority_def by fastforce
  let ?m = "run_all (measure_parameter rendering kvs) PARAMETERS fresh_review"
  have action: "review_action shown CHANGE_PARAMETERS (JObj kvs) rendering = res_bind ?m (run_all (check_field rendering) kvs)"
    using assms by (simp add: review_action_def)
  note r1 = run_all_asks [OF one, of fresh_review]
  show ?thesis
  proof (cases ?m)
    case (Inl e)
    then show ?thesis using r1 map_of_SomeD unfolding action by fastforce
  next
    case (Inr u)
    note r2 = run_all_asks [OF two, of u]
    have standard: "priority t = Standard \<longleftrightarrow> priority t \<le> Standard" for t by simp
    show ?thesis
    proof (cases "run_all (check_field rendering) kvs u")
      case (Inl e)
      then show ?thesis using r2 by simp
    next
      case (Inr t)
      show ?thesis
        using r1 r2 \<open>?m = Inr u\<close> Inr unfolding action standard
        by (auto simp: fresh_review_def simp del: priority_order(7)) (simp_all add: priority_order)
    qed
  qed
qed

lemma review_parameters_priority:
  assumes "list_ex (\<lambda>(_, value). value \<noteq> JNull) kvs" "distinct (map fst kvs)"
    and "review_action shown CHANGE_PARAMETERS (JObj kvs) rendering = Inr u"
  shows "priority u \<le> p \<longleftrightarrow> (\<forall>kv \<in> set kvs. field_priority rendering kv \<le> p)"
proof -
  have "(\<forall>kl \<in> set PARAMETERS. measured_priority rendering kvs kl \<le> p) \<longleftrightarrow>
      (\<forall>kv \<in> set kvs. fst kv \<in> fst ` set PARAMETERS \<longrightarrow> field_priority rendering kv \<le> p)"
  proof (intro iffI ballI impI)
    fix kv assume all: "\<forall>kl \<in> set PARAMETERS. measured_priority rendering kvs kl \<le> p"
      and kv: "kv \<in> set kvs" "fst kv \<in> fst ` set PARAMETERS"
    then obtain label where "(fst kv, label) \<in> set PARAMETERS" by force
    moreover have "map_of kvs (fst kv) = Some (snd kv)" using kv(1) assms(2) by simp
    ultimately show "field_priority rendering kv \<le> p"
      using all by (force simp: measured_priority_def)
  next
    fix kl assume all: "\<forall>kv \<in> set kvs. fst kv \<in> fst ` set PARAMETERS \<longrightarrow> field_priority rendering kv \<le> p"
      and kl: "kl \<in> set PARAMETERS"
    show "measured_priority rendering kvs kl \<le> p"
      using all kl by (cases "map_of kvs (fst kl)") (auto simp: measured_priority_def dest!: map_of_SomeD)
  qed
  then show ?thesis
    using review_parameters [where shown = shown and rendering = rendering, OF assms(1)] unfolding assms(3)
    by (auto simp: other_priority_def)
qed

text \<open>A proposal to change the parameters in \<open>kvs\<close>; an empty payload, or one of nulls, changes none.\<close>

definition parameter_change :: "json \<Rightarrow> json \<Rightarrow> (string \<times> json) list \<Rightarrow> bool" where
  "parameter_change proposal rendering kvs \<longleftrightarrow> (case proposal of
     JObj parts \<Rightarrow>
       field_or_null ''proposal_action_type'' parts = CHANGE_PARAMETERS \<and>
       field_or_null ''proposal_action_payload'' parts = JObj kvs \<and>
       field_or_null ''payload_text_rendering'' parts = rendering \<and>
       distinct (map fst kvs) \<and> list_ex (\<lambda>(_, value). value \<noteq> JNull) kvs
   | _ \<Rightarrow> False)"

lemma parameter_change_triage:
  "parameter_change proposal rendering kvs \<Longrightarrow> \<exists>i. triage shown proposal =
     res_bind (review_action shown CHANGE_PARAMETERS (JObj kvs) rendering) (\<lambda>v.
       Inr \<lparr>proposal_id = i, action_type = CHANGE_PARAMETERS, outcome = v,
            extra_human_review_required = (priority v \<noteq> Standard)\<rparr>)"
  by (auto simp: parameter_change_def triage_def Let_def split: json.splits)

lemma other_actions:
  assumes "action \<noteq> CHANGE_PARAMETERS \<or> \<not> (\<exists>kvs. payload = JObj kvs \<and> list_ex (\<lambda>(_, value). value \<noteq> JNull) kvs)"
  shows "\<exists>u. review_action shown action payload rendering = Inr u \<and> (reasons u = [] \<longleftrightarrow> priority u = Standard)"
proof -
  have asked: "\<exists>u. Inr (asking_review why) = (Inr u :: review res) \<and> (reasons u = [] \<longleftrightarrow> priority u = Standard)" for why
    by (simp add: asking_review_def)
  have kept: "\<exists>u. Inr fresh_review = (Inr u :: review res) \<and> (reasons u = [] \<longleftrightarrow> priority u = Standard)"
    by (simp add: fresh_review_def)
  consider "action = CHANGE_PARAMETERS" | "action = JStr ''MintSnsTokens''" | "action = JStr ''ManageSnsMetadata''"
    | "action \<noteq> CHANGE_PARAMETERS" "action \<noteq> JStr ''MintSnsTokens''" "action \<noteq> JStr ''ManageSnsMetadata''" by blast
  then show ?thesis
  proof cases
    case 1
    then show ?thesis using assms asked by (cases payload) (simp_all add: review_action_def)
  next
    case 2
    then show ?thesis using asked by (cases "amount_of payload") (simp_all add: review_action_def)
  next
    case 3
    then show ?thesis using asked kept by (cases payload) (simp_all add: review_action_def)
  next
    case 4
    then show ?thesis using asked unfolding review_action_def by (simp only: if_False)
  qed
qed

lemma fl_round_overflow:
  assumes "2 ^ 1025 \<le> q"
  shows "fl_round binary64 q = PInf"
proof -
  let ?v = "round_rat binary64 q"
  have "\<bar>?v - q\<bar> \<le> \<bar>q\<bar> * pow2 (- 53) + pow2 (min_exp binary64 - 1)"
    using round_rat_error [of binary64 q] by (simp add: binary64_def)
  moreover have "pow2 (min_exp binary64 - 1) \<le> 1"
    using pow2_mono [of "min_exp binary64 - 1" 0] by (simp add: binary64_def pow2_def)
  moreover have q: "0 \<le> q" using assms by (rule order_trans [rotated]) simp
  moreover have "\<bar>q\<bar> * pow2 (- 53) \<le> q / 4" using q by (simp add: pow2_def)
  ultimately have "q / 2 + (q / 4 - 1) \<le> ?v" by linarith
  moreover have "1 \<le> q / 4" using order_trans [OF _ assms, of 4] by simp
  ultimately have "q / 2 \<le> ?v" by linarith
  moreover have "2 ^ 1024 \<le> q / 2" using assms by simp
  ultimately have "pow2 (max_exp binary64) \<le> ?v" using pow2_nat [of 1024] by (simp add: binary64_def)
  then show ?thesis by (simp add: fl_round_def Let_def)
qed

lemma int_truediv_overflow:
  assumes "0 < b" "b * 2 ^ 1025 \<le> a"
  shows "int_truediv a b = Inl OverflowError"
proof -
  have "(of_int (b * 2 ^ 1025) :: rat) \<le> of_int a" using assms(2) by (subst of_int_le_iff)
  then have "(2 ^ 1025 :: rat) \<le> of_int a / of_int b"
    using assms(1) by (simp add: le_divide_eq mult.commute)
  then show ?thesis using assms(1) fl_round_overflow by (simp add: int_truediv_def)
qed

section \<open>Properties\<close>

text \<open>
  C4: the priority of a proposal to change parameters is the most urgent that any of its proposed
  values asks for on its own, whatever their order, which of the two loops handles them, or how
  many there are; a further proposed value can only raise it.
\<close>

theorem triage_priority:
  assumes "parameter_change proposal rendering kvs" "triage shown proposal = Inr t"
  shows "priority (outcome t) = Max (field_priority rendering ` set kvs)"
proof -
  obtain u where u: "review_action shown CHANGE_PARAMETERS (JObj kvs) rendering = Inr u" "outcome t = u"
    using parameter_change_triage [OF assms(1), of shown] assms(2)
    by (cases "review_action shown CHANGE_PARAMETERS (JObj kvs) rendering") auto
  have kvs: "list_ex (\<lambda>(_, value). value \<noteq> JNull) kvs" "distinct (map fst kvs)"
    using assms(1) by (auto simp: parameter_change_def split: json.splits)
  then have "kvs \<noteq> []" by auto
  have "priority u \<le> p \<longleftrightarrow> Max (field_priority rendering ` set kvs) \<le> p" for p
    using review_parameters_priority [OF kvs u(1), of p] \<open>kvs \<noteq> []\<close> by (subst Max_le_iff) auto
  then show ?thesis using u(2) by (metis order_antisym order_refl)
qed

text \<open>
  C35: triage gives a reason exactly when the priority is not standard, and asks for extra human
  review exactly then.  It raises on what is no JSON object, and otherwise only for a measured
  parameter that changes by a factor beyond the floats, which alone asks for a critical review.
\<close>

theorem triage_outcome:
  "case triage shown proposal of
     Inr t \<Rightarrow> (\<exists>parts. proposal = JObj parts) \<and>
       (reasons (outcome t) = [] \<longleftrightarrow> priority (outcome t) = Standard) \<and>
       (extra_human_review_required t \<longleftrightarrow> priority (outcome t) \<noteq> Standard)
   | Inl e \<Rightarrow> e = ValueError ''proposal must be a JSON object'' \<and> \<not> (\<exists>parts. proposal = JObj parts) \<or>
       e = OverflowError \<and> (\<exists>parts kvs. proposal = JObj parts \<and>
         field_or_null ''proposal_action_type'' parts = JStr ''ManageNervousSystemParameters'' \<and>
         field_or_null ''proposal_action_payload'' parts = JObj kvs \<and>
         list_ex (\<lambda>kv. beyond_float (field_or_null ''payload_text_rendering'' parts) kv \<and>
           field_priority (field_or_null ''payload_text_rendering'' parts) kv = Critical_Review) kvs)"
proof (cases "\<exists>parts. proposal = JObj parts")
  case False
  then show ?thesis by (cases proposal) (simp_all add: triage_def)
next
  case True
  then obtain parts where p: "proposal = JObj parts" by blast
  let ?r = "field_or_null ''payload_text_rendering'' parts"
  have far: "field_priority ?r kv = Critical_Review" if "beyond_float ?r kv" for kv
  proof -
    have "(1000::int) \<le> 2 ^ 1023" by simp
    then have "o' * 2 ^ 1023 < n \<Longrightarrow> 0 < o' \<Longrightarrow> o' * 1000 \<le> n" for o' n :: int
      by (meson less_imp_le mult_left_mono order_trans)
    then show ?thesis using that
      by (cases kv) (auto simp: beyond_float_def field_priority_def split: sum.splits option.splits json.splits)
  qed
  show ?thesis
  proof (cases "field_or_null ''proposal_action_type'' parts = CHANGE_PARAMETERS \<and>
      (\<exists>kvs. field_or_null ''proposal_action_payload'' parts = JObj kvs \<and> list_ex (\<lambda>(_, value). value \<noteq> JNull) kvs)")
    case True
    then obtain kvs where k: "field_or_null ''proposal_action_payload'' parts = JObj kvs"
      "list_ex (\<lambda>(_, value). value \<noteq> JNull) kvs" by blast
    show ?thesis
      using review_parameters [where shown = shown and rendering = ?r, OF k(2)] True k(1) far
      by (cases "review_action shown CHANGE_PARAMETERS (JObj kvs) ?r")
        (auto simp: triage_def p Let_def list_ex_iff)
  next
    case False
    then obtain u where "review_action shown (field_or_null ''proposal_action_type'' parts)
        (field_or_null ''proposal_action_payload'' parts) ?r = Inr u" "reasons u = [] \<longleftrightarrow> priority u = Standard"
      using other_actions by blast
    then show ?thesis by (simp add: triage_def p Let_def)
  qed
qed

lemma run_all_raises:
  assumes "x \<in> set xs" "\<And>v. f x v = Inl e" "\<And>y v e'. f y v = Inl e' \<Longrightarrow> e' = e"
  shows "run_all f xs v = Inl e"
  using assms(1)
proof (induction xs arbitrary: v)
  case (Cons y ys)
  show ?case
  proof (cases "f y v")
    case (Inl e')
    then show ?thesis using assms(3) by simp
  next
    case (Inr u)
    then have "y \<noteq> x" using assms(2) by auto
    then show ?thesis using Cons Inr by simp
  qed
qed simp

lemma measure_parameter_raises:
  "measure_parameter rendering kvs kl v = Inl e \<Longrightarrow> e = OverflowError"
  using current_parameter_ok [of rendering "fst kl"]
  by (auto simp: measure_parameter_def Let_def res_iff split: prod.splits option.splits json.splits if_splits
      dest!: int_truediv_raises)

text \<open>
  A measured parameter whose proposed value is too many times the historical one for the factor
  to be a float makes triage raise \<open>OverflowError\<close>, although the value alone asks for a critical
  review: the most extreme proposals get no priority at all.
\<close>

theorem triage_extreme_raises:
  assumes "parameter_change proposal rendering kvs"
    and "(key, JInt n) \<in> set kvs" "key \<in> fst ` set PARAMETERS"
    and "current_parameter rendering key = Inr (Some o')" "0 < o'" "o' * 2 ^ 1025 \<le> n"
  shows "triage shown proposal = Inl OverflowError \<and> field_priority rendering (key, JInt n) = Critical_Review"
proof -
  have kvs: "list_ex (\<lambda>(_, value). value \<noteq> JNull) kvs" "distinct (map fst kvs)"
    using assms(1) by (auto simp: parameter_change_def split: json.splits)
  have n: "0 < n" "o' * 1000 \<le> n"
    using assms(5,6) order_trans [OF mult_left_mono [of 1000 "2 ^ 1025" o'] assms(6)] by auto
  obtain label where label: "(key, label) \<in> set PARAMETERS" using assms(3) by auto
  have "map_of kvs key = Some (JInt n)" using kvs(2) assms(2) by simp
  then have "measure_parameter rendering kvs (key, label) v = Inl OverflowError" for v
    using assms(4,5) n(1) int_truediv_overflow [OF assms(5,6)]
    by (simp add: measure_parameter_def Let_def)
  then have "run_all (measure_parameter rendering kvs) PARAMETERS fresh_review = Inl OverflowError"
    by (intro run_all_raises [OF label]) (use measure_parameter_raises in auto)
  then have "review_action shown CHANGE_PARAMETERS (JObj kvs) rendering = Inl OverflowError"
    using kvs(1) by (simp add: review_action_def)
  then have "triage shown proposal = Inl OverflowError"
    using parameter_change_triage [OF assms(1), of shown] by auto
  then show ?thesis using assms n by (simp add: field_priority_def)
qed

text \<open>A rendering with one current parameter, and a proposal of a new value for it.\<close>

definition sample_rendering :: json where
  "sample_rendering = JStr ''## Current nervous system parameters:\<newline>max_dissolve_delay_seconds: Some(2),''"

definition sample_change :: "int \<Rightarrow> json" where
  "sample_change n = JObj [(''proposal_action_type'', JStr ''ManageNervousSystemParameters''),
     (''proposal_action_payload'', JObj [(''max_dissolve_delay_seconds'', JInt n)]),
     (''payload_text_rendering'', sample_rendering)]"

lemma sample_parameter: "current_parameter sample_rendering ''max_dissolve_delay_seconds'' = Inr (Some 2)"
  by code_simp

lemma sample_parameter_change:
  "parameter_change (sample_change n) sample_rendering [(''max_dissolve_delay_seconds'', JInt n)]"
  by (simp add: parameter_change_def sample_change_def field_or_null_def)

theorem triage_priority_witness:
  "\<exists>t. triage (\<lambda>_. []) (sample_change 2000) = Inr t \<and> priority (outcome t) = Critical_Review"
proof -
  have measured: "''max_dissolve_delay_seconds'' \<in> fst ` set PARAMETERS" by (simp add: PARAMETERS_def)
  have alone: "field_priority sample_rendering (''max_dissolve_delay_seconds'', JInt 2000) = Critical_Review"
    using measured by (simp add: field_priority_def sample_parameter)
  have near: "\<not> beyond_float sample_rendering (''max_dissolve_delay_seconds'', JInt 2000)"
    by (simp add: beyond_float_def sample_parameter)
  have "case review_action (\<lambda>_. []) CHANGE_PARAMETERS (JObj [(''max_dissolve_delay_seconds'', JInt 2000)]) sample_rendering of
      Inr u \<Rightarrow> True | Inl e \<Rightarrow> False"
    using review_parameters [of "[(''max_dissolve_delay_seconds'', JInt 2000)]" sample_rendering "\<lambda>_. []"] near
    by (auto split: sum.splits)
  then obtain t where t: "triage (\<lambda>_. []) (sample_change 2000) = Inr t"
    using parameter_change_triage [OF sample_parameter_change, of "\<lambda>_. []" 2000] by (auto split: sum.splits)
  from triage_priority [OF sample_parameter_change t] t alone show ?thesis by simp
qed

theorem triage_extreme_raises_witness:
  "triage (\<lambda>_. []) (sample_change (2 * 2 ^ 1025)) = Inl OverflowError"
proof -
  have measured: "''max_dissolve_delay_seconds'' \<in> fst ` set PARAMETERS" by (simp add: PARAMETERS_def)
  show ?thesis
    using triage_extreme_raises [OF sample_parameter_change _ measured sample_parameter, of "2 * 2 ^ 1025"]
    by simp
qed

end
