(* ===== verification/Sns_Advisory.thy ===== *)
theory Sns_Advisory
  imports Sns_Triage "HOL-Library.List_Lexorder" "HOL-Library.Multiset"
begin

text \<open>
  The rest of \<open>tools/sns_proposal_triage.py\<close>: loading a proposal, the questions put to the model,
  its supplementary advisory and the command line; and \<open>make_input\<close> of
  \<open>tools/check_practical_laya.py\<close>.  The tokenizer (\<open>tokenize\<close>) and the web request are parameters,
  the model binary is run by the system; \<open>message\<close> is \<open>str\<close> of an exception.  The triage is passed by
  value: the source passes its dictionary, of which \<open>laya_advisory\<close> reads fields and assigns none.
\<close>

section \<open>Loading a proposal\<close>

definition API :: string where
  "API = ''https://sns-api.internetcomputer.org/api/v1/snses''"

record triage_args =
  arg_input :: "string option"
  arg_proposal_id :: string
  arg_sns_root :: "string option"
  arg_with_laya :: bool
  arg_pack :: string
  arg_binary :: string

definition root_char :: "char \<Rightarrow> bool" where
  "root_char c \<longleftrightarrow> 97 \<le> code c \<and> code c \<le> 122 \<or> is_digit c \<or> c = CHR ''-''"

definition proposal_url :: "string \<Rightarrow> string \<Rightarrow> string" where
  "proposal_url sns i = API @ ''/'' @ sns @ ''/proposals/'' @ i"

text \<open>\<open>fetch url n\<close> is the first \<open>n\<close> bytes of the response.\<close>

definition load_proposal :: "'w system \<Rightarrow> (string \<Rightarrow> nat \<Rightarrow> ('w, bytes) io) \<Rightarrow> triage_args \<Rightarrow> ('w, json) io" where
  "load_proposal S fetch a =
     (case arg_input a of
        Some path \<Rightarrow> io_bind (sys_read S path) (\<lambda>raw. io_lift (json_loads_bytes raw))
      | None \<Rightarrow>
          (case arg_sns_root a of
             None \<Rightarrow> io_raise (ValueError ''--sns-root is required with --proposal-id'')
           | Some sns \<Rightarrow>
               if sns = [] then io_raise (ValueError ''--sns-root is required with --proposal-id'')
               else if \<not> list_all root_char sns \<or> arg_proposal_id a = [] \<or> \<not> list_all is_digit (arg_proposal_id a)
               then io_raise (ValueError ''invalid SNS root or proposal ID'')
               else io_bind (fetch (proposal_url sns (arg_proposal_id a)) 4000001) (\<lambda>raw.
                 if 4000000 < length raw then io_raise (ValueError ''proposal response is too large'')
                 else io_lift (json_loads_bytes raw))))"

section \<open>Questions\<close>

definition LABELS :: "string list" where
  "LABELS = [''unlikely'', ''possible'', ''likely'']"

definition as_fields :: "json \<Rightarrow> (string \<times> json) list" where
  "as_fields j = (case j of JObj kvs \<Rightarrow> kvs | _ \<Rightarrow> [])"

definition days_text :: "rat \<Rightarrow> string" where
  "days_text d = format_g d @ '' '' @ (if d = 1 then ''day'' else ''days'')"

text \<open>The frozen prompts of the historical benchmark.\<close>

definition legacy_laya_context :: "(string \<times> json) list \<Rightarrow> triaged \<Rightarrow> (string \<times> string list \<times> string) option res" where
  "legacy_laya_context proposal t =
     (if action_type t = JStr ''ManageNervousSystemParameters'' then
        (case filter (\<lambda>c. field c = ''neuron_minimum_dissolve_delay_to_vote_seconds'') (changes (outcome t)) of
           [] \<Rightarrow> Inr None
         | change # _ \<Rightarrow>
             if direction change \<noteq> ''increase'' then Inr None
             else
               res_bind (int_truediv (old_value change) 86400) (\<lambda>old_days.
               res_bind (int_truediv (new_value change) 86400) (\<lambda>new_days.
                 Inr (Some (''Could this change reduce voter participation or concentrate voting power?'', LABELS,
                   ''Minimum voting dissolve delay changes from '' @ days_text old_days @ '' to '' @
                   days_text new_days @ '', a '' @ format_g (change_factor change) @ ''-fold increase.'')))))
      else if action_type t = JStr ''MintSnsTokens'' then
        (case amount_of (field_or_null ''proposal_action_payload'' proposal) of
           JInt n \<Rightarrow>
             if \<not> 0 < n then Inr None
             else Inr (Some (''Could this token mint concentrate token control?'', LABELS,
                    ''This proposal mints '' @ tokens_text n @ '' tokens to one account.''))
         | _ \<Rightarrow> Inr None)
      else Inr None)"

datatype fact =
    ParameterFact string "int option" json  \<comment> \<open>field, old, new\<close>
  | MintFact json json json                 \<comment> \<open>amount, recipient, subaccount\<close>

datatype status = Ready | Unchanged | Unsupported | Unavailable | Assessed

record assessment =
  the_fact :: fact
  status :: status
  question :: "string option"
  state :: "string option"
  reason :: "string option"
  input_tokens :: "nat option"
  label :: "string option"
  raw_logits :: "(string \<times> json) list"
  model_bundle :: json

definition bare :: "fact \<Rightarrow> status \<Rightarrow> assessment" where
  "bare f st = \<lparr>the_fact = f, status = st, question = None, state = None, reason = None, input_tokens = None,
     label = None, raw_logits = [], model_bundle = JNull\<rparr>"

definition asking :: "fact \<Rightarrow> string \<Rightarrow> string \<Rightarrow> assessment" where
  "asking f q st = (bare f Ready)\<lparr>question := Some q, state := Some st\<rparr>"

definition old_text :: "int option \<Rightarrow> string" where
  "old_text old = (case old of None \<Rightarrow> ''unknown'' | Some n \<Rightarrow> int_str n)"

definition equals :: "int option \<Rightarrow> json \<Rightarrow> bool" where
  "equals old new = (case old of None \<Rightarrow> False | Some n \<Rightarrow> eq_int new n)"

definition parameter_context :: "(json \<Rightarrow> string) \<Rightarrow> string \<Rightarrow> int option \<Rightarrow> json \<Rightarrow> assessment" where
  "parameter_context shown fld old new =
     (let f = ParameterFact fld old new; change = old_text old @ '' to '' @ str_of shown new
      in if equals old new then bare f Unchanged
         else if fld = ''neuron_minimum_dissolve_delay_to_vote_seconds'' then
           asking f ''Could this change restrict voting eligibility?''
             (''A neuron can vote only if its dissolve delay meets the minimum. Minimum voting dissolve delay: '' @
              change @ '' seconds. Neurons below the minimum cannot vote unless they increase their delay. '' @
              ''The distribution of current neuron delays is unknown.'')
         else if fld = ''max_dissolve_delay_seconds'' then
           asking f ''Could this change encourage longer token lock periods?''
             (''The dissolve delay bonus reaches its maximum at the maximum dissolve delay. Maximum dissolve delay: '' @
              change @ '' seconds. This is a maximum, not the minimum required to vote. '' @
              ''Current neuron delays and actual voter behavior are unknown.'')
         else if fld = ''neuron_minimum_stake_e8s'' then
           asking f ''Could this change restrict who can create a neuron?''
             (''The minimum neuron stake sets the tokens needed to create a neuron. Minimum stake: '' @
              change @ '' e8s. One token equals 100000000 e8s. Current holder balances are unknown.'')
         else (bare f Unsupported)\<lparr>reason := Some ''no supported question for this parameter''\<rparr>)"

definition mint_context :: "(string \<times> json) list \<Rightarrow> assessment" where
  "mint_context payload =
     (let amount = field_or_null ''amount_e8s'' payload;
          f = MintFact amount (field_or_null ''to_principal'' payload) (field_or_null ''to_subaccount'' payload)
      in if \<not> positive_int amount then (bare f Unavailable)\<lparr>reason := Some ''mint amount is unavailable''\<rparr>
         else asking f ''Could this token mint concentrate token control?''
           (''Mint '' @ (case amount of JInt n \<Rightarrow> tokens_text n | _ \<Rightarrow> []) @
            '' new tokens to one specified account. Total token supply, recipient holdings and recipient control '' @
            ''before minting are unknown. The supply share received cannot be calculated from these facts.''))"

definition laya_contexts :: "(json \<Rightarrow> string) \<Rightarrow> (string \<times> json) list \<Rightarrow> triaged \<Rightarrow> assessment list res" where
  "laya_contexts shown proposal t =
     (case field_or_null ''proposal_action_payload'' proposal of
        JObj payload \<Rightarrow>
          if action_type t = JStr ''ManageNervousSystemParameters'' then
            mapM (\<lambda>(fld, new).
                res_bind (current_parameter (field_or_null ''payload_text_rendering'' proposal) fld) (\<lambda>old.
                  Inr (parameter_context shown fld old new)))
              (filter (\<lambda>(_, new). new \<noteq> JNull) (sort_key (\<lambda>(fld, _). map code fld) payload))
          else if action_type t = JStr ''MintSnsTokens'' then Inr [mint_context payload]
          else Inr []
      | _ \<Rightarrow> Inr [])"

section \<open>The model's input\<close>

definition QTYPE :: "(string \<times> int) list" where
  "QTYPE = [(''choice'', 0), (''noul'', 2), (''score'', 1)]"

definition PROMPT_CLS :: nat where "PROMPT_CLS = 50281"
definition PROMPT_SEP :: nat where "PROMPT_SEP = 50282"
definition PROMPT_MASK :: nat where "PROMPT_MASK = 50284"

text \<open>The loop over the options: each gets a mask token, whose position is its marker.\<close>

fun add_options :: "(string \<Rightarrow> nat list) \<Rightarrow> string list \<Rightarrow> nat list \<Rightarrow> nat list \<Rightarrow> nat list \<times> nat list" where
  "add_options tokenize [] ids markers = (ids, markers)"
| "add_options tokenize (opt # opts) ids markers =
     add_options tokenize opts (ids @ PROMPT_MASK # tokenize ('' '' @ opt)) (markers @ [length ids])"

record model_input =
  input_ids :: "nat list"
  markers :: "nat list"
  qtype_id :: int

definition make_input ::
  "(string \<Rightarrow> nat list) \<Rightarrow> string \<Rightarrow> string \<Rightarrow> string list \<Rightarrow> string \<Rightarrow> model_input res" where
  "make_input tokenize kind q opts st =
     (let ids = PROMPT_CLS # tokenize (kind @ '' question: '' @ q) @ [PROMPT_SEP];
          (ids, ms) = add_options tokenize opts ids [];
          ids = ids @ PROMPT_SEP # tokenize st @ [PROMPT_SEP]
      in res_bind (of_option (KeyError kind) (map_of QTYPE kind)) (\<lambda>n.
           Inr \<lparr>input_ids = ids, markers = ms, qtype_id = n\<rparr>))"

definition input_json :: "model_input \<Rightarrow> json" where
  "input_json i = JObj [(''input_ids'', JList (map (JInt \<circ> int) (input_ids i))),
     (''markers'', JList (map (JInt \<circ> int) (markers i))), (''qtype_id'', JInt (qtype_id i))]"

section \<open>The advisory\<close>

text \<open>\<open>math.isfinite(v)\<close>; an integer is converted to a float first.\<close>

definition is_finite :: "json \<Rightarrow> bool res" where
  "is_finite j = (case j of
     JFloat x \<Rightarrow> Inr (fl_finite x)
   | JBool _ \<Rightarrow> Inr True
   | JInt n \<Rightarrow> (case fl_round binary64 (of_int n) of Fin _ \<Rightarrow> Inr True | _ \<Rightarrow> Inl OverflowError)
   | _ \<Rightarrow> Inl TypeError)"

text \<open>\<open>any(not math.isfinite(v) for v in logits)\<close>\<close>

fun any_infinite :: "json list \<Rightarrow> bool res" where
  "any_infinite [] = Inr False"
| "any_infinite (j # js) = res_bind (is_finite j) (\<lambda>b. if \<not> b then Inr True else any_infinite js)"

definition number_of :: "json \<Rightarrow> rat" where
  "number_of j = (case j of JInt n \<Rightarrow> of_int n | JBool b \<Rightarrow> of_bool b | JFloat (Fin q) \<Rightarrow> q | _ \<Rightarrow> 0)"

text \<open>\<open>max(range(len(logits)), key=logits.__getitem__)\<close>: the first of the greatest.\<close>

definition greatest_index :: "json list \<Rightarrow> nat" where
  "greatest_index js = fold (\<lambda>i m. if number_of (js ! m) < number_of (js ! i) then i else m) [1..<length js] 0"

definition assess :: "string \<Rightarrow> assessment \<Rightarrow> assessment res" where
  "assess reply row =
     res_bind (json_loads reply) (\<lambda>inference.
     res_bind (item ''raw_logits'' inference) (\<lambda>logits.
     res_bind (py_len logits) (\<lambda>n.
       if n \<noteq> length LABELS then Inl (ValueError ''Laya returned invalid logits'')
       else
         res_bind (py_iter logits) (\<lambda>js.
         res_bind (any_infinite js) (\<lambda>bad.
           if bad then Inl (ValueError ''Laya returned invalid logits'')
           else
             res_bind (item ''bundle'' inference) (\<lambda>b.
               Inr (row\<lparr>status := Assessed, label := Some (LABELS ! greatest_index js), raw_logits := zip LABELS js,
                        model_bundle := b\<rparr>)))))))"

definition unavailable :: "string \<Rightarrow> assessment \<Rightarrow> assessment" where
  "unavailable why row = row\<lparr>status := Unavailable, reason := Some why\<rparr>"

text \<open>The exceptions of a model run that are reported on its row.\<close>

definition run_failure :: "exn \<Rightarrow> bool" where
  "run_failure e = (case e of
     OSError _ \<Rightarrow> True | ValueError _ \<Rightarrow> True | KeyError _ \<Rightarrow> True | TypeError \<Rightarrow> True
   | CalledProcessError _ \<Rightarrow> True | TimeoutExpired _ \<Rightarrow> True | _ \<Rightarrow> False)"

definition check_output :: "'w system \<Rightarrow> string list \<Rightarrow> int \<Rightarrow> ('w, string) io" where
  "check_output S command timeout =
     io_bind (sys_run S command (Some timeout)) (\<lambda>(returncode, out, _).
       if returncode \<noteq> 0 then io_raise (CalledProcessError returncode) else io_ret out)"

definition assess_context ::
  "'w system \<Rightarrow> (string \<Rightarrow> nat list) \<Rightarrow> (exn \<Rightarrow> string) \<Rightarrow> string \<Rightarrow> string \<Rightarrow> string \<Rightarrow>
   nat \<times> assessment \<Rightarrow> ('w, assessment) io" where
  "assess_context S tokenize message pack binary temp ic =
     (case ic of (index, context) \<Rightarrow>
      if status context \<noteq> Ready then io_ret context
      else
        io_bind (io_lift (make_input tokenize ''choice'' (the (question context)) LABELS (the (state context)))) (\<lambda>i.
          let row = context\<lparr>input_tokens := Some (length (input_ids i))\<rparr>
          in if 128 < length (input_ids i)
             then io_ret (unavailable ''input exceeds 128 tokens; evidence was not truncated'' row)
             else
               let path = path_join temp (''input-'' @ nat_str index @ ''.json'')
               in io_then (sys_report S path (input_json i))
                    (io_catch
                      (io_bind (check_output S [binary, pack, path] 120) (\<lambda>reply. io_lift (assess reply row)))
                      (\<lambda>e. if run_failure e then Some (io_ret (unavailable (message e) row)) else None))))"

record advisory =
  advisory_status :: string
  assessments :: "assessment list"
  coverage_complete :: "bool option"
  aggregate_label :: "string option"

definition covered :: "assessment \<Rightarrow> bool" where
  "covered c \<longleftrightarrow> status c = Assessed \<or> status c = Unchanged"

definition summary :: "assessment list \<Rightarrow> advisory" where
  "summary rows =
     (let scored = filter (\<lambda>c. status c = Assessed) rows; complete = list_all covered rows
      in \<lparr>advisory_status = (if complete then ''ok'' else if scored \<noteq> [] then ''partial'' else ''unavailable''),
          assessments = rows, coverage_complete = Some complete, aggregate_label = None\<rparr>)"

text \<open>\<open>except Exception\<close>: all but leaving the program.\<close>

definition any_exception :: "exn \<Rightarrow> bool" where
  "any_exception e = (case e of SystemExit _ \<Rightarrow> False | OutsideModel \<Rightarrow> False | OutOfFuel \<Rightarrow> False | _ \<Rightarrow> True)"

definition without_model :: "string \<Rightarrow> assessment list \<Rightarrow> advisory" where
  "without_model why contexts =
     \<lparr>advisory_status = ''unavailable'',
      assessments = map (\<lambda>c. if status c = Ready then unavailable why c else c) contexts,
      coverage_complete = Some False, aggregate_label = None\<rparr>"

text \<open>\<open>load\<close> imports the tokenizer library and reads the tokenizer of the pack.\<close>

definition laya_advisory ::
  "'w system \<Rightarrow> (string \<Rightarrow> ('w, string \<Rightarrow> nat list) io) \<Rightarrow> (json \<Rightarrow> string) \<Rightarrow> (exn \<Rightarrow> string) \<Rightarrow> string \<Rightarrow>
   (string \<times> json) list \<Rightarrow> triaged \<Rightarrow> string \<Rightarrow> string \<Rightarrow> ('w, advisory) io" where
  "laya_advisory S load shown message temp proposal t pack binary =
     io_bind (io_lift (laya_contexts shown proposal t)) (\<lambda>contexts.
       if contexts = []
       then io_ret \<lparr>advisory_status = ''not_applicable'', assessments = [], coverage_complete = None, aggregate_label = None\<rparr>
       else
         let score = (\<lambda>tokenize. io_bind (io_map (assess_context S tokenize message pack binary temp) (enumerate 0 contexts))
               (\<lambda>rows. io_ret (summary rows)))
         in if \<not> list_ex (\<lambda>c. status c = Ready) contexts then score (\<lambda>_. [])
            else io_bind
              (io_catch (io_bind (load (path_join pack ''tokenizer.json'')) (\<lambda>tokenize. io_ret (Inr tokenize)))
                (\<lambda>e. if any_exception e then Some (io_ret (Inl (message e))) else None))
              (\<lambda>loaded. case loaded of
                 Inl why \<Rightarrow> io_ret (without_model why contexts)
               | Inr tokenize \<Rightarrow> score tokenize))"

text \<open>The printed report: the triage, and what \<open>result["laya"]\<close> is set to, a reason or an advisory.\<close>

definition triage_main ::
  "'w system \<Rightarrow> (string \<Rightarrow> nat \<Rightarrow> ('w, bytes) io) \<Rightarrow> (string \<Rightarrow> ('w, string \<Rightarrow> nat list) io) \<Rightarrow>
   (json \<Rightarrow> string) \<Rightarrow> (exn \<Rightarrow> string) \<Rightarrow> string \<Rightarrow> triage_args \<Rightarrow> ('w, triaged \<times> (string + advisory) option) io" where
  "triage_main S fetch load shown message temp a =
     io_bind (load_proposal S fetch a) (\<lambda>proposal.
     io_bind (io_lift (triage shown proposal)) (\<lambda>t.
       if \<not> arg_with_laya a then io_ret (t, None)
       else
         io_bind (io_catch
             (io_bind (laya_advisory S load shown message temp (as_fields proposal) t (arg_pack a) (arg_binary a))
               (\<lambda>adv. io_ret (Inr adv)))
             (\<lambda>e. case e of
                OSError _ \<Rightarrow> Some (io_ret (Inl (message e)))
              | ValueError _ \<Rightarrow> Some (io_ret (Inl (message e)))
              | CalledProcessError _ \<Rightarrow> Some (io_ret (Inl (message e)))
              | _ \<Rightarrow> None)) (\<lambda>laya. io_ret (t, Some laya))))"

section \<open>Lemmas: the questions\<close>

lemma parameter_context_fact [simp]: "the_fact (parameter_context shown fld old new) = ParameterFact fld old new"
  by (simp add: parameter_context_def asking_def bare_def Let_def)

lemma parameter_context_status: "status (parameter_context shown fld old new) \<noteq> Assessed"
  by (simp add: parameter_context_def asking_def bare_def Let_def)

lemma mint_context_status: "status (mint_context payload) \<noteq> Assessed"
  by (simp add: mint_context_def asking_def bare_def Let_def)

text \<open>The contexts of the proposed values, from the value each parameter has now.\<close>

definition now_of :: "json \<Rightarrow> string \<Rightarrow> int option" where
  "now_of rendering fld = (case current_parameter rendering fld of Inr old \<Rightarrow> old | Inl _ \<Rightarrow> None)"

lemma parameter_contexts:
  "mapM (\<lambda>(fld, new). res_bind (current_parameter rendering fld) (\<lambda>old. Inr (parameter_context shown fld old new))) kvs =
     Inr (map (\<lambda>(fld, new). parameter_context shown fld (now_of rendering fld) new) kvs)"
proof (induction kvs)
  case (Cons kv kvs)
  obtain old where "current_parameter rendering (fst kv) = Inr old" using current_parameter_ok by blast
  then show ?case using Cons by (cases kv) (simp add: now_of_def)
qed simp

lemma laya_contexts_status:
  assumes "laya_contexts shown proposal t = Inr contexts" "c \<in> set contexts"
  shows "status c \<noteq> Assessed"
proof (cases "field_or_null ''proposal_action_payload'' proposal")
  case (JObj payload)
  show ?thesis
  proof (cases "action_type t = JStr ''ManageNervousSystemParameters''")
    case True
    then show ?thesis
      using assms JObj parameter_context_status by (auto simp: laya_contexts_def parameter_contexts)
  next
    case False
    then have "contexts = [mint_context payload] \<or> contexts = []"
      using assms JObj by (simp add: laya_contexts_def split: if_splits)
    then show ?thesis using assms(2) mint_context_status by auto
  qed
qed (use assms in \<open>simp_all add: laya_contexts_def\<close>)

section \<open>Lemmas: the rows\<close>

lemma greatest_index_run:
  "m < k \<Longrightarrow> \<forall>i < k. number_of (js ! i) \<le> number_of (js ! m) \<Longrightarrow>
   let r = fold (\<lambda>i m. if number_of (js ! m) < number_of (js ! i) then i else m) [k ..< k + d] m in
     r < k + d \<and> (\<forall>i < k + d. number_of (js ! i) \<le> number_of (js ! r))"
proof (induction d arbitrary: k m)
  case (Suc d)
  let ?m = "if number_of (js ! m) < number_of (js ! k) then k else m"
  have step: "[k ..< k + Suc d] = k # [Suc k ..< Suc k + d]" by (simp add: upt_conv_Cons)
  have "\<forall>i < Suc k. number_of (js ! i) \<le> number_of (js ! ?m)"
    using Suc.prems(2) by (auto simp: less_Suc_eq intro: order_trans less_imp_le)
  moreover have "?m < Suc k" using Suc.prems(1) by simp
  ultimately show ?case using Suc.IH [of ?m "Suc k"] unfolding step by (simp add: Let_def)
qed (simp add: Let_def)

lemma greatest_index_greatest:
  assumes "js \<noteq> []"
  shows "greatest_index js < length js \<and> (\<forall>i < length js. number_of (js ! i) \<le> number_of (js ! greatest_index js))"
  using greatest_index_run [of 0 1 js "length js - 1"] assms by (cases js) (simp_all add: greatest_index_def Let_def)

text \<open>What a scored row says: three finite logits, one for each label, and the label of the greatest.\<close>

definition scored_row :: "assessment \<Rightarrow> bool" where
  "scored_row r \<longleftrightarrow> (\<exists>n \<le> 128. input_tokens r = Some n) \<and> map fst (raw_logits r) = LABELS \<and>
     (\<exists>k < 3. label r = Some (LABELS ! k) \<and>
        (\<forall>i < 3. number_of (snd (raw_logits r ! i)) \<le> number_of (snd (raw_logits r ! k))))"

lemma length_LABELS [simp]: "length LABELS = 3"
  by (simp add: LABELS_def)

lemma assess_Inr:
  assumes "assess reply row = Inr r" "\<exists>n \<le> 128. input_tokens row = Some n"
  shows "the_fact r = the_fact row \<and> status r = Assessed \<and> scored_row r"
proof -
  obtain inference logits js b where l: "py_len logits = Inr 3" "py_iter logits = Inr js"
    and r: "r = row\<lparr>status := Assessed, label := Some (LABELS ! greatest_index js), raw_logits := zip LABELS js, model_bundle := b\<rparr>"
    using assms(1) by (auto simp: assess_def res_iff split: if_splits)
  have js: "length js = 3" using py_iter_length [OF l(2)] l(1) by simp
  then have "js \<noteq> []" by auto
  note greatest = greatest_index_greatest [OF this]
  have "\<exists>k < 3. label r = Some (LABELS ! k) \<and>
      (\<forall>i < 3. number_of (snd (raw_logits r ! i)) \<le> number_of (snd (raw_logits r ! k)))"
    using greatest js by (intro exI [of _ "greatest_index js"]) (simp add: r)
  moreover have "map fst (raw_logits r) = LABELS" using js by (simp add: r)
  ultimately have "scored_row r" using assms(2) unfolding scored_row_def by (simp add: r)
  then show ?thesis by (simp add: r)
qed

text \<open>A row keeps the fact of its context; one with no question is its context.\<close>

definition row_of :: "assessment \<Rightarrow> assessment \<Rightarrow> bool" where
  "row_of c r \<longleftrightarrow> the_fact r = the_fact c \<and>
     (if status c = Ready then status r = Assessed \<and> scored_row r \<or> status r = Unavailable \<and> reason r \<noteq> None
      else r = c)"

lemma unavailable_row: "status c = Ready \<Longrightarrow> the_fact r = the_fact c \<Longrightarrow> row_of c (unavailable why r)"
  by (simp add: row_of_def unavailable_def)

lemma assess_context_row:
  assumes "assess_context S tokenize message pack binary temp (i, c) w = (Inr r, w')"
  shows "row_of c r"
proof (cases "status c = Ready")
  case False
  then show ?thesis using assms by (simp add: assess_context_def row_of_def)
next
  case True
  obtain inp where inp: "make_input tokenize ''choice'' (the (question c)) LABELS (the (state c)) = Inr inp"
    using assms True by (auto simp: assess_context_def res_iff)
  let ?row = "c\<lparr>input_tokens := Some (length (input_ids inp))\<rparr>"
  show ?thesis
  proof (cases "128 < length (input_ids inp)")
    case True
    then show ?thesis
      using assms \<open>status c = Ready\<close> inp by (auto simp: assess_context_def Let_def intro: unavailable_row)
  next
    case False
    obtain w1 where run: "io_catch
        (io_bind (check_output S [binary, pack, path_join temp (''input-'' @ nat_str i @ ''.json'')] 120)
          (\<lambda>reply. io_lift (assess reply ?row)))
        (\<lambda>e. if run_failure e then Some (io_ret (unavailable (message e) ?row)) else None) w1 = (Inr r, w')"
      using assms True False inp by (auto simp: assess_context_def Let_def io_then_Inr)
    show ?thesis
    proof (cases "\<exists>why. r = unavailable why ?row")
      case True
      then show ?thesis using \<open>status c = Ready\<close> by (auto intro: unavailable_row)
    next
      case no: False
      then obtain reply where "assess reply ?row = Inr r"
        using run by (auto simp: io_catch_def io_bind_def split: prod.splits sum.splits if_splits)
      from assess_Inr [OF this] show ?thesis using True False by (simp add: row_of_def)
    qed
  qed
qed

lemma io_map_rows:
  "io_map (assess_context S tokenize message pack binary temp) (enumerate i contexts) w = (Inr rows, w') \<Longrightarrow>
     list_all2 row_of contexts rows"
proof (induction contexts arbitrary: i w rows)
  case (Cons c cs)
  then obtain r w1 rs where rows: "rows = r # rs"
    and r: "assess_context S tokenize message pack binary temp (i, c) w = (Inr r, w1)"
    and rs: "io_map (assess_context S tokenize message pack binary temp) (enumerate (Suc i) cs) w1 = (Inr rs, w')"
    by (auto simp: res_iff simp del: io_bind_Inr dest!: io_bind_Inr [THEN iffD1])
  show ?case unfolding rows using assess_context_row [OF r] Cons.IH [OF rs] by simp
qed simp

lemma without_model_rows: "list_all2 row_of contexts (assessments (without_model why contexts))"
  by (simp add: without_model_def list_all2_map2 list.rel_refl_strong row_of_def unavailable_def)

lemma covered_row: "row_of c r \<Longrightarrow> covered r \<longleftrightarrow> status r \<in> {Assessed, Unchanged}"
  by (auto simp: covered_def)

section \<open>Properties\<close>

text \<open>
  Every proposed value of a parameter proposal is put to the advisory once, with its value now and
  its proposed value, and no other value is; nothing is dropped because it has no question.
\<close>

theorem contexts_complete:
  assumes "parameter_change (JObj proposal) rendering payload"
    and "action_type t = JStr ''ManageNervousSystemParameters''"
  shows "\<exists>contexts. laya_contexts shown proposal t = Inr contexts \<and>
    mset (map the_fact contexts) =
      mset (map (\<lambda>(fld, new). ParameterFact fld (now_of rendering fld) new)
        (filter (\<lambda>(_, new). new \<noteq> JNull) payload))"
proof -
  have p: "field_or_null ''proposal_action_payload'' proposal = JObj payload"
    "field_or_null ''payload_text_rendering'' proposal = rendering"
    using assms(1) by (simp_all add: parameter_change_def)
  let ?kvs = "filter (\<lambda>(_, new). new \<noteq> JNull) (sort_key (\<lambda>(fld, _). map code fld) payload)"
  let ?f = "\<lambda>(fld, new). ParameterFact fld (now_of rendering fld) new"
  have "laya_contexts shown proposal t = Inr (map (\<lambda>(fld, new). parameter_context shown fld (now_of rendering fld) new) ?kvs)"
    using assms(2) p by (simp add: laya_contexts_def parameter_contexts)
  moreover have "map the_fact (map (\<lambda>(fld, new). parameter_context shown fld (now_of rendering fld) new) ?kvs) = map ?f ?kvs"
    by (simp add: case_prod_unfold)
  moreover have "mset (map ?f ?kvs) = mset (map ?f (filter (\<lambda>(_, new). new \<noteq> JNull) payload))"
    by (simp only: mset_map mset_filter mset_sort)
  ultimately show ?thesis by (intro exI conjI) (assumption, simp only:)
qed

text \<open>
  C18: an advisory keeps the evidence.  It has one row for each context, in order, with its fact; a
  context without a question is a row as it is, one with a question is assessed, with three finite
  logits of an input of at most 128 tokens and the label of the greatest, or unavailable with a
  reason.  It is ok only when every row is assessed or unchanged, and never has an overall label.
\<close>

theorem advisory_keeps_evidence:
  assumes "laya_advisory S load shown message temp proposal t pack binary w = (Inr a, w')"
  shows "\<exists>contexts. laya_contexts shown proposal t = Inr contexts \<and>
    list_all2 row_of contexts (assessments a) \<and> aggregate_label a = None \<and>
    (advisory_status a = ''ok'' \<longleftrightarrow> contexts \<noteq> [] \<and> list_all covered (assessments a)) \<and>
    (advisory_status a = ''not_applicable'' \<longleftrightarrow> contexts = []) \<and>
    (contexts \<noteq> [] \<longrightarrow> coverage_complete a = Some (list_all covered (assessments a)))"
proof -
  obtain contexts where c: "laya_contexts shown proposal t = Inr contexts"
    using assms by (auto simp: laya_advisory_def res_iff)
  let ?score = "\<lambda>tokenize. io_bind (io_map (assess_context S tokenize message pack binary temp) (enumerate 0 contexts))
      (\<lambda>rows. io_ret (summary rows))"
  have scored: "\<exists>rows. a = summary rows \<and> list_all2 row_of contexts rows" if "?score tokenize w1 = (Inr a, w2)" for tokenize w1 w2
  proof -
    note run = that
    obtain rows w3 where "io_map (assess_context S tokenize message pack binary temp) (enumerate 0 contexts) w1 = (Inr rows, w3)"
      "a = summary rows" using run by (auto simp: io_bind_Inr)
    then show ?thesis by (intro exI [of _ rows] conjI) (assumption, erule io_map_rows)
  qed
  consider "contexts = []" | "contexts \<noteq> []" "\<exists>rows. a = summary rows \<and> list_all2 row_of contexts rows"
    | "contexts \<noteq> []" "\<exists>why. a = without_model why contexts" "list_ex (\<lambda>c. status c = Ready) contexts"
  proof (cases "contexts = [] \<or> \<not> list_ex (\<lambda>c. status c = Ready) contexts")
    case True
    then show thesis using that(1,2) scored assms c by (cases "contexts = []") (auto simp: laya_advisory_def)
  next
    case False
    then obtain loaded w1 where "(case loaded of Inl why \<Rightarrow> io_ret (without_model why contexts) | Inr tokenize \<Rightarrow> ?score tokenize) w1 = (Inr a, w')"
      using assms c by (auto simp: laya_advisory_def io_bind_Inr)
    then show thesis using that(2,3) scored False by (cases loaded) auto
  qed
  then show ?thesis
  proof cases
    case 1
    then show ?thesis using assms c by (auto simp: laya_advisory_def)
  next
    case 2
    then show ?thesis using c by (auto simp: summary_def Let_def split: if_splits)
  next
    case 3
    then obtain why where a: "a = without_model why contexts" by blast
    have "\<not> list_all covered (assessments a)"
    proof -
      obtain c where "c \<in> set contexts" "status c = Ready" using 3(3) by (auto simp: list_ex_iff)
      then have "unavailable why c \<in> set (assessments a)" unfolding a by (force simp: without_model_def)
      moreover have "\<not> covered (unavailable why c)" by (simp add: covered_def unavailable_def)
      ultimately show ?thesis by (auto simp: list_all_iff)
    qed
    then show ?thesis using c 3(1) without_model_rows [of contexts why] unfolding a
      by (auto simp: without_model_def)
  qed
qed

section \<open>Witnesses\<close>

lemma sample_change_parts: "\<exists>parts. sample_change n = JObj parts \<and>
    parameter_change (JObj parts) sample_rendering [(''max_dissolve_delay_seconds'', JInt n)]"
  using sample_parameter_change [of n] by (auto simp: sample_change_def)

definition sample_triaged :: triaged where
  "sample_triaged = \<lparr>proposal_id = JNull, action_type = JStr ''ManageNervousSystemParameters'',
     outcome = fresh_review, extra_human_review_required = False\<rparr>"

theorem contexts_complete_witness:
  "\<exists>contexts. laya_contexts (\<lambda>_. []) (as_fields (sample_change 5)) sample_triaged = Inr contexts \<and>
     map the_fact contexts = [ParameterFact ''max_dissolve_delay_seconds'' (Some 2) (JInt 5)]"
proof -
  have c: "parameter_change (JObj (as_fields (sample_change 5))) sample_rendering [(''max_dissolve_delay_seconds'', JInt 5)]"
    using sample_parameter_change [of 5] by (simp add: as_fields_def sample_change_def)
  have a: "action_type sample_triaged = JStr ''ManageNervousSystemParameters''" by (simp add: sample_triaged_def)
  have now: "now_of sample_rendering ''max_dissolve_delay_seconds'' = Some 2" by (simp add: now_of_def sample_parameter)
  obtain contexts where l: "laya_contexts (\<lambda>_. []) (as_fields (sample_change 5)) sample_triaged = Inr contexts"
    and m: "mset (map the_fact contexts) =
      mset (map (\<lambda>(fld, new). ParameterFact fld (now_of sample_rendering fld) new)
        (filter (\<lambda>(_, new). new \<noteq> JNull) [(''max_dissolve_delay_seconds'', JInt 5)]))"
    using contexts_complete [OF c a, of "\<lambda>_. []"] by (elim exE conjE)
  have "mset (map the_fact contexts) = {#ParameterFact ''max_dissolve_delay_seconds'' (Some 2) (JInt 5)#}"
    unfolding m by (simp add: now)
  then have "map the_fact contexts = [ParameterFact ''max_dissolve_delay_seconds'' (Some 2) (JInt 5)]"
    unfolding mset_single_iff .
  with l show ?thesis by (intro exI conjI)
qed

text \<open>A tokenizer of one token for each text, and a model binary that cannot be run.\<close>

definition one_token :: "string \<Rightarrow> (unit, string \<Rightarrow> nat list) io" where
  "one_token path = io_ret (\<lambda>_. [7])"

definition broken_model :: "string \<Rightarrow> unit system" where
  "broken_model file = \<lparr>
     sys_run = (\<lambda>_ _. io_raise (OSError ''no such file'')), sys_exists = (\<lambda>_. io_ret True),
     sys_read = (\<lambda>_. io_ret (encode file)), sys_write = (\<lambda>_ _. io_ret ()),
     sys_report = (\<lambda>_ _. io_ret ()), sys_token = (\<lambda>n. io_ret (replicate n 0)), sys_time_ns = io_ret 0,
     repo_root = ''/repo''\<rparr>"

theorem advisory_keeps_evidence_witness:
  "\<exists>a. laya_advisory (broken_model []) one_token (\<lambda>_. []) (\<lambda>_. ''failed'') ''tmp'' (as_fields (sample_change 5)) sample_triaged
       ''pack'' ''laya-infer'' () = (Inr a, ()) \<and>
     map the_fact (assessments a) = [ParameterFact ''max_dissolve_delay_seconds'' (Some 2) (JInt 5)] \<and>
     advisory_status a \<noteq> ''ok''"
proof -
  let ?c = "parameter_context (\<lambda>_. []) ''max_dissolve_delay_seconds'' (Some 2) (JInt 5)"
  have contexts: "laya_contexts (\<lambda>_. []) (as_fields (sample_change 5)) sample_triaged = Inr [?c]"
    by (simp add: laya_contexts_def as_fields_def sample_change_def field_or_null_def sample_triaged_def sample_parameter)
  have ready: "status ?c = Ready"
    by (simp add: parameter_context_def equals_def eq_int_def asking_def bare_def Let_def)
  define q st where "q = the (question ?c)" and "st = the (state ?c)"
  obtain inp where inp: "make_input (\<lambda>_. [7]) ''choice'' q LABELS st = Inr inp" "length (input_ids inp) = 12"
    by (simp add: make_input_def LABELS_def QTYPE_def Let_def)
  let ?row = "unavailable ''failed'' (?c\<lparr>input_tokens := Some 12\<rparr>)"
  have row: "assess_context (broken_model []) (\<lambda>_. [7]) (\<lambda>_. ''failed'') ''pack'' ''laya-infer'' ''tmp'' (0, ?c) () = (Inr ?row, ())"
    using ready inp by (simp add: assess_context_def Let_def broken_model_def check_output_def io_catch_def
        run_failure_def io_then_def io_bind_def q_def st_def)
  have run: "laya_advisory (broken_model []) one_token (\<lambda>_. []) (\<lambda>_. ''failed'') ''tmp'' (as_fields (sample_change 5))
      sample_triaged ''pack'' ''laya-infer'' () = (Inr (summary [?row]), ())"
    using ready row by (simp add: laya_advisory_def contexts one_token_def io_catch_def io_bind_def)
  from advisory_keeps_evidence [OF run] contexts ready show ?thesis
    by (intro exI [of _ "summary [?row]"]) (simp add: run summary_def Let_def covered_def unavailable_def)
qed

end
