(* ===== verification/Measure_Phases.thy ===== *)
theory Measure_Phases
  imports Measure_Common
begin

text \<open>
  \<open>tools/measure_phases.py\<close>: the instructions of an inference split by phase, at the length it was
  rendered to, and normalised by the arithmetic they contain.  Wall-clock times and prints are left
  out.
\<close>

section \<open>Phases and lengths\<close>

record phase =
  phase_name :: string
  phase_instructions :: int

text \<open>\<open>name\s*=\s*"([^"]+)"\s*;\s*instructions\s*=\s*([\d_]+)\<close>\<close>

definition rx_phase :: rx where
  "rx_phase = Seqs [Lit ''name'', rx_spaces, Lit ''='', rx_spaces, Lit [CHR 0x22],
     Grp 1 (Plus (Cls (\<lambda>c. c \<noteq> CHR 0x22))), Lit [CHR 0x22], rx_spaces, Lit '';'', rx_spaces,
     Lit ''instructions'', rx_spaces, Lit ''='', rx_spaces, Grp 2 rx_num]"

definition parse_phases :: "string \<Rightarrow> phase list res" where
  "parse_phases output =
     mapM (\<lambda>m. res_bind (read_number (group 2 m)) (\<lambda>n. Inr \<lparr>phase_name = group 1 m, phase_instructions = n\<rparr>))
       (find_all rx_phase output)"

definition filler :: string where
  "filler = ''The customer reports a duplicate payment and requests a refund for the second charge '' @
     ''on the same invoice reference number''"

text \<open>\<open>while len(out) < budget\<close>\<close>

function fill_words :: "string list \<Rightarrow> nat \<Rightarrow> string list \<Rightarrow> nat \<Rightarrow> string list" where
  "fill_words words budget out index =
     (if length out < budget then fill_words words budget (out @ [words ! (index mod length words)]) (index + 1)
      else out)"
  by auto
termination by (relation "measure (\<lambda>(_, budget, out, _). budget - length out)") auto

declare fill_words.simps [simp del]

definition build_state :: "int \<Rightarrow> int \<Rightarrow> string res" where
  "build_state prefix_tokens profile_tokens =
     (let words = split_ws filler; budget = profile_tokens - prefix_tokens - 1
      in if budget \<le> 0 then Inl (RuntimeError ''profile too small for this schema'')
         else Inr (join '' '' (take (nat budget) (fill_words words (nat budget) [] 0))))"

definition UPDATE_INSTRUCTION_LIMIT :: int where
  "UPDATE_INSTRUCTION_LIMIT = 40000000000"

definition macs :: "int \<Rightarrow> int \<Rightarrow> int \<Rightarrow> int \<Rightarrow> int \<Rightarrow> int" where
  "macs h inner attention layers tokens =
     (let window = min tokens attention in (4 * h * h + 3 * inner * h + 2 * window * h) * tokens * layers)"

definition encoder_macs :: "json \<Rightarrow> int \<Rightarrow> int res" where
  "encoder_macs config tokens =
     res_bind (int_item ''hidden_size'' config) (\<lambda>h.
     res_bind (int_item ''intermediate_size'' config) (\<lambda>inner.
     res_bind (int_item ''local_attention'' config) (\<lambda>attention.
     res_bind (int_item ''layers'' config) (\<lambda>layers.
       Inr (macs h inner attention layers tokens)))))"

record phase_args =
  base :: measure_args
  full_profile :: bool
  profile_tokens :: int
  token_sweep :: "string option"

definition sweep_arguments :: "phase_args \<Rightarrow> int list res" where
  "sweep_arguments args =
     (case token_sweep args of
        Some (c # cs) \<Rightarrow> mapM (py_int 10) (filter (\<lambda>x. strip x \<noteq> []) (split_char (CHR '','') (c # cs)))
      | _ \<Rightarrow> Inr (if full_profile args then [profile_tokens args] else [0]))"

section \<open>Measuring one request\<close>

text \<open>
  The two calls of a measurement: the phases, and the same request under another id, whose reply
  tells the rendered length.
\<close>

definition measure_request ::
  "'w system \<Rightarrow> icp \<Rightarrow> int \<Rightarrow> calibrated \<Rightarrow> bytes \<Rightarrow> int \<Rightarrow> bytes \<Rightarrow> string \<Rightarrow> ('w, string \<times> string) io" where
  "measure_request S c timeout s bundle now_ns evaluation_id state =
     io_bind (call S c ''decision-engine'' ''measure_phases''
       (decision_request s bundle evaluation_id state now_ns) False timeout) (\<lambda>out.
     io_bind (call S c ''decision-engine'' ''evaluate''
       (decision_request s bundle (sha256 (encode ''len-'' @ evaluation_id)) state now_ns) False timeout) (\<lambda>probe.
       io_ret (out, probe)))"

definition total_of :: "phase list \<Rightarrow> int" where
  "total_of ps = sum_list (map phase_instructions ps)"

text \<open>A dict built by a comprehension: the last value of a name, in the place of its first.\<close>

definition last_by_name :: "phase list \<Rightarrow> (string \<times> int) list" where
  "last_by_name ps = fold (\<lambda>p d. AList.update (phase_name p) (phase_instructions p) d) ps []"

text \<open>\<open>aggregated[name] = aggregated.get(name, 0) + instructions\<close>\<close>

definition aggregate :: "phase list \<Rightarrow> (string \<times> int) list" where
  "aggregate ps = fold (\<lambda>p d. AList.update (phase_name p)
     ((case map_of d (phase_name p) of None \<Rightarrow> 0 | Some n \<Rightarrow> n) + phase_instructions p) d) ps []"

definition int_dict :: "(string \<times> int) list \<Rightarrow> json" where
  "int_dict d = JObj (map (\<lambda>(k, n). (k, JInt n)) d)"

definition sweep_point :: "int \<Rightarrow> string \<Rightarrow> int option \<Rightarrow> phase list \<Rightarrow> json" where
  "sweep_point len out rendered phases =
     (case rendered of
        Some r \<Rightarrow>
          if phases \<noteq> []
          then JObj [(''requested'', JInt len), (''rendered'', JInt r), (''total'', JInt (total_of phases)),
                 (''phases'', int_dict (last_by_name phases))]
          else JObj [(''requested'', JInt len), (''error'', clipped 200 out)]
      | None \<Rightarrow> JObj [(''requested'', JInt len), (''error'', clipped 200 out)])"

definition sweep_length ::
  "'w system \<Rightarrow> icp \<Rightarrow> string \<Rightarrow> int \<Rightarrow> calibrated \<Rightarrow> bytes \<Rightarrow> int \<Rightarrow> int \<Rightarrow> ('w, json) io" where
  "sweep_length S c tier timeout s bundle now_ns len =
     io_bind (io_lift (build_state (int (length (compiled_prefix s))) len)) (\<lambda>state.
     io_bind (measure_request S c timeout s bundle now_ns
       (sha256 (encode (''sweep-'' @ tier @ ''-'' @ int_str len))) state) (\<lambda>(out, probe).
     io_bind (io_lift (read_match rx_input_tokens probe)) (\<lambda>rendered.
     io_bind (io_lift (parse_phases out)) (\<lambda>phases.
       io_ret (sweep_point len out rendered phases)))))"

text \<open>\<open>compiled[2]\<close>: three schemas are always registered.\<close>

definition measure_sweep ::
  "'w system \<Rightarrow> icp \<Rightarrow> string \<Rightarrow> phase_args \<Rightarrow> json \<Rightarrow> calibrated list \<Rightarrow> bytes \<Rightarrow> int \<Rightarrow> ('w, json) io" where
  "measure_sweep S c tier args record compiled bundle now_ns =
     io_bind (io_lift (if length compiled \<le> 2 then Inl IndexError else Inr (compiled ! 2))) (\<lambda>s.
     io_bind (io_lift (sweep_arguments args)) (\<lambda>lens.
     io_bind (io_map (sweep_length S c tier (arg_timeout (base args)) s bundle now_ns) lens) (\<lambda>points.
       io_ret (set_key ''sweep'' (JList points) record))))"

section \<open>One schema of a tier\<close>

text \<open>\<open>a / b\<close> and \<open>round(x, n)\<close>, which rounds the exact value half to even.\<close>

definition quotient :: "int \<Rightarrow> int \<Rightarrow> rat res" where
  "quotient a b = (if b = 0 then Inl ZeroDivisionError else int_truediv a b)"

definition round_to :: "nat \<Rightarrow> rat \<Rightarrow> fl" where
  "round_to n q = fl_round binary64 (of_int (round_even (q * 10 ^ n)) / 10 ^ n)"

record detail =
  detail_name :: string
  detail_instructions :: int
  share :: fl

record efficiency =
  eff_tokens :: int
  eff_macs :: int
  encoder_instructions :: int
  per_mac :: fl
  per_mac_encoder :: fl
  per_token :: fl
  tokens_per_update_budget :: fl

record measured =
  m_schema :: string
  m_primitive :: string
  m_total :: int
  details :: "detail list"
  efficient :: "efficiency option"

datatype entry = Refusal string json | Measured measured

definition detailed :: "phase list \<Rightarrow> detail list res" where
  "detailed ps = mapM (\<lambda>(name, value). res_bind (quotient value (total_of ps)) (\<lambda>q.
     Inr \<lparr>detail_name = name, detail_instructions = value, share = round_to 4 q\<rparr>)) (aggregate ps)"

definition state_for :: "phase_args \<Rightarrow> calibrated \<Rightarrow> string res" where
  "state_for args s =
     (if full_profile args then build_state (int (length (compiled_prefix s))) (profile_tokens args) else Inr STATE)"

text \<open>The entry of a schema, and its rendered length where the probe tells it.\<close>

definition measure_schema ::
  "'w system \<Rightarrow> icp \<Rightarrow> string \<Rightarrow> phase_args \<Rightarrow> bytes \<Rightarrow> int \<Rightarrow> calibrated \<Rightarrow> ('w, entry \<times> int option) io" where
  "measure_schema S c tier args bundle now_ns s =
     io_bind (io_lift (state_for args s)) (\<lambda>state.
     io_bind (measure_request S c (arg_timeout (base args)) s bundle now_ns
       (sha256 (encode (''phases-'' @ tier @ ''-'' @ schema_id s))) state) (\<lambda>(out, probe).
     io_bind (io_lift (read_match rx_input_tokens probe)) (\<lambda>rendered.
     io_bind (io_lift (parse_phases out)) (\<lambda>phases.
       if phases = [] then io_ret (Refusal (schema_id s) (clipped 400 out), rendered)
       else
         io_bind (io_lift (detailed phases)) (\<lambda>ds.
           io_ret (Measured \<lparr>m_schema = schema_id s, m_primitive = schema_primitive s, m_total = total_of phases,
             details = ds, efficient = None\<rparr>, rendered))))))"

section \<open>Efficiency\<close>

text \<open>The phases of the encoder: \<open>layer.\<close> and three more.\<close>

definition encoder_phase :: "string \<Rightarrow> bool" where
  "encoder_phase name \<longleftrightarrow> starts_with ''layer.'' name \<or> name \<in> {''embedding'', ''final_norm'', ''encoder''}"

definition efficiency_of :: "json \<Rightarrow> int \<Rightarrow> measured \<Rightarrow> efficiency res" where
  "efficiency_of config tokens e =
     res_bind (encoder_macs config tokens) (\<lambda>m.
     res_bind (quotient (m_total e) tokens) (\<lambda>pt.
       let encoder = sum_list (map detail_instructions (filter (\<lambda>d. encoder_phase (detail_name d)) (details e)))
       in res_bind (quotient (m_total e) m) (\<lambda>pm.
          res_bind (quotient encoder m) (\<lambda>pe.
          res_bind (if pt = 0 then Inl ZeroDivisionError
                    else case fl_round binary64 (of_int UPDATE_INSTRUCTION_LIMIT / pt) of
                      Fin q \<Rightarrow> Inr q | _ \<Rightarrow> Inl OutsideModel) (\<lambda>fit.
            Inr \<lparr>eff_tokens = tokens, eff_macs = m, encoder_instructions = encoder,
                 per_mac = round_to 2 pm, per_mac_encoder = round_to 2 pe, per_token = round_to 1 pt,
                 tokens_per_update_budget = round_to 1 fit\<rparr>)))))"

definition add_efficiency :: "json \<Rightarrow> (string \<times> int) list \<Rightarrow> entry \<Rightarrow> entry res" where
  "add_efficiency config rendered e =
     (case e of
        Refusal _ _ \<Rightarrow> Inr e
      | Measured v \<Rightarrow>
          (case map_of rendered (m_schema v) of
             None \<Rightarrow> Inr e
           | Some tokens \<Rightarrow>
               if tokens = 0 then Inr e
               else res_bind (efficiency_of config tokens v) (\<lambda>f. Inr (Measured (v\<lparr>efficient := Some f\<rparr>)))))"

section \<open>The report\<close>

definition detail_json :: "detail \<Rightarrow> json" where
  "detail_json d = JObj [(''name'', JStr (detail_name d)), (''instructions'', JInt (detail_instructions d)),
     (''share'', JFloat (share d))]"

definition efficiency_json :: "efficiency \<Rightarrow> (string \<times> json) list" where
  "efficiency_json f =
     [(''tokens'', JInt (eff_tokens f)), (''macs'', JInt (eff_macs f)),
      (''encoder_instructions'', JInt (encoder_instructions f)), (''instructions_per_mac'', JFloat (per_mac f)),
      (''instructions_per_mac_encoder'', JFloat (per_mac_encoder f)),
      (''instructions_per_token'', JFloat (per_token f)),
      (''tokens_per_update_budget'', JFloat (tokens_per_update_budget f))]"

definition entry_json :: "entry \<Rightarrow> json" where
  "entry_json e =
     (case e of
        Refusal s err \<Rightarrow> JObj [(''schema'', JStr s), (''error'', err)]
      | Measured v \<Rightarrow> JObj ([(''schema'', JStr (m_schema v)), (''primitive'', JStr (m_primitive v)),
          (''total'', JInt (m_total v)), (''phases'', JList (map detail_json (details v)))] @
          (case efficient v of None \<Rightarrow> [] | Some f \<Rightarrow> efficiency_json f)))"

definition phase_names :: "entry list \<Rightarrow> string set" where
  "phase_names es = (\<Union>e \<in> set es. case e of Refusal _ _ \<Rightarrow> {} | Measured v \<Rightarrow> set (map detail_name (details v)))"

definition rendered_dict :: "(entry \<times> int option) list \<Rightarrow> (string \<times> int) list" where
  "rendered_dict rows = fold (\<lambda>(e, r) d. case r of
       None \<Rightarrow> d
     | Some n \<Rightarrow> AList.update (case e of Refusal s _ \<Rightarrow> s | Measured v \<Rightarrow> m_schema v) n d) rows []"

definition tier_report :: "phase_args \<Rightarrow> json \<Rightarrow> (entry \<times> int option) list \<Rightarrow> json res" where
  "tier_report args record rows =
     (let rendered = rendered_dict rows
      in res_bind (item ''config'' record) (\<lambda>config.
         let out = (\<lambda>es. set_key ''phase_names_observed'' (JInt (int (card (phase_names es))))
               (set_key ''phases'' (JList (map entry_json es))
               (set_key ''profile_tokens'' (if full_profile args then JInt (profile_tokens args) else JNull)
               (set_key ''rendered_tokens'' (if rendered = [] then JNull else int_dict rendered) record))))
         in if rendered = [] then Inr (out (map fst rows))
            else res_bind (mapM (add_efficiency config rendered) (map fst rows)) (\<lambda>es.
              Inr (set_key ''notes'' (JStr (''instructions_per_mac, instructions_per_token and '' @
                ''tokens_per_update_budget use each evaluation's own measured rendered length, not the 128-token profile''))
                (out es)))))"

definition measure_phase_tier :: "nat \<Rightarrow> 'w system \<Rightarrow> icp \<Rightarrow> string \<Rightarrow> phase_args \<Rightarrow> ('w, json) io" where
  "measure_phase_tier fuel S c tier args =
     (let timeout = arg_timeout (base args)
      in io_bind (upload_pack fuel S c tier (chunk_kib (base args)) timeout) (\<lambda>(record, raw).
         io_bind (sys_read S (path_join (fixture_dir S tier) ''tokenizer.json'')) (\<lambda>tokenizer.
         io_bind (register_schemas S c raw tokenizer SCHEMAS timeout) (\<lambda>(compiled, bundle, now_ns).
         io_bind (io_lift (sweep_arguments args)) (\<lambda>lens.
           if 1 < length lens then measure_sweep S c tier args record compiled bundle now_ns
           else io_bind (io_map (measure_schema S c tier args bundle now_ns) compiled) (\<lambda>rows.
             io_lift (tier_report args record rows)))))))"

section \<open>The run\<close>

text \<open>\<open>except (Failure, RuntimeError)\<close>\<close>

definition phase_tier_result :: "nat \<Rightarrow> 'w system \<Rightarrow> icp \<Rightarrow> phase_args \<Rightarrow> string \<Rightarrow> ('w, json) io" where
  "phase_tier_result fuel S c args tier =
     io_catch (measure_phase_tier fuel S c tier args) (\<lambda>e. case e of
       Failure m \<Rightarrow> Some (io_ret (JObj [(''tier'', JStr tier), (''harness_error'', JStr (take 400 m))]))
     | RuntimeError m \<Rightarrow> Some (io_ret (JObj [(''tier'', JStr tier), (''harness_error'', JStr (take 400 m))]))
     | _ \<Rightarrow> None)"

definition phase_report :: "json list \<Rightarrow> json" where
  "phase_report results =
     JObj [(''kind'', JStr ''per-phase instruction cost on a local replica''),
           (''note'', JStr (''measure_phases is measurement-only; it bypasses the engine cache and '' @
              ''cannot move funds. instructions are counted by the canister'')),
           (''tiers'', JList results)]"

definition phases_session :: "nat \<Rightarrow> 'w system \<Rightarrow> icp \<Rightarrow> phase_args \<Rightarrow> string list \<Rightarrow> ('w, unit) io" where
  "phases_session fuel S c args names =
     io_bind (ensure_identity S c (arg_identity (base args))) (\<lambda>owner.
     io_then (ensure_cycles S c ''10t'')
     (io_then (ensure_canister S c ''decision-engine'')
     (io_then (run S c [''canister'', ''install'', ''decision-engine'', ''-e'', icp_env c, ''-y'', ''-m'', ''reinstall'',
         ''--wasm'', engine_wasm S, ''--args'', ''('' @ principal owner @ '')''] True OwnIdentity
         (max (arg_timeout (base args)) 600))
     (io_then (admit_caller S c owner)
     (io_bind (io_map (phase_tier_result fuel S c args) names) (\<lambda>results.
       sys_report S (path_join (repo_root S) ''artifacts/phase_measurements.json'') (phase_report results)))))))"

definition phases_main :: "nat \<Rightarrow> 'w system \<Rightarrow> phase_args \<Rightarrow> ('w, int) io" where
  "phases_main fuel S args =
     (let names = (if tiers (base args) = [] then [''measure-s'', ''measure-m''] else tiers (base args));
          c = new_icp S (repo_root S) (arg_env (base args)) (arg_identity (base args))
      in io_then (io_when (\<not> skip_build (base args)) (build_engine S))
        (io_bind (sys_exists S (engine_wasm S)) (\<lambda>there.
         io_then (io_guard there (Failure ''build/decision-engine.wasm missing''))
         (io_then (require_local_network S c)
         (io_bind (network_status S c) (\<lambda>status.
         io_then (io_when (status = JNull)
           (io_then (run S c [''network'', ''start'', ''-d'', ''-e'', arg_env (base args)] True OwnIdentity 300) (io_ret ())))
         (io_then (io_finally (phases_session fuel S c args names)
           (io_when (status = JNull)
             (io_then (run S c [''network'', ''stop'', ''-e'', arg_env (base args)] False OwnIdentity 300) (io_ret ()))))
         (io_ret 0))))))))"

section \<open>Lemmas: lengths\<close>

lemma split_ws_acc_run:
  "list_all (\<lambda>c. \<not> is_space c) w \<Longrightarrow> split_ws_acc acc (w @ s) = split_ws_acc (rev w @ acc) s"
  by (induction w arbitrary: acc) simp_all

lemma split_ws_join:
  assumes "\<forall>w \<in> set ws. w \<noteq> [] \<and> list_all (\<lambda>c. \<not> is_space c) w"
  shows "split_ws (join '' '' ws) = ws"
  using assms
proof (induction ws rule: induct_list012)
  case (2 w)
  then show ?case using split_ws_acc_run [of w "[]" "[]"] by (simp add: split_ws_def)
next
  case (3 w v ws)
  have "is_space (CHR '' '')" by (simp add: is_space_def)
  then show ?case
    using 3 split_ws_acc_run [of w "[]" "'' '' @ join '' '' (v # ws)"] by (simp add: split_ws_def)
qed (simp add: split_ws_def)

lemma fill_words_result:
  "words \<noteq> [] \<Longrightarrow> length out \<le> budget \<Longrightarrow>
   length (fill_words words budget out index) = budget \<and> set (fill_words words budget out index) \<subseteq> set out \<union> set words"
proof (induction words budget out index rule: fill_words.induct)
  case (1 words budget out index)
  note step = fill_words.simps [of words budget out index]
  have w: "words ! (index mod length words) \<in> set words" using "1.prems"(1) by simp
  show ?case
  proof (cases "length out < budget")
    case True
    then show ?thesis using "1.IH" [OF True "1.prems"(1)] w unfolding step by auto
  next
    case False
    then show ?thesis using "1.prems"(2) unfolding step by auto
  qed
qed

lemma filler_words: "split_ws filler \<noteq> []" "\<forall>w \<in> set (split_ws filler). w \<noteq> [] \<and> list_all (\<lambda>c. \<not> is_space c) w"
  by code_simp+

section \<open>Lemmas: dictionaries of phases\<close>

lemma sum_list_update:
  "distinct (map fst d) \<Longrightarrow> sum_list (map snd (AList.update k (v::int) d)) =
     sum_list (map snd d) - (case map_of d k of None \<Rightarrow> 0 | Some n \<Rightarrow> n) + v"
  by (induction d) auto

definition named :: "string \<Rightarrow> phase list \<Rightarrow> int" where
  "named k ps = sum_list (map phase_instructions (filter (\<lambda>p. phase_name p = k) ps))"

lemma aggregate_run:
  "distinct (map fst d) \<Longrightarrow>
   let r = fold (\<lambda>p d. AList.update (phase_name p)
     ((case map_of d (phase_name p) of None \<Rightarrow> 0 | Some n \<Rightarrow> n) + phase_instructions p) d) ps d in
     distinct (map fst r) \<and> sum_list (map snd r) = sum_list (map snd d) + total_of ps \<and>
     fst ` set r = fst ` set d \<union> phase_name ` set ps \<and>
     (\<forall>k \<in> fst ` set r. map_of r k = Some ((case map_of d k of None \<Rightarrow> 0 | Some n \<Rightarrow> n) + named k ps))"
proof (induction ps arbitrary: d)
  case Nil
  have "\<forall>k \<in> fst ` set d. map_of d k = Some (case map_of d k of None \<Rightarrow> 0 | Some n \<Rightarrow> n)"
    by (metis (no_types, lifting) map_of_eq_None_iff not_None_eq option.simps(5))
  then show ?case using Nil by (simp add: total_of_def named_def)
next
  case (Cons p ps)
  let ?d = "AList.update (phase_name p) ((case map_of d (phase_name p) of None \<Rightarrow> 0 | Some n \<Rightarrow> n) + phase_instructions p) d"
  have d: "distinct (map fst ?d)" using Cons.prems by (rule distinct_update)
  have keys: "fst ` set ?d = fst ` set d \<union> {phase_name p}" by (simp add: AList.dom_update)
  have sum: "sum_list (map snd ?d) = sum_list (map snd d) + phase_instructions p"
    by (simp add: sum_list_update [OF Cons.prems])
  have look: "map_of ?d k = (if k = phase_name p then Some ((case map_of d k of None \<Rightarrow> 0 | Some n \<Rightarrow> n) + phase_instructions p)
      else map_of d k)" for k
    by (simp add: update_conv')
  have n: "named k (p # ps) = (if phase_name p = k then phase_instructions p else 0) + named k ps" for k
    by (simp add: named_def)
  show ?case using Cons.IH [OF d] keys sum by (auto simp: Let_def look n total_of_def)
qed

lemma last_run:
  "distinct (map fst d) \<Longrightarrow> \<forall>p \<in> set ps. 0 < phase_instructions p \<Longrightarrow> \<forall>kn \<in> set d. 0 < snd kn \<Longrightarrow>
   let r = fold (\<lambda>p d. AList.update (phase_name p) (phase_instructions p) d) ps d in
     sum_list (map snd r) \<le> sum_list (map snd d) + total_of ps \<and>
     (sum_list (map snd r) = sum_list (map snd d) + total_of ps \<longleftrightarrow>
        distinct (map phase_name ps) \<and> fst ` set d \<inter> phase_name ` set ps = {})"
proof (induction ps arbitrary: d)
  case (Cons p ps)
  let ?d = "AList.update (phase_name p) (phase_instructions p) d"
  have d: "distinct (map fst ?d)" using Cons.prems(1) by (rule distinct_update)
  have keys: "fst ` set ?d = insert (phase_name p) (fst ` set d)" by (simp add: AList.dom_update)
  have "set ?d \<subseteq> insert (phase_name p, phase_instructions p) (set d)" by (induction d) auto
  then have pos: "\<forall>kn \<in> set ?d. 0 < snd kn" using Cons.prems(2,3) by auto
  have old: "if phase_name p \<in> fst ` set d then \<exists>n > 0. map_of d (phase_name p) = Some n
      else map_of d (phase_name p) = None"
    using Cons.prems(3) by (auto simp: map_of_eq_None_iff) (metis map_of_SomeD not_None_eq map_of_eq_None_iff snd_conv fst_conv image_eqI)
  have sum: "sum_list (map snd ?d) = sum_list (map snd d) -
      (case map_of d (phase_name p) of None \<Rightarrow> 0 | Some n \<Rightarrow> n) + phase_instructions p"
    by (rule sum_list_update [OF Cons.prems(1)])
  have ih: "let r = fold (\<lambda>p d. AList.update (phase_name p) (phase_instructions p) d) ps ?d in
     sum_list (map snd r) \<le> sum_list (map snd ?d) + total_of ps \<and>
     (sum_list (map snd r) = sum_list (map snd ?d) + total_of ps \<longleftrightarrow>
        distinct (map phase_name ps) \<and> fst ` set ?d \<inter> phase_name ` set ps = {})"
    using Cons.IH [OF d _ pos] Cons.prems(2) by simp
  show ?case
  proof (cases "phase_name p \<in> fst ` set d")
    case True
    then obtain n where n: "0 < n" "map_of d (phase_name p) = Some n" using old by auto
    show ?thesis using ih True n unfolding Let_def keys sum by (simp add: total_of_def)
  next
    case False
    then have n: "map_of d (phase_name p) = None" using old by simp
    show ?thesis using ih False n unfolding Let_def keys sum by (auto simp: total_of_def)
  qed
qed (simp add: total_of_def)

section \<open>Properties\<close>

text \<open>
  A state that is built fills the profile exactly: with the prefix and one separator its tokens
  are as many as the profile has; and it is refused exactly when no word fits.
\<close>

theorem build_state_fills:
  "case build_state pre profile of
     Inr state \<Rightarrow> pre + int (length (mc_fixture_encode state)) + 1 = profile
   | Inl e \<Rightarrow> e = RuntimeError ''profile too small for this schema'' \<and> profile \<le> pre + 1"
proof (cases "profile - pre - 1 \<le> 0")
  case True
  then show ?thesis by (simp add: build_state_def)
next
  case False
  let ?n = "nat (profile - pre - 1)"
  let ?out = "fill_words (split_ws filler) ?n [] 0"
  have out: "length ?out = ?n" "set ?out \<subseteq> set (split_ws filler)"
    using fill_words_result [OF filler_words(1), of "[]" ?n 0] by simp_all
  then have "split_ws (join '' '' ?out) = ?out" using filler_words(2) by (intro split_ws_join) blast
  then show ?thesis using False out(1) by (simp add: build_state_def Let_def mc_fixture_encode_def)
qed

text \<open>
  The phases a tier reports account for its total: they are the distinct names, each with the sum
  of its instructions over all layers, and together they are the total.
\<close>

theorem aggregate_accounts:
  "sum_list (map snd (aggregate ps)) = total_of ps \<and> distinct (map fst (aggregate ps)) \<and>
   map_of (aggregate ps) name =
     (if name \<in> phase_name ` set ps
      then Some (sum_list (map phase_instructions (filter (\<lambda>p. phase_name p = name) ps))) else None)"
proof -
  have "distinct (map fst ([] :: (string \<times> int) list))" by simp
  note r = aggregate_run [OF this, of ps, unfolded Let_def, folded aggregate_def]
  have keys: "fst ` set (aggregate ps) = phase_name ` set ps" and facts: "distinct (map fst (aggregate ps))"
    "sum_list (map snd (aggregate ps)) = total_of ps" using r by simp_all
  have "\<forall>k \<in> fst ` set (aggregate ps). map_of (aggregate ps) k = Some (named k ps)" 
    using r [THEN conjunct2, THEN conjunct2, THEN conjunct2] by (simp only: map_of.simps option.case add_0)
  then have "name \<in> phase_name ` set ps \<Longrightarrow> map_of (aggregate ps) name = Some (named name ps)"
    unfolding keys by blast
  moreover have "name \<notin> phase_name ` set ps \<Longrightarrow> map_of (aggregate ps) name = None"
    using keys by (simp add: map_of_eq_None_iff)
  ultimately show ?thesis using facts unfolding named_def by (simp only: if_split conj_assoc simp_thms) blast
qed

text \<open>
  The phases of a sweep do not: its dict keeps the last entry of a name, so for phases that cost
  anything it adds up to the total exactly when no name repeats, and to less otherwise.
\<close>

theorem sweep_phases_partial:
  assumes "\<forall>p \<in> set ps. 0 < phase_instructions p"
  shows "sum_list (map snd (last_by_name ps)) \<le> total_of ps \<and>
    (sum_list (map snd (last_by_name ps)) = total_of ps \<longleftrightarrow> distinct (map phase_name ps))"
  using last_run [of "[]" ps] assms by (simp add: last_by_name_def Let_def)

definition two_layers :: "phase list" where
  "two_layers = [\<lparr>phase_name = ''embedding'', phase_instructions = 5\<rparr>, \<lparr>phase_name = ''layer.mlp'', phase_instructions = 7\<rparr>,
     \<lparr>phase_name = ''layer.mlp'', phase_instructions = 8\<rparr>]"

theorem sweep_phases_partial_witness:
  "total_of two_layers = 20 \<and> last_by_name two_layers = [(''embedding'', 5), (''layer.mlp'', 8)] \<and>
   sum_list (map snd (last_by_name two_layers)) \<noteq> total_of two_layers"
proof -
  have "\<forall>p \<in> set two_layers. 0 < phase_instructions p" by (simp add: two_layers_def)
  from sweep_phases_partial [OF this] have "sum_list (map snd (last_by_name two_layers)) \<noteq> total_of two_layers"
    by (simp add: two_layers_def)
  then show ?thesis by (simp add: two_layers_def total_of_def last_by_name_def)
qed

text \<open>
  A sweep of a single length is ignored: the run is the one without the option, which measures
  the short state unless the full profile was asked for.
\<close>

theorem single_sweep_ignored:
  assumes "sweep_arguments args = Inr [len]"
  shows "measure_phase_tier fuel S c tier args = measure_phase_tier fuel S c tier (args\<lparr>token_sweep := None\<rparr>)"
proof -
  have "sweep_arguments (args\<lparr>token_sweep := None\<rparr>) = Inr (if full_profile args then [profile_tokens args] else [0])"
    by (simp add: sweep_arguments_def)
  moreover have "measure_schema S c tier (args\<lparr>token_sweep := None\<rparr>) = measure_schema S c tier args" for S :: "'a system"
    by (intro ext) (simp add: measure_schema_def state_for_def cong: if_cong)
  moreover have "tier_report (args\<lparr>token_sweep := None\<rparr>) = tier_report args"
    by (intro ext) (simp add: tier_report_def cong: if_cong)
  ultimately show ?thesis
    using assms by (simp add: measure_phase_tier_def Let_def cong: if_cong)
qed

definition sweep_args :: phase_args where
  "sweep_args = \<lparr>base = \<lparr>tiers = [''t''], arg_identity = ''m'', arg_env = ''local'', arg_timeout = 9, chunk_kib = 1,
     skip_build = True\<rparr>, full_profile = False, profile_tokens = 128, token_sweep = Some ''64''\<rparr>"

theorem single_sweep_ignored_witness:
  "sweep_arguments sweep_args = Inr [64] \<and>
   measure_phase_tier 1 S c ''t'' sweep_args = measure_phase_tier 1 S c ''t'' (sweep_args\<lparr>token_sweep := None\<rparr>) \<and>
   state_for sweep_args s = Inr STATE"
proof -
  have "sweep_arguments sweep_args = Inr [64]" by code_simp
  from single_sweep_ignored [OF this] this show ?thesis by (simp add: state_for_def sweep_args_def)
qed

text \<open>
  The arithmetic of one pass grows with the rendered length, at least linearly and, the attention
  window bounding the rest, at most quadratically: a multiple of the tokens costs at least that
  multiple and at most its square as much; within the window the cost is as documented.
\<close>

theorem encoder_macs_growth:
  assumes "encoder_macs config tokens = Inr m" "encoder_macs config (k * tokens) = Inr n" "1 \<le> k" "0 \<le> tokens"
    and "int_item ''hidden_size'' config = Inr h" "int_item ''intermediate_size'' config = Inr i"
    and "int_item ''local_attention'' config = Inr a" "int_item ''layers'' config = Inr l"
    and "0 \<le> h" "0 \<le> i" "0 \<le> a" "0 \<le> l"
  shows "k * m \<le> n \<and> n \<le> k * k * m \<and>
    (tokens \<le> a \<longrightarrow> m = (4 * h * h + 3 * i * h + 2 * tokens * h) * tokens * l)"
proof -
  define v w where "v = min tokens a" and "w = min (k * tokens) a"
  have m: "m = (4 * h * h + 3 * i * h + 2 * v * h) * (tokens * l)"
    and n: "n = (4 * h * h + 3 * i * h + 2 * w * h) * (k * (tokens * l))"
    using assms(1,2,5-8) by (auto simp: encoder_macs_def macs_def Let_def v_def w_def algebra_simps)
  have kt: "tokens \<le> k * tokens" using mult_right_mono [OF assms(3,4)] by simp
  have vw: "v \<le> w" "0 \<le> v" using kt assms(4,11) by (auto simp: v_def w_def)
  have ka: "a \<le> k * a" using mult_right_mono [OF assms(3,11)] by simp
  have wk: "w \<le> k * v" using ka kt by (cases "tokens \<le> a") (auto simp: v_def w_def)
  let ?x = "tokens * l" and ?b = "4 * h * h + 3 * i * h"
  have x: "0 \<le> ?x" "0 \<le> k * ?x" using assms(3,4,12) by simp_all
  have b: "0 \<le> ?b" using assms(9,10) by simp
  have "?b + 2 * v * h \<le> ?b + 2 * w * h" using mult_right_mono [OF vw(1) assms(9)] by simp
  then have low: "(?b + 2 * v * h) * (k * ?x) \<le> n" unfolding n using x(2) by (rule mult_right_mono)
  have "?b \<le> k * ?b" using mult_right_mono [OF assms(3) b] by simp
  moreover have "2 * w * h \<le> k * (2 * v * h)" using mult_right_mono [OF wk assms(9)] by (simp add: algebra_simps)
  ultimately have "?b + 2 * w * h \<le> k * (?b + 2 * v * h)" by (simp add: distrib_left)
  then have "n \<le> k * (?b + 2 * v * h) * (k * ?x)" unfolding n using x(2) by (rule mult_right_mono)
  also have "\<dots> = k * k * m" by (simp add: m algebra_simps)
  finally have high: "n \<le> k * k * m" .
  have "k * m = (?b + 2 * v * h) * (k * ?x)" by (simp add: m algebra_simps)
  then show ?thesis using low high by (auto simp: m v_def algebra_simps)
qed

definition measure_m :: json where
  "measure_m = JObj [(''hidden_size'', JInt 512), (''intermediate_size'', JInt 2048), (''layers'', JInt 4),
     (''local_attention'', JInt 128)]"

text \<open>The documented total of the tier at 128 tokens, against a quarter of the length.\<close>

theorem encoder_macs_growth_witness:
  "\<exists>m. encoder_macs measure_m 32 = Inr m \<and> encoder_macs measure_m 128 = Inr 2214592512 \<and>
     4 * m \<le> 2214592512 \<and> 2214592512 \<le> 16 * m"
proof -
  obtain m where m: "encoder_macs measure_m 32 = Inr m"
    by (simp add: encoder_macs_def int_item_def measure_m_def as_int_def)
  have n: "encoder_macs measure_m (4 * 32) = Inr 2214592512"
    by (simp add: encoder_macs_def int_item_def measure_m_def as_int_def macs_def)
  from encoder_macs_growth [OF m n, of 512 2048 128 4] m n show ?thesis
    by (simp add: int_item_def measure_m_def as_int_def)
qed

section \<open>The commands of a run\<close>

lemma mc_loops_orderly:
  assumes "icp_identity c \<in> names"
  shows "emits (orderly c names) (mc_send_chunks (logged S) c t area chunk starts)"
    and "emits (orderly c names) (mc_warm_loop fuel (logged S) c t ts count)"
proof -
  show "emits (orderly c names) (mc_send_chunks (logged S) c t area chunk starts)"
    by (induction starts) (auto intro!: emits_intros assms)
  show "emits (orderly c names) (mc_warm_loop fuel (logged S) c t ts count)"
    by (induction fuel arbitrary: count) (auto intro!: emits_intros assms)
qed

lemma phase_tier_orderly:
  assumes "icp_identity c \<in> names"
  shows "emits (orderly c names) (measure_phase_tier fuel (logged S) c tier args)"
proof -
  have "emits (orderly c names) (upload_pack fuel (logged S) c tier kib t)" for kib t
    by (auto simp: upload_pack_def Let_def intro!: emits_intros read_pack_orderly mc_loops_orderly assms)
  moreover have "emits (orderly c names) (register_schemas (logged S) c m tok ss t)" for m tok ss t
    by (auto simp: register_schemas_def Let_def intro!: emits_intros assms)
  moreover have request: "emits (orderly c names) (measure_request (logged S) c t s b n i st)" for t s b n i st
    by (auto simp: measure_request_def intro!: emits_intros assms)
  then have "emits (orderly c names) (sweep_length (logged S) c tier t s b n len)" for t s b n len
    by (auto simp: sweep_length_def intro!: emits_intros)
  then have "emits (orderly c names) (measure_sweep (logged S) c tier args rec cs b n)" for rec cs b n
    by (auto simp: measure_sweep_def intro!: emits_intros)
  moreover have "emits (orderly c names) (measure_schema (logged S) c tier args b n s)" for b n s
    using request by (auto simp: measure_schema_def intro!: emits_intros)
  ultimately show ?thesis
    by (auto simp: measure_phase_tier_def Let_def intro!: emits_intros)
qed

lemma phases_session_orderly:
  assumes "icp_identity c \<in> names"
  shows "emits (orderly c names) (phases_session fuel (logged S) c args ts)"
proof -
  have "emits (orderly c names) (phase_tier_result fuel (logged S) c args tier)" for tier
    unfolding phase_tier_result_def
    by (intro emits_intros phase_tier_orderly [OF assms]) (auto split: exn.splits intro: emits_intros)
  then show ?thesis
    using assms by (auto simp: phases_session_def admit_caller_def intro!: emits_intros)
qed

lemma phases_main_bracket:
  "phases_main fuel S args =
     (let c = new_icp S (repo_root S) (arg_env (base args)) (arg_identity (base args)) in
      bracketed_main S c (\<not> skip_build (base args)) (phases_session fuel S c args
          (if tiers (base args) = [] then [''measure-s'', ''measure-m''] else tiers (base args))))"
proof -
  have e: "icp_env (new_icp S (repo_root S) (arg_env (base args)) (arg_identity (base args))) = arg_env (base args)"
    by (simp add: new_icp_def)
  show ?thesis unfolding phases_main_def Let_def bracketed_main_unfold e ..
qed

text \<open>
  C33: a run of the phase measurement stops the network when and only when it started it, whatever
  happens in between, and every command but the build names the project and the given identity.
\<close>

theorem phases_main_orderly:
  "(case phases_main fuel (logged S) args (w, h) of (r, (_, h')) \<Rightarrow>
     \<exists>s. h' = h @ s \<and> bracketed (new_icp S (repo_root S) (arg_env (base args)) (arg_identity (base args))) (is_ok r) s) \<and>
   emits (\<lambda>cmd. cmd = build_command \<or>
       addressed (new_icp S (repo_root S) (arg_env (base args)) (arg_identity (base args))) {arg_identity (base args)} cmd)
     (phases_main fuel (logged S) args)"
proof -
  let ?c = "new_icp S (repo_root S) (arg_env (base args)) (arg_identity (base args))"
  have session: "emits (orderly ?c {icp_identity ?c}) (phases_session fuel (logged S) ?c args ts)" for ts
    by (rule phases_session_orderly) simp
  show ?thesis
    unfolding phases_main_bracket Let_def new_icp_logged
    by (intro conjI bracketed_main_log session bracketed_main_addressed [OF session, unfolded icp_identity_new])
qed

end
