(* ===== verification/Float32.thy ===== *)
theory Float32
  imports PyFloat Wire
begin

text \<open>
  NumPy's \<open>float32\<close>: the value a 32-bit pattern denotes and the pattern of a value, the numbers the
  format represents, and the two ways the tools round a quotient to an integer.  \<open>tools/quantize_pack.py\<close>
  takes \<open>floor(abs(x) + 0.5)\<close>, \<open>tools/analyze_quantized_changes.py\<close> compares the fraction with a half;
  both mean to round half away from zero.
\<close>

section \<open>Patterns and values\<close>

type_synonym cell = "32 word"

definition f32_value :: "cell \<Rightarrow> fl" where
  "f32_value w =
     (let n = unat w; e = n div 2 ^ 23 mod 256; m = n mod 2 ^ 23; neg = 2 ^ 31 \<le> n in
      if e = 255 then (if m \<noteq> 0 then NaN else if neg then NInf else PInf)
      else let q = (if e = 0 then of_nat m * pow2 (- 149) else of_nat (m + 2 ^ 23) * pow2 (int e - 150))
           in Fin (if neg then - q else q))"

text \<open>The pattern of a value the format represents; a zero is the positive one.\<close>

definition f32_bits :: "rat \<Rightarrow> cell" where
  "f32_bits q =
     (let e = ulp_exp binary32 q; m = \<lfloor>\<bar>q\<bar> / pow2 e\<rfloor>;
          body = (if q = 0 then 0 else if m < 2 ^ 23 then m else m - 2 ^ 23 + (e + 150) * 2 ^ 23)
      in word_of_int (body + (if q < 0 then 2 ^ 31 else 0)))"

abbreviation r32 :: "rat \<Rightarrow> rat" where
  "r32 \<equiv> round_rat binary32"

definition tiny :: rat where
  "tiny = pow2 (- 126)"

section \<open>Represented numbers\<close>

definition represented :: "fformat \<Rightarrow> rat \<Rightarrow> bool" where
  "represented F x \<longleftrightarrow> (\<exists>k e. x = of_int k * pow2 e \<and> \<bar>k\<bar> < 2 ^ precision F \<and> min_exp F \<le> e)"

lemma representedI: "x = of_int k * pow2 e \<Longrightarrow> \<bar>k\<bar> < 2 ^ precision F \<Longrightarrow> min_exp F \<le> e \<Longrightarrow> represented F x"
  unfolding represented_def by blast

lemma represented_uminus [simp]: "represented F (- x) = represented F x"
proof -
  have "represented F (- y)" if "represented F y" for y
    using that unfolding represented_def
    by (metis abs_minus_cancel minus_mult_left of_int_minus)
  from this [of x] this [of "- x"] show ?thesis by auto
qed

lemma represented_abs [simp]: "represented F \<bar>x\<bar> = represented F x"
  by (simp add: abs_if)

lemma pow2_less: "a < b \<Longrightarrow> pow2 a < pow2 b"
  by (simp add: pow2_powi power_int_strict_increasing)

lemma pow2_less_iff: "pow2 a < pow2 b \<longleftrightarrow> a < b"
  using pow2_less [of a b] pow2_mono [of b a] by linarith

lemma pow2_diff: "e \<le> d \<Longrightarrow> pow2 d = of_int (2 ^ nat (d - e)) * pow2 e"
  using pow2_add [of "d - e" e] by (simp add: pow2_def [of "d - e"])

lemma round_even_uminus: "round_even (- q) = - round_even q"
proof (cases "of_int \<lfloor>q\<rfloor> = q")
  case True
  then obtain n where "q = of_int n" by metis
  then show ?thesis by (metis of_int_minus round_even_of_int)
next
  case False
  then have c: "\<lfloor>- q\<rfloor> = - \<lfloor>q\<rfloor> - 1" by linarith
  show ?thesis unfolding round_even_def c Let_def by (auto simp: field_simps)
qed

lemma round_rat_uminus: "round_rat F (- q) = - round_rat F q"
  by (simp add: round_rat_def ulp_exp_def round_even_uminus)

lemma round_rat_abs: "\<bar>round_rat F q\<bar> = round_rat F \<bar>q\<bar>"
proof (cases "0 \<le> q")
  case True
  then show ?thesis using round_rat_nonneg [OF True, of F] by simp
next
  case False
  then show ?thesis using round_rat_nonneg [of "- q" F] by (simp add: round_rat_uminus)
qed

lemma abs_pow2 [simp]: "\<bar>pow2 e\<bar> = pow2 e"
  by (rule abs_of_pos) simp

text \<open>The last place of a number is not above the exponent it is written with.\<close>

lemma ulp_exp_le:
  assumes "x = of_int k * pow2 e" "\<bar>k\<bar> < 2 ^ precision F" "min_exp F \<le> e" "x \<noteq> 0"
  shows "ulp_exp F x \<le> e"
proof -
  have "\<bar>x\<bar> = of_int \<bar>k\<bar> * pow2 e" using assms(1) by (simp add: abs_mult)
  also have "\<dots> < pow2 (int (precision F)) * pow2 e"
    using assms(2) by (intro mult_strict_right_mono) (metis of_int_less_iff of_int_numeral of_int_power pow2_nat, simp)
  finally have "\<bar>x\<bar> < pow2 (int (precision F) + e)" by (simp only: pow2_add)
  moreover have "pow2 (floor_log2 \<bar>x\<bar>) \<le> \<bar>x\<bar>" using floor_log2_bounds(1) [of "\<bar>x\<bar>"] assms(4) by simp
  ultimately have "floor_log2 \<bar>x\<bar> < int (precision F) + e" using pow2_less_iff le_less_trans by blast
  then show ?thesis using assms(3) by (simp add: ulp_exp_def)
qed

lemma round_represented: "represented F x \<Longrightarrow> round_rat F x = x"
proof (cases "x = 0")
  case False
  assume "represented F x"
  then obtain k e where x: "x = of_int k * pow2 e" "\<bar>k\<bar> < 2 ^ precision F" "min_exp F \<le> e"
    by (auto simp: represented_def)
  have "ulp_exp F x \<le> e" using ulp_exp_le [OF x False] .
  then have "x = of_int (k * 2 ^ nat (e - ulp_exp F x)) * pow2 (ulp_exp F x)"
    using x(1) pow2_diff [of "ulp_exp F x" e] by simp
  then show ?thesis by (rule round_rat_exact)
qed simp

text \<open>Rounding does not cross a represented number.\<close>

lemma round_le_represented:
  assumes "represented F r" "0 \<le> a" "a \<le> r"
  shows "round_rat F a \<le> r"
proof (cases "a = 0")
  case False
  let ?u = "ulp_exp F a"
  have a: "0 < a" using False assms(2) by simp
  obtain k e where r: "r = of_int k * pow2 e" "\<bar>k\<bar> < 2 ^ precision F" "min_exp F \<le> e"
    using assms(1) by (auto simp: represented_def)
  have le: "?u \<le> e"
  proof (rule ccontr)
    assume "\<not> ?u \<le> e"
    then have u: "?u = floor_log2 a - (int (precision F) - 1)" "e < ?u"
      using r(3) a by (auto simp: ulp_exp_def max_def split: if_splits)
    have "r \<le> of_int \<bar>k\<bar> * pow2 e" using r(1) by (simp add: mult_right_mono less_imp_le)
    also have "\<dots> < pow2 (int (precision F)) * pow2 e"
      using r(2) by (intro mult_strict_right_mono) (metis of_int_less_iff of_int_numeral of_int_power pow2_nat, simp)
    also have "\<dots> = pow2 (int (precision F) + e)" by (simp only: pow2_add)
    also have "\<dots> \<le> pow2 (floor_log2 a)" using u by (intro pow2_mono) simp
    also have "\<dots> \<le> a" by (rule floor_log2_bounds(1) [OF a])
    finally show False using assms(3) by simp
  qed
  have r': "r / pow2 ?u = of_int (k * 2 ^ nat (e - ?u))" using r(1) pow2_diff [OF le] by simp
  have "a / pow2 ?u \<le> r / pow2 ?u" using assms(3) by (intro divide_right_mono) (simp_all add: less_imp_le)
  then have "round_even (a / pow2 ?u) \<le> k * 2 ^ nat (e - ?u)" unfolding r'
    using round_even_mono round_even_of_int by metis
  then have "of_int (round_even (a / pow2 ?u)) \<le> r / pow2 ?u" unfolding r' by (simp only: of_int_le_iff)
  then show ?thesis using False by (simp add: round_rat_def field_simps)
qed (use assms in simp)

lemma represented_le_round:
  assumes "represented F r" "0 \<le> r" "r \<le> a" "0 < precision F"
  shows "r \<le> round_rat F a"
proof (cases "a = 0")
  case False
  let ?u = "ulp_exp F a"
  have a: "0 < a" using False assms by simp
  obtain k e where r: "r = of_int k * pow2 e" "\<bar>k\<bar> < 2 ^ precision F" "min_exp F \<le> e"
    using assms(1) by (auto simp: represented_def)
  have key: "of_int n * pow2 ?u \<le> round_rat F a" if "of_int n * pow2 ?u \<le> a" for n
  proof -
    have "of_int n \<le> a / pow2 ?u" using that by (simp add: field_simps)
    then have "n \<le> round_even (a / pow2 ?u)" using round_even_mono round_even_of_int by metis
    then have "of_int n * pow2 ?u \<le> of_int (round_even (a / pow2 ?u)) * pow2 ?u"
      by (simp add: mult_right_mono less_imp_le)
    then show ?thesis using False by (simp add: round_rat_def)
  qed
  show ?thesis
  proof (cases "?u \<le> e")
    case True
    then have "r = of_int (k * 2 ^ nat (e - ?u)) * pow2 ?u" using r(1) pow2_diff by simp
    then show ?thesis using key assms(3) by metis
  next
    case False
    then have u: "?u = floor_log2 a - (int (precision F) - 1)" "e < ?u"
      using r(3) a by (auto simp: ulp_exp_def max_def split: if_splits)
    have fl: "pow2 (floor_log2 a) = of_int (2 ^ (precision F - 1)) * pow2 ?u"
      using pow2_diff [of ?u "floor_log2 a"] u(1) assms(4) by (simp add: nat_diff_distrib)
    have "r \<le> of_int \<bar>k\<bar> * pow2 e" using r(1) by (simp add: mult_right_mono less_imp_le)
    also have "\<dots> \<le> pow2 (int (precision F)) * pow2 e"
      using r(2) by (intro mult_right_mono less_imp_le) (metis of_int_less_iff of_int_numeral of_int_power pow2_nat, simp)
    also have "\<dots> = pow2 (int (precision F) + e)" by (simp only: pow2_add)
    also have "\<dots> \<le> pow2 (floor_log2 a)" using u by (intro pow2_mono) simp
    also have "\<dots> \<le> round_rat F a" unfolding fl by (rule key) (metis fl floor_log2_bounds(1) a)
    finally show ?thesis .
  qed
qed (use assms in simp)

text \<open>Half away from zero, as \<open>f32::round\<close> of Rust.\<close>

definition round_half_away :: "rat \<Rightarrow> int" where
  "round_half_away x = (let n = \<lfloor>\<bar>x\<bar> + 1 / 2\<rfloor> in if x < 0 then - n else n)"

text \<open>\<open>np.copysign(np.floor(np.abs(x) + np.float32(.5)), x)\<close>.\<close>

definition round_by_sum :: "rat \<Rightarrow> int" where
  "round_by_sum x = (let n = \<lfloor>r32 (\<bar>x\<bar> + 1 / 2)\<rfloor> in if x < 0 then - n else n)"

text \<open>\<open>whole = np.trunc(m)\<close> and \<open>whole + ((m - whole) >= np.float32(.5))\<close> for the magnitude \<open>m\<close>, with the sign of \<open>x\<close>.\<close>

definition round_by_fraction :: "rat \<Rightarrow> int" where
  "round_by_fraction x =
     (let m = \<bar>x\<bar>; whole = of_int \<lfloor>m\<rfloor> :: rat;
          n = \<lfloor>r32 (whole + (if 1 / 2 \<le> r32 (m - whole) then 1 else 0))\<rfloor>
      in if x < 0 then - n else n)"

lemma represented_int: "\<bar>n\<bar> < 2 ^ 24 \<Longrightarrow> represented binary32 (of_int n)"
  by (rule representedI [of _ n 0]) (simp_all add: pow2_def binary32_def)

lemma represented_halves: "\<bar>n\<bar> < 2 ^ 24 \<Longrightarrow> represented binary32 (of_int n / 2)"
  by (rule representedI [of _ n "-1"]) (simp_all add: pow2_def binary32_def)

text \<open>The largest represented number below a half.\<close>

definition below_half :: rat where
  "below_half = 1 / 2 - pow2 (- 25)"

lemma represented_ulp:
  assumes "represented binary32 a" "a \<noteq> 0"
  obtains k where "a = of_int k * pow2 (ulp_exp binary32 a)" "\<bar>k\<bar> < 2 ^ 24"
proof -
  let ?u = "ulp_exp binary32 a"
  obtain k e where a: "a = of_int k * pow2 e" "\<bar>k\<bar> < 2 ^ precision binary32" "min_exp binary32 \<le> e"
    using assms(1) by (auto simp: represented_def)
  have "a = of_int (k * 2 ^ nat (e - ?u)) * pow2 ?u" using a(1) pow2_diff [OF ulp_exp_le [OF a assms(2)]] by simp
  then obtain n where eq: "a = of_int n * pow2 ?u" by blast
  have "\<bar>a\<bar> < pow2 (floor_log2 \<bar>a\<bar> + 1)" using floor_log2_bounds(2) [of "\<bar>a\<bar>"] assms(2) by simp
  also have "\<dots> \<le> pow2 (24 + ?u)" by (intro pow2_mono) (simp add: ulp_exp_def binary32_def)
  also have "\<dots> = of_int (2 ^ 24) * pow2 ?u" unfolding pow2_add using pow2_nat [of 24] by simp
  finally have "\<bar>of_int n * pow2 ?u\<bar> < of_int (2 ^ 24) * pow2 ?u" using eq by metis
  then have "of_int \<bar>n\<bar> * pow2 ?u < of_int (2 ^ 24) * pow2 ?u" by (simp only: abs_mult abs_pow2 of_int_abs)
  then have "\<bar>n\<bar> < 2 ^ 24" by (simp only: mult_less_cancel_right_pos [OF pow2_pos] of_int_less_iff)
  then show thesis using eq that by blast
qed

text \<open>Below \<open>2 ^ 22\<close> a number of at least one has its halves among the multiples of its last place.\<close>

lemma ulp_exp_small:
  assumes "1 \<le> a" "a < 2 ^ 22"
  shows "ulp_exp binary32 a = floor_log2 a - 23" "0 \<le> floor_log2 a" "floor_log2 a < 22"
proof -
  have b: "pow2 (floor_log2 a) \<le> a" "a < pow2 (floor_log2 a + 1)" using floor_log2_bounds [of a] assms(1) by auto
  have "pow2 0 < pow2 (floor_log2 a + 1)" using assms(1) b(2) by (simp add: pow2_def [of 0])
  then show l: "0 \<le> floor_log2 a" unfolding pow2_less_iff by simp
  have "pow2 (floor_log2 a) < pow2 22" using assms(2) b(1) pow2_nat [of 22] by simp
  then show "floor_log2 a < 22" unfolding pow2_less_iff .
  show "ulp_exp binary32 a = floor_log2 a - 23" using l assms(1) by (simp add: ulp_exp_def binary32_def)
qed

lemma half_sum_represented:
  assumes a: "represented binary32 a" "1 \<le> a" "a < 2 ^ 22" and small: "a + 1 / 2 < of_int \<lfloor>a\<rfloor> + 1"
  shows "represented binary32 (a + 1 / 2)"
proof -
  let ?u = "ulp_exp binary32 a" and ?L = "floor_log2 a"
  note L = ulp_exp_small [OF a(2,3)]
  obtain k where k: "a = of_int k * pow2 ?u" using represented_ulp [OF a(1)] a(2) by force
  have half: "(1 :: rat) / 2 = of_int (2 ^ nat (- 1 - ?u)) * pow2 ?u"
    using pow2_diff [of ?u "- 1"] L by (simp add: pow2_def [of "- 1"])
  have "of_int \<lfloor>a\<rfloor> < pow2 (?L + 1)" using floor_log2_bounds(2) [of a] a(2) by linarith
  then have "of_int \<lfloor>a\<rfloor> < (of_int (2 ^ nat (?L + 1)) :: rat)" using L(2) by (simp add: pow2_def)
  then have "\<lfloor>a\<rfloor> + 1 \<le> 2 ^ nat (?L + 1)" by (simp only: of_int_less_iff)
  then have "of_int (\<lfloor>a\<rfloor> + 1) \<le> (of_int (2 ^ nat (?L + 1)) :: rat)" by (simp only: of_int_le_iff)
  then have "of_int \<lfloor>a\<rfloor> + 1 \<le> pow2 (?L + 1)" using L(2) by (simp add: pow2_def)
  then have "a + 1 / 2 < pow2 (?L + 1)" using small by linarith
  then have "a + 1 / 2 < pow2 (24 + ?u)" using L(1) by (simp add: add.commute)
  also have "\<dots> = of_int (2 ^ 24) * pow2 ?u" unfolding pow2_add using pow2_nat [of 24] by simp
  finally have less: "a + 1 / 2 < of_int (2 ^ 24) * pow2 ?u" .
  let ?k = "k + 2 ^ nat (- 1 - ?u)"
  have eq: "a + 1 / 2 = of_int ?k * pow2 ?u" using k half by (simp add: algebra_simps)
  have "0 < of_int ?k * pow2 ?u" using a(2) unfolding eq [symmetric] by simp
  then have "0 < (of_int ?k :: rat)" by (rule zero_less_mult_pos2) simp
  then have "0 < ?k" by (simp only: of_int_0_less_iff)
  moreover have "?k < 2 ^ 24" using less unfolding eq by (simp only: mult_less_cancel_right_pos [OF pow2_pos] of_int_less_iff)
  ultimately show ?thesis using eq L by (intro representedI [of _ ?k ?u]) (simp_all add: binary32_def)
qed

lemma next_below_half:
  assumes a: "represented binary32 a" "0 \<le> a" "a < 1 / 2" "a \<noteq> below_half"
  shows "a + 1 / 2 \<le> 1 - pow2 (- 24)"
proof (rule ccontr)
  assume "\<not> ?thesis"
  then have big: "1 / 2 - pow2 (- 24) < a" by simp
  have quarter: "pow2 (- 2) \<le> a" using big by (simp add: pow2_def)
  have "floor_log2 a = - 2"
  proof -
    have b: "pow2 (floor_log2 a) \<le> a" "a < pow2 (floor_log2 a + 1)"
      using floor_log2_bounds [of a] quarter pow2_pos [of "- 2"] by linarith+
    have "pow2 (floor_log2 a) < pow2 (- 1)" using a(3) b(1) by (simp add: pow2_def [of "- 1"])
    moreover have "pow2 (- 2) < pow2 (floor_log2 a + 1)" using quarter b(2) by linarith
    ultimately show ?thesis unfolding pow2_less_iff by simp
  qed
  then have u: "ulp_exp binary32 a = - 25" using a(2) by (simp add: ulp_exp_def binary32_def)
  obtain k where k: "a = of_int k * pow2 (- 25)" using represented_ulp [OF a(1)] u quarter pow2_pos [of "- 2"] by force
  have "of_int (2 ^ 24 - 2) < (of_int k :: rat)" using big k by (simp add: pow2_def)
  moreover have "of_int k < (of_int (2 ^ 24) :: rat)" using a(3) k by (simp add: pow2_def)
  ultimately have "k = 2 ^ 24 - 1" by (simp only: of_int_less_iff)
  then have "a = below_half" using k by (simp add: below_half_def pow2_def)
  then show False using a(4) by simp
qed

lemma round_by_sum_nonneg:
  assumes a: "represented binary32 a" "0 \<le> a" "a < 2 ^ 22" "a \<noteq> below_half"
  shows "\<lfloor>r32 (a + 1 / 2)\<rfloor> = \<lfloor>a + 1 / 2\<rfloor>"
proof (cases "of_int \<lfloor>a\<rfloor> + 1 / 2 \<le> a")
  case True
  let ?n = "\<lfloor>a\<rfloor>"
  have n: "0 \<le> ?n" "?n < 2 ^ 22" using a(2,3) by (simp_all add: floor_less_iff)
  have "\<bar>2 * m + 3\<bar> < 2 ^ 24" if "0 \<le> m" "m < 2 ^ 22" for m :: int using that by simp
  from this [OF n] have "represented binary32 (of_int (2 * ?n + 3) / 2)" by (rule represented_halves)
  moreover have "a + 1 / 2 < of_int (2 * ?n + 3) / 2" by (simp add: field_simps) linarith
  ultimately have "r32 (a + 1 / 2) \<le> of_int (2 * ?n + 3) / 2" using a(2) by (intro round_le_represented) simp_all
  moreover have "of_int (?n + 1) \<le> r32 (a + 1 / 2)"
    using True n by (intro represented_le_round represented_int) (simp_all add: binary32_def)
  ultimately have "\<lfloor>r32 (a + 1 / 2)\<rfloor> = ?n + 1" by (simp add: floor_eq_iff)
  moreover have "\<lfloor>a + 1 / 2\<rfloor> = ?n + 1" using True by (simp add: floor_eq_iff) linarith
  ultimately show ?thesis by simp
next
  case False
  then have small: "a + 1 / 2 < of_int \<lfloor>a\<rfloor> + 1" by simp
  show ?thesis
  proof (cases "1 \<le> a")
    case True
    then show ?thesis using round_represented [OF half_sum_represented [OF a(1) True a(3) small]] by simp
  next
    case below: False
    then have fl: "\<lfloor>a\<rfloor> = 0" using a(2) by (simp add: floor_eq_iff)
    then have "a < 1 / 2" using small by simp
    then have le: "a + 1 / 2 \<le> 1 - pow2 (- 24)" using next_below_half a by blast
    have "represented binary32 (1 - pow2 (- 24))"
      by (rule representedI [of _ "2 ^ 24 - 1" "- 24"]) (simp_all add: pow2_def binary32_def)
    then have "r32 (a + 1 / 2) \<le> 1 - pow2 (- 24)" using a(2) le by (intro round_le_represented) simp_all
    then have "r32 (a + 1 / 2) < 1" by (simp add: pow2_def)
    moreover have "0 \<le> r32 (a + 1 / 2)" using a(2) by (simp add: round_rat_nonneg)
    ultimately have "\<lfloor>r32 (a + 1 / 2)\<rfloor> = 0" by (simp add: floor_eq_iff)
    moreover have "\<lfloor>a + 1 / 2\<rfloor> = 0" using small fl a(2) by (simp add: floor_eq_iff)
    ultimately show ?thesis by simp
  qed
qed

lemma round_by_sum_exact:
  assumes "represented binary32 x" "\<bar>x\<bar> < 2 ^ 22" "\<bar>x\<bar> \<noteq> below_half"
  shows "round_by_sum x = round_half_away x"
  using round_by_sum_nonneg [of "\<bar>x\<bar>"] assms by (simp add: round_by_sum_def round_half_away_def)

lemma round_by_sum_below_half:
  "\<bar>x\<bar> = below_half \<Longrightarrow> \<bar>round_by_sum x\<bar> = 1" "\<bar>x\<bar> = below_half \<Longrightarrow> round_half_away x = 0"
proof -
  have sum: "below_half + 1 / 2 = 33554431 / 33554432" by (simp add: below_half_def pow2_def)
  have "r32 (33554431 / 33554432) = 1" by code_simp
  then have "\<lfloor>r32 (below_half + 1 / 2)\<rfloor> = 1" "\<lfloor>below_half + 1 / 2\<rfloor> = 0" unfolding sum by (simp_all add: floor_eq_iff)
  then show "\<bar>x\<bar> = below_half \<Longrightarrow> \<bar>round_by_sum x\<bar> = 1" "\<bar>x\<bar> = below_half \<Longrightarrow> round_half_away x = 0"
    by (simp_all add: round_by_sum_def round_half_away_def Let_def)
qed

lemma represented_round: "0 < precision F \<Longrightarrow> represented F (round_rat F q)"
proof (cases "q = 0")
  case True
  then show ?thesis by (intro representedI [of _ 0 "min_exp F"]) simp_all
next
  case False
  assume p: "0 < precision F"
  let ?u = "ulp_exp F q" and ?P = "2 ^ precision F :: int"
  define k where "k = round_even (q / pow2 ?u)"
  have r: "round_rat F q = of_int k * pow2 ?u" using False by (simp add: round_rat_def k_def)
  have "\<bar>q\<bar> < pow2 (floor_log2 \<bar>q\<bar> + 1)" using floor_log2_bounds(2) [of "\<bar>q\<bar>"] False by simp
  also have "\<dots> \<le> pow2 (int (precision F) + ?u)" by (intro pow2_mono) (simp add: ulp_exp_def)
  also have "\<dots> = of_int ?P * pow2 ?u" by (simp only: pow2_add) (simp add: pow2_def)
  finally have "\<bar>q / pow2 ?u\<bar> \<le> of_int ?P" by (simp add: field_simps)
  then have "q / pow2 ?u \<le> of_int ?P" "- (q / pow2 ?u) \<le> of_int ?P" by (rule abs_le_D1, rule abs_le_D2)
  then have le: "q / pow2 ?u \<le> of_int ?P" "of_int (- ?P) \<le> q / pow2 ?u" by simp_all
  have "k \<le> ?P" "- ?P \<le> k"
    using round_even_mono [OF le(1)] round_even_mono [OF le(2)] by (simp_all only: round_even_of_int k_def)
  then consider "\<bar>k\<bar> < ?P" | "k = ?P" | "k = - ?P" by linarith
  then show ?thesis
  proof cases
    case 1
    then show ?thesis using r by (intro representedI [of _ k ?u]) (simp_all add: ulp_exp_def)
  next
    case 2
    then have "round_rat F q = of_int 1 * pow2 (int (precision F) + ?u)"
      unfolding r by (simp only: pow2_add) (simp add: pow2_def)
    then show ?thesis using p by (intro representedI [of _ 1 "int (precision F) + ?u"]) (simp_all add: ulp_exp_def)
  next
    case 3
    then have "round_rat F q = of_int (- 1) * pow2 (int (precision F) + ?u)"
      unfolding r by (simp only: pow2_add) (simp add: pow2_def)
    then show ?thesis using p by (intro representedI [of _ "- 1" "int (precision F) + ?u"]) (simp_all add: ulp_exp_def)
  qed
qed

lemma r32_represented: "represented binary32 (r32 q)"
  by (rule represented_round) (simp add: binary32_def)

text \<open>The fraction of a represented number is represented, so comparing it with a half is exact.\<close>

lemma fraction_represented:
  assumes a: "represented binary32 a" "0 \<le> a" "a < 2 ^ 22"
  shows "represented binary32 (a - of_int \<lfloor>a\<rfloor>)"
proof (cases "1 \<le> a")
  case True
  let ?u = "ulp_exp binary32 a"
  note L = ulp_exp_small [OF True a(3)]
  obtain k where k: "a = of_int k * pow2 ?u" "\<bar>k\<bar> < 2 ^ 24" using represented_ulp [OF a(1)] True by force
  have one: "pow2 0 = of_int (2 ^ nat (0 - ?u)) * pow2 ?u" by (rule pow2_diff) (use L in simp)
  let ?k = "k - \<lfloor>a\<rfloor> * 2 ^ nat (0 - ?u)"
  have "of_int \<lfloor>a\<rfloor> = of_int (\<lfloor>a\<rfloor> * 2 ^ nat (0 - ?u)) * pow2 ?u" using one by (simp add: pow2_def [of 0])
  then have eq: "a - of_int \<lfloor>a\<rfloor> = of_int ?k * pow2 ?u" using k(1) by (simp add: algebra_simps)
  have "0 \<le> \<lfloor>a\<rfloor>" using True by simp
  then have up: "?k \<le> k" by simp
  have "0 \<le> of_int ?k * pow2 ?u" unfolding eq [symmetric] by simp
  then have "0 \<le> (of_int ?k :: rat)" by (simp only: zero_le_mult_iff) (use pow2_pos [of ?u] in linarith)
  then have "0 \<le> ?k" by (simp only: of_int_0_le_iff)
  then have "\<bar>?k\<bar> < 2 ^ 24" using up k(2) by linarith
  then show ?thesis using eq L by (intro representedI [of _ ?k ?u]) (simp_all add: binary32_def)
next
  case False
  then have "\<lfloor>a\<rfloor> = 0" using a(2) by (simp add: floor_eq_iff)
  then show ?thesis using a(1) by simp
qed

lemma round_by_fraction_exact:
  assumes "represented binary32 x" "\<bar>x\<bar> < 2 ^ 22"
  shows "round_by_fraction x = round_half_away x"
proof -
  let ?a = "\<bar>x\<bar>" and ?n = "\<lfloor>\<bar>x\<bar>\<rfloor>"
  have frac: "r32 (?a - of_int ?n) = ?a - of_int ?n"
    using assms by (intro round_represented fraction_represented) simp_all
  have n: "0 \<le> ?n" "?n < 2 ^ 22" using assms(2) by (simp_all add: floor_less_iff)
  have int: "r32 (of_int m) = of_int m" if "0 \<le> m" "m \<le> 2 ^ 22" for m
    using that by (intro round_represented represented_int) simp
  have "\<lfloor>r32 (of_int ?n + (if 1 / 2 \<le> ?a - of_int ?n then 1 else 0))\<rfloor> = \<lfloor>?a + 1 / 2\<rfloor>"
  proof (cases "1 / 2 \<le> ?a - of_int ?n")
    case True
    then have "\<lfloor>?a + 1 / 2\<rfloor> = ?n + 1" by (simp add: floor_eq_iff) linarith
    then show ?thesis using True int [of "?n + 1"] n by simp
  next
    case False
    then have "\<lfloor>?a + 1 / 2\<rfloor> = ?n" by (simp add: floor_eq_iff) linarith
    then show ?thesis using False int [of ?n] n by simp
  qed
  then show ?thesis by (simp only: round_by_fraction_def round_half_away_def Let_def frac)
qed

section \<open>The scale of a row and its integers\<close>

text \<open>\<open>np.max(np.abs(values), axis=1)\<close> and the scale it gives, in one row.\<close>

definition peak :: "rat list \<Rightarrow> rat" where
  "peak vs = foldr (\<lambda>v. max \<bar>v\<bar>) vs 0"

definition row_scale :: "rat list \<Rightarrow> rat" where
  "row_scale vs = (if peak vs = 0 then 1 else max (r32 (peak vs / 127)) tiny)"

definition narrow :: "(rat \<Rightarrow> int) \<Rightarrow> rat \<Rightarrow> rat \<Rightarrow> int" where
  "narrow rounding s v = max (- 127) (min 127 (rounding (r32 (v / s))))"

lemma peak_ge: "v \<in> set vs \<Longrightarrow> \<bar>v\<bar> \<le> peak vs"
  by (induction vs) (auto simp: peak_def)

lemma peak_nonneg: "0 \<le> peak vs"
  by (induction vs) (auto simp: peak_def)

lemma tiny_pos: "0 < tiny"
  by (simp add: tiny_def)

lemma row_scale_pos: "0 < row_scale vs"
  using tiny_pos by (auto simp: row_scale_def max_def)

lemma scale_covers: "peak vs * (1 - pow2 (- 23)) \<le> 127 * row_scale vs"
proof (cases "peak vs = 0")
  case True
  then show ?thesis using row_scale_pos [of vs] by simp
next
  case False
  let ?q = "peak vs / 127"
  have q: "0 < ?q" using False peak_nonneg [of vs] by simp
  have "?q * (1 - pow2 (- 23)) \<le> max (r32 ?q) tiny"
  proof (cases "?q \<le> tiny")
    case True
    moreover have "?q * (1 - pow2 (- 23)) \<le> ?q * 1" using q by (intro mult_left_mono) (simp_all add: pow2_def)
    ultimately show ?thesis by simp
  next
    case False
    define t where "t = ?q * pow2 (- 24)"
    have "tiny * pow2 (- 24) \<le> t" unfolding t_def using False by (intro mult_right_mono) (simp_all add: less_imp_le)
    then have "pow2 (- 150) \<le> t" by (simp add: tiny_def pow2_add [symmetric])
    moreover have "\<bar>r32 ?q - ?q\<bar> \<le> \<bar>?q\<bar> * pow2 (- 24) + pow2 (- 150)"
      using round_rat_error [of binary32 ?q] by (simp add: binary32_def)
    moreover have "\<bar>?q\<bar> * pow2 (- 24) = t" using q by (simp add: t_def)
    ultimately have "?q - (t + t) \<le> r32 ?q" by linarith
    moreover have "t + t = ?q * pow2 (- 23)" by (simp add: t_def pow2_def)
    ultimately have "?q * (1 - pow2 (- 23)) \<le> r32 ?q" by (simp add: right_diff_distrib)
    then show ?thesis by simp
  qed
  then show ?thesis using False by (simp add: row_scale_def)
qed

lemma row_quotient:
  assumes "v \<in> set vs"
  shows "\<bar>v / row_scale vs\<bar> \<le> 509 / 4"
proof -
  let ?s = "row_scale vs"
  have "\<bar>v\<bar> * (1 - pow2 (- 23)) \<le> peak vs * (1 - pow2 (- 23))"
    using peak_ge [OF assms] by (intro mult_right_mono) (simp_all add: pow2_def)
  also have "\<dots> \<le> 127 * ?s" by (rule scale_covers)
  finally have "\<bar>v\<bar> \<le> 127 * ?s / (1 - pow2 (- 23))" by (simp add: pow2_def field_simps)
  also have "\<dots> \<le> 509 / 4 * ?s" using row_scale_pos [of vs] by (simp add: pow2_def field_simps)
  finally show ?thesis using row_scale_pos [of vs] by (simp add: abs_divide abs_of_pos field_simps)
qed

lemma scaled_bound:
  assumes "v \<in> set vs"
  shows "\<bar>r32 (v / row_scale vs)\<bar> \<le> 509 / 4"
proof -
  have "represented binary32 (of_int 509 * pow2 (- 2))" by (rule representedI [of _ 509 "- 2"]) (simp_all add: binary32_def)
  then have "represented binary32 (509 / 4)" by (simp add: pow2_def)
  then show ?thesis unfolding round_rat_abs by (rule round_le_represented) (use row_quotient [OF assms] in simp_all)
qed

text \<open>A way to round that is off by little more than a half, and never beyond the next integer.\<close>

definition near :: "(rat \<Rightarrow> int) \<Rightarrow> bool" where
  "near rounding \<longleftrightarrow> (\<forall>x. represented binary32 x \<longrightarrow> \<bar>x\<bar> < 2 ^ 22 \<longrightarrow>
     \<bar>of_int (rounding x) - x\<bar> \<le> 1 / 2 + pow2 (- 25))"

lemma half_away_error: "\<bar>of_int (round_half_away x) - x\<bar> \<le> 1 / 2"
  by (auto simp: round_half_away_def Let_def abs_le_iff abs_if) linarith+

lemma near_half_away: "near round_half_away"
  unfolding near_def using half_away_error pow2_pos [of "- 25"] by (meson add_increasing2 less_imp_le order_trans order_refl)

lemma near_by_fraction: "near round_by_fraction"
  using near_half_away by (simp add: near_def round_by_fraction_exact)

lemma near_by_sum: "near round_by_sum"
  unfolding near_def
proof (intro allI impI)
  fix x assume x: "represented binary32 x" "\<bar>x\<bar> < 2 ^ 22"
  show "\<bar>of_int (round_by_sum x) - x\<bar> \<le> 1 / 2 + pow2 (- 25)"
  proof (cases "\<bar>x\<bar> = below_half")
    case True
    then have "\<bar>round_by_sum x\<bar> = 1" by (rule round_by_sum_below_half)
    moreover have "x < 0 \<Longrightarrow> round_by_sum x \<le> 0" "0 \<le> x \<Longrightarrow> 0 \<le> round_by_sum x"
      by (simp_all add: round_by_sum_def Let_def round_rat_nonneg)
    ultimately have "round_by_sum x = (if x < 0 then - 1 else 1)"
      by (cases "x < 0") (simp_all add: abs_if not_less split: if_splits)
    then have "of_int (round_by_sum x) - x = (if x < 0 then - (1 / 2 + pow2 (- 25)) else 1 / 2 + pow2 (- 25))"
      using True by (cases "x < 0") (simp_all add: below_half_def abs_if)
    moreover have "0 < 1 / 2 + pow2 (- 25)" by (simp add: add_pos_pos)
    ultimately show ?thesis by (cases "x < 0") (simp_all only: if_True if_False abs_minus_cancel abs_of_pos order_refl)
  next
    case False
    then show ?thesis using near_half_away x round_by_sum_exact [OF x] by (simp add: near_def)
  qed
qed

text \<open>Neither way needs the clipping.\<close>

lemma narrow_unclipped:
  assumes "near rounding" "v \<in> set vs"
  shows "narrow rounding (row_scale vs) v = rounding (r32 (v / row_scale vs))"
    "\<bar>rounding (r32 (v / row_scale vs))\<bar> \<le> 127"
proof -
  let ?x = "r32 (v / row_scale vs)"
  have b: "\<bar>?x\<bar> \<le> 509 / 4" by (rule scaled_bound [OF assms(2)])
  then have "\<bar>of_int (rounding ?x) - ?x\<bar> \<le> 1 / 2 + pow2 (- 25)"
    using assms(1) r32_represented by (simp add: near_def)
  moreover have "pow2 (- 25) < 1 / 4" by (simp add: pow2_def)
  ultimately have "\<bar>of_int (rounding ?x)\<bar> < (128 :: rat)" using b by linarith
  then have "of_int \<bar>rounding ?x\<bar> < (of_int 128 :: rat)" by simp
  then show "\<bar>rounding ?x\<bar> \<le> 127" by (simp only: of_int_less_iff)
  then show "narrow rounding (row_scale vs) v = rounding ?x" by (simp add: narrow_def)
qed

lemma narrow_error:
  assumes "near rounding" "v \<in> set vs"
  shows "\<bar>of_int (narrow rounding (row_scale vs) v) * row_scale vs - v\<bar> \<le> row_scale vs * (1 / 2 + pow2 (- 16))"
proof -
  let ?s = "row_scale vs" and ?x = "r32 (v / row_scale vs)"
  have "\<bar>?x - v / ?s\<bar> \<le> \<bar>v / ?s\<bar> * pow2 (- 24) + pow2 (- 150)"
    using round_rat_error [of binary32 "v / ?s"] by (simp add: binary32_def)
  also have "\<dots> \<le> 509 / 4 * pow2 (- 24) + pow2 (- 150)"
    using row_quotient [OF assms(2)] by (intro add_right_mono mult_right_mono) (simp_all add: less_imp_le)
  also have "\<dots> \<le> 509 / 4 * pow2 (- 24) + pow2 (- 24)" by (intro add_left_mono pow2_mono) simp
  also have "\<dots> \<le> pow2 (- 16) - pow2 (- 25)" by (simp add: pow2_def)
  finally have "\<bar>?x - v / ?s\<bar> \<le> pow2 (- 16) - pow2 (- 25)" .
  moreover have "\<bar>of_int (rounding ?x) - ?x\<bar> \<le> 1 / 2 + pow2 (- 25)"
    using assms(1) r32_represented scaled_bound [OF assms(2)] by (simp add: near_def)
  ultimately have "\<bar>of_int (rounding ?x) - v / ?s\<bar> \<le> 1 / 2 + pow2 (- 16)" by linarith
  then have "\<bar>of_int (rounding ?x) - v / ?s\<bar> * ?s \<le> (1 / 2 + pow2 (- 16)) * ?s"
    using row_scale_pos [of vs] by (intro mult_right_mono) simp_all
  moreover have "\<bar>of_int (rounding ?x) - v / ?s\<bar> * ?s = \<bar>of_int (rounding ?x) * ?s - v\<bar>"
    using row_scale_pos [of vs] by (subst abs_of_pos [OF row_scale_pos, of vs, symmetric], subst abs_mult [symmetric])
      (simp add: left_diff_distrib)
  ultimately show ?thesis by (simp add: narrow_unclipped(1) [OF assms] mult.commute)
qed

section \<open>Patterns of represented numbers\<close>

text \<open>The fields of a pattern: sign, biased exponent and fraction.\<close>

lemma f32_fields:
  assumes "E < 256" "M < 2 ^ 23"
  shows "f32_value (word_of_int (int M + int E * 2 ^ 23 + (if neg then 2 ^ 31 else 0))) =
    (if E = 255 then (if M \<noteq> 0 then NaN else if neg then NInf else PInf)
     else let q = (if E = 0 then of_nat M * pow2 (- 149) else of_nat (M + 2 ^ 23) * pow2 (int E - 150))
          in Fin (if neg then - q else q))"
proof -
  let ?b = "if neg then 256 else 0 :: nat"
  define n where "n = M + (E + ?b) * 2 ^ 23"
  have le: "E * 2 ^ 23 \<le> 255 * 2 ^ 23" using assms(1) by simp
  then have "n < 2 ^ 32" using assms(2) by (simp add: n_def)
  then have u: "unat (word_of_nat n :: cell) = n" by (subst unat_of_nat) simp
  have w: "word_of_int (int M + int E * 2 ^ 23 + (if neg then 2 ^ 31 else 0)) = (word_of_nat n :: cell)"
    by (cases neg) (simp_all add: n_def)
  have d: "n div 2 ^ 23 mod 256 = E" "n mod 2 ^ 23 = M"
    using assms unfolding n_def by (cases neg; simp only: div_mult_self1 mod_mult_self1 if_True if_False; simp)+
  have "2 ^ 31 \<le> n \<longleftrightarrow> neg" using le assms(2) by (simp add: n_def)
  then show ?thesis unfolding f32_value_def w u Let_def d by (simp only:)
qed

theorem f32_value_bits:
  assumes "represented binary32 q" "\<bar>q\<bar> < 2 ^ 128"
  shows "f32_value (f32_bits q) = Fin q"
proof (cases "q = 0")
  case True
  then show ?thesis using f32_fields [of 0 0 False] by (simp add: f32_bits_def)
next
  case False
  let ?u = "ulp_exp binary32 q"
  obtain k where k: "q = of_int k * pow2 ?u" "\<bar>k\<bar> < 2 ^ 24" using represented_ulp [OF assms(1) False] .
  have abs: "\<bar>q\<bar> = of_int \<bar>k\<bar> * pow2 ?u" by (subst k(1)) (simp only: abs_mult abs_pow2 of_int_abs)
  then have m: "\<lfloor>\<bar>q\<bar> / pow2 ?u\<rfloor> = \<bar>k\<bar>" by (simp del: of_int_abs)
  have u: "?u = max (floor_log2 \<bar>q\<bar> - 23) (- 149)" by (simp add: ulp_exp_def binary32_def)
  have L: "pow2 (floor_log2 \<bar>q\<bar>) \<le> \<bar>q\<bar>" using floor_log2_bounds(1) [of "\<bar>q\<bar>"] False by simp
  then have "pow2 (floor_log2 \<bar>q\<bar>) < pow2 128" using assms(2) pow2_nat [of 128] by simp
  then have top: "?u \<le> 104" unfolding pow2_less_iff using u by simp
  show ?thesis
  proof (cases "\<bar>k\<bar> < 2 ^ 23")
    case True
    have "?u = - 149"
    proof (rule ccontr)
      assume "?u \<noteq> - 149"
      then have "floor_log2 \<bar>q\<bar> = 23 + ?u" using u by linarith
      then have "of_int (2 ^ 23) * pow2 ?u \<le> of_int \<bar>k\<bar> * pow2 ?u"
        using L abs pow2_add [of 23 ?u] pow2_nat [of 23] by simp
      then show False using True by (simp only: mult_le_cancel_right_pos [OF pow2_pos] of_int_le_iff)
    qed
    moreover have "nat \<bar>k\<bar> < 2 ^ 23" using True by simp
    ultimately show ?thesis using f32_fields [of 0 "nat \<bar>k\<bar>" "q < 0"] True False abs
      by (simp add: f32_bits_def m Let_def abs_if split: if_splits)
  next
    case big: False
    let ?M = "nat (\<bar>k\<bar> - 2 ^ 23)" and ?E = "nat (?u + 150)"
    have "- 149 \<le> ?u" unfolding u by simp
    then have E: "0 < ?E" "?E < 255" "int ?E = ?u + 150" using top by simp_all
    have M: "?M < 2 ^ 23" "int ?M = \<bar>k\<bar> - 2 ^ 23" using big k(2) by simp_all
    have sum: "of_nat (?M + 2 ^ 23) = (of_int \<bar>k\<bar> :: rat)"
    proof -
      have "int (?M + 2 ^ 23) = \<bar>k\<bar>" unfolding of_nat_add M(2) by simp
      then show ?thesis by (metis of_int_of_nat_eq)
    qed
    have bits: "f32_bits q = word_of_int (int ?M + int ?E * 2 ^ 23 + (if q < 0 then 2 ^ 31 else 0))"
      unfolding f32_bits_def Let_def m M(2) E(3) using False big by simp
    have "f32_value (f32_bits q) = Fin (if q < 0 then - (of_int \<bar>k\<bar> * pow2 ?u) else of_int \<bar>k\<bar> * pow2 ?u)"
      unfolding bits using f32_fields [of ?E ?M "q < 0"] E M(1) by (simp only: Let_def sum) simp
    then show ?thesis unfolding abs [symmetric] by (simp add: abs_if split: if_splits)
  qed
qed

section \<open>Arrays as bytes\<close>

text \<open>\<open>values.tobytes()\<close> and \<open>np.frombuffer(raw, dtype="<f4")\<close> of a multiple of four bytes.\<close>

definition cell_bytes :: "cell list \<Rightarrow> bytes" where
  "cell_bytes cs = concat (map (\<lambda>w. le_bytes 4 (unat w)) cs)"

fun byte_cells :: "bytes \<Rightarrow> cell list" where
  "byte_cells (a # b # c # d # r) = word_of_nat (le_nat [a, b, c, d]) # byte_cells r"
| "byte_cells _ = []"

lemma cell_bytes_simps [simp]:
  "cell_bytes [] = []" "cell_bytes (w # ws) = le_bytes 4 (unat w) @ cell_bytes ws"
  "cell_bytes (vs @ ws) = cell_bytes vs @ cell_bytes ws"
  by (simp_all add: cell_bytes_def)

lemma length_cell_bytes [simp]: "length (cell_bytes cs) = 4 * length cs"
  by (induction cs) simp_all

lemma numeral_4_eq_4: "(4 :: nat) = Suc (Suc (Suc (Suc 0)))"
  by simp

lemma le_bytes_four: "\<exists>a b c d. le_bytes 4 v = [a, b, c, d]"
  by (subst numeral_4_eq_4) (simp only: le_bytes.simps, blast)

lemma le_bytes_cell: "word_of_nat (le_nat (le_bytes 4 (unat w))) = (w :: cell)"
  using unsigned_less [of w] by (subst le_nat_le_bytes) simp_all

lemma byte_cells_word: "byte_cells (le_bytes 4 (unat w) @ r) = w # byte_cells r"
  using le_bytes_four [of "unat w"] le_bytes_cell [of w] by (elim exE) simp

lemma byte_cells_bytes [simp]: "byte_cells (cell_bytes cs) = cs"
  by (induction cs) (simp_all only: cell_bytes_simps byte_cells_word byte_cells.simps)

lemma four_bytes: "length bs = 4 * Suc n \<Longrightarrow> \<exists>a b c d r. bs = a # b # c # d # r \<and> length r = 4 * n"
  by (cases bs; cases "tl bs"; cases "tl (tl bs)"; cases "tl (tl (tl bs))") auto

lemma length_byte_cells: "length bs = 4 * n \<Longrightarrow> length (byte_cells bs) = n"
proof (induction n arbitrary: bs)
  case (Suc n)
  then show ?case using four_bytes [OF Suc.prems] by force
qed simp

lemma four_bytes_word: "le_bytes 4 (unat (word_of_nat (le_nat [a, b, c, d]) :: cell)) = [a, b, c, d]"
proof -
  have "le_nat [a, b, c, d] < 256 ^ length [a, b, c, d]" by (rule le_nat_less)
  then have "le_nat [a, b, c, d] < 2 ^ LENGTH(32)" by simp
  then have "unat (word_of_nat (le_nat [a, b, c, d]) :: cell) = le_nat [a, b, c, d]"
    by (subst unat_of_nat) (simp only: mod_less)
  then show ?thesis using le_bytes_le_nat [of "[a, b, c, d]"] by (metis length_Cons list.size(3) numeral_4_eq_4)
qed

lemma cell_bytes_cells: "length bs = 4 * n \<Longrightarrow> cell_bytes (byte_cells bs) = bs"
proof (induction n arbitrary: bs)
  case (Suc n)
  then obtain a b c d r where "bs = a # b # c # d # r" "length r = 4 * n" using four_bytes [OF Suc.prems] by blast
  then show ?case using Suc.IH by (simp only: byte_cells.simps cell_bytes_simps four_bytes_word append.simps)
qed simp

definition finite_cells :: "cell list \<Rightarrow> bool" where
  "finite_cells cs = list_all (\<lambda>w. fl_finite (f32_value w)) cs"

end
