(* ===== verification/PyJsonDump.thy ===== *)
theory PyJsonDump
  imports PyJsonText
begin

text \<open>
  \<open>json.dumps(value, indent=2)\<close>, with which the tools write their files, and that \<open>json.loads\<close> reads such
  a text back.  The text of a finite number is the parameter \<open>shown\<close>, Python's \<open>repr\<close>: the shortest text
  that reads as that number.
\<close>

section \<open>Printing\<close>

definition newline :: "nat \<Rightarrow> string" where
  "newline d = CHR 0x0A # replicate (2 * d) (CHR 0x20)"

definition shown_float :: "(rat \<Rightarrow> string) \<Rightarrow> fl \<Rightarrow> string" where
  "shown_float shown x = (case x of Fin q \<Rightarrow> shown q | NaN \<Rightarrow> ''NaN'' | PInf \<Rightarrow> ''Infinity'' | NInf \<Rightarrow> ''-Infinity'')"

fun dump :: "(rat \<Rightarrow> string) \<Rightarrow> nat \<Rightarrow> json \<Rightarrow> string"
  and dump_elements :: "(rat \<Rightarrow> string) \<Rightarrow> nat \<Rightarrow> json list \<Rightarrow> string"
  and dump_members :: "(rat \<Rightarrow> string) \<Rightarrow> nat \<Rightarrow> (string \<times> json) list \<Rightarrow> string" where
  "dump shown d JNull = ''null''"
| "dump shown d (JBool b) = (if b then ''true'' else ''false'')"
| "dump shown d (JInt n) = int_str n"
| "dump shown d (JFloat x) = shown_float shown x"
| "dump shown d (JStr s) = json_string s"
| "dump shown d (JList js) = (if js = [] then ''[]''
     else ''['' @ newline (Suc d) @ dump_elements shown (Suc d) js @ newline d @ '']'')"
| "dump shown d (JObj kvs) = (if kvs = [] then ''{}''
     else ''{'' @ newline (Suc d) @ dump_members shown (Suc d) kvs @ newline d @ ''}'')"
| "dump_elements shown d [] = []"
| "dump_elements shown d (j # js) =
     dump shown d j @ (if js = [] then [] else '','' @ newline d @ dump_elements shown d js)"
| "dump_members shown d [] = []"
| "dump_members shown d ((k, j) # kvs) =
     json_string k @ '': '' @ dump shown d j @
     (if kvs = [] then [] else '','' @ newline d @ dump_members shown d kvs)"

definition json_dumps :: "(rat \<Rightarrow> string) \<Rightarrow> json \<Rightarrow> string" where
  "json_dumps shown j = dump shown 0 j"

section \<open>Reading back\<close>

text \<open>What can follow a value in such a text.\<close>

definition boundary :: "string \<Rightarrow> bool" where
  "boundary r \<longleftrightarrow> r = [] \<or> hd r = CHR '','' \<or> hd r = CHR 0x0A"

text \<open>The text of a number is a number of JSON with a fraction or an exponent, and reads as it.\<close>

definition reads_back :: "(rat \<Rightarrow> string) \<Rightarrow> rat \<Rightarrow> bool" where
  "reads_back shown q \<longleftrightarrow>
     (\<exists>sign c t. shown q = sign @ c # t \<and> (sign = [] \<or> sign = ''-'') \<and> is_digit c) \<and>
     (\<forall>r. boundary r \<longrightarrow> scan_number (shown q @ r) = Inr (JFloat (Fin q), r))"

fun dumpable :: "(rat \<Rightarrow> string) \<Rightarrow> json \<Rightarrow> bool" where
  "dumpable shown (JFloat (Fin q)) \<longleftrightarrow> reads_back shown q"
| "dumpable shown (JList js) \<longleftrightarrow> list_all (dumpable shown) js"
| "dumpable shown (JObj kvs) \<longleftrightarrow> distinct (map fst kvs) \<and> list_all (dumpable shown) (map snd kvs)"
| "dumpable shown _ \<longleftrightarrow> True"

lemma space_newline [simp]: "skip_space (newline d @ s) = skip_space s"
  by (simp add: newline_def json_space_def dropWhile_append)

lemma newline_length [simp]: "0 < length (newline d)"
  by (simp add: newline_def)

lemma boundary_newline [simp]: "boundary (newline d @ s)"
  by (simp add: boundary_def newline_def)

lemma boundary_comma [simp]: "boundary (CHR '','' # s)"
  by (simp add: boundary_def)

lemma digit_not_space: "is_digit c \<Longrightarrow> \<not> json_space c"
  by (simp add: is_digit_def json_space_def)

text \<open>Integers.\<close>

lemma digit_char_zero: "d < 10 \<Longrightarrow> digit_char d = CHR ''0'' \<Longrightarrow> d = 0"
proof -
  assume d: "d < 10" and c: "digit_char d = CHR ''0''"
  have "code (digit_char d) = 48 + d" using d by (simp add: digit_char_def)
  then show "d = 0" by (simp add: c)
qed

lemma nat_str_0: "nat_str 0 = ''0''"
  by code_simp

lemma nat_str_leading: "0 < n \<Longrightarrow> hd (nat_str n) \<noteq> CHR ''0''"
proof (induction n rule: nat_str.induct)
  case (1 n)
  show ?case
  proof (cases "n < 10")
    case True
    then show ?thesis using 1 digit_char_zero [of n] by (subst nat_str.simps) auto
  next
    case False
    then have "hd (nat_str (n div 10)) \<noteq> CHR ''0''" using 1 by simp
    then show ?thesis using False by (subst nat_str.simps) simp
  qed
qed

lemma boundary_digits:
  assumes "boundary r" "list_all is_digit ds"
  shows "takeWhile is_digit (ds @ r) = ds" "dropWhile is_digit (ds @ r) = r"
proof -
  have "\<not> is_digit (hd r) \<or> r = []" using assms(1) by (auto simp: boundary_def is_digit_def)
  then have "takeWhile is_digit r = []" "dropWhile is_digit r = r" by (cases r; simp)+
  then show "takeWhile is_digit (ds @ r) = ds" "dropWhile is_digit (ds @ r) = r"
    using assms(2) by (induction ds) simp_all
qed

lemma boundary_number: "boundary r \<Longrightarrow> scan_fraction r = ([], r)" "boundary r \<Longrightarrow> scan_exponent r = ([], r)"
  by (cases r; auto simp: boundary_def scan_fraction_def scan_exponent_def)+

lemma scan_integer_nat: "boundary r \<Longrightarrow> scan_integer (nat_str n @ r) = Some (nat_str n, r)"
proof -
  assume r: "boundary r"
  obtain c cs where c: "nat_str n = c # cs" by (cases "nat_str n") simp_all
  then have d: "is_digit c" "list_all is_digit cs" using nat_str_digits [of n] by simp_all
  then have "c \<noteq> CHR ''-''" by (auto simp: is_digit_def)
  show ?thesis
  proof (cases "n = 0")
    case True
    then show ?thesis by (simp add: scan_integer_def nat_str_0)
  next
    case False
    then have "c \<noteq> CHR ''0''" using nat_str_leading [of n] c by simp
    then show ?thesis using d boundary_digits [OF r d(2)] \<open>c \<noteq> CHR ''-''\<close> by (simp add: scan_integer_def c scan_digits_def)
  qed
qed

lemma py_int_minus: "0 < n \<Longrightarrow> py_int 10 (''-'' @ nat_str n) = Inr (- int n)"
proof -
  assume "0 < n"
  obtain c cs where cs: "nat_str n = c # cs" by (cases "nat_str n") auto
  have digits: "list_all is_digit (nat_str n)" by (rule nat_str_digits)
  then have "list_all is_digit (rev (nat_str n))" by simp
  moreover have minus: "\<not> is_space (CHR ''-'')" by (simp add: is_space_def)
  moreover obtain e es where e: "rev (nat_str n) = e # es" by (cases "rev (nat_str n)") simp_all
  ultimately have "is_digit e" by simp
  have "strip (''-'' @ nat_str n) = ''-'' @ nat_str n"
    using e is_digit_not_space [OF \<open>is_digit e\<close>] minus by (simp add: strip_def lstrip_def rev_swap)
  then show ?thesis using parse_digits_nat_str [of n] by (simp add: py_int_def parse_unsigned_def cs)
qed

lemma scan_int:
  assumes "boundary r"
  shows "scan_number (int_str n @ r) = Inr (JInt n, r)"
proof (cases "n < 0")
  case True
  obtain c cs where c: "nat_str (nat (- n)) = c # cs" by (cases "nat_str (nat (- n))") simp_all
  then have d: "list_all is_digit (c # cs)" using nat_str_digits [of "nat (- n)"] by simp
  then have "c \<noteq> CHR ''0''" "is_digit c" using nat_str_leading [of "nat (- n)"] c True by simp_all
  then have scan: "scan_integer (''-'' @ nat_str (nat (- n)) @ r) = Some (''-'' @ nat_str (nat (- n)), r)"
    using d boundary_digits [OF assms, of cs] by (simp add: scan_integer_def c scan_digits_def)
  have "py_int 10 (''-'' @ nat_str (nat (- n))) = Inr n" using True py_int_minus [of "nat (- n)"] by simp
  then show ?thesis using scan True boundary_number [OF assms] by (simp add: scan_number_def int_str_def)
next
  case False
  then show ?thesis using scan_integer_nat [OF assms] boundary_number [OF assms]
    by (simp add: scan_number_def int_str_def py_int_nat_str)
qed

text \<open>A number begins like one.\<close>

definition number_text :: "string \<Rightarrow> bool" where
  "number_text s \<longleftrightarrow> (\<exists>sign c t. s = sign @ c # t \<and> (sign = [] \<or> sign = ''-'') \<and> is_digit c)"

lemma int_str_number: "number_text (int_str n)"
proof -
  have "\<exists>c t. nat_str k = c # t \<and> is_digit c" for k
    using nat_str_digits [of k] nat_str_nonempty [of k] by (cases "nat_str k") simp_all
  then show ?thesis unfolding number_text_def int_str_def by (metis append_Cons append_Nil)
qed

lemma number_value:
  assumes "number_text s" "scan_number (s @ r) = x"
  shows "scan_value (Suc n) (s @ r) = x"
proof -
  obtain sign c t where s: "s = sign @ c # t" "sign = [] \<or> sign = ''-''" and c: "is_digit c"
    using assms(1) unfolding number_text_def by blast
  have ne: "c \<noteq> CHR ''n''" "c \<noteq> CHR ''t''" "c \<noteq> CHR ''f''" "c \<noteq> CHR ''N''" "c \<noteq> CHR ''I''" "c \<noteq> CHR ''-''"
    "c \<noteq> CHR ''{''" "c \<noteq> CHR ''[''" "c \<noteq> CHR 0x22"
    using c by (auto simp: is_digit_def)
  have "find (\<lambda>(w, _). starts_with w (s @ r)) json_words = None"
    using s ne by (auto simp: json_words_def)
  then show ?thesis using s ne assms(2) by (elim disjE) simp_all
qed

text \<open>A value begins with no white space and no closing bracket.\<close>

definition opens :: "string \<Rightarrow> bool" where
  "opens s \<longleftrightarrow> (\<exists>c t. s = c # t \<and> \<not> json_space c \<and> c \<noteq> CHR '']'' \<and> c \<noteq> CHR ''}'')"

lemma opens_append [simp]: "opens s \<Longrightarrow> opens (s @ r)"
  by (auto simp: opens_def)

lemma opens_skip [simp]: "opens s \<Longrightarrow> skip_space s = s"
  by (auto simp: opens_def)

lemma opens_not_close [simp]: "opens s \<Longrightarrow> \<not> starts_with '']'' s" "opens s \<Longrightarrow> \<not> starts_with ''}'' s"
  by (auto simp: opens_def)

lemma opens_length: "opens s \<Longrightarrow> 0 < length s"
  by (auto simp: opens_def)

lemma opens_number: "number_text s \<Longrightarrow> opens s"
  unfolding number_text_def opens_def by (elim exE conjE disjE) (auto simp: is_digit_def json_space_def)

lemma opens_string: "opens (json_string s)"
  by (simp add: opens_def json_string_def json_space_def)

lemma reads_back_number: "reads_back shown q \<Longrightarrow> number_text (shown q)"
  by (simp add: reads_back_def number_text_def)

lemma opens_dump: "dumpable shown j \<Longrightarrow> opens (dump shown d j)"
proof (cases j)
  case (JFloat x)
  assume "dumpable shown j"
  then show ?thesis using JFloat
    by (cases x) (auto simp: shown_float_def opens_def [of "_ # _"] json_space_def intro: opens_number reads_back_number)
next
  case (JInt n)
  then show ?thesis by (simp add: opens_number int_str_number)
next
  case (JStr s)
  then show ?thesis by (simp add: opens_string)
qed (simp_all add: opens_def json_space_def)

lemma opens_elements: "list_all (dumpable shown) js \<Longrightarrow> js \<noteq> [] \<Longrightarrow> opens (dump_elements shown d js)"
  by (cases js) (simp_all add: opens_dump)

lemma opens_members: "kvs \<noteq> [] \<Longrightarrow> opens (dump_members shown d kvs)"
  by (cases kvs rule: list.exhaust) (auto simp: opens_string)

lemma update_new: "k \<notin> fst ` set kvs \<Longrightarrow> AList.update k v kvs = kvs @ [(k, v)]"
  by (induction kvs) auto

lemma scan_string_value: "scan_value (Suc n) (json_string s @ r) = Inr (JStr s, r)"
  by (simp add: json_string_def scan_json_string)

lemma scan_member: "scan_members (Suc m) old (json_string k @ CHR '':'' # CHR '' '' # s) =
    res_bind (scan_value m (skip_space s)) (\<lambda>(v, r2).
      let r3 = skip_space r2; kvs1 = AList.update k v old
      in if starts_with ''}'' r3 then Inr (JObj kvs1, drop 1 r3)
         else if starts_with '','' r3 then scan_members m kvs1 (skip_space (drop 1 r3))
         else syntax_error)"
  by (simp add: json_string_def scan_json_string json_space_def)

lemma skip_bracket: "\<not> json_space (CHR '']'')" "\<not> json_space (CHR ''}'')" "\<not> json_space (CHR '','')"
  by (simp_all add: json_space_def)

lemma scan_dump:
  "dumpable shown j \<Longrightarrow> boundary r \<Longrightarrow> 2 * length (dump shown d j) < n \<Longrightarrow>
     scan_value n (dump shown d j @ r) = Inr (j, r)"
  "list_all (dumpable shown) js \<Longrightarrow> js \<noteq> [] \<Longrightarrow> 2 * length (dump_elements shown d js) + 1 < n \<Longrightarrow>
     scan_elements n acc (dump_elements shown d js @ newline e @ '']'' @ r) = Inr (JList (acc @ js), r)"
  "list_all (dumpable shown) (map snd kvs) \<Longrightarrow> kvs \<noteq> [] \<Longrightarrow> 2 * length (dump_members shown d kvs) + 1 < n \<Longrightarrow>
     distinct (map fst (old @ kvs)) \<Longrightarrow>
     scan_members n old (dump_members shown d kvs @ newline e @ ''}'' @ r) = Inr (JObj (old @ kvs), r)"
proof (induction shown d j and shown d js and shown d kvs
    arbitrary: n r and n acc e r and n old e r rule: dump_dump_elements_dump_members.induct)
  case (1 shown d)
  then show ?case by (cases n) (simp_all add: json_words_def)
next
  case (2 shown d b)
  then show ?case by (cases n) (simp_all add: json_words_def)
next
  case (3 shown d k)
  then show ?case by (cases n) (simp_all add: number_value [OF int_str_number scan_int] del: scan_value.simps(2))
next
  case (4 shown d x)
  show ?case
  proof (cases x)
    case (Fin q)
    then have ok: "reads_back shown q" using 4 by simp
    then have "scan_number (shown q @ r) = Inr (JFloat x, r)" using 4 Fin by (simp add: reads_back_def)
    from number_value [OF reads_back_number [OF ok] this] show ?thesis
      using 4 Fin by (cases n) (simp_all add: shown_float_def del: scan_value.simps(2))
  qed (use 4 in \<open>cases n; simp add: shown_float_def json_words_def\<close>)+
next
  case (5 shown d s)
  then show ?case by (cases n) (simp_all only: dump.simps scan_string_value not_less_zero)
next
  case (6 shown d js)
  obtain m where n: "n = Suc m" using 6 by (cases n) simp_all
  show ?case
  proof (cases "js = []")
    case False
    let ?t = "dump_elements shown (Suc d) js @ newline d @ '']'' @ r"
    have "opens ?t" using 6 False by (simp add: opens_elements)
    then have t: "skip_space ?t = ?t" "\<not> starts_with '']'' ?t" by (rule opens_skip, rule opens_not_close)
    have "scan_elements m [] ?t = Inr (JList ([] @ js), r)"
      using 6 False by (intro "6.IH") (simp_all add: n)
    then show ?thesis using t False by (simp add: n)
  qed (simp add: n json_space_def)
next
  case (7 shown d kvs)
  obtain m where n: "n = Suc m" using 7 by (cases n) simp_all
  show ?case
  proof (cases "kvs = []")
    case False
    let ?t = "dump_members shown (Suc d) kvs @ newline d @ ''}'' @ r"
    have "opens ?t" using False by (simp add: opens_members)
    then have t: "skip_space ?t = ?t" "\<not> starts_with ''}'' ?t" by (rule opens_skip, rule opens_not_close)
    have "scan_members m [] ?t = Inr (JObj ([] @ kvs), r)"
      using 7 False by (intro "7.IH") (simp_all add: n)
    then show ?thesis using t False by (simp add: n)
  qed (simp add: n json_space_def)
next
  case (9 shown d j js)
  obtain m where n: "n = Suc m" using 9 by (cases n) simp_all
  have j: "0 < length (dump shown d j)" using opens_length [OF opens_dump [of shown j d]] 9 by simp
  show ?case
  proof (cases "js = []")
    case True
    have "scan_value m (dump shown d j @ newline e @ '']'' @ r) = Inr (j, newline e @ '']'' @ r)"
      using 9 True by (intro "9.IH"(1)) (simp_all add: n)
    then show ?thesis by (simp add: True n skip_bracket)
  next
    case False
    let ?t = "dump_elements shown d js @ newline e @ '']'' @ r"
    have "scan_value m (dump shown d j @ '','' @ newline d @ ?t) = Inr (j, '','' @ newline d @ ?t)"
      using 9 by (intro "9.IH"(1)) (simp_all add: n)
    moreover have "scan_elements m (acc @ [j]) ?t = Inr (JList ((acc @ [j]) @ js), r)"
      using 9 False j by (intro "9.IH"(2)) (simp_all add: n)
    moreover have "skip_space ?t = ?t" using 9 False by (simp add: opens_elements)
    ultimately show ?thesis using False by (simp add: n skip_bracket)
  qed
next
  case (11 shown d k j kvs)
  obtain m where n: "n = Suc m" using 11 by (cases n) simp_all
  have j: "0 < length (dump shown d j)" using opens_length [OF opens_dump [of shown j d]] 11 by simp
  have new: "AList.update k j old = old @ [(k, j)]" using 11 by (intro update_new) auto
  have jj: "skip_space (dump shown d j @ s) = dump shown d j @ s" for s using 11 by (simp add: opens_dump)
  show ?case
  proof (cases "kvs = []")
    case True
    have "scan_value m (dump shown d j @ newline e @ ''}'' @ r) = Inr (j, newline e @ ''}'' @ r)"
      using 11 True by (intro "11.IH"(1)) (simp_all add: n)
    then show ?thesis by (simp add: True n skip_bracket scan_member jj new del: scan_members.simps)
  next
    case False
    let ?t = "dump_members shown d kvs @ newline e @ ''}'' @ r"
    have "scan_value m (dump shown d j @ '','' @ newline d @ ?t) = Inr (j, '','' @ newline d @ ?t)"
      using 11 by (intro "11.IH"(1)) (simp_all add: n)
    moreover have "scan_members m (old @ [(k, j)]) ?t = Inr (JObj ((old @ [(k, j)]) @ kvs), r)"
      using 11 False j by (intro "11.IH"(2)) (simp_all add: n)
    moreover have "skip_space ?t = ?t" using False by (simp add: opens_members)
    ultimately show ?thesis using False by (simp add: n skip_bracket scan_member jj new del: scan_members.simps)
  qed
qed simp_all

text \<open>What \<open>json.dumps\<close> writes, \<open>json.loads\<close> reads back, also with the line end the tools add.\<close>

lemma json_loads_dumps:
  assumes "dumpable shown j"
  shows "json_loads (json_dumps shown j) = Inr j" "json_loads (json_dumps shown j @ [CHR 0x0A]) = Inr j"
proof -
  have "scan_value n (dump shown 0 j @ r) = Inr (j, r)" if "boundary r" "2 * length (dump shown 0 j) < n" for r n
    using assms that by (rule scan_dump(1))
  moreover have "skip_space (dump shown 0 j @ r) = dump shown 0 j @ r" for r
    using assms by (simp add: opens_dump)
  moreover from this [of "[]"] have "skip_space (dump shown 0 j) = dump shown 0 j" by simp
  moreover have "scan_value n (dump shown 0 j) = Inr (j, [])" if "2 * length (dump shown 0 j) < n" for n
    using scan_dump(1) [OF assms, of "[]" 0 n] that by (simp add: boundary_def)
  ultimately show "json_loads (json_dumps shown j) = Inr j" "json_loads (json_dumps shown j @ [CHR 0x0A]) = Inr j"
    by (simp_all add: json_loads_def json_dumps_def boundary_def json_space_def del: scan_value.simps(2))
qed

lemma json_loads_written:
  "dumpable shown j \<Longrightarrow> json_loads_bytes (encode (json_dumps shown j @ [CHR 0x0A])) = Inr j"
  by (simp add: json_loads_bytes_def utf8_decode_encode json_loads_dumps)

end
