(* ===== verification/Disk.thy ===== *)
theory Disk
  imports PyJsonDump
begin

text \<open>
  The file system the pack tools write to: directories of files, with \<open>pathlib\<close>'s and \<open>shutil\<close>'s
  operations on them, each of which the system may refuse.  A path is one without repeated or trailing
  slashes, as \<open>Path\<close> keeps it.  The directory that is filled under a temporary name and moved into place
  is here too, with what is left behind when something raises.
\<close>

section \<open>Directories and faults\<close>

type_synonym folder = "(string \<times> bytes) list"
type_synonym disk = "string \<Rightarrow> folder option"

datatype disk_op = Mkdir string | ReadOf string string | WriteOf string string | AppendOf string string
  | RenameOf string string | RemoveOf string

text \<open>
  When the system refuses an operation it raises \<open>OSError\<close>: \<open>Some f\<close> is what an interrupted write or
  removal leaves in the directory it worked on.  A directory is made, and renamed, wholly or not at all.
\<close>

type_synonym faults = "disk_op \<Rightarrow> disk \<Rightarrow> folder option"

definition no_faults :: faults where
  "no_faults = (\<lambda>_ _. None)"

definition refused :: "exn" where
  "refused = OSError ''refused''"

definition dir_exists :: "string \<Rightarrow> (disk, bool) io" where
  "dir_exists d w = (Inr (w d \<noteq> None), w)"

text \<open>The directories above a path, the outermost first.\<close>

definition ancestors :: "string \<Rightarrow> string list" where
  "ancestors path = map (\<lambda>i. take i path) (filter (\<lambda>i. 0 < i \<and> path ! i = CHR ''/'') [0..<length path])"

definition parent_there :: "string \<Rightarrow> disk \<Rightarrow> bool" where
  "parent_there path w \<longleftrightarrow> ancestors path = [] \<or> w (last (ancestors path)) \<noteq> None"

definition make_dir :: "faults \<Rightarrow> string \<Rightarrow> (disk, unit) io" where
  "make_dir F d w =
     (if w d \<noteq> None then (Inl (OSError ''file exists''), w)
      else if \<not> parent_there d w then (Inl (OSError ''no such directory''), w)
      else case F (Mkdir d) w of Some _ \<Rightarrow> (Inl refused, w) | None \<Rightarrow> (Inr (), w(d \<mapsto> [])))"

text \<open>\<open>mkdir(parents=True, exist_ok=True)\<close> of a path, and of its parent.\<close>

definition make_missing :: "faults \<Rightarrow> string \<Rightarrow> (disk, unit) io" where
  "make_missing F d w = (if w d \<noteq> None then (Inr (), w) else make_dir F d w)"

definition make_parents :: "faults \<Rightarrow> string \<Rightarrow> (disk, unit) io" where
  "make_parents F path = io_for (ancestors path) (make_missing F)"

definition make_dirs :: "faults \<Rightarrow> string \<Rightarrow> (disk, unit) io" where
  "make_dirs F path = io_for (ancestors path @ [path]) (make_missing F)"

section \<open>Files\<close>

definition read_file :: "faults \<Rightarrow> string \<Rightarrow> string \<Rightarrow> (disk, bytes) io" where
  "read_file F d name w =
     (case w d of
        None \<Rightarrow> (Inl (OSError ''no such file''), w)
      | Some f \<Rightarrow> (case F (ReadOf d name) w of
          Some _ \<Rightarrow> (Inl refused, w)
        | None \<Rightarrow> (of_option (OSError ''no such file'') (map_of f name), w)))"

text \<open>\<open>write_bytes\<close>, \<open>write_text\<close> and the opening of a file to write.\<close>

definition put :: "faults \<Rightarrow> string \<Rightarrow> string \<Rightarrow> bytes \<Rightarrow> (disk, unit) io" where
  "put F d name x w =
     (case w d of
        None \<Rightarrow> (Inl (OSError ''no such directory''), w)
      | Some f \<Rightarrow> (case F (WriteOf d name) w of
          Some g \<Rightarrow> (Inl refused, w(d \<mapsto> g))
        | None \<Rightarrow> (Inr (), w(d \<mapsto> AList.update name x f))))"

text \<open>\<open>f.write(raw)\<close> of an open file.\<close>

definition append_to :: "faults \<Rightarrow> string \<Rightarrow> string \<Rightarrow> bytes \<Rightarrow> (disk, unit) io" where
  "append_to F d name raw w =
     (case w d of
        None \<Rightarrow> (Inl (OSError ''no such directory''), w)
      | Some f \<Rightarrow> (case F (AppendOf d name) w of
          Some g \<Rightarrow> (Inl refused, w(d \<mapsto> g))
        | None \<Rightarrow> (case map_of f name of
            Some old \<Rightarrow> (Inr (), w(d \<mapsto> AList.update name (old @ raw) f))
          | None \<Rightarrow> (Inl (OSError ''no such file''), w))))"

text \<open>\<open>write_text(json.dumps(value, indent=2) + "\n")\<close>; \<open>shown\<close> is the text of a floating-point number.\<close>

definition written :: "(rat \<Rightarrow> string) \<Rightarrow> json \<Rightarrow> bytes" where
  "written shown j = encode (json_dumps shown j @ [CHR 0x0A])"

section \<open>A staged directory\<close>

definition rename_dir :: "faults \<Rightarrow> string \<Rightarrow> string \<Rightarrow> (disk, unit) io" where
  "rename_dir F a b w =
     (case w a of
        None \<Rightarrow> (Inl (OSError ''no such directory''), w)
      | Some f \<Rightarrow>
          if w b \<noteq> None \<and> w b \<noteq> Some [] then (Inl (OSError ''directory not empty''), w)
          else case F (RenameOf a b) w of Some _ \<Rightarrow> (Inl refused, w) | None \<Rightarrow> (Inr (), w(a := None, b \<mapsto> f)))"

text \<open>\<open>shutil.rmtree(d, ignore_errors=quiet)\<close>.\<close>

definition remove_tree :: "faults \<Rightarrow> bool \<Rightarrow> string \<Rightarrow> (disk, unit) io" where
  "remove_tree F quiet d w =
     (case F (RemoveOf d) w of
        None \<Rightarrow> (Inr (), w(d := None))
      | Some f \<Rightarrow> (if quiet then Inr () else Inl refused, w(d \<mapsto> f)))"

text \<open>
  What \<open>export\<close> and \<open>quantize\<close> do with their temporary directory: it is filled and moved to its place at
  the end, or removed when anything raises.
\<close>

definition staged :: "faults \<Rightarrow> bool \<Rightarrow> string \<Rightarrow> string \<Rightarrow> (disk, 'a) io \<Rightarrow> (disk, 'a) io" where
  "staged F quiet tmp out body =
     io_then (make_dir F tmp)
       (io_catch (io_bind body (\<lambda>x. io_then (rename_dir F tmp out) (io_ret x)))
          (\<lambda>e. Some (io_then (remove_tree F quiet tmp) (io_raise e))))"

section \<open>The directories that are made\<close>

text \<open>A disk with these directories, those it had not empty.\<close>

definition with_dirs :: "string list \<Rightarrow> disk \<Rightarrow> disk" where
  "with_dirs ds w = (\<lambda>d. if w d = None \<and> d \<in> set ds then Some [] else w d)"

lemma with_dirs_Nil [simp]: "with_dirs [] w = w"
  by (simp add: with_dirs_def)

lemma with_dirs_other: "d \<notin> set ds \<Longrightarrow> with_dirs ds w d = w d"
  by (simp add: with_dirs_def)

lemma with_dirs_there: "w d \<noteq> None \<Longrightarrow> with_dirs ds w d = w d"
  by (auto simp: with_dirs_def)

lemma with_dirs_Cons: "with_dirs ds (with_dirs [d] w) = with_dirs (d # ds) w"
  by (auto simp: with_dirs_def fun_eq_iff)

lemma with_dirs_there_all: "\<forall>d\<in>set ds. w d \<noteq> None \<Longrightarrow> with_dirs ds w = w"
  by (auto simp: with_dirs_def fun_eq_iff)

lemma make_missing_cases: "make_missing F d w = (r, w') \<Longrightarrow> r = Inr () \<and> w' = with_dirs [d] w \<or> (\<exists>e. r = Inl e) \<and> w' = w"
proof -
  assume run: "make_missing F d w = (r, w')"
  have new: "with_dirs [d] w = w(d \<mapsto> [])" if "w d = None" using that by (auto simp: with_dirs_def fun_eq_iff)
  show ?thesis
  proof (cases "w d = None")
    case True
    then show ?thesis using run new by (auto simp: make_missing_def make_dir_def split: if_splits option.splits)
  qed (use run in \<open>auto simp: make_missing_def with_dirs_def fun_eq_iff\<close>)
qed

lemma make_missing_all:
  "io_for ds (make_missing F) w = (r, w') \<Longrightarrow> \<exists>n. w' = with_dirs (take n ds) w \<and> (r = Inr () \<longrightarrow> w' = with_dirs ds w)"
proof (induction ds arbitrary: w)
  case (Cons d ds)
  obtain q w1 where q: "make_missing F d w = (q, w1)" by (cases "make_missing F d w")
  from make_missing_cases [OF q] show ?case
  proof (elim disjE conjE exE)
    assume "q = Inr ()" and w1: "w1 = with_dirs [d] w"
    then have "io_for ds (make_missing F) w1 = (r, w')" using Cons.prems q by (simp add: io_then_def io_bind_def)
    from Cons.IH [OF this] obtain n where "w' = with_dirs (take n ds) w1" "r = Inr () \<longrightarrow> w' = with_dirs ds w1" by blast
    then show ?case unfolding w1 with_dirs_Cons by (intro exI [of _ "Suc n"]) simp
  next
    fix e assume "q = Inl e" "w1 = w"
    then show ?case using Cons.prems q by (intro exI [of _ 0]) (auto simp: io_then_def io_bind_def)
  qed
qed (auto intro: exI [of _ 0])

lemma make_parents_outcome:
  assumes "make_parents F path w = (r, w')"
  shows "\<exists>n. w' = with_dirs (take n (ancestors path)) w \<and> (r = Inr () \<longrightarrow> w' = with_dirs (ancestors path) w)"
  using make_missing_all assms unfolding make_parents_def by blast

lemma ancestors_shorter: "d \<in> set (ancestors path) \<Longrightarrow> length d < length path"
  by (auto simp: ancestors_def)

lemma self_no_ancestor [simp]: "path \<notin> set (ancestors path)"
  using ancestors_shorter by blast

text \<open>The ancestors of an ancestor are those before it.\<close>

lemma filter_upt_split:
  assumes "filter P [0..<n] = ks @ i # ks'"
  shows "filter P [0..<i] = ks" "i < n"
proof -
  have "i \<in> set (filter P [0..<n])" unfolding assms by simp
  then have i: "i < n" "P i" by auto
  then show "i < n" by blast
  have "[0..<n] = [0..<i] @ i # [Suc i..<n]"
    using upt_add_eq_append [of 0 i "n - i"] upt_conv_Cons [OF i(1)] i(1) by simp
  then have e: "filter P [0..<i] @ i # filter P [Suc i..<n] = ks @ i # ks'" using assms i(2) by simp
  have "distinct (ks @ i # ks')" by (metis assms distinct_filter distinct_upt)
  then have "takeWhile (\<lambda>j. j \<noteq> i) (ks @ i # ks') = ks" by (subst takeWhile_append2) auto
  moreover have "takeWhile (\<lambda>j. j \<noteq> i) (filter P [0..<i] @ i # filter P [Suc i..<n]) = filter P [0..<i]"
    by (subst takeWhile_append2) auto
  ultimately show "filter P [0..<i] = ks" using e by simp
qed

lemma ancestors_of_ancestor:
  assumes "ancestors path = pre @ d # post"
  shows "ancestors d = pre"
proof -
  let ?P = "\<lambda>i. 0 < i \<and> path ! i = CHR ''/''"
  obtain ks ks' i where s: "filter ?P [0..<length path] = ks @ i # ks'" "pre = map (\<lambda>i. take i path) ks" "d = take i path"
    using assms unfolding ancestors_def by (auto simp: map_eq_append_conv)
  note split = filter_upt_split [OF s(1)]
  have "filter (\<lambda>j. 0 < j \<and> d ! j = CHR ''/'') [0..<i] = filter ?P [0..<i]" by (rule filter_cong) (auto simp: s(3))
  then have f: "filter (\<lambda>j. 0 < j \<and> d ! j = CHR ''/'') [0..<i] = ks" unfolding split(1) .
  have "\<forall>j\<in>set ks. j < i" using arg_cong [OF split(1), of set] by auto
  moreover have "length d = i" using split(2) by (simp add: s(3))
  ultimately show ?thesis unfolding ancestors_def using f by (auto simp: s(2,3) min_def)
qed

lemma make_missing_succeeds:
  assumes "ancestors path = pre @ ds" "\<forall>d\<in>set pre. w d \<noteq> None"
  shows "io_for ds (make_missing no_faults) w = (Inr (), with_dirs ds w)"
  using assms
proof (induction ds arbitrary: pre w)
  case (Cons d ds)
  have a: "ancestors d = pre" by (rule ancestors_of_ancestor [OF Cons.prems(1)])
  have "parent_there d w" using Cons.prems(2) by (cases "pre = []") (simp_all add: parent_there_def a)
  then have one: "make_missing no_faults d w = (Inr (), with_dirs [d] w)"
    by (auto simp: make_missing_def make_dir_def no_faults_def with_dirs_def fun_eq_iff)
  have "io_for ds (make_missing no_faults) (with_dirs [d] w) = (Inr (), with_dirs ds (with_dirs [d] w))"
    using Cons.prems by (intro Cons.IH [of "pre @ [d]"]) (auto simp: with_dirs_def)
  then show ?case using one by (simp add: io_then_def io_bind_def with_dirs_Cons)
qed simp

lemma make_parents_succeeds: "make_parents no_faults path w = (Inr (), with_dirs (ancestors path) w)"
  unfolding make_parents_def by (rule make_missing_succeeds [of _ "[]"]) simp_all

lemma io_for_append: "io_for (xs @ ys) f = io_then (io_for xs f) (io_for ys f)"
  by (induction xs) (auto simp: io_then_def io_bind_def fun_eq_iff split: prod.splits sum.splits)

lemma make_dirs_succeeds: "make_dirs no_faults path w = (Inr (), with_dirs (ancestors path @ [path]) w)"
proof -
  have "make_missing no_faults path (with_dirs (ancestors path) w) = (Inr (), with_dirs [path] (with_dirs (ancestors path) w))"
  proof -
    have "parent_there path (with_dirs (ancestors path) w)"
      by (cases "ancestors path = []") (auto simp: parent_there_def with_dirs_def)
    then show ?thesis by (auto simp: make_missing_def make_dir_def no_faults_def with_dirs_def fun_eq_iff)
  qed
  moreover have "with_dirs [path] (with_dirs (ancestors path) w) = with_dirs (ancestors path @ [path]) w"
    by (auto simp: with_dirs_def fun_eq_iff)
  ultimately show ?thesis using make_parents_succeeds [of path w]
    by (simp add: make_dirs_def make_parents_def io_for_append io_then_def io_bind_def)
qed

section \<open>Filling a directory\<close>

text \<open>A computation that works in one directory: it keeps it and touches no other.\<close>

definition local_to :: "string \<Rightarrow> (disk, 'a) io \<Rightarrow> bool" where
  "local_to d m \<longleftrightarrow> (\<forall>w r w'. w d \<noteq> None \<longrightarrow> m w = (r, w') \<longrightarrow> w' d \<noteq> None \<and> (\<forall>x. x \<noteq> d \<longrightarrow> w' x = w x))"

lemma local_toD: "local_to d m \<Longrightarrow> m w = (r, w') \<Longrightarrow> w d \<noteq> None \<Longrightarrow> w' d \<noteq> None \<and> (x \<noteq> d \<longrightarrow> w' x = w x)"
  by (auto simp: local_to_def)

named_theorems local_intros \<open>computations that work in one directory\<close>

lemma local_pure [local_intros]: "local_to d (io_ret x)" "local_to d (io_raise e)" "local_to d (io_lift m)"
  by (simp_all add: local_to_def)

lemma local_put [local_intros]: "local_to d (put F d name x)"
  by (auto simp: local_to_def put_def split: option.splits)

lemma local_read [local_intros]: "local_to d (read_file F e name)"
  by (auto simp: local_to_def read_file_def split: option.splits)

lemma local_append [local_intros]: "local_to d (append_to F d name raw)"
  by (auto simp: local_to_def append_to_def split: option.splits)

lemma local_bind [local_intros]:
  assumes "local_to d m" "\<And>x. local_to d (f x)"
  shows "local_to d (io_bind m f)"
  unfolding local_to_def
proof (intro allI impI)
  fix w r w' assume w: "w d \<noteq> None" and run: "io_bind m f w = (r, w')"
  obtain y w1 where y: "m w = (y, w1)" by (cases "m w")
  then have one: "w1 d \<noteq> None" "\<forall>x. x \<noteq> d \<longrightarrow> w1 x = w x" using assms(1) w by (auto simp: local_to_def)
  show "w' d \<noteq> None \<and> (\<forall>x. x \<noteq> d \<longrightarrow> w' x = w x)"
  proof (cases y)
    case (Inl e)
    then show ?thesis using run y one by (simp add: io_bind_def)
  next
    case (Inr x)
    then have "f x w1 = (r, w')" using run y by (simp add: io_bind_def)
    then show ?thesis using assms(2) [of x] one by (auto simp: local_to_def)
  qed
qed

lemma local_then [local_intros]: "local_to d m \<Longrightarrow> local_to d k \<Longrightarrow> local_to d (io_then m k)"
  by (simp add: io_then_def local_bind)

lemma local_split [local_intros]: "(\<And>x y. local_to d (f x y)) \<Longrightarrow> local_to d (case p of (x, y) \<Rightarrow> f x y)"
  by (cases p) simp

lemma local_for [local_intros]: "(\<And>x. local_to d (f x)) \<Longrightarrow> local_to d (io_for xs f)"
  by (induction xs) (auto intro: local_intros)

text \<open>
  The outcome of a staged directory.  When it raises, nothing but the temporary directory can have
  changed, and that is there only if its removal was refused; when it returns, the directory is in place
  with what the body put in it.
\<close>

definition left_behind :: "faults \<Rightarrow> string \<Rightarrow> disk \<Rightarrow> disk \<Rightarrow> bool" where
  "left_behind F tmp w w' \<longleftrightarrow> w' = w \<or> (\<exists>v f. F (RemoveOf tmp) v = Some f \<and> w' = w(tmp \<mapsto> f))"

lemma removed:
  assumes "remove_tree F quiet tmp w1 = (r, w')" "w tmp = None" "\<And>x. x \<noteq> tmp \<Longrightarrow> w1 x = w x"
  shows "left_behind F tmp w w'"
proof (cases "F (RemoveOf tmp) w1")
  case None
  then have "w' = w1(tmp := None)" using assms(1) by (simp add: remove_tree_def)
  then have "w' x = w x" for x using assms(2,3) by (cases "x = tmp") simp_all
  then have "w' = w" by blast
  then show ?thesis by (simp add: left_behind_def)
next
  case (Some f)
  then have "w' = w1(tmp \<mapsto> f)" using assms(1) by (simp add: remove_tree_def)
  then have "w' x = (w(tmp \<mapsto> f)) x" for x using assms(3) by (cases "x = tmp") simp_all
  then have "w' = w(tmp \<mapsto> f)" by blast
  then show ?thesis using Some by (auto simp: left_behind_def)
qed

lemma staged_outcome:
  assumes run: "staged F quiet tmp out body w = (r, w')" and inside: "local_to tmp body"
    and fresh: "w tmp = None" "w out = None" "tmp \<noteq> out"
  shows "(\<exists>e. r = Inl e) \<and> left_behind F tmp w w' \<or>
    (\<exists>x w1 f. r = Inr x \<and> body (w(tmp \<mapsto> [])) = (Inr x, w1) \<and> w1 tmp = Some f \<and> w' = w(out \<mapsto> f))"
proof (cases "make_dir F tmp w")
  case (Pair q w0)
  show ?thesis
  proof (cases q)
    case (Inl e)
    then have "r = Inl e" "w' = w" using run Pair
      by (auto simp: staged_def io_then_def io_bind_def make_dir_def split: if_splits option.splits)
    then show ?thesis by (simp add: left_behind_def)
  next
    case (Inr u)
    then have w0: "w0 = w(tmp \<mapsto> [])" using Pair by (auto simp: make_dir_def split: if_splits option.splits)
    obtain y w1 where y: "body (w(tmp \<mapsto> [])) = (y, w1)" by (cases "body (w(tmp \<mapsto> []))")
    then have kept: "w1 tmp \<noteq> None" "x \<noteq> tmp \<Longrightarrow> w1 x = w x" for x
      using local_toD [OF inside y] by (auto split: if_splits)
    obtain f where f: "w1 tmp = Some f" using kept(1) by blast
    have out: "w1 out = None" using kept(2) [of out] fresh by simp
    let ?all = "io_bind body (\<lambda>x. io_then (rename_dir F tmp out) (io_ret x))"
    have rest: "staged F quiet tmp out body w = (case ?all w0 of
        (Inl e, v) \<Rightarrow> io_then (remove_tree F quiet tmp) (io_raise e) v | (Inr x, v) \<Rightarrow> (Inr x, v))"
      using Pair Inr by (simp add: staged_def io_then_eval(1) io_catch_def split: prod.splits sum.splits)
    have raised: ?thesis if "?all w0 = (Inl e, w1)" for e
    proof -
      obtain p v where p: "remove_tree F quiet tmp w1 = (p, v)" by (cases "remove_tree F quiet tmp w1")
      then have "left_behind F tmp w v" using removed fresh(1) kept(2) by blast
      moreover have "(\<exists>e. r = Inl e) \<and> w' = v"
        using run that p unfolding rest by (cases p) (auto simp: io_then_def io_bind_def)
      ultimately show ?thesis by blast
    qed
    show ?thesis
    proof (cases y)
      case (Inl e)
      then show ?thesis using raised y by (simp add: w0 io_bind_def)
    next
      case (Inr x)
      then have all: "?all w0 = io_then (rename_dir F tmp out) (io_ret x) w1" using y by (simp add: w0 io_bind_def)
      show ?thesis
      proof (cases "F (RenameOf tmp out) w1")
        case (Some g)
        then show ?thesis using raised all f out by (simp add: rename_dir_def io_then_def io_bind_def)
      next
        case None
        have "w1(tmp := None, out \<mapsto> f) = w(out \<mapsto> f)" using kept(2) fresh by (auto simp: fun_eq_iff)
        then have "r = Inr x" "w' = w(out \<mapsto> f)"
          using run None all f out unfolding rest by (auto simp: rename_dir_def io_then_def io_bind_def)
        then show ?thesis using y Inr f by auto
      qed
    qed
  qed
qed

lemma staged_succeeds:
  assumes body: "body (w(tmp \<mapsto> [])) = (Inr x, w1)" "w1 tmp = Some f" "\<And>d. d \<noteq> tmp \<Longrightarrow> w1 d = w d"
    and w: "w tmp = None" "w out = None" "tmp \<noteq> out" "parent_there tmp w"
  shows "staged no_faults quiet tmp out body w = (Inr x, w(out \<mapsto> f))"
proof -
  have "w1(tmp := None, out \<mapsto> f) = w(out \<mapsto> f)" using body(3) w by (auto simp: fun_eq_iff)
  moreover have "w1 out = None" using body(3) w by metis
  ultimately show ?thesis using body(1,2) w
    by (simp add: staged_def make_dir_def rename_dir_def no_faults_def io_then_def io_bind_def io_catch_def)
qed

text \<open>
  A name \<open>tempfile.mkdtemp(dir=out.parent)\<close> can give: in the directory of \<open>out\<close>.  With the parents made,
  a directory can be made there.
\<close>

definition beside :: "string \<Rightarrow> string \<Rightarrow> bool" where
  "beside tmp out \<longleftrightarrow> tmp \<noteq> out \<and> ancestors tmp = ancestors out"

lemma beside_fresh: "beside tmp out \<Longrightarrow> with_dirs (take n (ancestors out)) w tmp = w tmp"
  by (metis beside_def in_set_takeD self_no_ancestor with_dirs_other)

lemma out_kept: "with_dirs (take n (ancestors out)) w out = w out"
  by (metis in_set_takeD self_no_ancestor with_dirs_other)

lemma out_kept_all [simp]: "with_dirs (ancestors out) w out = w out"
  by (simp add: with_dirs_other)

lemma beside_fresh_all: "beside tmp out \<Longrightarrow> with_dirs (ancestors out) w tmp = w tmp"
  by (metis beside_def self_no_ancestor with_dirs_other)

lemma beside_parent: "beside tmp out \<Longrightarrow> parent_there tmp (with_dirs (ancestors out) w)"
  by (cases "ancestors out = []") (auto simp: parent_there_def beside_def with_dirs_def)

text \<open>A file or directory in a directory.\<close>

lemma ancestors_child:
  assumes "d \<noteq> []" "CHR ''/'' \<notin> set name"
  shows "ancestors (d @ CHR ''/'' # name) = ancestors d @ [d]"
proof -
  let ?p = "d @ CHR ''/'' # name"
  let ?P = "\<lambda>i. 0 < i \<and> ?p ! i = CHR ''/''"
  have "[0..<length ?p] = [0..<length d] @ length d # [Suc (length d)..<length ?p]"
    using upt_add_eq_append [of 0 "length d" "Suc (length name)"] upt_conv_Cons [of "length d" "length ?p"] by simp
  moreover have "filter ?P [Suc (length d)..<length ?p] = []"
    unfolding filter_empty_conv
  proof
    fix i assume "i \<in> set [Suc (length d)..<length ?p]"
    then have i: "length d < i" "i < length ?p" unfolding set_upt by simp_all
    obtain k where k: "i = length d + Suc k" using less_imp_Suc_add [OF i(1)] by auto
    then have "?p ! i = name ! k" "k < length name" using i(2) by (simp_all add: nth_append)
    then show "\<not> ?P i" using assms(2) nth_mem by metis
  qed
  moreover have "filter ?P [0..<length d] = filter (\<lambda>i. 0 < i \<and> d ! i = CHR ''/'') [0..<length d]"
    by (rule filter_cong) (auto simp: nth_append)
  moreover have "map (\<lambda>i. take i ?p) (filter (\<lambda>i. 0 < i \<and> d ! i = CHR ''/'') [0..<length d]) = ancestors d"
    unfolding ancestors_def by (rule map_cong) auto
  ultimately show ?thesis using assms(1) unfolding ancestors_def [of ?p] by (simp del: upt.simps)
qed

end
