(* ===== verification/Model_Pack.thy ===== *)
theory Model_Pack
  imports Float32 Disk Sha256 "HOL-Library.List_Lexorder" "HOL-Library.Multiset"
begin

text \<open>
  The canonical pack of a model: the names and shapes of its tensors (\<open>shapes\<close> of
  \<open>tools/model_reference.py\<close>) and the exporter of \<open>tools/pack_checkpoint.py\<close>, which writes the tensors of
  a checkpoint one after another behind a manifest.  A checkpoint is what the safetensors library reads
  from its files: named \<open>float32\<close> arrays.  The exporter works on the disk of theory Disk, whose
  operations may be refused.
\<close>

section \<open>Short-circuit conditions\<close>

definition and_also :: "bool res \<Rightarrow> bool res \<Rightarrow> bool res" where
  "and_also a b = res_bind a (\<lambda>x. if x then b else Inr False)"

definition or_else :: "bool res \<Rightarrow> bool res \<Rightarrow> bool res" where
  "or_else a b = res_bind a (\<lambda>x. if x then Inr True else b)"

definition raise_if :: "string \<Rightarrow> bool res \<Rightarrow> unit res" where
  "raise_if why b = res_bind b (\<lambda>x. if x then Inl (ValueError why) else Inr ())"

definition raise_unless :: "string \<Rightarrow> bool res \<Rightarrow> unit res" where
  "raise_unless why b = res_bind b (\<lambda>x. if x then Inr () else Inl (ValueError why))"

definition on_int :: "string \<Rightarrow> json \<Rightarrow> (int \<Rightarrow> bool) \<Rightarrow> bool res" where
  "on_int key c holds = res_bind (int_item key c) (\<lambda>n. Inr (holds n))"

section \<open>Names and shapes\<close>

type_synonym layout = "(string \<times> int list) list"

text \<open>\<open>sorted(d.items())\<close> of a dictionary: by the code points of its keys, which are distinct.\<close>

definition by_name :: "(string \<times> 'a) list \<Rightarrow> (string \<times> 'a) list" where
  "by_name = sort_key (\<lambda>(name, _). map code name)"

text \<open>A number used as a dimension; one that is not an integer is outside the model.\<close>

definition dimension :: "string \<Rightarrow> json \<Rightarrow> int res" where
  "dimension key c = res_bind (item key c) (\<lambda>j. case j of
     JInt n \<Rightarrow> Inr n | JBool b \<Rightarrow> Inr (of_bool b) | _ \<Rightarrow> Inl OutsideModel)"

text \<open>\<open>range(c[key])\<close>.\<close>

definition range_of :: "string \<Rightarrow> json \<Rightarrow> nat list res" where
  "range_of key c = res_bind (item key c) (\<lambda>j. case j of
     JInt n \<Rightarrow> Inr [0..<nat n] | JBool b \<Rightarrow> Inr [0..<of_bool b] | _ \<Rightarrow> Inl TypeError)"

definition prefixed :: "string \<Rightarrow> (string \<times> 'a) list \<Rightarrow> (string \<times> 'a) list" where
  "prefixed p kvs = map (\<lambda>(k, v). (p @ ''.'' @ k, v)) kvs"

definition encoder_name :: "nat \<Rightarrow> string" where
  "encoder_name i = ''encoder.'' @ nat_str i"

definition decision_name :: "nat \<Rightarrow> string" where
  "decision_name i = ''decision.'' @ nat_str i"

definition encoder_shapes :: "json \<Rightarrow> int \<Rightarrow> nat \<Rightarrow> layout res" where
  "encoder_shapes c h i =
     res_bind (if i \<noteq> 0 then Inr True
               else res_bind (item ''first_layer_attention_norm'' c) (\<lambda>j. Inr (truthy j))) (\<lambda>normed.
     res_bind (dimension ''intermediate_size'' c) (\<lambda>m.
       Inr (prefixed (encoder_name i)
         ((if normed then [(''attn_norm.weight'', [h])] else []) @
          [(''qkv.weight'', [3 * h, h]), (''out.weight'', [h, h]), (''mlp_norm.weight'', [h]),
           (''wi.weight'', [2 * m, h]), (''wo.weight'', [h, m])]))))"

definition decision_shapes :: "json \<Rightarrow> int \<Rightarrow> nat \<Rightarrow> layout res" where
  "decision_shapes c h i =
     res_bind (dimension ''decision_ff'' c) (\<lambda>ff.
       Inr (prefixed (decision_name i)
         [(''qkv.weight'', [3 * h, h]), (''qkv.bias'', [3 * h]), (''out.weight'', [h, h]), (''out.bias'', [h]),
          (''norm1.weight'', [h]), (''norm1.bias'', [h]), (''norm2.weight'', [h]), (''norm2.bias'', [h]),
          (''linear1.weight'', [ff, h]), (''linear1.bias'', [ff]),
          (''linear2.weight'', [h, ff]), (''linear2.bias'', [h])]))"

definition scorer_shapes :: "int \<Rightarrow> layout" where
  "scorer_shapes h = prefixed ''scorer''
     [(''norm.weight'', [h]), (''norm.bias'', [h]), (''dense.weight'', [h, h]), (''dense.bias'', [h]),
      (''out.weight'', [1, h]), (''out.bias'', [1])]"

definition shapes :: "json \<Rightarrow> layout res" where
  "shapes c =
     res_bind (dimension ''hidden_size'' c) (\<lambda>h.
     res_bind (dimension ''vocab_size'' c) (\<lambda>v.
     res_bind (range_of ''layers'' c) (\<lambda>layers.
     res_bind (mapM (encoder_shapes c h) layers) (\<lambda>encoder.
     res_bind (range_of ''decision_layers'' c) (\<lambda>heads.
     res_bind (mapM (decision_shapes c h) heads) (\<lambda>decision.
       Inr (by_name
         ([(''embeddings.weight'', [v, h]), (''embeddings.norm.weight'', [h]), (''final_norm.weight'', [h])] @
          concat encoder @ [(''qtype.weight'', [3, h])] @ concat decision @ scorer_shapes h))))))))"

section \<open>The checks on a configuration\<close>

text \<open>
  An argument of \<open>np.isfinite\<close> and of the comparisons after it: an integer beyond 64 bits and an array are
  outside the model.
\<close>

definition number :: "json \<Rightarrow> fl res" where
  "number j = (case j of
     JInt n \<Rightarrow> if \<bar>n\<bar> < 2 ^ 63 then Inr (Fin (of_int n)) else Inl OutsideModel
   | JBool b \<Rightarrow> Inr (Fin (of_bool b))
   | JFloat x \<Rightarrow> Inr x
   | JList _ \<Rightarrow> Inl OutsideModel
   | _ \<Rightarrow> Inl TypeError)"

definition on_finite :: "string \<Rightarrow> json \<Rightarrow> (rat \<Rightarrow> bool) \<Rightarrow> bool res" where
  "on_finite key c holds =
     res_bind (item key c) (\<lambda>j. res_bind (number j) (\<lambda>x. Inr (case x of Fin q \<Rightarrow> holds q | _ \<Rightarrow> False)))"

primrec check_each :: "(string \<Rightarrow> unit res) \<Rightarrow> string list \<Rightarrow> unit res" where
  "check_each f [] = Inr ()"
| "check_each f (k # ks) = res_bind (f k) (\<lambda>_. check_each f ks)"

definition validate_config :: "json \<Rightarrow> unit res" where
  "validate_config c =
     res_bind (int_item ''hidden_size'' c) (\<lambda>h.
     res_bind (raise_unless ''unsupported backbone dimensions''
       (and_also (Inr (0 < h \<and> h \<le> 2048))
       (and_also (on_int ''vocab_size'' c (\<lambda>v. 5 \<le> v \<and> v \<le> 300000)) (on_int ''layers'' c (\<lambda>n. 1 \<le> n \<and> n \<le> 64))))) (\<lambda>_.
     res_bind (raise_if ''invalid rotary head dimensions''
       (or_else (on_int ''attention_heads'' c (\<lambda>a. a < 1))
       (or_else (on_int ''attention_heads'' c (\<lambda>a. h mod a \<noteq> 0)) (on_int ''attention_heads'' c (\<lambda>a. h div a mod 2 \<noteq> 0))))) (\<lambda>_.
     res_bind (raise_if ''invalid decision head dimensions''
       (or_else (on_int ''decision_heads'' c (\<lambda>a. a < 1))
       (or_else (on_int ''decision_heads'' c (\<lambda>a. h mod a \<noteq> 0)) (on_int ''decision_layers'' c (\<lambda>n. \<not> (1 \<le> n \<and> n \<le> 4)))))) (\<lambda>_.
     res_bind (raise_if ''invalid attention/qtype configuration''
       (or_else (on_int ''global_every'' c (\<lambda>n. n < 1))
       (or_else (on_int ''local_attention'' c (\<lambda>n. n < 1)) (res_bind (item ''qtypes'' c) (\<lambda>j. Inr (\<not> eq_int j 3)))))) (\<lambda>_.
     res_bind (raise_unless ''invalid mask id''
       (res_bind (int_item ''mask_token_id'' c) (\<lambda>m. and_also (Inr (0 \<le> m)) (on_int ''vocab_size'' c (\<lambda>v. m < v))))) (\<lambda>_.
     res_bind (check_each (\<lambda>k. raise_unless k (on_int k c (\<lambda>n. 1 \<le> n \<and> n \<le> 16384))) [''intermediate_size'', ''decision_ff'']) (\<lambda>_.
     res_bind (check_each (\<lambda>k. raise_unless k (on_finite k c (\<lambda>q. 0 < q \<and> q \<le> 1)))
       [''norm_eps'', ''decision_norm_eps'', ''scorer_norm_eps'']) (\<lambda>_.
     res_bind (check_each (\<lambda>k. raise_unless k (on_finite k c (\<lambda>q. 1 < q \<and> q \<le> 1000000000000)))
       [''global_rope_theta'', ''local_rope_theta'']) (\<lambda>_.
       raise_unless ''unsupported activation''
         (res_bind (item ''decision_activation'' c) (\<lambda>j. Inr (j = JStr ''Relu'' \<or> j = JStr ''Gelu''))))))))))))"

section \<open>Tensors and the mapping\<close>

text \<open>A \<open>float32\<close> array: its shape, and its numbers in row-major order.\<close>

record tensor =
  dims :: "nat list"
  cells :: "cell list"

definition array :: "tensor \<Rightarrow> bool" where
  "array t \<longleftrightarrow> length (cells t) = prod_list (dims t)"

definition transposed :: "tensor \<Rightarrow> tensor res" where
  "transposed t =
     (case dims t of
        [r, c] \<Rightarrow> Inr \<lparr>dims = [c, r], cells = concat (map (\<lambda>j. map (\<lambda>i. cells t ! (i * c + j)) [0..<r]) [0..<c])\<rparr>
      | _ \<Rightarrow> Inl (ValueError ''transpose requires a matrix''))"

text \<open>\<open>np.concatenate(arrays, axis=0)\<close>.\<close>

definition concatenated :: "tensor list \<Rightarrow> tensor res" where
  "concatenated ts =
     (case ts of
        [] \<Rightarrow> Inl (ValueError ''need at least one array to concatenate'')
      | t # _ \<Rightarrow>
          if list_ex (\<lambda>u. dims u = [] \<or> tl (dims u) \<noteq> tl (dims t)) ts
          then Inl (ValueError ''all the input array dimensions must match'')
          else Inr \<lparr>dims = sum_list (map (hd \<circ> dims) ts) # tl (dims t), cells = concat (map cells ts)\<rparr>)"

text \<open>The files of a checkpoint in the order they are read, each with its tensors as \<open>float32\<close>.\<close>

type_synonym checkpoint = "(string \<times> (string \<times> tensor) list) list"

text \<open>\<open>Path.suffix\<close>.\<close>

definition suffix_of :: "string \<Rightarrow> string" where
  "suffix_of path =
     (let name = rev (takeWhile (\<lambda>c. c \<noteq> CHR ''/'') (rev path));
          tail = rev (takeWhile (\<lambda>c. c \<noteq> CHR ''.'') (rev name))
      in if length tail + 1 < length name \<and> tail \<noteq> [] then CHR ''.'' # tail else [])"

fun index_keys :: "(string \<times> tensor) list \<Rightarrow> (string \<times> tensor) list \<Rightarrow> (string \<times> tensor) list res" where
  "index_keys index [] = Inr index"
| "index_keys index ((k, t) # kts) =
     (if k \<in> fst ` set index then Inl (ValueError ''duplicate source tensor'')
      else index_keys (index @ [(k, t)]) kts)"

definition source_reader :: "checkpoint \<Rightarrow> (string \<times> tensor) list res" where
  "source_reader files =
     (if files = [] \<or> list_ex (\<lambda>(path, _). suffix_of path \<noteq> ''.safetensors'') files
      then Inl (ValueError ''source must contain safetensors, never a pickle checkpoint'')
      else index_keys [] (concat (map snd files)))"

text \<open>\<open>read(name)\<close>: an unhashable name is a \<open>TypeError\<close>.\<close>

definition read_tensor :: "(string \<times> tensor) list \<Rightarrow> json \<Rightarrow> tensor res" where
  "read_tensor index j =
     (case j of
        JStr name \<Rightarrow> of_option (ValueError ''missing source tensor'') (map_of index name)
      | JList _ \<Rightarrow> Inl TypeError
      | JObj _ \<Rightarrow> Inl TypeError
      | _ \<Rightarrow> Inl (ValueError ''missing source tensor''))"

definition keys_of :: "(string \<times> json) list \<Rightarrow> string set" where
  "keys_of kvs = fst ` set kvs"

text \<open>The two conditions on a specification that is a dictionary.\<close>

definition is_transpose :: "(string \<times> json) list \<Rightarrow> bool res" where
  "is_transpose spec =
     and_also (Inr (keys_of spec = {''source'', ''transpose''}))
       (res_bind (item ''transpose'' (JObj spec)) (\<lambda>j. Inr (j = JBool True)))"

definition is_concat :: "(string \<times> json) list \<Rightarrow> bool res" where
  "is_concat spec =
     and_also (Inr (keys_of spec = {''concat'', ''axis''}))
    (and_also (res_bind (item ''concat'' (JObj spec)) (\<lambda>j. Inr (case j of JList _ \<Rightarrow> True | _ \<Rightarrow> False)))
       (res_bind (item ''axis'' (JObj spec)) (\<lambda>a. Inr (eq_int a 0))))"

text \<open>\<open>resolve(spec, read)\<close>; \<open>set(spec)\<close> of a list is the set of its elements.\<close>

definition resolve :: "json \<Rightarrow> (string \<times> tensor) list \<Rightarrow> tensor res" where
  "resolve spec index =
     (case spec of
        JStr _ \<Rightarrow> read_tensor index spec
      | JObj kvs \<Rightarrow>
          res_bind (is_transpose kvs) (\<lambda>flip.
          if flip then res_bind (item ''source'' spec) (\<lambda>j. res_bind (read_tensor index j) transposed)
          else res_bind (is_concat kvs) (\<lambda>join.
            if join
            then res_bind (item ''concat'' spec) (\<lambda>j. res_bind (py_iter j) (\<lambda>names.
                   res_bind (mapM (read_tensor index) names) concatenated))
            else Inl (ValueError ''mapping permits source name, explicit transpose, or axis-0 concat only'')))
      | JList js \<Rightarrow>
          if list_ex (\<lambda>j. case j of JList _ \<Rightarrow> True | JObj _ \<Rightarrow> True | _ \<Rightarrow> False) js then Inl TypeError
          else if set js = {JStr ''source'', JStr ''transpose''} \<or> set js = {JStr ''concat'', JStr ''axis''} then Inl TypeError
          else Inl (ValueError ''mapping permits source name, explicit transpose, or axis-0 concat only'')
      | _ \<Rightarrow> Inl TypeError)"

section \<open>The exporter\<close>

definition PACK_FORMAT :: string where
  "PACK_FORMAT = ''ic-laya-f32-pack-v1''"

definition MAX_TENSOR :: nat where
  "MAX_TENSOR = 256 * 1024 * 1024"

definition MAX_TOTAL :: nat where
  "MAX_TOTAL = 2 * 1024 ^ 3"

definition sha_json :: "bytes \<Rightarrow> json" where
  "sha_json raw = JList (map (\<lambda>b. JInt (int (unat b))) (sha256 raw))"

record tensor_entry =
  en_name :: string
  en_shape :: "int list"
  en_offset :: nat
  en_length :: nat
  en_sha :: json

definition entry_json :: "tensor_entry \<Rightarrow> json" where
  "entry_json e = JObj
     [(''name'', JStr (en_name e)), (''shape'', JList (map JInt (en_shape e))),
      (''offset'', JInt (int (en_offset e))), (''length'', JInt (int (en_length e))), (''sha256'', en_sha e)]"

record export_args =
  ex_source :: checkpoint
  ex_config :: bytes
  ex_mapping :: bytes
  ex_tokenizer :: bytes
  ex_out :: string
  ex_repo :: string
  ex_revision :: string
  ex_qtypes :: "int list"
  ex_test_only :: bool

definition hex_revision :: "string \<Rightarrow> bool" where
  "hex_revision s \<longleftrightarrow> length s = 40 \<and> list_all (\<lambda>c. hex_digit_val c \<noteq> None) s"

text \<open>\<open>set(mapped)\<close>; a list of names is outside the model.\<close>

definition mapping_names :: "json \<Rightarrow> string set res" where
  "mapping_names mapped =
     (case mapped of
        JObj kvs \<Rightarrow> Inr (keys_of kvs)
      | JStr s \<Rightarrow> Inr ((\<lambda>c. [c]) ` set s)
      | JList _ \<Rightarrow> Inl OutsideModel
      | _ \<Rightarrow> Inl TypeError)"

text \<open>Everything that is checked before the temporary directory is made.\<close>

definition export_inputs :: "export_args \<Rightarrow> (json \<times> json \<times> layout \<times> (string \<times> tensor) list) res" where
  "export_inputs a =
     res_bind (raise_if ''source identity required'' (Inr (ex_repo a = [] \<or> ex_revision a = []))) (\<lambda>_.
     res_bind (raise_if ''real model export requires a 40-character immutable revision''
       (Inr (\<not> ex_test_only a \<and> \<not> hex_revision (ex_revision a)))) (\<lambda>_.
     res_bind (raise_unless ''qtypes must map Choice,Noul,Score to a permutation of 0,1,2''
       (Inr (sort (ex_qtypes a) = [0, 1, 2]))) (\<lambda>_.
     res_bind (json_loads_bytes (ex_config a)) (\<lambda>c.
     res_bind (validate_config c) (\<lambda>_.
     res_bind (json_loads_bytes (ex_mapping a)) (\<lambda>mapped.
     res_bind (shapes c) (\<lambda>expected.
     res_bind (mapping_names mapped) (\<lambda>names.
     res_bind (raise_if ''mapping mismatch'' (Inr (names \<noteq> fst ` set expected))) (\<lambda>_.
     res_bind (raise_unless ''tokenizer size''
       (Inr (0 < length (ex_tokenizer a) \<and> length (ex_tokenizer a) \<le> 32 * 1024 ^ 2))) (\<lambda>_.
     res_bind (json_loads_bytes (ex_tokenizer a)) (\<lambda>_.
     res_bind (source_reader (ex_source a)) (\<lambda>index.
       Inr (c, mapped, expected, index)))))))))))))"

text \<open>The bytes of one tensor at a position of the model file.\<close>

definition tensor_bytes :: "json \<Rightarrow> (string \<times> tensor) list \<Rightarrow> nat \<Rightarrow> string \<Rightarrow> int list \<Rightarrow> bytes res" where
  "tensor_bytes mapped index position name shape =
     res_bind (item name mapped) (\<lambda>spec.
     res_bind (resolve spec index) (\<lambda>t.
       if map int (dims t) \<noteq> shape then Inl (ValueError (''shape mismatch for '' @ name))
       else if \<not> finite_cells (cells t) then Inl (ValueError (''nonfinite tensor '' @ name))
       else let raw = cell_bytes (cells t) in
         if MAX_TENSOR < length raw \<or> MAX_TOTAL < position + length raw
         then Inl (ValueError ''pack exceeds v0.1 limits'') else Inr raw))"

fun write_tensors ::
  "faults \<Rightarrow> string \<Rightarrow> json \<Rightarrow> (string \<times> tensor) list \<Rightarrow> nat \<Rightarrow> layout \<Rightarrow> (disk, tensor_entry list \<times> nat) io" where
  "write_tensors F tmp mapped index position [] = io_ret ([], position)"
| "write_tensors F tmp mapped index position ((name, shape) # later) =
     io_bind (io_lift (tensor_bytes mapped index position name shape)) (\<lambda>raw.
     io_then (append_to F tmp ''model.bin'' raw)
     (io_bind (write_tensors F tmp mapped index (position + length raw) later) (\<lambda>(entries, len_all).
       io_ret (\<lparr>en_name = name, en_shape = shape, en_offset = position, en_length = length raw,
                en_sha = sha_json raw\<rparr> # entries, len_all))))"

definition pack_manifest :: "export_args \<Rightarrow> json \<Rightarrow> tensor_entry list \<Rightarrow> nat \<Rightarrow> json" where
  "pack_manifest a c entries len_all = JObj
     [(''format'', JStr PACK_FORMAT), (''source_repo'', JStr (ex_repo a)), (''source_revision'', JStr (ex_revision a)),
      (''test_only'', JBool (ex_test_only a)), (''tokenizer_sha256'', sha_json (ex_tokenizer a)),
      (''primitive_to_qtype'', JList (map JInt (ex_qtypes a))), (''config'', c),
      (''total_bytes'', JInt (int len_all)), (''tensors'', JList (map entry_json entries))]"

definition EXPORT_NOTES :: string where
  "EXPORT_NOTES =
     ''Canonical export only. Upstream checkpoint parity and ICP performance NOT established.'' @ [CHR 0x0A] @
     ''Source mapping/config were supplied by the caller, not inferred or verified by this tool.'' @ [CHR 0x0A]"

definition fill_pack ::
  "faults \<Rightarrow> (rat \<Rightarrow> string) \<Rightarrow> string \<Rightarrow> export_args \<Rightarrow> json \<Rightarrow> json \<Rightarrow> layout \<Rightarrow> (string \<times> tensor) list \<Rightarrow> (disk, json) io" where
  "fill_pack F shown tmp a c mapped expected index =
     io_then (put F tmp ''model.bin'' [])
     (io_bind (write_tensors F tmp mapped index 0 expected) (\<lambda>(entries, len_all).
        let manifest = pack_manifest a c entries len_all in
        io_then (put F tmp ''manifest.json'' (written shown manifest))
        (io_then (put F tmp ''tokenizer.json'' (ex_tokenizer a))
        (io_then (put F tmp ''export_mapping.json'' (ex_mapping a))
        (io_then (put F tmp ''export_config.json'' (ex_config a))
        (io_then (put F tmp ''EXPORT_NOTES.txt'' (ascii EXPORT_NOTES))
        (io_ret manifest)))))))"

text \<open>\<open>tmp\<close> is the name \<open>tempfile.mkdtemp\<close> gives.\<close>

definition export :: "faults \<Rightarrow> (rat \<Rightarrow> string) \<Rightarrow> string \<Rightarrow> export_args \<Rightarrow> (disk, json) io" where
  "export F shown tmp a =
     io_bind (dir_exists (ex_out a)) (\<lambda>there.
     io_then (io_guard (\<not> there) (ValueError ''output already exists; refusing to overwrite''))
     (io_bind (io_lift (export_inputs a)) (\<lambda>(c, mapped, expected, index).
     io_then (make_parents F (ex_out a))
       (staged F True tmp (ex_out a) (fill_pack F shown tmp a c mapped expected index)))))"

section \<open>Filling the pack\<close>

lemma write_tensors_local [local_intros]: "local_to tmp (write_tensors F tmp mapped index position lay)"
proof (induction lay arbitrary: position)
  case Nil
  show ?case unfolding write_tensors.simps by (intro local_intros)
next
  case (Cons entry lay)
  obtain name shape where "entry = (name, shape)" by (cases entry)
  then show ?case unfolding \<open>entry = _\<close> write_tensors.simps by (intro local_intros Cons.IH)
qed

lemma fill_pack_local: "local_to tmp (fill_pack F shown tmp a c mapped expected index)"
  unfolding fill_pack_def Let_def by (intro local_intros)

section \<open>The layout of a pack\<close>

text \<open>
  What a list of entries says of a model file from an offset on: the tensors lie there one after another
  to its end, each with its length, its hash and the property \<open>P\<close> of its bytes.
\<close>

fun laid_out :: "(tensor_entry \<Rightarrow> bytes \<Rightarrow> bool) \<Rightarrow> nat \<Rightarrow> tensor_entry list \<Rightarrow> bytes \<Rightarrow> bool" where
  "laid_out P off [] bs \<longleftrightarrow> bs = []"
| "laid_out P off (e # es) bs \<longleftrightarrow>
     en_offset e = off \<and> en_length e \<le> length bs \<and> en_sha e = sha_json (take (en_length e) bs) \<and>
     P e (take (en_length e) bs) \<and> laid_out P (off + en_length e) es (drop (en_length e) bs)"

text \<open>The bytes an entry points at.\<close>

definition slice_of :: "bytes \<Rightarrow> tensor_entry \<Rightarrow> bytes" where
  "slice_of bs e = take (en_length e) (drop (en_offset e) bs)"

lemma laid_out_length: "laid_out P off es bs \<Longrightarrow> length bs = sum_list (map en_length es)"
proof (induction es arbitrary: off bs)
  case (Cons e es)
  then have "laid_out P (off + en_length e) es (drop (en_length e) bs)" "en_length e \<le> length bs" by auto
  from Cons.IH [OF this(1)] this(2) show ?case by simp
qed simp

lemma laid_out_offset:
  "laid_out P off es bs \<Longrightarrow> i < length es \<Longrightarrow> en_offset (es ! i) = off + sum_list (map en_length (take i es))"
proof (induction es arbitrary: off bs i)
  case (Cons e es)
  then show ?case by (cases i) auto
qed simp

lemma laid_out_slice_from:
  "laid_out P off es bs \<Longrightarrow> e \<in> set es \<Longrightarrow>
   off \<le> en_offset e \<and> (let raw = take (en_length e) (drop (en_offset e - off) bs) in
     length raw = en_length e \<and> en_sha e = sha_json raw \<and> P e raw)"
proof (induction es arbitrary: off bs)
  case (Cons e0 es)
  show ?case
  proof (cases "e \<in> set es")
    case True
    have "laid_out P (off + en_length e0) es (drop (en_length e0) bs)" using Cons.prems(1) by simp
    note later = Cons.IH [OF this True]
    have "off \<le> en_offset e" "en_offset e - (off + en_length e0) + en_length e0 = en_offset e - off"
      using conjunct1 [OF later] by linarith+
    then show ?thesis using conjunct2 [OF later] by (simp only: drop_drop)
  next
    case False
    then show ?thesis using Cons.prems by (auto simp: Let_def)
  qed
qed simp

lemma laid_out_slice:
  assumes "laid_out P 0 es bs" "e \<in> set es"
  shows "length (slice_of bs e) = en_length e" "en_sha e = sha_json (slice_of bs e)" "P e (slice_of bs e)"
  using laid_out_slice_from [OF assms] by (simp_all add: Let_def slice_of_def)

lemma laid_out_mono: "laid_out P off es bs \<Longrightarrow> (\<And>e raw. P e raw \<Longrightarrow> Q e raw) \<Longrightarrow> laid_out Q off es bs"
  by (induction es arbitrary: off bs) auto

text \<open>The bytes of an entry are those of the tensor its mapping resolves to.\<close>

definition holds_tensor :: "json \<Rightarrow> (string \<times> tensor) list \<Rightarrow> tensor_entry \<Rightarrow> bytes \<Rightarrow> bool" where
  "holds_tensor mapped index e raw \<longleftrightarrow>
     (\<exists>spec t. item (en_name e) mapped = Inr spec \<and> resolve spec index = Inr t \<and> map int (dims t) = en_shape e \<and>
        finite_cells (cells t) \<and> raw = cell_bytes (cells t) \<and> length raw \<le> MAX_TENSOR)"

lemma tensor_bytes_Inr:
  "tensor_bytes mapped index position name shape = Inr raw \<longleftrightarrow>
     (\<exists>spec t. item name mapped = Inr spec \<and> resolve spec index = Inr t \<and> map int (dims t) = shape \<and>
        finite_cells (cells t) \<and> raw = cell_bytes (cells t) \<and> length raw \<le> MAX_TENSOR \<and>
        position + length raw \<le> MAX_TOTAL)"
  by (auto simp: tensor_bytes_def res_iff Let_def not_less split: if_splits)

lemma write_tensors_run:
  assumes "write_tensors F tmp mapped index position lay w = (Inr (es, n), w')"
    and "w tmp = Some f" "map_of f ''model.bin'' = Some old" "position \<le> MAX_TOTAL"
  shows "\<exists>g model. w' tmp = Some g \<and> map_of g ''model.bin'' = Some (old @ model) \<and>
    map (\<lambda>e. (en_name e, en_shape e)) es = lay \<and> laid_out (holds_tensor mapped index) position es model \<and>
    n = position + length model \<and> n \<le> MAX_TOTAL"
  using assms
proof (induction lay arbitrary: position w f old es n)
  case Nil
  then show ?case by auto
next
  case (Cons entry lay)
  obtain name shape where entry: "entry = (name, shape)" by (cases entry)
  obtain raw w1 es1 where raw: "tensor_bytes mapped index position name shape = Inr raw"
    and app: "append_to F tmp ''model.bin'' raw w = (Inr (), w1)"
    and later: "write_tensors F tmp mapped index (position + length raw) lay w1 = (Inr (es1, n), w')"
    and es: "es = \<lparr>en_name = name, en_shape = shape, en_offset = position, en_length = length raw,
       en_sha = sha_json raw\<rparr> # es1"
    using Cons.prems(1) unfolding entry by (auto simp: res_iff)
  have w1: "w1 tmp = Some (AList.update ''model.bin'' (old @ raw) f)"
    using app Cons.prems(2,3) by (auto simp: append_to_def split: option.splits)
  have fits: "position + length raw \<le> MAX_TOTAL" using raw by (auto simp: tensor_bytes_Inr)
  from Cons.IH [OF later w1 _ fits, of "old @ raw"] obtain g model where g: "w' tmp = Some g"
      "map_of g ''model.bin'' = Some ((old @ raw) @ model)"
    and lay: "map (\<lambda>e. (en_name e, en_shape e)) es1 = lay"
    and laid: "laid_out (holds_tensor mapped index) (position + length raw) es1 model"
    and n: "n = position + length raw + length model" "n \<le> MAX_TOTAL"
    by (auto simp: update_conv')
  have "holds_tensor mapped index (hd es) raw"
    using raw by (auto simp: holds_tensor_def es tensor_bytes_Inr)
  then have "laid_out (holds_tensor mapped index) position es (raw @ model)"
    using laid by (simp add: es)
  then show ?case using g lay n by (intro exI [of _ g] exI [of _ "raw @ model"]) (simp add: entry es)
qed

lemma put_run: "put F d name x w = (Inr u, w') \<longleftrightarrow> (\<exists>f. w d = Some f \<and> F (WriteOf d name) w = None \<and> w' = w(d \<mapsto> AList.update name x f))"
  by (auto simp: put_def split: option.splits)

lemma fill_pack_run:
  assumes "fill_pack F shown tmp a c mapped expected index w = (Inr m, w')" "w tmp = Some []"
  shows "\<exists>f entries model. w' tmp = Some f \<and>
    m = pack_manifest a c entries (length model) \<and> length model \<le> MAX_TOTAL \<and>
    map (\<lambda>e. (en_name e, en_shape e)) entries = expected \<and> laid_out (holds_tensor mapped index) 0 entries model \<and>
    map_of f ''manifest.json'' = Some (written shown m) \<and> map_of f ''model.bin'' = Some model \<and>
    map_of f ''tokenizer.json'' = Some (ex_tokenizer a)"
proof -
  obtain es n w1 w2 where w1: "put F tmp ''model.bin'' [] w = (Inr (), w1)"
    and w2: "write_tensors F tmp mapped index 0 expected w1 = (Inr (es, n), w2)"
    and puts: "io_then (put F tmp ''manifest.json'' (written shown (pack_manifest a c es n)))
        (io_then (put F tmp ''tokenizer.json'' (ex_tokenizer a))
        (io_then (put F tmp ''export_mapping.json'' (ex_mapping a))
        (io_then (put F tmp ''export_config.json'' (ex_config a))
        (io_then (put F tmp ''EXPORT_NOTES.txt'' (ascii EXPORT_NOTES))
        (io_ret (pack_manifest a c es n)))))) w2 = (Inr m, w')"
    using assms(1) by (auto simp: fill_pack_def Let_def io_bind_Inr [of "write_tensors F tmp mapped index 0 expected"]
        io_then_Inr [of "put F tmp ''model.bin'' []"] simp del: io_then_Inr split: prod.splits)
  have "w1 tmp = Some [(''model.bin'', [])]" using w1 assms(2) by (auto simp: put_run)
  from write_tensors_run [OF w2 this] obtain g model where g: "w2 tmp = Some g"
      "map_of g ''model.bin'' = Some model" "map (\<lambda>e. (en_name e, en_shape e)) es = expected"
      "laid_out (holds_tensor mapped index) 0 es model" "n = length model" "n \<le> MAX_TOTAL" by auto
  from puts show ?thesis using g by (auto simp: io_then_Inr put_run update_conv')
qed

section \<open>The names of a pack\<close>

lemma prefixed_names [simp]: "map fst (prefixed p kvs) = map (\<lambda>k. p @ ''.'' @ k) (map fst kvs)"
  by (simp add: prefixed_def case_prod_beta)

definition embedding_keys :: "string list" where
  "embedding_keys = [''embeddings.weight'', ''embeddings.norm.weight'', ''final_norm.weight'']"

definition encoder_keys :: "bool \<Rightarrow> string list" where
  "encoder_keys normed = (if normed then [''attn_norm.weight''] else []) @
     [''qkv.weight'', ''out.weight'', ''mlp_norm.weight'', ''wi.weight'', ''wo.weight'']"

definition decision_keys :: "string list" where
  "decision_keys = [''qkv.weight'', ''qkv.bias'', ''out.weight'', ''out.bias'', ''norm1.weight'', ''norm1.bias'',
     ''norm2.weight'', ''norm2.bias'', ''linear1.weight'', ''linear1.bias'', ''linear2.weight'', ''linear2.bias'']"

definition scorer_keys :: "string list" where
  "scorer_keys = [''norm.weight'', ''norm.bias'', ''dense.weight'', ''dense.bias'', ''out.weight'', ''out.bias'']"

text \<open>All names of a pack with \<open>L\<close> encoder and \<open>D\<close> decision layers.\<close>

definition pack_names :: "bool \<Rightarrow> nat \<Rightarrow> nat \<Rightarrow> string list" where
  "pack_names normed L D =
     embedding_keys @
     concat (map (\<lambda>i. map (\<lambda>k. encoder_name i @ ''.'' @ k) (encoder_keys (i \<noteq> 0 \<or> normed))) [0..<L]) @
     [''qtype.weight''] @
     concat (map (\<lambda>i. map (\<lambda>k. decision_name i @ ''.'' @ k) decision_keys) [0..<D]) @
     map (\<lambda>k. ''scorer'' @ ''.'' @ k) scorer_keys"

lemma encoder_shapes_names:
  assumes "encoder_shapes c h i = Inr l"
  shows "\<exists>normed. (i = 0 \<longrightarrow> res_bind (item ''first_layer_attention_norm'' c) (\<lambda>j. Inr (truthy j)) = Inr normed) \<and>
     map fst l = map (\<lambda>k. encoder_name i @ ''.'' @ k) (encoder_keys (i \<noteq> 0 \<or> normed))"
proof -
  obtain normed m where n: "(if i \<noteq> 0 then Inr True else
        res_bind (item ''first_layer_attention_norm'' c) (\<lambda>j. Inr (truthy j))) = Inr normed"
    and l: "l = prefixed (encoder_name i) ((if normed then [(''attn_norm.weight'', [h])] else []) @
          [(''qkv.weight'', [3 * h, h]), (''out.weight'', [h, h]), (''mlp_norm.weight'', [h]),
           (''wi.weight'', [2 * m, h]), (''wo.weight'', [h, m])])"
    using assms unfolding encoder_shapes_def res_bind_Inr by blast
  have "map fst l = map (\<lambda>k. encoder_name i @ ''.'' @ k) (encoder_keys normed)"
    unfolding l prefixed_names by (simp add: encoder_keys_def)
  moreover have "i \<noteq> 0 \<Longrightarrow> normed" using n by simp
  ultimately show ?thesis using n by (intro exI [of _ normed]) (cases "i = 0"; simp)
qed

lemma decision_shapes_names:
  "decision_shapes c h i = Inr l \<Longrightarrow> map fst l = map (\<lambda>k. decision_name i @ ''.'' @ k) decision_keys"
  by (auto simp: decision_shapes_def res_iff decision_keys_def)

lemma map_concat_mapM:
  "mapM f xs = Inr ls \<Longrightarrow> (\<And>x l. x \<in> set xs \<Longrightarrow> f x = Inr l \<Longrightarrow> map fst l = g x) \<Longrightarrow>
   map fst (concat ls) = concat (map g xs)"
  by (induction xs arbitrary: ls) (auto simp: res_iff)

lemma scorer_names: "map fst (scorer_shapes h) = map (\<lambda>k. ''scorer'' @ ''.'' @ k) scorer_keys"
  by (simp add: scorer_shapes_def scorer_keys_def)

lemma mset_by_name: "mset (map fst (by_name kvs)) = mset (map fst kvs)"
  by (simp add: by_name_def)

lemma range_of_upt: "range_of key c = Inr xs \<Longrightarrow> \<exists>n. xs = [0..<n]"
  unfolding range_of_def res_bind_Inr by (elim exE conjE) (auto split: json.splits)

lemma shapes_names:
  assumes "shapes c = Inr lay"
  shows "\<exists>normed L D. range_of ''layers'' c = Inr [0..<L] \<and> range_of ''decision_layers'' c = Inr [0..<D] \<and>
    (0 < L \<longrightarrow> res_bind (item ''first_layer_attention_norm'' c) (\<lambda>j. Inr (truthy j)) = Inr normed) \<and>
    mset (map fst lay) = mset (pack_names normed L D)"
proof -
  obtain h v layers encoder heads decision where parts: "range_of ''layers'' c = Inr layers"
      "mapM (encoder_shapes c h) layers = Inr encoder" "range_of ''decision_layers'' c = Inr heads"
      "mapM (decision_shapes c h) heads = Inr decision"
    and lay: "lay = by_name ([(''embeddings.weight'', [v, h]), (''embeddings.norm.weight'', [h]), (''final_norm.weight'', [h])] @
          concat encoder @ [(''qtype.weight'', [3, h])] @ concat decision @ scorer_shapes h)"
    using assms unfolding shapes_def by (elim res_bind_Inr [THEN iffD1, elim_format] exE conjE) auto
  obtain L where L: "layers = [0..<L]" using range_of_upt [OF parts(1)] by blast
  obtain D where D: "heads = [0..<D]" using range_of_upt [OF parts(3)] by blast
  obtain normed where normed:
    "0 < L \<longrightarrow> res_bind (item ''first_layer_attention_norm'' c) (\<lambda>j. Inr (truthy j)) = Inr normed"
  proof (cases "0 < L")
    case True
    then obtain l where "encoder_shapes c h 0 = Inr l"
      using parts(2) L by (cases L) (auto simp: upt_conv_Cons res_iff simp del: upt_Suc)
    then show thesis using encoder_shapes_names [of c h 0] that by blast
  qed (use that in blast)
  have e: "map fst (concat encoder) =
      concat (map (\<lambda>i. map (\<lambda>k. encoder_name i @ ''.'' @ k) (encoder_keys (i \<noteq> 0 \<or> normed))) [0..<L])"
  proof (rule map_concat_mapM [OF parts(2) [unfolded L]])
    fix i l assume "i \<in> set [0..<L]" "encoder_shapes c h i = Inr l"
    then show "map fst l = map (\<lambda>k. encoder_name i @ ''.'' @ k) (encoder_keys (i \<noteq> 0 \<or> normed))"
      using encoder_shapes_names [of c h i l] normed by (cases "i = 0") auto
  qed
  have d: "map fst (concat decision) = concat (map (\<lambda>i. map (\<lambda>k. decision_name i @ ''.'' @ k) decision_keys) [0..<D])"
    by (rule map_concat_mapM [OF parts(4) [unfolded D]]) (rule decision_shapes_names)
  have "mset (map fst lay) = mset (pack_names normed L D)"
    unfolding lay mset_by_name pack_names_def embedding_keys_def by (simp add: e d scorer_names)
  then show ?thesis using parts L D normed by blast
qed

text \<open>No two tensors share a name.\<close>

lemma layer_name_inj:
  assumes "nat_str i @ ''.'' @ k = nat_str j @ ''.'' @ k'"
  shows "i = j \<and> k = k'"
proof -
  have t: "takeWhile is_digit (nat_str n @ ''.'' @ r) = nat_str n" for n r
  proof -
    have "\<forall>c\<in>set (nat_str n). is_digit c" using nat_str_digits [of n] by (simp add: list_all_iff)
    then show ?thesis by (simp add: is_digit_def)
  qed
  have "nat_str i = nat_str j" using t [of i k] t [of j k'] assms by simp
  then show ?thesis using assms nat_str_inj by auto
qed

lemma distinct_layers:
  assumes "\<And>i. distinct (keys i)"
  shows "distinct (concat (map (\<lambda>i. map (\<lambda>k. p @ nat_str i @ ''.'' @ k) (keys i)) [0..<n]))"
proof (induction n)
  case (Suc n)
  have "distinct (map (\<lambda>k. p @ nat_str n @ ''.'' @ k) (keys n))"
    using assms [of n] by (auto simp: distinct_map inj_on_def)
  moreover have "p @ nat_str n @ ''.'' @ k \<noteq> p @ nat_str i @ ''.'' @ k'" if "i < n" for i k k'
    using layer_name_inj [of n k i k'] that by auto
  ultimately show ?case using Suc by fastforce
qed simp

lemma distinct_pack_names: "distinct (pack_names normed L D)"
proof -
  have "distinct (encoder_keys b)" for b by (cases b) (simp_all add: encoder_keys_def)
  then have "distinct (concat (map (\<lambda>i. map (\<lambda>k. encoder_name i @ ''.'' @ k) (encoder_keys (i \<noteq> 0 \<or> normed))) [0..<L]))"
    using distinct_layers [of "\<lambda>i. encoder_keys (i \<noteq> 0 \<or> normed)" "''encoder.''" L] by (simp add: encoder_name_def)
  moreover have "distinct (concat (map (\<lambda>i. map (\<lambda>k. decision_name i @ ''.'' @ k) decision_keys) [0..<D]))"
    using distinct_layers [of "\<lambda>_. decision_keys" "''decision.''" D] by (simp add: decision_name_def decision_keys_def)
  ultimately show ?thesis
    unfolding pack_names_def by (auto simp: embedding_keys_def scorer_keys_def encoder_name_def decision_name_def)
qed

lemma shapes_distinct: "shapes c = Inr lay \<Longrightarrow> distinct (map fst lay)"
  using shapes_names [of c lay] distinct_pack_names mset_eq_imp_distinct_iff by blast

section \<open>What a valid configuration gives\<close>

lemma condition_iff [res_iff]:
  "raise_unless why b = Inr u \<longleftrightarrow> b = Inr True"
  "raise_if why b = Inr u \<longleftrightarrow> b = Inr False"
  "and_also a b = Inr True \<longleftrightarrow> a = Inr True \<and> b = Inr True"
  "or_else a b = Inr False \<longleftrightarrow> a = Inr False \<and> b = Inr False"
  "on_int key c holds = Inr x \<longleftrightarrow> (\<exists>n. int_item key c = Inr n \<and> x = holds n)"
  by (auto simp: raise_unless_def raise_if_def and_also_def or_else_def on_int_def res_iff split: if_splits)

lemma dimension_int:
  assumes "dimension key c = Inr n"
  shows "int_item key c = Inr n"
proof -
  obtain j where "item key c = Inr j"
    "(case j of JInt n \<Rightarrow> Inr n | JBool b \<Rightarrow> Inr (of_bool b) | _ \<Rightarrow> Inl OutsideModel) = Inr n"
    using assms unfolding dimension_def res_bind_Inr by blast
  then show ?thesis by (cases j) (simp_all add: int_item_def as_int_def)
qed

lemma valid_dimensions:
  assumes "validate_config c = Inr ()"
  shows "\<exists>h. int_item ''hidden_size'' c = Inr h \<and> 0 < h" "\<exists>v. int_item ''vocab_size'' c = Inr v \<and> 0 < v"
    "\<exists>m. int_item ''intermediate_size'' c = Inr m \<and> 0 < m" "\<exists>f. int_item ''decision_ff'' c = Inr f \<and> 0 < f"
proof -
  have "\<exists>h. int_item ''hidden_size'' c = Inr h \<and> Inr (0 < h \<and> h \<le> 2048) = (Inr True :: bool res) \<and>
      on_int ''vocab_size'' c (\<lambda>v. 5 \<le> v \<and> v \<le> 300000) = Inr True \<and>
      on_int ''intermediate_size'' c (\<lambda>n. 1 \<le> n \<and> n \<le> 16384) = Inr True \<and>
      on_int ''decision_ff'' c (\<lambda>n. 1 \<le> n \<and> n \<le> 16384) = Inr True"
    using assms unfolding validate_config_def res_bind_Inr condition_iff(1-4) check_each.simps by blast
  then show "\<exists>h. int_item ''hidden_size'' c = Inr h \<and> 0 < h" "\<exists>v. int_item ''vocab_size'' c = Inr v \<and> 0 < v"
    "\<exists>m. int_item ''intermediate_size'' c = Inr m \<and> 0 < m" "\<exists>f. int_item ''decision_ff'' c = Inr f \<and> 0 < f"
    by (auto simp: condition_iff(5))
qed

definition good_shape :: "int list \<Rightarrow> bool" where
  "good_shape s \<longleftrightarrow> (length s = 1 \<or> length s = 2) \<and> (\<forall>d\<in>set s. 0 < d)"

lemma good_prefixed: "(\<forall>(n, s)\<in>set (prefixed p kvs). P s) \<longleftrightarrow> (\<forall>(n, s)\<in>set kvs. P s)"
  by (auto simp: prefixed_def)

lemma mapM_all:
  "mapM f xs = Inr ls \<Longrightarrow> (\<And>x l. x \<in> set xs \<Longrightarrow> f x = Inr l \<Longrightarrow> \<forall>y\<in>set l. P y) \<Longrightarrow> \<forall>y\<in>set (concat ls). P y"
proof (induction xs arbitrary: ls)
  case (Cons x xs)
  obtain l ls' where l: "f x = Inr l" "mapM f xs = Inr ls'" "ls = l # ls'" using Cons.prems(1) by (auto simp: res_iff)
  have "\<forall>y\<in>set (concat ls'). P y" using Cons.IH [OF l(2)] Cons.prems(2) by (meson list.set_intros(2))
  then show ?case using Cons.prems(2) [OF _ l(1)] l(3) by auto
qed simp

lemma shapes_good:
  assumes "shapes c = Inr lay" "validate_config c = Inr ()"
  shows "\<forall>(n, s)\<in>set lay. good_shape s"
proof -
  obtain h v layers encoder heads decision where hv: "dimension ''hidden_size'' c = Inr h" "dimension ''vocab_size'' c = Inr v"
    and parts: "mapM (encoder_shapes c h) layers = Inr encoder" "mapM (decision_shapes c h) heads = Inr decision"
    and lay: "lay = by_name ([(''embeddings.weight'', [v, h]), (''embeddings.norm.weight'', [h]), (''final_norm.weight'', [h])] @
          concat encoder @ [(''qtype.weight'', [3, h])] @ concat decision @ scorer_shapes h)"
    using assms(1) unfolding shapes_def res_bind_Inr by blast
  have pos: "0 < h" "0 < v" using valid_dimensions [OF assms(2)] hv [THEN dimension_int] by auto
  have "\<forall>(n, s)\<in>set (concat encoder). good_shape s"
  proof (rule mapM_all [OF parts(1)])
    fix i l assume "encoder_shapes c h i = Inr l"
    then obtain normed m where m: "dimension ''intermediate_size'' c = Inr m"
      and l: "l = prefixed (encoder_name i) ((if normed then [(''attn_norm.weight'', [h])] else []) @
          [(''qkv.weight'', [3 * h, h]), (''out.weight'', [h, h]), (''mlp_norm.weight'', [h]),
           (''wi.weight'', [2 * m, h]), (''wo.weight'', [h, m])])"
      unfolding encoder_shapes_def res_bind_Inr by blast
    have "0 < m" using valid_dimensions(3) [OF assms(2)] dimension_int [OF m] by auto
    then show "\<forall>(n, s)\<in>set l. good_shape s" unfolding l good_prefixed using pos by (simp add: good_shape_def)
  qed
  moreover have "\<forall>(n, s)\<in>set (concat decision). good_shape s"
  proof (rule mapM_all [OF parts(2)])
    fix i l assume "decision_shapes c h i = Inr l"
    then obtain ff where f: "dimension ''decision_ff'' c = Inr ff"
      and l: "l = prefixed (decision_name i)
         [(''qkv.weight'', [3 * h, h]), (''qkv.bias'', [3 * h]), (''out.weight'', [h, h]), (''out.bias'', [h]),
          (''norm1.weight'', [h]), (''norm1.bias'', [h]), (''norm2.weight'', [h]), (''norm2.bias'', [h]),
          (''linear1.weight'', [ff, h]), (''linear1.bias'', [ff]), (''linear2.weight'', [h, ff]), (''linear2.bias'', [h])]"
      unfolding decision_shapes_def res_bind_Inr by blast
    have "0 < ff" using valid_dimensions(4) [OF assms(2)] dimension_int [OF f] by auto
    then show "\<forall>(n, s)\<in>set l. good_shape s" unfolding l good_prefixed using pos by (simp add: good_shape_def)
  qed
  moreover have "\<forall>(n, s)\<in>set (scorer_shapes h). good_shape s"
    unfolding scorer_shapes_def good_prefixed using pos by (simp add: good_shape_def)
  moreover have "set lay = set ([(''embeddings.weight'', [v, h]), (''embeddings.norm.weight'', [h]), (''final_norm.weight'', [h])] @
          concat encoder @ [(''qtype.weight'', [3, h])] @ concat decision @ scorer_shapes h)"
    unfolding lay by_name_def set_sort ..
  ultimately show ?thesis using pos by (simp add: good_shape_def ball_Un)
qed

section \<open>Arrays\<close>

definition checkpoint_arrays :: "checkpoint \<Rightarrow> bool" where
  "checkpoint_arrays files \<longleftrightarrow> (\<forall>(path, kts)\<in>set files. \<forall>(k, t)\<in>set kts. array t)"

lemma array_transposed: "transposed t = Inr u \<Longrightarrow> array u"
  by (auto simp: transposed_def array_def length_concat o_def sum_list_triv split: list.splits)

lemma array_concatenated:
  assumes "concatenated ts = Inr u" "\<forall>t\<in>set ts. array t"
  shows "array u"
proof -
  obtain t ts' where ts: "ts = t # ts'" using assms(1) by (cases ts) (simp_all add: concatenated_def)
  have same: "\<forall>x\<in>set ts. dims x \<noteq> [] \<and> tl (dims x) = tl (dims t)" and u: "u = \<lparr>dims = sum_list (map (hd \<circ> dims) ts) # tl (dims t), cells = concat (map cells ts)\<rparr>"
    using assms(1) unfolding concatenated_def ts by (auto simp: list_ex_iff split: if_splits)
  have "length (concat (map cells xs)) = sum_list (map (hd \<circ> dims) xs) * prod_list (tl (dims t))"
    if "\<forall>x\<in>set xs. array x \<and> dims x \<noteq> [] \<and> tl (dims x) = tl (dims t)" for xs
    using that
  proof (induction xs)
    case (Cons x xs)
    then have "length (cells x) = hd (dims x) * prod_list (tl (dims t))"
      by (metis array_def list.exhaust_sel list.set_intros(1) prod_list.Cons)
    then show ?case using Cons by (simp add: distrib_right)
  qed simp
  then show ?thesis using same assms(2) by (simp add: array_def u)
qed

lemma index_keys_set: "index_keys index kts = Inr index' \<Longrightarrow> set index' = set index \<union> set kts"
  by (induction index kts rule: index_keys.induct) (auto split: if_splits)

lemma read_tensor_array: "read_tensor index j = Inr t \<Longrightarrow> \<forall>(k, t)\<in>set index. array t \<Longrightarrow> array t"
  by (auto simp: read_tensor_def res_iff split: json.splits dest: map_of_SomeD)

lemma resolve_object:
  assumes "resolve (JObj kvs) index = Inr t"
  shows "(\<exists>j. res_bind (read_tensor index j) transposed = Inr t) \<or>
    (\<exists>names. res_bind (mapM (read_tensor index) names) concatenated = Inr t)"
proof -
  from assms consider
      (flip) "res_bind (item ''source'' (JObj kvs)) (\<lambda>j. res_bind (read_tensor index j) transposed) = Inr t"
    | (join) "res_bind (item ''concat'' (JObj kvs)) (\<lambda>j. res_bind (py_iter j) (\<lambda>names.
          res_bind (mapM (read_tensor index) names) concatenated)) = Inr t"
    unfolding resolve_def json.case by (cases "is_transpose kvs"; cases "is_concat kvs") (simp_all split: if_split_asm)
  then show ?thesis by cases (auto simp: res_bind_Inr)
qed

lemma resolve_array:
  assumes "resolve spec index = Inr t" "\<forall>(k, t)\<in>set index. array t"
  shows "array t"
proof (cases spec)
  case (JStr s)
  then show ?thesis using assms read_tensor_array by (simp add: resolve_def)
next
  case (JObj kvs)
  then consider j where "res_bind (read_tensor index j) transposed = Inr t"
    | names where "res_bind (mapM (read_tensor index) names) concatenated = Inr t"
    using resolve_object assms(1) by blast
  then show ?thesis
  proof cases
    case 1
    then show ?thesis using array_transposed by (auto simp: res_iff)
  next
    case (2 names)
    then obtain ts where ts: "mapM (read_tensor index) names = Inr ts" "concatenated ts = Inr t" by (auto simp: res_iff)
    then have "\<forall>t\<in>set ts. array t"
      using read_tensor_array assms(2) by (fastforce simp: mapM_Inr_iff list_all2_conv_all_nth in_set_conv_nth)
    then show ?thesis using ts(2) array_concatenated by blast
  qed
qed (use assms in \<open>auto simp: resolve_def split: if_splits\<close>)

section \<open>What the exporter guarantees\<close>

text \<open>The bytes of an entry fill its shape with finite numbers.\<close>

definition whole_tensor :: "tensor_entry \<Rightarrow> bytes \<Rightarrow> bool" where
  "whole_tensor e raw \<longleftrightarrow> good_shape (en_shape e) \<and> length raw = 4 * nat (prod_list (en_shape e)) \<and>
     length raw \<le> MAX_TENSOR \<and> finite_cells (byte_cells raw)"

text \<open>
  A directory that is a canonical pack: its manifest describes, in the order of their names, exactly the
  tensors its configuration asks for, they lie in the model file as it says, and the tokenizer is the one
  whose hash it has.
\<close>

definition canonical_pack ::
  "folder \<Rightarrow> (string \<times> json) list \<Rightarrow> json \<Rightarrow> tensor_entry list \<Rightarrow> bytes \<Rightarrow> bytes \<Rightarrow> bool" where
  "canonical_pack f kvs c entries model tokenizer \<longleftrightarrow>
     (\<exists>raw. map_of f ''manifest.json'' = Some raw \<and> json_loads_bytes raw = Inr (JObj kvs)) \<and> map_of f ''model.bin'' = Some model \<and>
     map_of f ''tokenizer.json'' = Some tokenizer \<and>
     map_of kvs ''format'' = Some (JStr PACK_FORMAT) \<and> map_of kvs ''config'' = Some c \<and>
     map_of kvs ''tensors'' = Some (JList (map entry_json entries)) \<and>
     map_of kvs ''total_bytes'' = Some (JInt (int (length model))) \<and>
     map_of kvs ''tokenizer_sha256'' = Some (sha_json tokenizer) \<and>
     validate_config c = Inr () \<and> shapes c = Inr (map (\<lambda>e. (en_name e, en_shape e)) entries) \<and>
     laid_out whole_tensor 0 entries model \<and> length model \<le> MAX_TOTAL"

lemma export_inputs_Inr:
  assumes "export_inputs a = Inr (c, mapped, expected, index)"
  shows "validate_config c = Inr ()" "shapes c = Inr expected" "source_reader (ex_source a) = Inr index"
    "json_loads_bytes (ex_config a) = Inr c" "json_loads_bytes (ex_mapping a) = Inr mapped"
proof -
  have "validate_config c = Inr () \<and> shapes c = Inr expected \<and> source_reader (ex_source a) = Inr index \<and>
    json_loads_bytes (ex_config a) = Inr c \<and> json_loads_bytes (ex_mapping a) = Inr mapped"
    using assms unfolding export_inputs_def res_bind_Inr by (elim exE conjE) simp
  then show "validate_config c = Inr ()" "shapes c = Inr expected" "source_reader (ex_source a) = Inr index"
    "json_loads_bytes (ex_config a) = Inr c" "json_loads_bytes (ex_mapping a) = Inr mapped" by auto
qed

lemma index_arrays:
  assumes "source_reader files = Inr index" "checkpoint_arrays files"
  shows "\<forall>(k, t)\<in>set index. array t"
proof -
  have "index_keys [] (concat (map snd files)) = Inr index"
    using assms(1) by (simp add: source_reader_def split: if_splits)
  then have "set index = set (concat (map snd files))" by (simp add: index_keys_set)
  then show ?thesis using assms(2) by (fastforce simp: checkpoint_arrays_def)
qed

lemma prod_list_int: "prod_list (map int ns) = int (prod_list ns)"
  by (induction ns) simp_all

lemma holds_whole:
  assumes "holds_tensor mapped index e raw" "\<forall>(k, t)\<in>set index. array t" "good_shape (en_shape e)"
  shows "whole_tensor e raw"
proof -
  obtain spec t where t: "resolve spec index = Inr t" "map int (dims t) = en_shape e" "finite_cells (cells t)"
      "raw = cell_bytes (cells t)" "length raw \<le> MAX_TENSOR"
    using assms(1) by (auto simp: holds_tensor_def)
  have "length (cells t) = prod_list (dims t)" using resolve_array [OF t(1) assms(2)] by (simp add: array_def)
  then have "length (cells t) = nat (prod_list (en_shape e))" using t(2) prod_list_int [of "dims t"] by simp
  then show ?thesis using t assms(3) by (simp add: whole_tensor_def)
qed

lemma laid_out_strengthen:
  "laid_out P off es bs \<Longrightarrow> (\<And>e raw. e \<in> set es \<Longrightarrow> P e raw \<Longrightarrow> Q e raw) \<Longrightarrow> laid_out Q off es bs"
  by (induction es arbitrary: off bs) auto

text \<open>The numbers of the configuration read back as they are printed.\<close>

definition config_reads_back :: "(rat \<Rightarrow> string) \<Rightarrow> export_args \<Rightarrow> bool" where
  "config_reads_back shown a \<longleftrightarrow> (\<forall>c. json_loads_bytes (ex_config a) = Inr c \<longrightarrow> dumpable shown c)"

lemma dumpable_sha: "dumpable shown (sha_json raw)"
  by (simp add: sha_json_def list_all_iff)

lemma dumpable_entries: "laid_out P off es bs \<Longrightarrow> list_all (dumpable shown) (map entry_json es)"
  by (induction es arbitrary: off bs) (auto simp: entry_json_def dumpable_sha list_all_iff)

lemma manifest_reads_back:
  assumes "dumpable shown c" "laid_out P 0 entries model"
  shows "json_loads_bytes (written shown (pack_manifest a c entries n)) = Inr (pack_manifest a c entries n)"
proof -
  have "list_all (dumpable shown) (map JInt ns)" for ns by (simp add: list_all_iff)
  then have "dumpable shown (pack_manifest a c entries n)"
    using assms(1) dumpable_entries [OF assms(2)] by (simp add: pack_manifest_def dumpable_sha)
  then show ?thesis unfolding written_def by (rule json_loads_written)
qed

lemma export_outcome:
  assumes run: "export F shown tmp a w = (r, w')" and fresh: "w tmp = None" "beside tmp (ex_out a)"
  shows "(\<exists>e. r = Inl e) \<and> (\<exists>n. left_behind F tmp (with_dirs (take n (ancestors (ex_out a))) w) w') \<and>
      (w (ex_out a) \<noteq> None \<or> \<not> is_ok (export_inputs a) \<longrightarrow> w' = w) \<or>
    (\<exists>c mapped expected index f entries model. r = Inr (pack_manifest a c entries (length model)) \<and>
      w (ex_out a) = None \<and> w' = (with_dirs (ancestors (ex_out a)) w)(ex_out a \<mapsto> f) \<and>
      export_inputs a = Inr (c, mapped, expected, index) \<and>
      length model \<le> MAX_TOTAL \<and> map (\<lambda>e. (en_name e, en_shape e)) entries = expected \<and>
      laid_out (holds_tensor mapped index) 0 entries model \<and>
      map_of f ''manifest.json'' = Some (written shown (pack_manifest a c entries (length model))) \<and>
      map_of f ''model.bin'' = Some model \<and> map_of f ''tokenizer.json'' = Some (ex_tokenizer a))"
proof (cases "w (ex_out a) = None \<and> is_ok (export_inputs a)")
  case False
  then have "(\<exists>e. r = Inl e) \<and> w' = w" using run
    by (cases "export_inputs a"; cases "w (ex_out a)") (auto simp: export_def dir_exists_def io_bind_def io_then_def)
  then show ?thesis by (intro disjI1) (auto simp: left_behind_def intro!: exI [of _ 0])
next
  case True
  then obtain c mapped expected index where i: "export_inputs a = Inr (c, mapped, expected, index)"
    by (auto simp: is_ok_iff)
  let ?ds = "ancestors (ex_out a)" and ?fill = "fill_pack F shown tmp a c mapped expected index"
  obtain q v where q: "make_parents F (ex_out a) w = (q, v)" by (cases "make_parents F (ex_out a) w")
  from make_parents_outcome [OF this] obtain n where
    n: "v = with_dirs (take n ?ds) w" "q = Inr () \<longrightarrow> v = with_dirs ?ds w" by blast
  have out: "v (ex_out a) = None" using True by (simp add: n(1) out_kept)
  show ?thesis
  proof (cases q)
    case (Inl e)
    then have "r = Inl e \<and> w' = v" using run True i q by (simp add: export_def dir_exists_def io_bind_def io_then_def)
    then show ?thesis using True n(1) by (auto simp: left_behind_def)
  next
    case (Inr u)
    then have st: "staged F True tmp (ex_out a) ?fill v = (r, w')" and v: "v = with_dirs ?ds w"
      using run True i q n(2) by (simp_all add: export_def dir_exists_def io_bind_def io_then_def)
    have tmp: "v tmp = None" "tmp \<noteq> ex_out a" using fresh by (simp_all add: v beside_fresh_all beside_def)
    from staged_outcome [OF st fill_pack_local tmp(1) out tmp(2)] show ?thesis
    proof (elim disjE exE conjE)
      fix m w1 f assume m: "r = Inr m" "?fill (v(tmp \<mapsto> [])) = (Inr m, w1)" "w1 tmp = Some f" "w' = v(ex_out a \<mapsto> f)"
      from fill_pack_run [OF m(2)] m i True show ?thesis by (auto simp: v)
    next
      fix e assume "left_behind F tmp v w'" "r = Inl e"
      then show ?thesis using True i n(1) by (intro disjI1 conjI exI [of _ e] exI [of _ n]) simp_all
    qed
  qed
qed

lemma export_packs:
  assumes "export_inputs a = Inr (c, mapped, expected, index)" "checkpoint_arrays (ex_source a)" "length model \<le> MAX_TOTAL"
    and "map (\<lambda>e. (en_name e, en_shape e)) entries = expected" "laid_out (holds_tensor mapped index) 0 entries model"
    and m: "pack_manifest a c entries (length model) = JObj kvs" and shown: "config_reads_back shown a"
    and f: "map_of f ''manifest.json'' = Some (written shown (JObj kvs))"
      "map_of f ''model.bin'' = Some model" "map_of f ''tokenizer.json'' = Some (ex_tokenizer a)"
  shows "canonical_pack f kvs c entries model (ex_tokenizer a)"
proof -
  note i = export_inputs_Inr [OF assms(1)]
  have "good_shape (en_shape e)" if "e \<in> set entries" for e
    using shapes_good [OF i(2,1)] assms(4) that by force
  then have "laid_out whole_tensor 0 entries model"
    using laid_out_strengthen [OF assms(5)] holds_whole index_arrays [OF i(3) assms(2)] by blast
  moreover have "dumpable shown c" using shown i(4) by (simp add: config_reads_back_def)
  then have "json_loads_bytes (written shown (JObj kvs)) = Inr (JObj kvs)"
    using manifest_reads_back [OF _ assms(5)] unfolding m [symmetric] by blast
  ultimately show ?thesis using assms i by (auto simp: canonical_pack_def pack_manifest_def)
qed

text \<open>
  C3: an export is all or nothing, whatever the system refuses.  When it raises, on a bad configuration, a
  missing or misshapen tensor, a pack beyond the limits or a refused operation, the output is as it was; all
  that can have changed is that some directories above it were made, empty, and that the temporary directory
  is still there if its removal was refused; and nothing at all has changed when the output existed or the
  inputs were refused.  When it returns, the output is a new directory with a canonical pack behind the
  manifest it returns, and apart from the directories above it nothing else has changed.
\<close>

theorem export_all_or_nothing:
  assumes "export F shown tmp a w = (r, w')" "w tmp = None" "beside tmp (ex_out a)"
    and "checkpoint_arrays (ex_source a)" "config_reads_back shown a"
  shows "(\<exists>e n. r = Inl e \<and> w' (ex_out a) = w (ex_out a) \<and>
      left_behind F tmp (with_dirs (take n (ancestors (ex_out a))) w) w' \<and>
      (w (ex_out a) \<noteq> None \<or> \<not> is_ok (export_inputs a) \<longrightarrow> w' = w)) \<or>
    (\<exists>kvs f c entries model. r = Inr (JObj kvs) \<and> w (ex_out a) = None \<and>
      w' = (with_dirs (ancestors (ex_out a)) w)(ex_out a \<mapsto> f) \<and>
      canonical_pack f kvs c entries model (ex_tokenizer a))"
proof -
  from export_outcome [OF assms(1-3)] show ?thesis
  proof (elim disjE exE conjE)
    fix e n assume e: "r = Inl e" "left_behind F tmp (with_dirs (take n (ancestors (ex_out a))) w) w'"
      "w (ex_out a) \<noteq> None \<or> \<not> is_ok (export_inputs a) \<longrightarrow> w' = w"
    have "w' (ex_out a) = w (ex_out a)"
      using e(2) assms(3) by (auto simp: left_behind_def out_kept beside_def)
    then show ?thesis using e by blast
  next
    fix c mapped expected index f model and entries :: "tensor_entry list"
    assume e: "r = Inr (pack_manifest a c entries (length model))" "w (ex_out a) = None"
      "w' = (with_dirs (ancestors (ex_out a)) w)(ex_out a \<mapsto> f)" "export_inputs a = Inr (c, mapped, expected, index)"
      "length model \<le> MAX_TOTAL" "map (\<lambda>e. (en_name e, en_shape e)) entries = expected"
      "laid_out (holds_tensor mapped index) 0 entries model"
      "map_of f ''manifest.json'' = Some (written shown (pack_manifest a c entries (length model)))"
      "map_of f ''model.bin'' = Some model" "map_of f ''tokenizer.json'' = Some (ex_tokenizer a)"
    obtain kvs where kvs: "pack_manifest a c entries (length model) = JObj kvs" by (simp add: pack_manifest_def)
    have "canonical_pack f kvs c entries model (ex_tokenizer a)"
      using e(8-10) kvs by (intro export_packs [OF e(4) assms(4) e(5-7) kvs assms(5)]) simp_all
    then show ?thesis using e(1-3) kvs by auto
  qed
qed

text \<open>
  C17: an exported pack holds its checkpoint.  The entries of the manifest are the canonical names in their
  order; each offset is the sum of the lengths before it and all lengths together are the model file; and
  the numbers read back from the bytes an entry points at, whose hash it has, are those of the tensor the
  mapping resolves its name to.
\<close>

theorem export_holds_checkpoint:
  assumes "export F shown tmp a w = (Inr m, w')" "w tmp = None" "beside tmp (ex_out a)"
  shows "\<exists>c mapped expected index f entries model.
    export_inputs a = Inr (c, mapped, expected, index) \<and> w' (ex_out a) = Some f \<and>
    map_of f ''model.bin'' = Some model \<and> m = pack_manifest a c entries (length model) \<and>
    map (\<lambda>e. (en_name e, en_shape e)) entries = expected \<and>
    map en_offset entries = map (\<lambda>i. sum_list (map en_length (take i entries))) [0..<length entries] \<and>
    length model = sum_list (map en_length entries) \<and>
    list_all (\<lambda>e. \<exists>spec t. item (en_name e) mapped = Inr spec \<and> resolve spec index = Inr t \<and>
      map int (dims t) = en_shape e \<and> byte_cells (slice_of model e) = cells t \<and>
      en_sha e = sha_json (slice_of model e) \<and> length (slice_of model e) = en_length e) entries"
proof -
  from export_outcome [OF assms] obtain c mapped expected index f entries model where
      e: "m = pack_manifest a c entries (length model)" "w' (ex_out a) = Some f"
      "export_inputs a = Inr (c, mapped, expected, index)" "map (\<lambda>e. (en_name e, en_shape e)) entries = expected"
      "map_of f ''model.bin'' = Some model"
    and laid: "laid_out (holds_tensor mapped index) 0 entries model" by auto
  have "map en_offset entries = map (\<lambda>i. sum_list (map en_length (take i entries))) [0..<length entries]"
    using laid_out_offset [OF laid] by (intro nth_equalityI) simp_all
  moreover have "\<exists>spec t. item (en_name e) mapped = Inr spec \<and> resolve spec index = Inr t \<and>
      map int (dims t) = en_shape e \<and> byte_cells (slice_of model e) = cells t \<and>
      en_sha e = sha_json (slice_of model e) \<and> length (slice_of model e) = en_length e" if "e \<in> set entries" for e
    using laid_out_slice [OF laid that] by (auto simp: holds_tensor_def)
  ultimately show ?thesis using e laid_out_length [OF laid]
    by (intro exI [of _ c] exI [of _ mapped] exI [of _ expected] exI [of _ index] exI [of _ f] exI [of _ entries]
        exI [of _ model]) (simp add: list_all_iff)
qed

section \<open>When an export succeeds\<close>

definition fits :: "string \<times> int list \<Rightarrow> tensor \<Rightarrow> bool" where
  "fits entry t \<longleftrightarrow> map int (dims t) = snd entry \<and> finite_cells (cells t)"

definition resolved :: "json \<Rightarrow> (string \<times> tensor) list \<Rightarrow> layout \<Rightarrow> tensor list res" where
  "resolved mapped index lay = mapM (\<lambda>(name, _). res_bind (item name mapped) (\<lambda>spec. resolve spec index)) lay"

lemma write_tensors_succeeds:
  assumes "resolved mapped index lay = Inr ts" "list_all2 fits lay ts"
    and "list_all (\<lambda>t. 4 * length (cells t) \<le> MAX_TENSOR) ts"
    and "position + 4 * sum_list (map (\<lambda>t. length (cells t)) ts) \<le> MAX_TOTAL"
    and "w tmp = Some f" "map_of f ''model.bin'' = Some old"
  shows "\<exists>es n w'. write_tensors no_faults tmp mapped index position lay w = (Inr (es, n), w')"
  using assms
proof (induction lay arbitrary: ts position w f old)
  case (Cons entry lay)
  obtain name shape where entry: "entry = (name, shape)" by (cases entry)
  obtain spec t ts' where t: "item name mapped = Inr spec" "resolve spec index = Inr t"
      "resolved mapped index lay = Inr ts'" "ts = t # ts'"
    using Cons.prems(1) by (auto simp: resolved_def entry res_iff)
  have ok: "map int (dims t) = shape" "finite_cells (cells t)" "list_all2 fits lay ts'"
    using Cons.prems(2) fits_def [of entry t] by (simp_all add: t(4) entry)
  let ?raw = "cell_bytes (cells t)"
  have raw: "tensor_bytes mapped index position name shape = Inr ?raw"
    using t ok Cons.prems(3,4) by (auto simp: tensor_bytes_Inr)
  let ?f = "AList.update ''model.bin'' ((old @ ?raw)) f"
  have app: "append_to no_faults tmp ''model.bin'' ?raw w = (Inr (), w(tmp \<mapsto> ?f))"
    using Cons.prems(5,6) by (simp add: append_to_def no_faults_def)
  have "\<exists>es n w'. write_tensors no_faults tmp mapped index (position + length ?raw) lay (w(tmp \<mapsto> ?f)) = (Inr (es, n), w')"
    using Cons.prems(3,4) by (intro Cons.IH [OF t(3) ok(3), of _ _ ?f "old @ ?raw"]) (simp_all add: t(4) update_conv')
  then show ?case using raw app by (auto simp: entry io_bind_def io_then_def)
qed (simp add: resolved_def)

lemma export_succeeds:
  assumes "export_inputs a = Inr (c, mapped, expected, index)" "resolved mapped index expected = Inr ts"
    "list_all2 fits expected ts" "list_all (\<lambda>t. 4 * length (cells t) \<le> MAX_TENSOR) ts"
    and size: "4 * sum_list (map (\<lambda>t. length (cells t)) ts) \<le> MAX_TOTAL"
    and w: "w (ex_out a) = None" "w tmp = None" "beside tmp (ex_out a)"
  shows "\<exists>m w'. export no_faults shown tmp a w = (Inr m, w')"
proof -
  let ?v = "with_dirs (ancestors (ex_out a)) w"
  let ?w = "?v(tmp \<mapsto> [(''model.bin'', [])])"
  obtain es n w1 where run: "write_tensors no_faults tmp mapped index 0 expected ?w = (Inr (es, n), w1)"
    using write_tensors_succeeds [OF assms(2,3,4), of 0 ?w tmp "[(''model.bin'', [])]" "[]"] size by auto
  have kept: "w1 tmp \<noteq> None" "d \<noteq> tmp \<Longrightarrow> w1 d = ?v d" for d
    using local_toD [OF write_tensors_local run] by auto
  then obtain g where g: "w1 tmp = Some g" by blast
  let ?m = "pack_manifest a c es n"
  let ?g = "AList.update ''EXPORT_NOTES.txt'' (ascii EXPORT_NOTES) (AList.update ''export_config.json'' (ex_config a)
     (AList.update ''export_mapping.json'' (ex_mapping a) (AList.update ''tokenizer.json'' (ex_tokenizer a)
     (AList.update ''manifest.json'' (written shown ?m) g))))"
  have "fill_pack no_faults shown tmp a c mapped expected index (?v(tmp \<mapsto> [])) = (Inr ?m, w1(tmp \<mapsto> ?g))"
    using run g by (simp add: fill_pack_def io_bind_def io_then_def put_def no_faults_def Let_def)
  then have "staged no_faults True tmp (ex_out a) (fill_pack no_faults shown tmp a c mapped expected index) ?v =
      (Inr ?m, ?v(ex_out a \<mapsto> ?g))"
  proof (rule staged_succeeds)
    show "d \<noteq> tmp \<Longrightarrow> (w1(tmp \<mapsto> ?g)) d = ?v d" for d using kept(2) by simp
    show "?v tmp = None" "?v (ex_out a) = None" using w by (simp_all add: beside_fresh_all)
    show "tmp \<noteq> ex_out a" "parent_there tmp ?v" using w(3) beside_parent by (auto simp: beside_def)
  qed simp
  then show ?thesis using assms(1) w make_parents_succeeds
    by (simp add: export_def dir_exists_def io_bind_def io_then_def)
qed

text \<open>An array of zeros, with which the theorems on packs are applied.\<close>

definition zeros :: "nat list \<Rightarrow> tensor" where
  "zeros ds = \<lparr>dims = ds, cells = replicate (prod_list ds) 0\<rparr>"

lemma zero_value: "f32_value 0 = Fin 0"
  using f32_fields [of 0 0 False] by simp

lemma zeros_storable: "array (zeros ds)" "finite_cells (cells (zeros ds))" "length (cells (zeros ds)) = prod_list ds"
  "dims (zeros ds) = ds"
  by (simp_all add: array_def zeros_def finite_cells_def list_all_iff zero_value)

end
