(* ===== verification/Int8_Pack.thy ===== *)
theory Int8_Pack
  imports Model_Pack
begin

text \<open>
  \<open>tools/quantize_pack.py\<close>: a canonical pack converted to one of signed bytes with a scale for each row.
  Every matrix becomes its rows of bytes followed by one \<open>float32\<close> scale a row, every vector stays as it
  is.  The conversion re-checks the whole source pack on the way.
\<close>

section \<open>One tensor\<close>

definition INT8_FORMAT :: string where
  "INT8_FORMAT = ''ic-laya-int8-pack-v1''"

text \<open>The value of a finite number.\<close>

definition fin_value :: "cell \<Rightarrow> rat" where
  "fin_value w = (case f32_value w of Fin q \<Rightarrow> q | _ \<Rightarrow> 0)"

definition rows_of :: "nat \<Rightarrow> nat \<Rightarrow> 'a list \<Rightarrow> 'a list list" where
  "rows_of r c xs = map (\<lambda>i. take c (drop (i * c) xs)) [0..<r]"

text \<open>\<open>quantized.tobytes()\<close> and \<open>scales.tobytes()\<close> of a matrix; \<open>np.max\<close> refuses an empty row.\<close>

definition quantize_matrix :: "nat \<Rightarrow> nat \<Rightarrow> cell list \<Rightarrow> bytes res" where
  "quantize_matrix r c cs =
     (if c = 0 then Inl (ValueError ''zero-size array to reduction operation maximum'')
      else let rows = rows_of r c (map fin_value cs) in
        Inr (concat (map (\<lambda>vs. map (\<lambda>v. word_of_int (narrow round_by_sum (row_scale vs) v)) vs) rows) @
             cell_bytes (map (\<lambda>vs. f32_bits (row_scale vs)) rows)))"

text \<open>\<open>list(shape) == j\<close> and \<open>list(digest) == j\<close>: a list of integers, compared element by element.\<close>

definition eq_ints :: "int list \<Rightarrow> json \<Rightarrow> bool" where
  "eq_ints ns j = (case j of JList js \<Rightarrow> list_all2 (\<lambda>n x. eq_int x n) ns js | _ \<Rightarrow> False)"

definition digest :: "bytes \<Rightarrow> int list" where
  "digest raw = map (\<lambda>b. int (unat b)) (sha256 raw)"

text \<open>The bytes written for a tensor, and how they are stored.\<close>

definition stored :: "int list \<Rightarrow> bytes \<Rightarrow> (string \<times> bytes) res" where
  "stored shape raw =
     (case shape of
        [r, c] \<Rightarrow> res_bind (quantize_matrix (nat r) (nat c) (byte_cells raw)) (\<lambda>out. Inr (''I8Row'', out))
      | _ \<Rightarrow> Inr (''F32'', raw))"

text \<open>\<open>expected[entry["name"]]\<close>.\<close>

definition expected_shape :: "layout \<Rightarrow> json \<Rightarrow> int list res" where
  "expected_shape expected name =
     (case name of
        JStr s \<Rightarrow> of_option (KeyError s) (map_of expected s)
      | JList _ \<Rightarrow> Inl TypeError
      | JObj _ \<Rightarrow> Inl TypeError
      | _ \<Rightarrow> Inl (KeyError ''name''))"

definition entry_length :: "int list \<Rightarrow> int" where
  "entry_length shape = prod_list shape * 4"

text \<open>The check of one entry at a position of the source, and the bytes it reads there.\<close>

definition check_entry :: "layout \<Rightarrow> nat \<Rightarrow> bytes \<Rightarrow> json \<Rightarrow> (int list \<times> bytes) res" where
  "check_entry expected source_offset unread entry =
     res_bind (item ''name'' entry) (\<lambda>name.
     res_bind (expected_shape expected name) (\<lambda>shape.
     res_bind (raise_if ''tensor shape/offset/length''
       (or_else (res_bind (item ''shape'' entry) (\<lambda>j. Inr (\<not> eq_ints shape j)))
       (or_else (res_bind (item ''offset'' entry) (\<lambda>j. Inr (\<not> eq_int j (int source_offset))))
       (or_else (res_bind (item ''length'' entry) (\<lambda>j. Inr (\<not> eq_int j (entry_length shape))))
         (Inr (int MAX_TENSOR < entry_length shape)))))) (\<lambda>_.
     let raw = take (nat (entry_length shape)) unread in
     res_bind (raise_unless ''tensor integrity''
       (res_bind (item ''sha256'' entry) (\<lambda>j. Inr (eq_ints (digest raw) j)))) (\<lambda>_.
     if int (length raw) \<noteq> entry_length shape then Inl (ValueError ''cannot reshape array'')
     else if \<not> finite_cells (byte_cells raw) then Inl (ValueError ''nonfinite weight'')
     else Inr (shape, raw)))))"

text \<open>\<open>dict(entry, storage=..., offset=..., length=..., sha256=...)\<close>.\<close>

definition stored_entry :: "json \<Rightarrow> string \<Rightarrow> nat \<Rightarrow> bytes \<Rightarrow> json" where
  "stored_entry entry storage offset out =
     (case entry of
        JObj kvs \<Rightarrow> JObj (AList.update ''sha256'' (sha_json out) (AList.update ''length'' (JInt (int (length out)))
          (AList.update ''offset'' (JInt (int offset)) (AList.update ''storage'' (JStr storage) kvs))))
      | _ \<Rightarrow> entry)"

section \<open>The conversion of a pack\<close>

text \<open>The loop over the entries; returns the new entries, the bytes written and the bytes read.\<close>

fun quantize_tensors ::
  "faults \<Rightarrow> string \<Rightarrow> layout \<Rightarrow> json list \<Rightarrow> nat \<Rightarrow> nat \<Rightarrow> bytes \<Rightarrow> (disk, json list \<times> nat \<times> nat) io" where
  "quantize_tensors F tmp expected [] offset source_offset unread = io_ret ([], offset, source_offset)"
| "quantize_tensors F tmp expected (entry # later) offset source_offset unread =
     io_bind (io_lift (check_entry expected source_offset unread entry)) (\<lambda>(shape, raw).
     io_bind (io_lift (stored shape raw)) (\<lambda>(storage, out).
     io_then (append_to F tmp ''model.bin'' out)
     (io_bind (quantize_tensors F tmp expected later (offset + length out) (source_offset + length raw) (drop (length raw) unread))
       (\<lambda>(entries, total_written, consumed). io_ret (stored_entry entry storage offset out # entries, total_written, consumed)))))"

text \<open>The tensor set of the manifest must be the expected one.\<close>

definition same_tensors :: "layout \<Rightarrow> json \<Rightarrow> bool res" where
  "same_tensors expected ts =
     and_also (res_bind (py_len ts) (\<lambda>n. Inr (n = length expected)))
       (res_bind (py_iter ts) (\<lambda>es. res_bind (mapM (item ''name'') es) (\<lambda>names.
          if list_ex (\<lambda>j. case j of JList _ \<Rightarrow> True | JObj _ \<Rightarrow> True | _ \<Rightarrow> False) names then Inl TypeError
          else Inr (set names = JStr ` fst ` set expected))))"

text \<open>The checks on the manifest alone: its configuration's layout and its entries.\<close>

definition source_manifest :: "json \<Rightarrow> (layout \<times> json list) res" where
  "source_manifest m =
     res_bind (raise_unless ''source must be a canonical F32 pack''
       (res_bind (item ''format'' m) (\<lambda>j. Inr (j = JStr PACK_FORMAT)))) (\<lambda>_.
     res_bind (item ''config'' m) (\<lambda>c.
     res_bind (validate_config c) (\<lambda>_.
     res_bind (shapes c) (\<lambda>expected.
     res_bind (item ''tensors'' m) (\<lambda>ts.
     res_bind (raise_unless ''tensor set mismatch'' (same_tensors expected ts)) (\<lambda>_.
     res_bind (py_iter ts) (\<lambda>es. Inr (expected, es))))))))"

text \<open>\<open>manifest.update(...)\<close>.\<close>

definition int8_manifest :: "json \<Rightarrow> nat \<Rightarrow> json list \<Rightarrow> json" where
  "int8_manifest m len_all entries =
     (case m of
        JObj kvs \<Rightarrow> JObj (AList.update ''tensors'' (JList entries) (AList.update ''total_bytes'' (JInt (int len_all))
          (AList.update ''format'' (JStr INT8_FORMAT) kvs)))
      | _ \<Rightarrow> m)"

text \<open>The optional files that are copied along.\<close>

definition EXTRA_FILES :: "string list" where
  "EXTRA_FILES = [''input.json'', ''cases.json'', ''export_mapping.json'', ''export_config.json'']"

definition copy_extra :: "faults \<Rightarrow> string \<Rightarrow> string \<Rightarrow> string \<Rightarrow> (disk, unit) io" where
  "copy_extra F source tmp name w =
     (if (case w source of Some f \<Rightarrow> map_of f name \<noteq> None | None \<Rightarrow> False)
      then io_bind (read_file F source name) (put F tmp name) w else (Inr (), w))"

definition fill_int8 ::
  "faults \<Rightarrow> (rat \<Rightarrow> string) \<Rightarrow> string \<Rightarrow> string \<Rightarrow> json \<Rightarrow> layout \<Rightarrow> json list \<Rightarrow> bytes \<Rightarrow> (disk, json) io" where
  "fill_int8 F shown tmp source m expected es tokenizer =
     io_bind (read_file F source ''model.bin'') (\<lambda>model.
     io_then (put F tmp ''model.bin'' [])
     (io_bind (quantize_tensors F tmp expected es 0 0 model) (\<lambda>(entries, written_bytes, consumed).
     io_then (io_lift (raise_unless ''source total length'' (res_bind (item ''total_bytes'' m) (\<lambda>j. Inr (eq_int j (int consumed))))))
     (let manifest = int8_manifest m written_bytes entries in
     io_then (put F tmp ''manifest.json'' (written shown manifest))
     (io_then (put F tmp ''tokenizer.json'' tokenizer)
     (io_then (io_for EXTRA_FILES (copy_extra F source tmp))
     (io_ret manifest)))))))"

text \<open>Everything that is checked before a directory is made.\<close>

definition checked_source :: "faults \<Rightarrow> string \<Rightarrow> (disk, json \<times> layout \<times> json list \<times> bytes) io" where
  "checked_source F source =
     io_bind (read_file F source ''manifest.json'') (\<lambda>raw.
     io_bind (io_lift (json_loads_bytes raw)) (\<lambda>m.
     io_bind (io_lift (source_manifest m)) (\<lambda>(expected, es).
     io_bind (io_lift (int_item ''total_bytes'' m)) (\<lambda>n.
     io_then (io_guard (0 < n \<and> n \<le> int MAX_TOTAL) (ValueError ''model length mismatch''))
     (io_bind (read_file F source ''model.bin'') (\<lambda>model.
     io_then (io_guard (int (length model) = n) (ValueError ''model length mismatch''))
     (io_bind (read_file F source ''tokenizer.json'') (\<lambda>tokenizer.
     io_bind (io_lift (item ''tokenizer_sha256'' m)) (\<lambda>j.
     io_then (io_guard (eq_ints (digest tokenizer) j) (ValueError ''tokenizer integrity''))
       (io_ret (m, expected, es, tokenizer)))))))))))"

definition quantize :: "faults \<Rightarrow> (rat \<Rightarrow> string) \<Rightarrow> string \<Rightarrow> string \<Rightarrow> string \<Rightarrow> (disk, json) io" where
  "quantize F shown tmp source out =
     io_bind (dir_exists out) (\<lambda>there.
     io_then (io_guard (\<not> there) (ValueError ''output already exists''))
     (io_bind (checked_source F source) (\<lambda>(m, expected, es, tokenizer).
     io_then (make_parents F out)
       (staged F False tmp out (fill_int8 F shown tmp source m expected es tokenizer)))))"

section \<open>A canonical pack is converted\<close>

lemma good_shape_prod: "good_shape s \<Longrightarrow> 0 < prod_list s"
  by (auto simp: good_shape_def length_Suc_conv numeral_2_eq_2)

lemma eq_ints_self: "eq_ints ns (JList (map JInt ns))"
  by (simp add: eq_ints_def eq_int_def list.rel_map list.rel_refl)

lemma eq_ints_digest: "eq_ints (digest raw) (sha_json raw)"
  using eq_ints_self [of "digest raw"] by (simp add: digest_def sha_json_def o_def)

lemma entry_items [simp]:
  "item ''name'' (entry_json e) = Inr (JStr (en_name e))"
  "item ''shape'' (entry_json e) = Inr (JList (map JInt (en_shape e)))"
  "item ''offset'' (entry_json e) = Inr (JInt (int (en_offset e)))"
  "item ''length'' (entry_json e) = Inr (JInt (int (en_length e)))"
  "item ''sha256'' (entry_json e) = Inr (en_sha e)"
  by (simp_all add: item_def entry_json_def)

lemma whole_length:
  assumes "whole_tensor e raw"
  shows "int (length raw) = entry_length (en_shape e)" "int (length raw) \<le> int MAX_TENSOR"
  using assms good_shape_prod [of "en_shape e"] by (auto simp: whole_tensor_def entry_length_def)

lemma check_entry_laid:
  assumes "map_of expected (en_name e) = Some (en_shape e)" "en_offset e = off" "en_length e \<le> length bs"
    "en_sha e = sha_json (take (en_length e) bs)" "whole_tensor e (take (en_length e) bs)"
  shows "check_entry expected off bs (entry_json e) = Inr (en_shape e, take (en_length e) bs)"
proof -
  have len: "int (en_length e) = entry_length (en_shape e)" "entry_length (en_shape e) \<le> int MAX_TENSOR"
    using whole_length [OF assms(5)] assms(3) by simp_all
  then have "nat (entry_length (en_shape e)) = en_length e" by linarith
  moreover have "finite_cells (byte_cells (take (en_length e) bs))" using assms(5) by (simp add: whole_tensor_def)
  ultimately show ?thesis using assms(1-4) len
    by (simp add: check_entry_def expected_shape_def or_else_def raise_if_def raise_unless_def Let_def
        eq_ints_self eq_ints_digest eq_int_def)
qed

definition storage_of :: "int list \<Rightarrow> string" where
  "storage_of shape = (if length shape = 2 then ''I8Row'' else ''F32'')"

lemma stored_good:
  assumes "good_shape shape"
  obtains out where "stored shape raw = Inr (storage_of shape, out)"
proof -
  consider d where "shape = [d]" | r c where "shape = [r, c]" "0 < c"
    using assms by (auto simp: good_shape_def length_Suc_conv numeral_2_eq_2)
  then show thesis using that by cases (auto simp: stored_def storage_of_def quantize_matrix_def Let_def)
qed

definition int8_json :: "tensor_entry \<Rightarrow> json" where
  "int8_json e = JObj
     [(''name'', JStr (en_name e)), (''shape'', JList (map JInt (en_shape e))),
      (''offset'', JInt (int (en_offset e))), (''length'', JInt (int (en_length e))), (''sha256'', en_sha e),
      (''storage'', JStr (storage_of (en_shape e)))]"

lemma stored_entry_json:
  "stored_entry (entry_json e) (storage_of (en_shape e)) off out =
     int8_json (e\<lparr>en_offset := off, en_length := length out, en_sha := sha_json out\<rparr>)"
  by (simp add: stored_entry_def entry_json_def int8_json_def)

text \<open>The bytes of a new entry come from those of the source entry of the same name and shape.\<close>

definition converted :: "bytes \<Rightarrow> tensor_entry list \<Rightarrow> tensor_entry \<Rightarrow> bytes \<Rightarrow> bool" where
  "converted model es e' raw \<longleftrightarrow>
     (\<exists>e\<in>set es. en_name e' = en_name e \<and> en_shape e' = en_shape e \<and>
        stored (en_shape e) (slice_of model e) = Inr (storage_of (en_shape e), raw))"

lemma quantize_tensors_run:
  assumes "laid_out whole_tensor off es (drop off model)" "\<forall>e\<in>set es. map_of expected (en_name e) = Some (en_shape e)"
    and "w tmp = Some f" "map_of f ''model.bin'' = Some old" "off \<le> length model"
  shows "\<exists>es' out w' g. quantize_tensors no_faults tmp expected (map entry_json es) offset off (drop off model) w =
      (Inr (map int8_json es', offset + length out, length model), w') \<and>
    w' tmp = Some g \<and> map_of g ''model.bin'' = Some (old @ out) \<and> (\<forall>x. x \<noteq> tmp \<longrightarrow> w' x = w x) \<and>
    map (\<lambda>e. (en_name e, en_shape e)) es' = map (\<lambda>e. (en_name e, en_shape e)) es \<and>
    laid_out (converted model es) offset es' out"
  using assms
proof (induction es arbitrary: off offset w f old)
  case Nil
  then have "length model = off" by simp
  then show ?case using Nil by (intro exI [of _ "[]"] exI [of _ w] exI [of _ f]) simp
next
  case (Cons e es)
  let ?raw = "take (en_length e) (drop off model)"
  have e: "en_offset e = off" "en_length e \<le> length (drop off model)" "en_sha e = sha_json ?raw" "whole_tensor e ?raw"
    and later: "laid_out whole_tensor (off + en_length e) es (drop (off + en_length e) model)"
    using Cons.prems(1) by (auto simp: drop_drop add.commute)
  have raw: "?raw = slice_of model e" "length ?raw = en_length e" using e(1,2) by (simp_all add: slice_of_def)
  have check: "check_entry expected off (drop off model) (entry_json e) = Inr (en_shape e, ?raw)"
    using check_entry_laid e Cons.prems(2) by simp
  obtain out where out: "stored (en_shape e) ?raw = Inr (storage_of (en_shape e), out)"
    using stored_good e(4) by (auto simp: whole_tensor_def)
  let ?f = "AList.update ''model.bin'' (old @ out) f" and ?w = "w(tmp \<mapsto> AList.update ''model.bin'' (old @ out) f)"
  let ?e = "e\<lparr>en_offset := offset, en_length := length out, en_sha := sha_json out\<rparr>"
  have app: "append_to no_faults tmp ''model.bin'' out w = (Inr (), ?w)" using Cons.prems(3,4) by (simp add: append_to_def no_faults_def)
  have "off + en_length e \<le> length model" using e(2) Cons.prems(5) by simp
  then have "\<exists>es' out' w' g. quantize_tensors no_faults tmp expected (map entry_json es) (offset + length out) (off + en_length e)
        (drop (off + en_length e) model) ?w = (Inr (map int8_json es', offset + length out + length out', length model), w') \<and>
      w' tmp = Some g \<and> map_of g ''model.bin'' = Some ((old @ out) @ out') \<and> (\<forall>x. x \<noteq> tmp \<longrightarrow> w' x = ?w x) \<and>
      map (\<lambda>e. (en_name e, en_shape e)) es' = map (\<lambda>e. (en_name e, en_shape e)) es \<and>
      laid_out (converted model es) (offset + length out) es' out'"
    using Cons.prems(2) by (intro Cons.IH [OF later, of ?w ?f]) (simp_all add: update_conv')
  then obtain es' out' w' g where run: "quantize_tensors no_faults tmp expected (map entry_json es) (offset + length out) (off + en_length e)
        (drop (off + en_length e) model) ?w = (Inr (map int8_json es', offset + length out + length out', length model), w')"
    and w': "w' tmp = Some g" "map_of g ''model.bin'' = Some ((old @ out) @ out')" "\<forall>x. x \<noteq> tmp \<longrightarrow> w' x = ?w x"
    and es': "map (\<lambda>e. (en_name e, en_shape e)) es' = map (\<lambda>e. (en_name e, en_shape e)) es"
    and laid: "laid_out (converted model es) (offset + length out) es' out'" by blast
  have "quantize_tensors no_faults tmp expected (map entry_json (e # es)) offset off (drop off model) w =
      (Inr (map int8_json (?e # es'), offset + length (out @ out'), length model), w')"
    using check out app run raw(2) stored_entry_json [of e offset out]
    by (simp add: io_bind_def io_then_def drop_drop add.commute add.left_commute)
  moreover have "laid_out (converted model (e # es)) offset (?e # es') (out @ out')"
    using out laid_out_mono [OF laid] raw(1) by (auto simp: converted_def)
  ultimately show ?case using w' es'
    by (intro exI [of _ "?e # es'"] exI [of _ "out @ out'"] exI [of _ w'] exI [of _ g]) simp
qed

lemma mapM_map: "mapM f (map g xs) = mapM (\<lambda>x. f (g x)) xs"
  by (induction xs) simp_all

lemma source_manifest_canonical:
  assumes "canonical_pack f kvs c entries model tokenizer"
  shows "source_manifest (JObj kvs) = Inr (map (\<lambda>e. (en_name e, en_shape e)) entries, map entry_json entries)"
proof -
  have names: "mapM (item ''name'') (map entry_json entries) = Inr (map (\<lambda>e. JStr (en_name e)) entries)"
    by (simp add: mapM_map mapM_pure)
  have "\<not> list_ex (\<lambda>j. case j of JList _ \<Rightarrow> True | JObj _ \<Rightarrow> True | _ \<Rightarrow> False) (map (\<lambda>e. JStr (en_name e)) entries)"
    by (simp add: list_ex_iff)
  moreover have "set (map (\<lambda>e. JStr (en_name e)) entries) = JStr ` fst ` set (map (\<lambda>e. (en_name e, en_shape e)) entries)"
    by (simp add: image_image)
  ultimately have "same_tensors (map (\<lambda>e. (en_name e, en_shape e)) entries) (JList (map entry_json entries)) = Inr True"
    unfolding same_tensors_def and_also_def by (simp add: py_len_def py_iter_def names)
  then show ?thesis using assms
    by (simp add: canonical_pack_def source_manifest_def item_def raise_unless_def py_iter_def)
qed

lemma canonical_nonempty:
  assumes "canonical_pack f kvs c entries model tokenizer"
  shows "model \<noteq> []"
proof -
  have s: "shapes c = Inr (map (\<lambda>e. (en_name e, en_shape e)) entries)" and l: "laid_out whole_tensor 0 entries model"
    using assms by (simp_all add: canonical_pack_def)
  obtain normed L D where "mset (map fst (map (\<lambda>e. (en_name e, en_shape e)) entries)) = mset (pack_names normed L D)"
    using shapes_names [OF s] by blast
  moreover have "pack_names normed L D \<noteq> []" by (simp add: pack_names_def embedding_keys_def)
  ultimately have "entries \<noteq> []" by auto
  then obtain e es where e: "entries = e # es" by (cases entries) auto
  then have "whole_tensor e (take (en_length e) model)" using l by simp
  then have "0 < length (take (en_length e) model)"
    using good_shape_prod [of "en_shape e"] by (simp add: whole_tensor_def)
  then show ?thesis by auto
qed

lemma copy_extra_run:
  assumes "w tmp = Some g"
  shows "\<exists>w' g'. copy_extra no_faults source tmp name w = (Inr (), w') \<and> w' tmp = Some g' \<and> (\<forall>x. x \<noteq> tmp \<longrightarrow> w' x = w x) \<and>
    (\<forall>n. n \<noteq> name \<longrightarrow> map_of g' n = map_of g n)"
  using assms
  by (auto simp: copy_extra_def read_file_def put_def no_faults_def io_bind_def update_conv' split: option.splits)

lemma copies_run:
  assumes "w tmp = Some g"
  shows "\<exists>w' g'. io_for names (copy_extra no_faults source tmp) w = (Inr (), w') \<and> w' tmp = Some g' \<and>
    (\<forall>x. x \<noteq> tmp \<longrightarrow> w' x = w x) \<and> (\<forall>n. n \<notin> set names \<longrightarrow> map_of g' n = map_of g n)"
  using assms
proof (induction names arbitrary: w g)
  case (Cons name names)
  obtain w1 g1 where one: "copy_extra no_faults source tmp name w = (Inr (), w1)" "w1 tmp = Some g1" "\<forall>x. x \<noteq> tmp \<longrightarrow> w1 x = w x"
      "\<forall>n. n \<noteq> name \<longrightarrow> map_of g1 n = map_of g n"
    using copy_extra_run [where w = w and tmp = tmp, OF Cons.prems] by blast
  obtain w2 g2 where two: "io_for names (copy_extra no_faults source tmp) w1 = (Inr (), w2)" "w2 tmp = Some g2" "\<forall>x. x \<noteq> tmp \<longrightarrow> w2 x = w1 x"
      "\<forall>n. n \<notin> set names \<longrightarrow> map_of g2 n = map_of g1 n"
    using Cons.IH [where w = w1 and g = g1, OF one(2)] by blast
  have "io_for (name # names) (copy_extra no_faults source tmp) w = (Inr (), w2)"
    using one(1) two(1) by (simp add: io_then_def io_bind_def)
  then show ?case using one two by (intro exI [of _ w2] exI [of _ g2]) simp
qed simp

lemma fill_int8_run:
  assumes pack: "canonical_pack f kvs c entries model tokenizer" and w: "w source = Some f" "w tmp = Some []" "source \<noteq> tmp"
  shows "\<exists>w' g es' out. fill_int8 no_faults shown tmp source (JObj kvs) (map (\<lambda>e. (en_name e, en_shape e)) entries)
        (map entry_json entries) tokenizer w =
      (Inr (int8_manifest (JObj kvs) (length out) (map int8_json es')), w') \<and>
    w' tmp = Some g \<and> (\<forall>x. x \<noteq> tmp \<longrightarrow> w' x = w x) \<and>
    map_of g ''manifest.json'' = Some (written shown (int8_manifest (JObj kvs) (length out) (map int8_json es'))) \<and>
    map_of g ''model.bin'' = Some out \<and> map_of g ''tokenizer.json'' = Some tokenizer \<and>
    map (\<lambda>e. (en_name e, en_shape e)) es' = map (\<lambda>e. (en_name e, en_shape e)) entries \<and>
    laid_out (converted model entries) 0 es' out"
proof -
  have p: "map_of f ''model.bin'' = Some model" "laid_out whole_tensor 0 entries model"
    "map_of kvs ''total_bytes'' = Some (JInt (int (length model)))"
    "shapes c = Inr (map (\<lambda>e. (en_name e, en_shape e)) entries)"
    using pack by (simp_all add: canonical_pack_def)
  let ?lay = "map (\<lambda>e. (en_name e, en_shape e)) entries"
  have model: "read_file no_faults source ''model.bin'' w = (Inr model, w)"
    using w p(1) by (simp add: read_file_def no_faults_def)
  have named: "\<forall>e\<in>set entries. map_of ?lay (en_name e) = Some (en_shape e)"
    using shapes_distinct [OF p(4)] by (auto intro!: map_of_is_SomeI)
  let ?w1 = "w(tmp \<mapsto> [(''model.bin'', [])])"
  have put: "put no_faults tmp ''model.bin'' [] w = (Inr (), ?w1)" using w(2) by (simp add: put_def no_faults_def)
  have "\<exists>es' out w' g. quantize_tensors no_faults tmp ?lay (map entry_json entries) 0 0 (drop 0 model) ?w1 =
      (Inr (map int8_json es', 0 + length out, length model), w') \<and>
    w' tmp = Some g \<and> map_of g ''model.bin'' = Some ([] @ out) \<and> (\<forall>x. x \<noteq> tmp \<longrightarrow> w' x = ?w1 x) \<and>
    map (\<lambda>e. (en_name e, en_shape e)) es' = ?lay \<and> laid_out (converted model entries) 0 es' out"
    using p(2) named by (intro quantize_tensors_run [of _ _ _ _ _ _ "[(''model.bin'', [])]"]) simp_all
  then obtain es' out w2 g where run: "quantize_tensors no_faults tmp ?lay (map entry_json entries) 0 0 model ?w1 =
      (Inr (map int8_json es', length out, length model), w2)"
    and w2: "w2 tmp = Some g" "map_of g ''model.bin'' = Some out" "\<forall>x. x \<noteq> tmp \<longrightarrow> w2 x = w x"
    and es': "map (\<lambda>e. (en_name e, en_shape e)) es' = ?lay" "laid_out (converted model entries) 0 es' out" by auto
  let ?m = "int8_manifest (JObj kvs) (length out) (map int8_json es')"
  let ?g = "AList.update ''tokenizer.json'' tokenizer (AList.update ''manifest.json'' (written shown ?m) g)"
  have "\<exists>w3 g'. io_for EXTRA_FILES (copy_extra no_faults source tmp) (w2(tmp \<mapsto> ?g)) = (Inr (), w3) \<and> w3 tmp = Some g' \<and>
    (\<forall>x. x \<noteq> tmp \<longrightarrow> w3 x = (w2(tmp \<mapsto> ?g)) x) \<and> (\<forall>n. n \<notin> set EXTRA_FILES \<longrightarrow> map_of g' n = map_of ?g n)"
    by (rule copies_run) simp
  then obtain w3 g' where copies: "io_for EXTRA_FILES (copy_extra no_faults source tmp) (w2(tmp \<mapsto> ?g)) = (Inr (), w3)"
    and w3: "w3 tmp = Some g'" "\<forall>x. x \<noteq> tmp \<longrightarrow> w3 x = (w2(tmp \<mapsto> ?g)) x"
      "\<forall>n. n \<notin> set EXTRA_FILES \<longrightarrow> map_of g' n = map_of ?g n" by blast
  have puts: "put no_faults tmp name x v = (Inr (), v(tmp \<mapsto> AList.update name x h))" if "v tmp = Some h" for name x v h
    using that by (simp add: put_def no_faults_def)
  have "fill_int8 no_faults shown tmp source (JObj kvs) ?lay (map entry_json entries) tokenizer w = (Inr ?m, w3)"
    using model put run copies w2(1) p(3)
    by (simp add: fill_int8_def io_bind_def io_then_def puts raise_unless_def item_def eq_int_def Let_def)
  then show ?thesis using w2 w3 es'
    by (intro exI [of _ w3] exI [of _ g'] exI [of _ es'] exI [of _ out]) (simp add: update_conv' EXTRA_FILES_def)
qed

lemma update_values: "list_all P (map snd kvs) \<Longrightarrow> P v \<Longrightarrow> list_all P (map snd (AList.update k v kvs))"
  by (induction kvs) auto

lemma int8_manifest_dumpable:
  assumes "dumpable shown (JObj kvs)" "laid_out P off es model"
  shows "dumpable shown (int8_manifest (JObj kvs) n (map int8_json es))"
proof -
  have "list_all (dumpable shown) (map int8_json es)"
    using assms(2) by (induction es arbitrary: off model) (auto simp: int8_json_def dumpable_sha list_all_iff)
  then show ?thesis using assms(1)
    by (simp add: int8_manifest_def distinct_update update_values)
qed

lemma canonical_converted:
  assumes "canonical_pack f kvs c entries model tokenizer" "w source = Some f" "w out = None" "w tmp = None"
    and "beside tmp out"
  shows "\<exists>m g es' model'.
    quantize no_faults shown tmp source out w = (Inr (JObj m), (with_dirs (ancestors out) w)(out \<mapsto> g)) \<and>
    map_of g ''manifest.json'' = Some (written shown (JObj m)) \<and>
    (dumpable shown (JObj kvs) \<longrightarrow> json_loads_bytes (written shown (JObj m)) = Inr (JObj m)) \<and>
    map_of g ''model.bin'' = Some model' \<and>
    map_of g ''tokenizer.json'' = Some tokenizer \<and> map_of m ''format'' = Some (JStr INT8_FORMAT) \<and>
    map_of m ''config'' = Some c \<and> map_of m ''total_bytes'' = Some (JInt (int (length model'))) \<and>
    map_of m ''tensors'' = Some (JList (map int8_json es')) \<and>
    map (\<lambda>e. (en_name e, en_shape e)) es' = map (\<lambda>e. (en_name e, en_shape e)) entries \<and>
    laid_out (converted model entries) 0 es' model'"
proof -
  let ?lay = "map (\<lambda>e. (en_name e, en_shape e)) entries" and ?v = "with_dirs (ancestors out) w"
  obtain raw where p: "map_of f ''model.bin'' = Some model" "map_of f ''manifest.json'' = Some raw"
    "json_loads_bytes raw = Inr (JObj kvs)"
    "map_of f ''tokenizer.json'' = Some tokenizer" "map_of kvs ''total_bytes'' = Some (JInt (int (length model)))"
    "map_of kvs ''tokenizer_sha256'' = Some (sha_json tokenizer)" "map_of kvs ''config'' = Some c" "length model \<le> MAX_TOTAL"
    using assms(1) by (auto simp: canonical_pack_def)
  have v: "?v source = Some f" "?v tmp = None" "?v out = None" "source \<noteq> tmp"
    using assms(2-5) by (auto simp: with_dirs_there beside_fresh_all)
  obtain w1 g es' model' where fill: "fill_int8 no_faults shown tmp source (JObj kvs) ?lay (map entry_json entries) tokenizer
        (?v(tmp \<mapsto> [])) =
      (Inr (int8_manifest (JObj kvs) (length model') (map int8_json es')), w1)"
    and w1: "w1 tmp = Some g" "\<forall>x. x \<noteq> tmp \<longrightarrow> w1 x = (?v(tmp \<mapsto> [])) x"
    and g: "map_of g ''manifest.json'' = Some (written shown (int8_manifest (JObj kvs) (length model') (map int8_json es')))"
      "map_of g ''model.bin'' = Some model'" "map_of g ''tokenizer.json'' = Some tokenizer"
    and es': "map (\<lambda>e. (en_name e, en_shape e)) es' = ?lay" "laid_out (converted model entries) 0 es' model'"
    using fill_int8_run [OF assms(1), of "?v(tmp \<mapsto> [])" source tmp shown] v by auto
  have staged: "staged no_faults False tmp out (fill_int8 no_faults shown tmp source (JObj kvs) ?lay (map entry_json entries) tokenizer) ?v =
      (Inr (int8_manifest (JObj kvs) (length model') (map int8_json es')), ?v(out \<mapsto> g))"
  proof (rule staged_succeeds)
    show "d \<noteq> tmp \<Longrightarrow> w1 d = ?v d" for d using w1(2) by simp
    show "tmp \<noteq> out" "parent_there tmp ?v" using assms(5) beside_parent by (auto simp: beside_def)
  qed (rule fill w1(1) v)+
  have read: "read_file no_faults source name w = (Inr x, w)" if "map_of f name = Some x" for name x
    using assms(2) that by (simp add: read_file_def no_faults_def)
  note reads = read [OF p(1)] read [OF p(2)] read [OF p(4)]
  have "quantize no_faults shown tmp source out w =
      staged no_faults False tmp out (fill_int8 no_faults shown tmp source (JObj kvs) ?lay (map entry_json entries) tokenizer) ?v"
    unfolding quantize_def dir_exists_def io_bind_def io_then_def
    using assms(3) canonical_nonempty [OF assms(1)] p(8)
    by (simp add: checked_source_def io_bind_def io_then_def p(3) reads source_manifest_canonical [OF assms(1)] make_parents_succeeds int_item_def as_int_def
        item_def p(5,6) eq_ints_digest)
  moreover obtain m where m: "int8_manifest (JObj kvs) (length model') (map int8_json es') = JObj m"
    by (simp add: int8_manifest_def)
  moreover have "map_of m ''format'' = Some (JStr INT8_FORMAT)" "map_of m ''config'' = Some c"
      "map_of m ''total_bytes'' = Some (JInt (int (length model')))" "map_of m ''tensors'' = Some (JList (map int8_json es'))"
    using m p(7) by (auto simp: int8_manifest_def update_conv')
  moreover have "json_loads_bytes (written shown (JObj m)) = Inr (JObj m)" if "dumpable shown (JObj kvs)"
    using int8_manifest_dumpable [OF that es'(2), of "length model'"] unfolding m written_def by (rule json_loads_written)
  ultimately show ?thesis using staged g es'
    by (intro exI [of _ m] exI [of _ g] exI [of _ es'] exI [of _ model']) simp
qed

text \<open>
  C6: the converter accepts every canonical pack, in particular whatever \<open>export\<close> wrote.  From a disk that
  has one and nothing at the output, where no operation is refused, it returns, leaves the source as it was,
  and the output is the same tensors under the same names and shapes, laid out one after another behind a
  manifest that describes them and reads back from its file: each is the conversion of the source tensor of
  its name.
\<close>

theorem quantize_converts_pack:
  assumes "canonical_pack f kvs c entries model tokenizer" "w source = Some f" "w out = None" "w tmp = None"
    and "beside tmp out"
  shows "\<exists>m g es' model'.
    quantize no_faults shown tmp source out w = (Inr (JObj m), (with_dirs (ancestors out) w)(out \<mapsto> g)) \<and>
    map_of g ''manifest.json'' = Some (written shown (JObj m)) \<and>
    (dumpable shown (JObj kvs) \<longrightarrow> json_loads_bytes (written shown (JObj m)) = Inr (JObj m)) \<and>
    map_of g ''model.bin'' = Some model' \<and>
    map_of g ''tokenizer.json'' = Some tokenizer \<and> map_of m ''format'' = Some (JStr INT8_FORMAT) \<and>
    map_of m ''config'' = Some c \<and> map_of m ''total_bytes'' = Some (JInt (int (length model'))) \<and>
    map_of m ''tensors'' = Some (JList (map int8_json es')) \<and>
    map (\<lambda>e. (en_name e, en_shape e)) es' = map (\<lambda>e. (en_name e, en_shape e)) entries \<and>
    laid_out (converted model entries) 0 es' model'"
  by (rule canonical_converted [OF assms])

section \<open>Every conversion\<close>

text \<open>What an entry says of a model file: the bytes at its offset, of its length, have its hash.\<close>

definition hash_matches :: "bytes \<Rightarrow> json \<Rightarrow> bool" where
  "hash_matches model e \<longleftrightarrow> (\<exists>p l j off n. item ''offset'' e = Inr p \<and> eq_int p (int off) \<and>
     item ''length'' e = Inr l \<and> eq_int l (int n) \<and> off + n \<le> length model \<and>
     item ''sha256'' e = Inr j \<and> eq_ints (digest (take n (drop off model))) j)"

lemma check_entry_hash:
  assumes "check_entry expected off (drop off model) e = Inr (shape, raw)" "off \<le> length model"
  shows "hash_matches model e" "off + length raw \<le> length model"
proof -
  let ?n = "nat (entry_length shape)"
  obtain p l j where e: "item ''offset'' e = Inr p" "eq_int p (int off)" "item ''length'' e = Inr l" "eq_int l (entry_length shape)"
      "item ''sha256'' e = Inr j" "eq_ints (digest (take ?n (drop off model))) j"
      "int (length (take ?n (drop off model))) = entry_length shape" "raw = take ?n (drop off model)"
    using assms(1) by (auto simp: check_entry_def condition_iff res_iff Let_def split: if_splits)
  have len: "entry_length shape = int (length raw)" using e(7,8) by simp
  then have n: "int ?n = entry_length shape" "length raw = ?n" by simp_all
  show "off + length raw \<le> length model" using n(2) e(8) assms(2) by (simp add: min_def split: if_splits)
  then show "hash_matches model e" unfolding hash_matches_def
    using e n by (intro exI [of _ p] exI [of _ l] exI [of _ j] exI [of _ off] exI [of _ ?n]) simp
qed

lemma quantize_tensors_verified:
  "quantize_tensors F tmp expected es offset off (drop off model) w = (Inr (new, total_new, consumed), w') \<Longrightarrow> off \<le> length model \<Longrightarrow>
   list_all (hash_matches model) es"
proof (induction es arbitrary: offset off w new total_new consumed)
  case (Cons e es)
  obtain shape raw where c: "check_entry expected off (drop off model) e = Inr (shape, raw)"
    using Cons.prems(1) by (auto simp: io_bind_Inr)
  note ok = check_entry_hash [OF c Cons.prems(2)]
  have "\<exists>offset' v x. quantize_tensors F tmp expected es offset' (off + length raw) (drop (off + length raw) model) v =
      (Inr (x, total_new, consumed), w')"
    using Cons.prems(1) c by (fastforce simp: res_iff add.commute)
  then have "list_all (hash_matches model) es" using Cons.IH [OF _ ok(2)] by blast
  then show ?case using ok(1) by simp
qed simp

lemma quantize_tensors_local [local_intros]: "local_to tmp (quantize_tensors F tmp expected es offset off unread)"
proof (induction es arbitrary: offset off unread)
  case Nil
  show ?case unfolding quantize_tensors.simps by (intro local_intros)
next
  case (Cons e es)
  show ?case unfolding quantize_tensors.simps by (intro local_intros Cons.IH)
qed

lemma copy_extra_local [local_intros]: "local_to tmp (copy_extra F source tmp name)"
proof -
  have "local_to tmp (io_bind (read_file F source name) (put F tmp name))" by (intro local_intros)
  then show ?thesis by (auto simp: local_to_def copy_extra_def split: if_splits)
qed

lemma fill_int8_local: "local_to tmp (fill_int8 F shown tmp source m expected es tokenizer)"
  unfolding fill_int8_def Let_def by (intro local_intros)

text \<open>The copies leave the manifest.\<close>

lemma copy_extra_keeps:
  assumes "copy_extra F source tmp name v = (Inr u, v')" "v tmp = Some g"
  shows "\<exists>g'. v' tmp = Some g' \<and> (\<forall>n. n \<noteq> name \<longrightarrow> map_of g' n = map_of g n)"
  using assms by (auto simp: copy_extra_def res_iff put_run read_file_def update_conv' split: if_splits option.splits)

lemma copies_keep:
  "io_for names (copy_extra F source tmp) v = (Inr u, v') \<Longrightarrow> v tmp = Some g \<Longrightarrow>
   \<exists>g'. v' tmp = Some g' \<and> (\<forall>n. n \<notin> set names \<longrightarrow> map_of g' n = map_of g n)"
proof (induction names arbitrary: v g)
  case (Cons name names)
  obtain u1 v1 where one: "copy_extra F source tmp name v = (Inr u1, v1)" and "io_for names (copy_extra F source tmp) v1 = (Inr u, v')"
    using Cons.prems(1) by (auto simp: io_then_Inr)
  moreover obtain g1 where g1: "v1 tmp = Some g1" "\<forall>n. n \<noteq> name \<longrightarrow> map_of g1 n = map_of g n"
    using copy_extra_keeps [OF one Cons.prems(2)] by blast
  ultimately obtain g' where "v' tmp = Some g'" "\<forall>n. n \<notin> set names \<longrightarrow> map_of g' n = map_of g1 n"
    using Cons.IH by blast
  then show ?case using g1(2) by auto
qed auto

lemma fill_int8_facts:
  assumes "fill_int8 F shown tmp source m expected es tokenizer w = (Inr n, w')" "w tmp \<noteq> None"
  shows "\<exists>f model g. w source = Some f \<and> map_of f ''model.bin'' = Some model \<and> list_all (hash_matches model) es \<and>
    w' tmp = Some g \<and> map_of g ''manifest.json'' = Some (written shown n)"
proof -
  obtain model w1 w2 new total_new consumed w3 where
      model: "read_file F source ''model.bin'' w = (Inr model, w1)"
    and start: "put F tmp ''model.bin'' [] w1 = (Inr (), w2)"
    and tensors: "quantize_tensors F tmp expected es 0 0 model w2 = (Inr (new, total_new, consumed), w3)"
    and later: "io_then (put F tmp ''manifest.json'' (written shown (int8_manifest m total_new new)))
        (io_then (put F tmp ''tokenizer.json'' tokenizer)
        (io_then (io_for EXTRA_FILES (copy_extra F source tmp))
        (io_ret (int8_manifest m total_new new)))) w3 = (Inr n, w')"
    using assms(1) unfolding fill_int8_def Let_def by (auto simp: io_bind_Inr io_then_Inr io_lift_Inr)
  obtain f where f: "w source = Some f" "map_of f ''model.bin'' = Some model"
    using model by (auto simp: read_file_def res_iff split: option.splits)
  have "list_all (hash_matches model) es" using quantize_tensors_verified [of F tmp expected es 0 0 model] tensors by simp
  moreover obtain w4 w5 where n: "n = int8_manifest m total_new new"
    and w4: "put F tmp ''manifest.json'' (written shown n) w3 = (Inr (), w4)" "put F tmp ''tokenizer.json'' tokenizer w4 = (Inr (), w5)"
      "io_for EXTRA_FILES (copy_extra F source tmp) w5 = (Inr (), w')"
    using later by (auto simp: io_then_Inr)
  obtain g5 where g5: "w5 tmp = Some g5" "map_of g5 ''manifest.json'' = Some (written shown n)"
    using w4(1,2) by (auto simp: put_run update_conv')
  obtain g where "w' tmp = Some g" "\<forall>k. k \<notin> set EXTRA_FILES \<longrightarrow> map_of g k = map_of g5 k"
    using copies_keep [OF w4(3) g5(1)] by blast
  moreover from this have "map_of g ''manifest.json'' = Some (written shown n)" using g5(2) by (simp add: EXTRA_FILES_def)
  ultimately show ?thesis using f by blast
qed

text \<open>What has been checked of a source that was converted.\<close>

definition verified_source :: "folder \<Rightarrow> bool" where
  "verified_source f \<longleftrightarrow> (\<exists>raw m expected es model tokenizer j.
     map_of f ''manifest.json'' = Some raw \<and> json_loads_bytes raw = Inr m \<and> source_manifest m = Inr (expected, es) \<and>
     map_of f ''model.bin'' = Some model \<and> int_item ''total_bytes'' m = Inr (int (length model)) \<and>
     list_all (hash_matches model) es \<and>
     map_of f ''tokenizer.json'' = Some tokenizer \<and> item ''tokenizer_sha256'' m = Inr j \<and> eq_ints (digest tokenizer) j)"

lemma checked_source_facts:
  assumes "checked_source F source w = (x, w')"
  shows "w' = w"
    and "x = Inr (m, expected, es, tokenizer) \<Longrightarrow> \<exists>f. w source = Some f \<and>
      (\<forall>model. map_of f ''model.bin'' = Some model \<longrightarrow> list_all (hash_matches model) es \<longrightarrow> verified_source f)"
proof -
  have read: "snd (read_file F source name v) = v" for name v
    by (auto simp: read_file_def split: option.splits)
  have keep: "snd (io_bind a f v) = v" if "snd (a v) = v" "\<And>y. snd (f y v) = v" for a :: "(disk, 'x) io" and f :: "'x \<Rightarrow> (disk, 'y) io" and v
    using that by (auto simp: io_bind_def split: prod.splits sum.splits)
  have "snd (checked_source F source w) = w"
    unfolding checked_source_def io_then_def
    by (intro keep read) (auto simp: io_guard_def split: prod.splits intro!: keep read)
  then show "w' = w" using assms by simp
  assume "x = Inr (m, expected, es, tokenizer)"
  then obtain f raw model j where f: "w source = Some f" "map_of f ''manifest.json'' = Some raw"
      "json_loads_bytes raw = Inr m" "source_manifest m = Inr (expected, es)" "map_of f ''model.bin'' = Some model"
      "int_item ''total_bytes'' m = Inr (int (length model))" "map_of f ''tokenizer.json'' = Some tokenizer"
      "item ''tokenizer_sha256'' m = Inr j" "eq_ints (digest tokenizer) j"
    using assms by (auto simp: checked_source_def io_bind_Inr io_then_Inr io_lift_Inr io_guard_Inr read_file_def res_iff split: option.splits)
  have "verified_source f" if "list_all (hash_matches model) es"
    unfolding verified_source_def using f that by blast
  then show "\<exists>f. w source = Some f \<and>
      (\<forall>model. map_of f ''model.bin'' = Some model \<longrightarrow> list_all (hash_matches model) es \<longrightarrow> verified_source f)"
    using f(1,5) by auto
qed

text \<open>
  C36: a conversion is all or nothing, whatever the system refuses and whatever is in the source.  When it
  raises, the output is as it was, and all that can have changed is that directories above it were made and
  that the temporary one is there if its removal was refused.  When it returns, the source was a pack whose
  manifest names the tensors of its configuration, whose model file has the length the manifest gives, and in
  which every tensor and the tokenizer have the hashes of the manifest; and the output is a new directory with
  the manifest returned.
\<close>

theorem quantize_all_or_nothing:
  assumes "quantize F shown tmp source out w = (r, w')" "w tmp = None" "beside tmp out"
  shows "(\<exists>e n. r = Inl e \<and> w' out = w out \<and> left_behind F tmp (with_dirs (take n (ancestors out)) w) w') \<or>
    (\<exists>m f g. r = Inr m \<and> w source = Some f \<and> verified_source f \<and> w out = None \<and>
      w' = (with_dirs (ancestors out) w)(out \<mapsto> g) \<and> map_of g ''manifest.json'' = Some (written shown m))"
proof -
  let ?ds = "ancestors out"
  have raised: ?thesis if "\<exists>e. r = Inl e" "left_behind F tmp (with_dirs (take n ?ds) w) w'" for n
    using that assms(3) by (auto simp: left_behind_def out_kept beside_def)
  obtain x w1 where x: "checked_source F source w = (x, w1)" by (cases "checked_source F source w")
  note facts = checked_source_facts [OF x]
  show ?thesis
  proof (cases "w out = None \<and> is_ok x")
    case False
    then have "(\<exists>e. r = Inl e) \<and> w' = w" using assms(1) x facts(1)
      by (cases x; cases "w out") (auto simp: quantize_def dir_exists_def io_bind_def io_then_def)
    then show ?thesis using raised [of 0] by (simp add: left_behind_def)
  next
    case True
    then obtain m expected es tokenizer where i: "x = Inr (m, expected, es, tokenizer)" by (auto simp: is_ok_iff)
    let ?fill = "fill_int8 F shown tmp source m expected es tokenizer"
    obtain q v where q: "make_parents F out w = (q, v)" by (cases "make_parents F out w")
    from make_parents_outcome [OF this] obtain n where
      n: "v = with_dirs (take n ?ds) w" "q = Inr () \<longrightarrow> v = with_dirs ?ds w" by blast
    show ?thesis
    proof (cases q)
      case (Inl e)
      then have "r = Inl e \<and> w' = v" using assms(1) True i x q facts(1)
        by (simp add: quantize_def dir_exists_def io_bind_def io_then_def)
      then show ?thesis using raised [of n] n(1) by (simp add: left_behind_def)
    next
      case (Inr u)
      then have st: "staged F False tmp out ?fill v = (r, w')" and v: "v = with_dirs ?ds w"
        using assms(1) True i x q facts(1) n(2) by (simp_all add: quantize_def dir_exists_def io_bind_def io_then_def)
      have fresh: "v tmp = None" "v out = None" "tmp \<noteq> out"
        using assms(2,3) True by (simp_all add: v beside_fresh_all beside_def)
      from staged_outcome [OF st fill_int8_local fresh] show ?thesis
      proof (elim disjE exE conjE)
        fix y w2 g assume y: "r = Inr y" "?fill (v(tmp \<mapsto> [])) = (Inr y, w2)" "w2 tmp = Some g" "w' = v(out \<mapsto> g)"
        from facts(2) [OF i] obtain f where f: "w source = Some f" "\<And>model. map_of f ''model.bin'' = Some model \<Longrightarrow>
            list_all (hash_matches model) es \<Longrightarrow> verified_source f" by blast
        have "source \<noteq> tmp" using f(1) assms(2) by auto
        then have "(v(tmp \<mapsto> [])) source = Some f" using f(1) by (simp add: v with_dirs_there)
        then have "verified_source f \<and> map_of g ''manifest.json'' = Some (written shown y)"
          using fill_int8_facts [OF y(2)] y(3) f(2) by auto
        then show ?thesis using y(1,4) f(1) True by (auto simp: v)
      qed (use raised [of n] n(1) in blast)
    qed
  qed
qed

section \<open>The error of a conversion\<close>

lemma nth_concat_rows:
  "\<forall>xs\<in>set xss. length xs = c \<Longrightarrow> i < length xss \<Longrightarrow> j < c \<Longrightarrow> concat xss ! (i * c + j) = xss ! i ! j"
proof (induction xss arbitrary: i)
  case (Cons xs xss)
  then show ?case by (cases i) (simp_all add: nth_append algebra_simps)
qed simp

lemma rows_length: "length xs = r * c \<Longrightarrow> ys \<in> set (rows_of r c xs) \<Longrightarrow> length ys = c"
proof -
  assume a: "length xs = r * c" "ys \<in> set (rows_of r c xs)"
  then obtain i where i: "i < r" "ys = take c (drop (i * c) xs)" by (auto simp: rows_of_def)
  have "Suc i * c \<le> r * c" using i(1) by (intro mult_le_mono1) simp
  then show "length ys = c" using a(1) i(2) by simp
qed

lemma rows_nth: "length xs = r * c \<Longrightarrow> i < r \<Longrightarrow> j < c \<Longrightarrow> rows_of r c xs ! i ! j = xs ! (i * c + j)"
proof -
  assume a: "length xs = r * c" "i < r" "j < c"
  have "Suc i * c \<le> r * c" using a(2) by (intro mult_le_mono1) simp
  then show ?thesis using a by (simp add: rows_of_def)
qed

lemma length_rows [simp]: "length (rows_of r c xs) = r"
  by (simp add: rows_of_def)

text \<open>Every finite number of the format is below \<open>2 ^ 128\<close>, so a scale is written as itself.\<close>

lemma fin_value_bound: "\<bar>fin_value w\<bar> < 2 ^ 128"
proof -
  define E M where "E = unat w div 2 ^ 23 mod 256" and "M = unat w mod 2 ^ 23"
  have E: "E < 256" and M: "M < 2 ^ 23" by (simp_all add: E_def M_def)
  define q where "q = (if E = 0 then of_nat M * pow2 (- 149) else of_nat (M + 2 ^ 23) * pow2 (int E - 150))"
  have "q < 2 ^ 128" if "E \<noteq> 255"
  proof (cases "E = 0")
    case True
    have "of_nat M < (of_nat (2 ^ 23) :: rat)" using M by (simp only: of_nat_less_iff)
    then have "of_nat M * pow2 (- 149) < of_nat (2 ^ 23) * pow2 (- 149)" by (intro mult_strict_right_mono) simp_all
    also have "\<dots> < 2 ^ 128" by (simp add: pow2_def)
    finally show ?thesis using True by (simp add: q_def)
  next
    case False
    have "of_nat (M + 2 ^ 23) < (of_nat (2 ^ 24) :: rat)" using M by (simp only: of_nat_less_iff) simp
    then have "of_nat (M + 2 ^ 23) * pow2 (int E - 150) < of_nat (2 ^ 24) * pow2 (int E - 150)"
      by (intro mult_strict_right_mono) simp_all
    also have "\<dots> \<le> of_nat (2 ^ 24) * pow2 104"
      using E that by (intro mult_left_mono pow2_mono) simp_all
    also have "\<dots> = 2 ^ 128" by (simp add: pow2_def)
    finally show ?thesis using False by (simp add: q_def)
  qed
  moreover have "0 \<le> q" by (simp add: q_def less_imp_le)
  moreover have "f32_value w = (if E = 255 then (if M \<noteq> 0 then NaN else if 2 ^ 31 \<le> unat w then NInf else PInf)
      else Fin (if 2 ^ 31 \<le> unat w then - q else q))"
    unfolding f32_value_def Let_def E_def M_def q_def by simp
  ultimately show ?thesis by (simp add: fin_value_def)
qed

lemma peak_less: "\<forall>v\<in>set vs. \<bar>v\<bar> < B \<Longrightarrow> 0 < B \<Longrightarrow> peak vs < B"
  by (induction vs) (auto simp: peak_def)

lemma row_scale_bits:
  assumes "\<forall>v\<in>set vs. \<bar>v\<bar> < 2 ^ 128"
  shows "f32_value (f32_bits (row_scale vs)) = Fin (row_scale vs)"
proof -
  have one: "represented binary32 1" by (rule representedI [of _ 1 0]) (simp_all add: binary32_def pow2_def)
  have low: "represented binary32 tiny" by (rule representedI [of _ 1 "- 126"]) (simp_all add: binary32_def tiny_def)
  have rep: "represented binary32 (row_scale vs)"
    using one low r32_represented by (simp add: row_scale_def max_def)
  have top: "represented binary32 (pow2 122)" by (rule representedI [of _ 1 122]) (simp_all add: binary32_def)
  have "peak vs / 127 \<le> pow2 122" using peak_less [OF assms] by (simp add: pow2_def)
  then have "r32 (peak vs / 127) \<le> pow2 122" using peak_nonneg [of vs] by (intro round_le_represented [OF top]) simp_all
  moreover have "tiny \<le> pow2 122" unfolding tiny_def by (rule pow2_mono) simp
  moreover have "(1 :: rat) \<le> pow2 122" by (simp add: pow2_def)
  ultimately have "row_scale vs \<le> pow2 122" by (simp add: row_scale_def)
  also have "pow2 122 < 2 ^ 128" by (simp add: pow2_def)
  finally have "\<bar>row_scale vs\<bar> < 2 ^ 128" using row_scale_pos [of vs] by simp
  then show ?thesis by (rule f32_value_bits [OF rep])
qed

lemma sint_byte: "\<bar>n\<bar> \<le> 127 \<Longrightarrow> sint (word_of_int n :: byte) = n"
  by (simp add: int_word_sint)

text \<open>The scale of row \<open>i\<close> and the integer at \<open>(i, j)\<close>, read back from the bytes of a converted matrix.\<close>

definition scale_at :: "nat \<Rightarrow> nat \<Rightarrow> bytes \<Rightarrow> nat \<Rightarrow> rat" where
  "scale_at r c out i = fin_value (byte_cells (drop (r * c) out) ! i)"

definition weight_at :: "nat \<Rightarrow> bytes \<Rightarrow> nat \<Rightarrow> nat \<Rightarrow> int" where
  "weight_at c out i j = sint (out ! (i * c + j))"

lemma quantize_matrix_read:
  assumes q: "quantize_matrix r c cs = Inr out" and len: "length cs = r * c" and ij: "i < r" "j < c"
  shows "length out = r * c + 4 * r"
    "scale_at r c out i = row_scale (rows_of r c (map fin_value cs) ! i)"
    "weight_at c out i j = narrow round_by_sum (row_scale (rows_of r c (map fin_value cs) ! i)) (fin_value (cs ! (i * c + j)))"
    "fin_value (cs ! (i * c + j)) \<in> set (rows_of r c (map fin_value cs) ! i)"
proof -
  let ?rows = "rows_of r c (map fin_value cs)"
  let ?ws = "map (\<lambda>vs. map (\<lambda>v. word_of_int (narrow round_by_sum (row_scale vs) v) :: byte) vs) ?rows"
  have out: "out = concat ?ws @ cell_bytes (map (\<lambda>vs. f32_bits (row_scale vs)) ?rows)"
    using q ij by (simp add: quantize_matrix_def Let_def split: if_splits)
  have rl: "\<forall>ys\<in>set ?rows. length ys = c" using rows_length [of "map fin_value cs"] len by simp
  have wl: "\<forall>ws\<in>set ?ws. length ws = c" using rl by simp
  have cl: "length (concat ?ws) = r * c"
    using rl by (simp add: length_concat o_def sum_list_triv cong: map_cong)
  show "length out = r * c + 4 * r" using cl by (simp add: out)
  have row: "?rows ! i \<in> set ?rows" using ij by simp
  have v: "?rows ! i ! j = fin_value (cs ! (i * c + j))"
  proof -
    have "Suc i * c \<le> r * c" using ij by (intro mult_le_mono1) simp
    then show ?thesis using rows_nth [of "map fin_value cs" r c i j] len ij by simp
  qed
  have mem: "?rows ! i ! j \<in> set (?rows ! i)" using rl row ij by simp
  then show "fin_value (cs ! (i * c + j)) \<in> set (?rows ! i)" using v by simp
  have "set (?rows ! i) \<subseteq> fin_value ` set cs"
    using ij by (auto simp: rows_of_def dest!: in_set_takeD in_set_dropD)
  then have "\<forall>v\<in>set (?rows ! i). \<bar>v\<bar> < 2 ^ 128" using fin_value_bound by blast
  then have "fin_value (f32_bits (row_scale (?rows ! i))) = row_scale (?rows ! i)"
    using row_scale_bits by (simp add: fin_value_def)
  then show "scale_at r c out i = row_scale (?rows ! i)" using cl ij by (simp add: scale_at_def out)
  have lt: "i * c + j < r * c" using ij by (metis add.commute add_less_cancel_right less_le_trans mult_Suc mult_le_mono1 Suc_leI)
  have "out ! (i * c + j) = ?ws ! i ! j"
    using nth_concat_rows [OF wl, of i j] ij cl lt by (simp add: out nth_append)
  also have "\<dots> = word_of_int (narrow round_by_sum (row_scale (?rows ! i)) (?rows ! i ! j))"
    using ij rl row by simp
  finally have o: "out ! (i * c + j) = word_of_int (narrow round_by_sum (row_scale (?rows ! i)) (?rows ! i ! j))" .
  have "\<bar>narrow round_by_sum (row_scale (?rows ! i)) (?rows ! i ! j)\<bar> \<le> 127"
    using narrow_unclipped [OF near_by_sum mem] by simp
  then show "weight_at c out i j = narrow round_by_sum (row_scale (?rows ! i)) (fin_value (cs ! (i * c + j)))"
    using o v by (simp add: weight_at_def sint_byte)
qed

text \<open>
  C11: the error of a conversion.  Each number of a finite matrix is read back from the converted bytes as an
  integer of at most 127 times the scale of its row, off by no more than half a scale and a little: the
  rounding of the quotient to \<open>float32\<close> costs at most \<open>2 ^ -16\<close> of it.  No integer is ever clipped.
\<close>

theorem quantize_error:
  assumes "length cs = r * c" "finite_cells cs" "i < r" "j < c"
  shows "\<exists>out. quantize_matrix r c cs = Inr out \<and> length out = r * c + 4 * r \<and>
    (let s = scale_at r c out i; q = weight_at c out i j; v = fin_value (cs ! (i * c + j)) in
      0 < s \<and> \<bar>q\<bar> \<le> 127 \<and> q = round_by_sum (r32 (v / s)) \<and> \<bar>of_int q * s - v\<bar> \<le> s * (1 / 2 + 1 / 2 ^ 16))"
proof -
  obtain out where out: "quantize_matrix r c cs = Inr out" using assms(4) by (simp add: quantize_matrix_def Let_def)
  note read = quantize_matrix_read [OF out assms(1,3,4)]
  show ?thesis using out read(1) narrow_error [OF near_by_sum read(4)] narrow_unclipped [OF near_by_sum read(4)] row_scale_pos
    by (intro exI [of _ out]) (simp add: read(2,3) Let_def pow2_def)
qed

text \<open>
  C38: the two tools round alike but for one quotient.  For every number of a finite matrix, with \<open>x\<close> its
  quotient by the scale of its row, the integer the pack converter stores is the one \<open>round_by_fraction\<close>,
  the way of \<open>tools/analyze_quantized_changes.py\<close>, gives for \<open>x\<close>, unless \<open>x\<close> is plus or minus the largest
  number below a half: there the converter stores one and the other tool gives zero.  The latter is always
  half away from zero, which is what \<open>f32::round\<close> of Rust does.
\<close>

theorem quantize_rounding:
  assumes "length cs = r * c" "finite_cells cs" "i < r" "j < c" "quantize_matrix r c cs = Inr out"
  shows "let x = r32 (fin_value (cs ! (i * c + j)) / scale_at r c out i); q = weight_at c out i j in
    round_by_fraction x = round_half_away x \<and> (q = round_by_fraction x \<longleftrightarrow> \<bar>x\<bar> \<noteq> below_half) \<and>
    (\<bar>x\<bar> = below_half \<longrightarrow> \<bar>q\<bar> = 1 \<and> round_by_fraction x = 0)"
proof -
  note read = quantize_matrix_read [OF assms(5,1,3,4)]
  let ?x = "r32 (fin_value (cs ! (i * c + j)) / scale_at r c out i)"
  have q: "weight_at c out i j = round_by_sum ?x" using narrow_unclipped [OF near_by_sum read(4)] by (simp add: read(2,3))
  have x: "represented binary32 ?x" by (rule r32_represented)
  have small: "\<bar>?x\<bar> < 2 ^ 22" using scaled_bound [OF read(4)] by (simp add: read(2))
  note fraction = round_by_fraction_exact [OF x small]
  show ?thesis
  proof (cases "\<bar>?x\<bar> = below_half")
    case True
    then show ?thesis using round_by_sum_below_half [OF True] q by (auto simp: Let_def fraction)
  next
    case False
    then show ?thesis using round_by_sum_exact [OF x small] q by (simp add: Let_def fraction)
  qed
qed

text \<open>A row of 127 and the largest number below a half.\<close>

definition sample_row :: "cell list" where
  "sample_row = [0x42FE0000, 0x3EFFFFFF]"

lemma sample_values: "map fin_value sample_row = [127, below_half]" "finite_cells sample_row"
proof -
  have "f32_value 0x42FE0000 = Fin 127" using f32_fields [of 133 8257536 False] by (simp add: pow2_def)
  moreover have "f32_value 0x3EFFFFFF = Fin below_half"
    using f32_fields [of 125 8388607 False] by (simp add: pow2_def below_half_def)
  ultimately show "map fin_value sample_row = [127, below_half]" "finite_cells sample_row"
    by (simp_all add: sample_row_def fin_value_def finite_cells_def)
qed

theorem quantize_error_witness:
  "\<exists>out. quantize_matrix 1 2 sample_row = Inr out \<and> length out = 6 \<and> \<bar>weight_at 2 out 0 1\<bar> \<le> 127 \<and>
    \<bar>of_int (weight_at 2 out 0 1) * scale_at 1 2 out 0 - below_half\<bar> \<le> scale_at 1 2 out 0 * (1 / 2 + 1 / 2 ^ 16)"
proof -
  have "fin_value (sample_row ! (0 * 2 + 1)) = below_half" "length sample_row = 1 * 2"
    using sample_values(1) by (simp_all add: sample_row_def)
  then show ?thesis using quantize_error [of sample_row 1 2 0 1] sample_values(2) by (auto simp: Let_def)
qed

theorem quantize_rounding_witness:
  "\<exists>out. quantize_matrix 1 2 sample_row = Inr out \<and> \<bar>weight_at 2 out 0 1\<bar> = 1 \<and>
    round_by_fraction (r32 (fin_value (sample_row ! 1) / scale_at 1 2 out 0)) = 0"
proof -
  have len: "length sample_row = 1 * 2" by (simp add: sample_row_def)
  obtain out where out: "quantize_matrix 1 2 sample_row = Inr out" by (simp add: quantize_matrix_def Let_def)
  have "scale_at 1 2 out 0 = row_scale [127, below_half]"
    using quantize_matrix_read(2) [OF out len, of 0 0] sample_values(1) by (simp add: rows_of_def)
  also have "\<dots> = 1"
  proof -
    have "peak [127, below_half] = 127" by (simp add: peak_def below_half_def pow2_def)
    moreover have "r32 1 = 1" using round_rat_of_int [of 1 binary32] by (simp add: binary32_def)
    moreover have "tiny \<le> 1" by (simp add: tiny_def pow2_def)
    ultimately show ?thesis by (simp add: row_scale_def max_def)
  qed
  finally have s: "scale_at 1 2 out 0 = 1" .
  have v: "fin_value (sample_row ! 1) = below_half" using sample_values(1) by (simp add: sample_row_def)
  have "represented binary32 below_half"
    by (rule representedI [of _ "2 ^ 24 - 1" "- 25"]) (simp_all add: below_half_def pow2_def binary32_def)
  then have x: "\<bar>r32 (below_half / 1)\<bar> = below_half" by (simp add: round_represented below_half_def pow2_def)
  from quantize_rounding [OF len sample_values(2) _ _ out, of 0 1] show ?thesis
    using out s v x by (intro exI [of _ out]) (simp add: Let_def)
qed

end
