(* ===== verification/Pack_Samples.thy ===== *)
theory Pack_Samples
  imports Int8_Pack
begin

text \<open>
  A checkpoint small enough to be exported inside the logic: one layer of each kind, two hidden units, all
  weights zero.  The theorems on the exporter and the converter are applied to it.
\<close>

section \<open>A sample checkpoint\<close>

definition sample_config_text :: string where
  "sample_config_text = ''{\"hidden_size\": 2, \"vocab_size\": 5, \"layers\": 1, \"attention_heads\": 1, \"decision_heads\": 1, \"decision_layers\": 1, \"global_every\": 1, \"local_attention\": 1, \"qtypes\": 3, \"mask_token_id\": 3, \"intermediate_size\": 1, \"decision_ff\": 1, \"norm_eps\": 1, \"decision_norm_eps\": 1, \"scorer_norm_eps\": 1, \"global_rope_theta\": 2, \"local_rope_theta\": 2, \"decision_activation\": \"Relu\", \"first_layer_attention_norm\": false}''"

definition sample_config :: json where
  "sample_config = JObj [(''hidden_size'', JInt 2), (''vocab_size'', JInt 5), (''layers'', JInt 1), (''attention_heads'', JInt 1),
     (''decision_heads'', JInt 1), (''decision_layers'', JInt 1), (''global_every'', JInt 1), (''local_attention'', JInt 1),
     (''qtypes'', JInt 3), (''mask_token_id'', JInt 3), (''intermediate_size'', JInt 1), (''decision_ff'', JInt 1),
     (''norm_eps'', JInt 1), (''decision_norm_eps'', JInt 1), (''scorer_norm_eps'', JInt 1),
     (''global_rope_theta'', JInt 2), (''local_rope_theta'', JInt 2), (''decision_activation'', JStr ''Relu''),
     (''first_layer_attention_norm'', JBool False)]"

definition sample_tensors :: "(string \<times> tensor) list" where
  "sample_tensors = [(''v1'', zeros [1]), (''v2'', zeros [2]), (''v6'', zeros [6]), (''m12'', zeros [1, 2]),
     (''m22'', zeros [2, 2]), (''m52'', zeros [5, 2]), (''m62'', zeros [6, 2])]"

definition sample_mapping_text :: string where
  "sample_mapping_text = ''{\"decision.0.linear1.bias\":\"v1\",\"decision.0.linear1.weight\":\"m12\",\"decision.0.linear2.bias\":\"v2\",\"decision.0.linear2.weight\":{\"source\":\"m12\",\"transpose\":true},\"decision.0.norm1.bias\":\"v2\",\"decision.0.norm1.weight\":\"v2\",\"decision.0.norm2.bias\":\"v2\",\"decision.0.norm2.weight\":\"v2\",\"decision.0.out.bias\":\"v2\",\"decision.0.out.weight\":\"m22\",\"decision.0.qkv.bias\":\"v6\",\"decision.0.qkv.weight\":\"m62\",\"embeddings.norm.weight\":\"v2\",\"embeddings.weight\":\"m52\",\"encoder.0.mlp_norm.weight\":\"v2\",\"encoder.0.out.weight\":\"m22\",\"encoder.0.qkv.weight\":\"m62\",\"encoder.0.wi.weight\":\"m22\",\"encoder.0.wo.weight\":{\"source\":\"m12\",\"transpose\":true},\"final_norm.weight\":\"v2\",\"qtype.weight\":{\"concat\":[\"m12\",\"m22\"],\"axis\":0},\"scorer.dense.bias\":\"v2\",\"scorer.dense.weight\":\"m22\",\"scorer.norm.bias\":\"v2\",\"scorer.norm.weight\":\"v2\",\"scorer.out.bias\":\"v1\",\"scorer.out.weight\":\"m12\"}''"

definition sample_mapping :: json where
  "sample_mapping = JObj
    [(''decision.0.linear1.bias'', JStr ''v1''), (''decision.0.linear1.weight'', JStr ''m12''),
     (''decision.0.linear2.bias'', JStr ''v2''),
     (''decision.0.linear2.weight'', JObj [(''source'', JStr ''m12''), (''transpose'', JBool True)]),
     (''decision.0.norm1.bias'', JStr ''v2''), (''decision.0.norm1.weight'', JStr ''v2''),
     (''decision.0.norm2.bias'', JStr ''v2''), (''decision.0.norm2.weight'', JStr ''v2''),
     (''decision.0.out.bias'', JStr ''v2''), (''decision.0.out.weight'', JStr ''m22''),
     (''decision.0.qkv.bias'', JStr ''v6''), (''decision.0.qkv.weight'', JStr ''m62''),
     (''embeddings.norm.weight'', JStr ''v2''), (''embeddings.weight'', JStr ''m52''),
     (''encoder.0.mlp_norm.weight'', JStr ''v2''), (''encoder.0.out.weight'', JStr ''m22''),
     (''encoder.0.qkv.weight'', JStr ''m62''), (''encoder.0.wi.weight'', JStr ''m22''),
     (''encoder.0.wo.weight'', JObj [(''source'', JStr ''m12''), (''transpose'', JBool True)]),
     (''final_norm.weight'', JStr ''v2''),
     (''qtype.weight'', JObj [(''concat'', JList [JStr ''m12'', JStr ''m22'']), (''axis'', JInt 0)]),
     (''scorer.dense.bias'', JStr ''v2''), (''scorer.dense.weight'', JStr ''m22''),
     (''scorer.norm.bias'', JStr ''v2''), (''scorer.norm.weight'', JStr ''v2''),
     (''scorer.out.bias'', JStr ''v1''), (''scorer.out.weight'', JStr ''m12'')]"

definition sample_layout :: layout where
  "sample_layout =
    [(''decision.0.linear1.bias'', [1]), (''decision.0.linear1.weight'', [1, 2]),
     (''decision.0.linear2.bias'', [2]), (''decision.0.linear2.weight'', [2, 1]), (''decision.0.norm1.bias'', [2]),
     (''decision.0.norm1.weight'', [2]), (''decision.0.norm2.bias'', [2]), (''decision.0.norm2.weight'', [2]),
     (''decision.0.out.bias'', [2]), (''decision.0.out.weight'', [2, 2]), (''decision.0.qkv.bias'', [6]),
     (''decision.0.qkv.weight'', [6, 2]), (''embeddings.norm.weight'', [2]), (''embeddings.weight'', [5, 2]),
     (''encoder.0.mlp_norm.weight'', [2]), (''encoder.0.out.weight'', [2, 2]), (''encoder.0.qkv.weight'', [6, 2]),
     (''encoder.0.wi.weight'', [2, 2]), (''encoder.0.wo.weight'', [2, 1]), (''final_norm.weight'', [2]),
     (''qtype.weight'', [3, 2]), (''scorer.dense.bias'', [2]), (''scorer.dense.weight'', [2, 2]),
     (''scorer.norm.bias'', [2]), (''scorer.norm.weight'', [2]), (''scorer.out.bias'', [1]),
     (''scorer.out.weight'', [1, 2])]"

lemma sample_config_read: "json_loads sample_config_text = Inr sample_config"
  by code_simp

lemma sample_valid: "validate_config sample_config = Inr ()"
  by code_simp

lemma sample_shapes: "shapes sample_config = Inr sample_layout"
  by code_simp

lemma sample_mapping_read: "json_loads sample_mapping_text = Inr sample_mapping"
  by code_simp

lemma sample_mapping_names: "mapping_names sample_mapping = Inr (fst ` set sample_layout)"
  by (simp add: mapping_names_def keys_of_def sample_mapping_def sample_layout_def)

lemma sample_resolved:
  "case resolved sample_mapping sample_tensors sample_layout of
     Inl _ \<Rightarrow> False
   | Inr ts \<Rightarrow> list_all2 (\<lambda>(_, shape) t. map int (dims t) = shape \<and> list_all (\<lambda>w. w = 0) (cells t)) sample_layout ts \<and>
       sum_list (map (\<lambda>t. length (cells t)) ts) < 100"
  by code_simp

definition sample_export :: export_args where
  "sample_export = \<lparr>ex_source = [(''w.safetensors'', sample_tensors)], ex_config = encode sample_config_text,
     ex_mapping = encode sample_mapping_text, ex_tokenizer = encode ''{}'', ex_out = ''out/pack'', ex_repo = ''repo'',
     ex_revision = ''main'', ex_qtypes = [0, 2, 1], ex_test_only = True\<rparr>"

lemma sample_fields: "ex_out sample_export = ''out/pack''" "ex_tokenizer sample_export = encode ''{}''"
  by (simp_all add: sample_export_def)

lemma sample_source: "source_reader [(''w.safetensors'', sample_tensors)] = Inr sample_tensors"
  by (simp add: source_reader_def sample_tensors_def suffix_of_def)

lemma sample_arrays: "checkpoint_arrays (ex_source sample_export)"
  by (simp add: checkpoint_arrays_def sample_export_def sample_tensors_def array_def zeros_def)

lemma sample_inputs: "export_inputs sample_export = Inr (sample_config, sample_mapping, sample_layout, sample_tensors)"
proof -
  have empty: "json_loads ''{}'' = Inr (JObj [])" by code_simp
  have "json_loads_bytes (encode sample_config_text) = Inr sample_config"
    "json_loads_bytes (encode sample_mapping_text) = Inr sample_mapping" "json_loads_bytes (encode ''{}'') = Inr (JObj [])"
    using sample_config_read sample_mapping_read empty by (simp_all add: json_loads_bytes_def utf8_decode_encode)
  moreover have "length (encode ''{}'') = 2" by (simp add: encode_def utf8_char_def)
  ultimately show ?thesis
    by (simp add: export_inputs_def sample_export_def raise_if_def raise_unless_def sample_valid sample_shapes
        sample_mapping_names sample_source)
qed

lemma sample_fits:
  "\<exists>ts. resolved sample_mapping sample_tensors sample_layout = Inr ts \<and> list_all2 fits sample_layout ts \<and>
     list_all (\<lambda>t. 4 * length (cells t) \<le> MAX_TENSOR) ts \<and> 4 * sum_list (map (\<lambda>t. length (cells t)) ts) \<le> MAX_TOTAL"
proof -
  obtain ts where ts: "resolved sample_mapping sample_tensors sample_layout = Inr ts"
      "list_all2 (\<lambda>(_, shape) t. map int (dims t) = shape \<and> list_all (\<lambda>w. w = 0) (cells t)) sample_layout ts"
      "sum_list (map (\<lambda>t. length (cells t)) ts) < 100"
    using sample_resolved by (auto split: sum.splits)
  have "list_all2 fits sample_layout ts"
    using ts(2) by (rule list_all2_mono) (auto simp: fits_def finite_cells_def list_all_iff zero_value)
  moreover have "list_all (\<lambda>t. length (cells t) < 100) ts"
    using ts(3) member_le_sum_list [of _ "map (\<lambda>t. length (cells t)) ts"] by (fastforce simp: list_all_iff)
  then have "list_all (\<lambda>t. 4 * length (cells t) \<le> MAX_TENSOR) ts"
    by (rule list.pred_mono_strong) (simp add: MAX_TENSOR_def)
  ultimately show ?thesis using ts(1,3) by (auto simp: MAX_TOTAL_def)
qed

text \<open>The configuration has no floating-point number, so their text does not matter.\<close>

definition no_text :: "rat \<Rightarrow> string" where
  "no_text q = []"

lemma sample_reads_back: "config_reads_back no_text sample_export"
proof -
  have "dumpable no_text sample_config" by (simp add: sample_config_def)
  moreover have "json_loads_bytes (ex_config sample_export) = Inr sample_config"
    using sample_config_read by (simp add: sample_export_def json_loads_bytes_def utf8_decode_encode)
  ultimately show ?thesis by (simp add: config_reads_back_def)
qed

lemma sample_paths: "beside ''out/tmp'' ''out/pack''" "ancestors ''out/pack'' = [''out'']" "beside ''tmp'' ''int8''" "ancestors ''int8'' = []"
  by (simp_all add: beside_def ancestors_def upt_rec)

lemma sample_exported: "\<exists>m w'. export no_faults no_text ''out/tmp'' sample_export Map.empty = (Inr m, w')"
  using sample_fits sample_paths
  by (elim exE conjE, intro export_succeeds [OF sample_inputs]) (simp_all add: sample_export_def)

section \<open>Witnesses\<close>

theorem export_all_or_nothing_witness:
  "\<exists>m w' f. export no_faults no_text ''out/tmp'' sample_export Map.empty = (Inr m, w') \<and> w' = [''out'' \<mapsto> [], ''out/pack'' \<mapsto> f] \<and>
     (\<exists>kvs c entries model. canonical_pack f kvs c entries model (encode ''{}''))"
proof -
  obtain m w' where run: "export no_faults no_text ''out/tmp'' sample_export Map.empty = (Inr m, w')" using sample_exported by blast
  have tmp: "beside ''out/tmp'' (ex_out sample_export)" using sample_paths(1) by (simp add: sample_fields)
  from export_all_or_nothing [OF run refl tmp sample_arrays sample_reads_back] obtain kvs f c entries model where
    f: "w' = (with_dirs (ancestors (ex_out sample_export)) Map.empty)(ex_out sample_export \<mapsto> f)"
      "canonical_pack f kvs c entries model (encode ''{}'')" by (auto simp: sample_fields)
  have "with_dirs [''out''] Map.empty = [''out'' \<mapsto> []]" by (simp add: with_dirs_def fun_eq_iff)
  then have "w' = [''out'' \<mapsto> [], ''out/pack'' \<mapsto> f]" using f(1) sample_paths(2) by (simp add: sample_fields)
  with run f(2) show ?thesis by blast
qed

theorem export_holds_checkpoint_witness:
  "\<exists>m w' f (entries :: tensor_entry list) model.
     export no_faults no_text ''out/tmp'' sample_export Map.empty = (Inr m, w') \<and> w' ''out/pack'' = Some f \<and>
     map_of f ''model.bin'' = Some model \<and> map en_name entries = map fst sample_layout \<and>
     length model = sum_list (map en_length entries)"
proof -
  obtain m w' where run: "export no_faults no_text ''out/tmp'' sample_export Map.empty = (Inr m, w')" using sample_exported by blast
  have "beside ''out/tmp'' (ex_out sample_export)" using sample_paths(1) by (simp add: sample_fields)
  from export_holds_checkpoint [OF run refl this] obtain c mapped expected index f model
      and entries :: "tensor_entry list" where
      e: "export_inputs sample_export = Inr (c, mapped, expected, index)" "w' (ex_out sample_export) = Some f"
      "map_of f ''model.bin'' = Some model" "map (\<lambda>e. (en_name e, en_shape e)) entries = expected"
      "length model = sum_list (map en_length entries)"
    by blast
  have "expected = sample_layout" using e(1) sample_inputs by simp
  then have "map en_name entries = map fst sample_layout" using arg_cong [OF e(4), of "map fst"] by (simp add: o_def)
  then show ?thesis using run e(3,5) e(2) [unfolded sample_fields] by blast
qed

text \<open>The disk after that export.\<close>

lemma sample_pack:
  "\<exists>w f kvs entries model. w ''out/pack'' = Some f \<and> w ''int8'' = None \<and> w ''tmp'' = None \<and>
     canonical_pack f kvs sample_config entries model (ex_tokenizer sample_export)"
proof -
  obtain m w' where run: "export no_faults no_text ''out/tmp'' sample_export Map.empty = (Inr m, w')" using sample_exported by blast
  have tmp: "beside ''out/tmp'' (ex_out sample_export)" using sample_paths(1) by (simp add: sample_fields)
  obtain f model and entries :: "tensor_entry list" where
      e: "w' = (with_dirs (ancestors (ex_out sample_export)) Map.empty)(ex_out sample_export \<mapsto> f)"
      "m = pack_manifest sample_export sample_config entries (length model)"
      "length model \<le> MAX_TOTAL" "map (\<lambda>e. (en_name e, en_shape e)) entries = sample_layout"
      "laid_out (holds_tensor sample_mapping sample_tensors) 0 entries model" "map_of f ''manifest.json'' = Some (written no_text m)"
      "map_of f ''model.bin'' = Some model" "map_of f ''tokenizer.json'' = Some (ex_tokenizer sample_export)"
    using export_outcome [OF run refl tmp] sample_inputs by auto
  obtain kvs where kvs: "m = JObj kvs" using e(2) by (simp add: pack_manifest_def)
  have "canonical_pack f kvs sample_config entries model (ex_tokenizer sample_export)"
    using e kvs by (intro export_packs [OF sample_inputs sample_arrays _ _ _ _ sample_reads_back]) simp_all
  moreover have "w' ''out/pack'' = Some f" "w' ''int8'' = None" "w' ''tmp'' = None"
    by (simp_all add: e(1) sample_fields sample_paths with_dirs_def)
  ultimately show ?thesis by blast
qed

theorem quantize_converts_pack_witness:
  "\<exists>w g m. w ''out/pack'' \<noteq> None \<and>
     quantize no_faults no_text ''tmp'' ''out/pack'' ''int8'' w = (Inr (JObj m), w(''int8'' \<mapsto> g)) \<and>
     map_of m ''format'' = Some (JStr INT8_FORMAT) \<and> map_of m ''config'' = Some sample_config"
proof -
  obtain w f kvs entries model where w: "w ''out/pack'' = Some f" "w ''int8'' = None" "w ''tmp'' = None"
    and pack: "canonical_pack f kvs sample_config entries model (ex_tokenizer sample_export)"
    using sample_pack by blast
  from quantize_converts_pack [OF pack w sample_paths(3), of no_text] w(1) show ?thesis
    unfolding sample_paths(4) with_dirs_Nil by fastforce
qed

theorem quantize_all_or_nothing_witness:
  "\<exists>w f g m. quantize no_faults no_text ''tmp'' ''out/pack'' ''int8'' w = (Inr m, w(''int8'' \<mapsto> g)) \<and>
     w ''out/pack'' = Some f \<and> verified_source f"
proof -
  obtain w f kvs entries model where w: "w ''out/pack'' = Some f" "w ''int8'' = None" "w ''tmp'' = None"
    and pack: "canonical_pack f kvs sample_config entries model (ex_tokenizer sample_export)"
    using sample_pack by blast
  obtain m g where run: "quantize no_faults no_text ''tmp'' ''out/pack'' ''int8'' w = (Inr m, w(''int8'' \<mapsto> g))"
    using canonical_converted [OF pack w sample_paths(3), of no_text] unfolding sample_paths(4) with_dirs_Nil by blast
  from quantize_all_or_nothing [OF run w(3) sample_paths(3)] run w(1) show ?thesis by auto
qed

end
