(* ===== verification/Pack_Bridge.thy ===== *)
theory Pack_Bridge
  imports Int8_Pack
begin

text \<open>
  \<open>tools/laya_port_bridge.py\<close>: the draft of a configuration and of a mapping from an upstream checkpoint,
  and the report on what they leave open.  The web request is the parameter \<open>fetch\<close>: the bytes of a
  location, or its first ones when a limit is given.  The printed lines are left out.
\<close>

section \<open>The upstream checkpoint\<close>

definition REPO :: string where
  "REPO = ''convaiinnovations/laya-typed-decisions''"

definition REVISION :: string where
  "REVISION = ''f9ab0b228f0fc0f14d873dbc99038f135c2da1b2''"

definition BASE :: string where
  "BASE = ''https://huggingface.co/'' @ REPO @ ''/resolve/'' @ REVISION"

definition UPSTREAM_SPECIAL :: "(string \<times> int) list" where
  "UPSTREAM_SPECIAL = [(''cls'', 50281), (''sep'', 50282), (''pad'', 50283), (''mask'', 50284)]"

text \<open>\<open>header.pop("__metadata__", None)\<close>.\<close>

definition pop_metadata :: "json \<Rightarrow> json res" where
  "pop_metadata header =
     (case header of
        JObj kvs \<Rightarrow> Inr (JObj (filter (\<lambda>(k, _). k \<noteq> ''__metadata__'') kvs))
      | JList _ \<Rightarrow> Inl TypeError
      | _ \<Rightarrow> Inl AttributeError)"

definition read_header :: "bytes \<Rightarrow> json res" where
  "read_header raw = res_bind (json_loads_bytes raw) pop_metadata"

text \<open>The header of a local file, and of one on the network.\<close>

definition local_header :: "bytes \<Rightarrow> json res" where
  "local_header contents =
     (let length = le_nat (take 8 contents) in read_header (take length (drop 8 contents)))"

definition remote_header :: "(string \<Rightarrow> nat option \<Rightarrow> bytes res) \<Rightarrow> string \<Rightarrow> json res" where
  "remote_header fetch url =
     res_bind (fetch url (Some 8)) (\<lambda>head.
       let length = le_nat head in
       res_bind (fetch url (Some (8 + length))) (\<lambda>raw. read_header (drop 8 raw)))"

section \<open>The configuration\<close>

definition translate_config :: "json \<Rightarrow> json \<Rightarrow> json res" where
  "translate_config upstream agent =
     res_bind (item ''rope_parameters'' upstream) (\<lambda>rope.
     res_bind (item ''vocab_size'' upstream) (\<lambda>vocab.
     res_bind (item ''hidden_size'' upstream) (\<lambda>hidden.
     res_bind (item ''num_hidden_layers'' upstream) (\<lambda>layers.
     res_bind (item ''num_attention_heads'' upstream) (\<lambda>heads.
     res_bind (item ''intermediate_size'' upstream) (\<lambda>inner.
     res_bind (item ''norm_eps'' upstream) (\<lambda>eps.
     res_bind (item ''global_attn_every_n_layers'' upstream) (\<lambda>every.
     res_bind (item ''local_attention'' upstream) (\<lambda>window.
     res_bind (res_bind (item ''full_attention'' rope) (item ''rope_theta'')) (\<lambda>full.
     res_bind (res_bind (item ''sliding_attention'' rope) (item ''rope_theta'')) (\<lambda>sliding.
     res_bind (item ''head_layers'' agent) (\<lambda>decision.
       Inr (JObj
         [(''vocab_size'', vocab), (''hidden_size'', hidden), (''layers'', layers), (''attention_heads'', heads),
          (''intermediate_size'', inner), (''norm_eps'', eps), (''global_every'', every), (''local_attention'', window),
          (''global_rope_theta'', full), (''local_rope_theta'', sliding), (''first_layer_attention_norm'', JBool False),
          (''decision_layers'', decision), (''decision_heads'', heads), (''decision_ff'', JInt 4096),
          (''decision_norm_eps'', eps), (''decision_norm_first'', JBool True), (''decision_activation'', JStr ''Relu''),
          (''scorer_norm_eps'', eps), (''qtypes'', JInt 3),
          (''mask_token_id'', JInt (the (map_of UPSTREAM_SPECIAL ''mask'')))])))))))))))))"

section \<open>The mapping\<close>

type_synonym mapping = "(string \<times> string) list"

text \<open>The names of one layer and their sources.\<close>

definition encoder_mapping :: "nat \<Rightarrow> mapping" where
  "encoder_mapping i =
     (let prefix = ''encoder.layers.'' @ nat_str i; canonical = ''encoder.'' @ nat_str i in
      (if 0 < i then [(canonical @ ''.attn_norm.weight'', prefix @ ''.attn_norm.weight'')] else []) @
      [(canonical @ ''.qkv.weight'', prefix @ ''.attn.Wqkv.weight''),
       (canonical @ ''.out.weight'', prefix @ ''.attn.Wo.weight''),
       (canonical @ ''.mlp_norm.weight'', prefix @ ''.mlp_norm.weight''),
       (canonical @ ''.wi.weight'', prefix @ ''.mlp.Wi.weight''),
       (canonical @ ''.wo.weight'', prefix @ ''.mlp.Wo.weight'')])"

definition decision_mapping :: "nat \<Rightarrow> mapping" where
  "decision_mapping i =
     (let prefix = ''head.layers.'' @ nat_str i; canonical = ''decision.'' @ nat_str i in
      [(canonical @ ''.qkv.weight'', prefix @ ''.self_attn.in_proj_weight''),
       (canonical @ ''.qkv.bias'', prefix @ ''.self_attn.in_proj_bias''),
       (canonical @ ''.out.weight'', prefix @ ''.self_attn.out_proj.weight''),
       (canonical @ ''.out.bias'', prefix @ ''.self_attn.out_proj.bias''),
       (canonical @ ''.norm1.weight'', prefix @ ''.norm1.weight''), (canonical @ ''.norm1.bias'', prefix @ ''.norm1.bias''),
       (canonical @ ''.norm2.weight'', prefix @ ''.norm2.weight''), (canonical @ ''.norm2.bias'', prefix @ ''.norm2.bias''),
       (canonical @ ''.linear1.weight'', prefix @ ''.linear1.weight''), (canonical @ ''.linear1.bias'', prefix @ ''.linear1.bias''),
       (canonical @ ''.linear2.weight'', prefix @ ''.linear2.weight''), (canonical @ ''.linear2.bias'', prefix @ ''.linear2.bias'')])"

definition fixed_mapping :: mapping where
  "fixed_mapping =
     [(''embeddings.weight'', ''encoder.embeddings.tok_embeddings.weight''),
      (''embeddings.norm.weight'', ''encoder.embeddings.norm.weight''),
      (''final_norm.weight'', ''encoder.final_norm.weight''), (''qtype.weight'', ''type_emb.weight''),
      (''scorer.norm.weight'', ''scorer.0.weight''), (''scorer.norm.bias'', ''scorer.0.bias''),
      (''scorer.dense.weight'', ''scorer.1.weight''), (''scorer.dense.bias'', ''scorer.1.bias''),
      (''scorer.out.weight'', ''scorer.3.weight''), (''scorer.out.bias'', ''scorer.3.bias'')]"

text \<open>\<open>build_mapping\<close> with the ranges its arguments give.\<close>

definition mapping_for :: "nat list \<Rightarrow> nat list \<Rightarrow> mapping" where
  "mapping_for layers heads =
     fixed_mapping @ concat (map encoder_mapping layers) @ concat (map decision_mapping heads)"

definition build_mapping :: "json \<Rightarrow> mapping res" where
  "build_mapping c =
     res_bind (item ''hidden_size'' c) (\<lambda>_.
     res_bind (range_of ''layers'' c) (\<lambda>layers.
     res_bind (range_of ''decision_layers'' c) (\<lambda>heads.
       Inr (mapping_for layers heads))))"

definition mapping_json :: "mapping \<Rightarrow> json" where
  "mapping_json m = JObj (map (\<lambda>(k, v). (k, JStr v)) m)"

section \<open>The comparison with the checkpoint\<close>

datatype problem = NotInCheckpoint string string | ShapeDiffers string string json "int list"

text \<open>\<open>list(header[spec]["shape"])\<close>.\<close>

definition header_shape :: "json \<Rightarrow> string \<Rightarrow> json list res" where
  "header_shape header spec =
     res_bind (item spec header) (\<lambda>entry. res_bind (item ''shape'' entry) py_iter)"

definition in_header :: "json \<Rightarrow> string \<Rightarrow> bool" where
  "in_header header spec = (case header of JObj kvs \<Rightarrow> map_of kvs spec \<noteq> None | _ \<Rightarrow> False)"

definition compare_one :: "json \<Rightarrow> layout \<Rightarrow> string \<times> string \<Rightarrow> problem list res" where
  "compare_one header expected = (\<lambda>(canonical, spec).
     if \<not> in_header header spec then Inr [NotInCheckpoint canonical spec]
     else res_bind (header_shape header spec) (\<lambda>actual.
       let want = (case map_of expected canonical of Some s \<Rightarrow> s | None \<Rightarrow> []) in
       Inr (if want \<noteq> [] \<and> \<not> list_all2 (\<lambda>n j. eq_int j n) want actual
            then [ShapeDiffers canonical spec (JList actual) want] else [])))"

definition compare_shapes :: "mapping \<Rightarrow> json \<Rightarrow> layout \<Rightarrow> problem list res" where
  "compare_shapes m header expected =
     res_bind (mapM (compare_one header expected) (by_name m)) (\<lambda>ps. Inr (concat ps))"

section \<open>The report\<close>

definition sort_names :: "string list \<Rightarrow> string list" where
  "sort_names = sort_key (map code)"

text \<open>The number of elements of one tensor of the header.\<close>

definition elements_of :: "json \<Rightarrow> int res" where
  "elements_of entry =
     res_bind (item ''shape'' entry) (\<lambda>j. res_bind (py_iter j) (\<lambda>ds. res_bind (mapM as_int ds) (\<lambda>ns. Inr (prod_list ns))))"

record port_report =
  missing :: "string list"
  unclaimed :: "string list"
  problems :: "problem list"
  elements :: int
  stored_dtype :: "string list"
  stored_bytes :: int
  pack_bytes :: int

text \<open>\<open>sorted({...})\<close> of the types; a list or a dictionary cannot be in a set.\<close>

definition type_name :: "json \<Rightarrow> string res" where
  "type_name entry = res_bind (item ''dtype'' entry) (\<lambda>j. case j of
     JStr s \<Rightarrow> Inr s | JList _ \<Rightarrow> Inl TypeError | JObj _ \<Rightarrow> Inl TypeError | _ \<Rightarrow> Inl OutsideModel)"

definition port_report_of :: "json \<Rightarrow> layout \<Rightarrow> mapping \<Rightarrow> port_report res" where
  "port_report_of header expected m =
     res_bind (compare_shapes m header expected) (\<lambda>ps.
       case header of
         JObj kvs \<Rightarrow>
           res_bind (mapM (\<lambda>(_, entry). elements_of entry) kvs) (\<lambda>ns.
           res_bind (mapM (\<lambda>(_, entry). type_name entry) kvs) (\<lambda>types.
             Inr \<lparr>missing = sort_names (filter (\<lambda>n. n \<notin> fst ` set m) (map fst expected)),
                  unclaimed = sort_names (filter (\<lambda>n. n \<notin> snd ` set m) (map fst kvs)),
                  problems = ps, elements = sum_list ns, stored_dtype = sort_names (remdups types),
                  stored_bytes = sum_list (map (\<lambda>n. n * 2) ns),
                  pack_bytes = sum_list (map (\<lambda>n. n * 4) ns)\<rparr>))
       | _ \<Rightarrow> Inl AttributeError)"

section \<open>The text of the report\<close>

definition ASSUMED_DELTAS :: "(string \<times> string \<times> string \<times> string) list" where
  "ASSUMED_DELTAS = [
    (''tensor namespace'',
     ''embeddings.weight / encoder.{i}.qkv.weight / decision.{i}.qkv.weight'',
     ''encoder.embeddings.tok_embeddings.weight / encoder.layers.{i}.attn.Wqkv.weight / '' @
      ''head.layers.{i}.self_attn.in_proj_weight'',
     ''Every canonical tensor name but one differs. pack_checkpoint.py would have rejected an assumed '' @
      ''mapping.''),
    (''qtype embedding'',
     ''qtype.weight'',
     ''type_emb.weight'',
     ''Same role ([3, hidden] primitive embedding), different name.''),
    (''dtype'',
     ''F32 required by the loader'',
     ''F16 on disk'',
     ''The exporter must cast to F32; the loader rejects non-F32 tensors.''),
    (''scorer'',
     ''norm/dense/out'',
     ''scorer.0 (norm) / scorer.1 (dense) / scorer.3 (out)'',
     ''Dropout modules occupy indices 2 and 4, so `scorer.2` is absent. An index-contiguous guess breaks '' @
      ''here.''),
    (''act head'',
     ''not modelled'',
     ''act_head.0/2 present'',
     ''Escalation head exists upstream. The design says to keep it and skip it only as an output branch; the '' @
      ''loader does not read it yet.''),
    (''mask token id'',
     ''fixture supplies 50283'',
     ''50284 ([PAD] is 50283)'',
     ''A fixture-derived mask id would mark the wrong token and produce plausible-looking but wrong logits.''),
    (''calibration temperature'',
     ''single scalar `temperature`'',
     ''temperature[3] by primitive + `temperature_by_options` by option count'',
     ''Candid `Calibration.temperature` is a scalar. Per-primitive and per-option-count temperatures cannot '' @
      ''be represented without a schema change.''),
    (''embedding/index width'',
     ''hidden_size x vocab_size'',
     ''50368 x 1024 F16'',
     ''Fine as a shape, but see the pack-size finding below.''),
    (''attention normalization'',
     ''encoder.{i}.attn_norm for i>0'',
     ''attn_norm absent on layer 0 only'',
     ''Matches `first_layer_attention_norm=false`. Consistent, not a defect.'')]"

definition OPEN_QUESTIONS :: "string list" where
  "OPEN_QUESTIONS = [
    ''QKV row order inside Wqkv / in_proj_weight (assumed PyTorch Q,K,V; unverified)'',
    ''RoPE layout and whether rotary is applied to Q/K after the head split'',
    ''Sliding-window semantics: upstream `local_attention=128` vs canonical window of local_attention/2'',
    ''Decision head is post-norm upstream pre-LN; confirm norm placement against source'',
    ''Whether the decision head sees the CLS row, pooled row, or mask-marker rows only'',
    ''What `head_max_len=256` and `max_prefixes=6` imply for the 128-token Compact128 profile'',
    ''act_head/escalate must be kept as an output branch; it is not read by the loader yet'']"

definition UPSTREAM_SPECIAL_LITERALS :: "string list" where
  "UPSTREAM_SPECIAL_LITERALS = [''[CLS]'', ''[SEP]'', ''[PAD]'', ''[MASK]'']"

text \<open>The text of a list of dimensions.\<close>

definition dimension_text :: "json \<Rightarrow> string res" where
  "dimension_text j = (case j of
     JInt n \<Rightarrow> Inr (int_str n) | JBool b \<Rightarrow> Inr (if b then ''True'' else ''False'') | _ \<Rightarrow> Inl OutsideModel)"

definition list_text :: "json list \<Rightarrow> string res" where
  "list_text js = res_bind (mapM dimension_text js) (\<lambda>ts. Inr (''['' @ join '', '' ts @ '']''))"

definition problem_text :: "problem \<Rightarrow> string res" where
  "problem_text p = (case p of
     NotInCheckpoint canonical spec \<Rightarrow>
       Inr (canonical @ '': source tensor '' @ [CHR 0x27] @ spec @ [CHR 0x27] @ '' not in checkpoint'')
   | ShapeDiffers canonical spec actual want \<Rightarrow>
       res_bind (py_iter actual) (\<lambda>js. res_bind (list_text js) (\<lambda>a. res_bind (list_text (map JInt want)) (\<lambda>e.
         Inr (canonical @ '': '' @ spec @ '' shape '' @ a @ '' != canonical '' @ e)))))"

text \<open>\<open>round(elements / 1e6, 1)\<close>.\<close>

definition millions :: "int \<Rightarrow> json res" where
  "millions n =
     (case fl_round binary64 (of_int n) of
        Fin q \<Rightarrow> let x = round_rat binary64 (q / 1000000) in
          Inr (JFloat (Fin (round_rat binary64 (of_int (round_even (x * 10)) / 10))))
      | _ \<Rightarrow> Inl OverflowError)"

definition strings :: "string list \<Rightarrow> json" where
  "strings xs = JList (map JStr xs)"

definition report_json :: "json \<Rightarrow> json \<Rightarrow> port_report \<Rightarrow> json res" where
  "report_json upstream agent report =
     res_bind (get ''architectures'' upstream) (\<lambda>architectures.
     res_bind (millions (elements report)) (\<lambda>params.
     res_bind (get ''temperature'' agent) (\<lambda>by_primitive.
     res_bind (get ''temperature_by_options'' agent) (\<lambda>by_count.
     res_bind (get ''training'' agent) (\<lambda>training.
     res_bind (mapM problem_text (problems report)) (\<lambda>found.
       Inr (JObj
         [(''source_repo'', JStr REPO), (''source_revision'', JStr REVISION), (''upstream_architectures'', architectures),
          (''params_millions'', params), (''stored_dtype'', strings (stored_dtype report)),
          (''stored_bytes'', JInt (stored_bytes report)), (''canonical_f32_pack_bytes'', JInt (pack_bytes report)),
          (''canonical_f32_pack_limit_bytes'', JInt (int MAX_TOTAL)),
          (''special_tokens'', JObj (map (\<lambda>(k, n). (k, JInt n)) UPSTREAM_SPECIAL)),
          (''special_token_literals'', strings UPSTREAM_SPECIAL_LITERALS),
          (''temperatures'', JObj [(''by_primitive'', by_primitive), (''by_option_count'', by_count)]),
          (''training'', training),
          (''deltas_from_assumption'', JList (map (\<lambda>(aspect, assumed, actual, why). JObj
             [(''aspect'', JStr aspect), (''canonical_assumed'', JStr assumed), (''upstream_actual'', JStr actual),
              (''consequence'', JStr why)]) ASSUMED_DELTAS)),
          (''canonical_tensors_missing_from_mapping'', strings (missing report)),
          (''upstream_tensors_with_no_canonical_slot'', strings (unclaimed report)),
          (''shape_or_presence_problems'', strings found),
          (''open_questions_not_resolved_here'', strings OPEN_QUESTIONS), (''parity_verified'', JBool False)])))))))"

text \<open>What both commands compute: the configuration, the mapping and the report.\<close>

definition source_header :: "(string \<Rightarrow> nat option \<Rightarrow> bytes res) \<Rightarrow> bytes option \<Rightarrow> json res" where
  "source_header fetch header_file =
     (case header_file of
        Some contents \<Rightarrow> local_header contents
      | None \<Rightarrow> remote_header fetch (BASE @ ''/model.safetensors''))"

definition discover ::
  "(string \<Rightarrow> nat option \<Rightarrow> bytes res) \<Rightarrow> bytes option \<Rightarrow> (json \<times> json \<times> json \<times> mapping \<times> port_report) res" where
  "discover fetch header_file =
     res_bind (source_header fetch header_file) (\<lambda>header.
     res_bind (res_bind (fetch (BASE @ ''/encoder/config.json'') None) json_loads_bytes) (\<lambda>upstream.
     res_bind (res_bind (fetch (BASE @ ''/rl_agent_config.json'') None) json_loads_bytes) (\<lambda>agent.
     res_bind (translate_config upstream agent) (\<lambda>c.
     res_bind (shapes c) (\<lambda>expected.
     res_bind (build_mapping c) (\<lambda>m.
     res_bind (port_report_of header expected m) (\<lambda>report.
       Inr (upstream, agent, c, m, report))))))))"

section \<open>The files and the export\<close>

definition draft_files :: "(rat \<Rightarrow> string) \<Rightarrow> json \<Rightarrow> json \<Rightarrow> json \<Rightarrow> mapping \<Rightarrow> json \<Rightarrow> (string \<times> bytes) list" where
  "draft_files shown upstream agent c m report =
     [(''canonical.config.json'', written shown c), (''tensor_map.draft.json'', written shown (mapping_json m)),
      (''upstream.config.json'', written shown upstream), (''upstream.rl_agent_config.json'', written shown agent),
      (''port_report.json'', written shown report)]"

definition download_tokenizer :: "faults \<Rightarrow> (string \<Rightarrow> nat option \<Rightarrow> bytes res) \<Rightarrow> string \<Rightarrow> (disk, unit) io" where
  "download_tokenizer F fetch d w =
     (if (case w d of Some f \<Rightarrow> map_of f ''tokenizer.json'' \<noteq> None | None \<Rightarrow> False) then (Inr (), w)
      else io_bind (io_lift (fetch (BASE @ ''/tokenizer/tokenizer.json'') None)) (put F d ''tokenizer.json'') w)"

text \<open>The call of the exporter, on the two files written before.\<close>

definition port_export_args :: "checkpoint \<Rightarrow> bytes \<Rightarrow> bytes \<Rightarrow> bytes \<Rightarrow> string \<Rightarrow> export_args" where
  "port_export_args weights config mapping tokenizer out =
     \<lparr>ex_source = weights, ex_config = config, ex_mapping = mapping, ex_tokenizer = tokenizer, ex_out = out,
      ex_repo = REPO, ex_revision = REVISION, ex_qtypes = [0, 2, 1], ex_test_only = False\<rparr>"

definition port_export ::
  "faults \<Rightarrow> (string \<Rightarrow> nat option \<Rightarrow> bytes res) \<Rightarrow> (rat \<Rightarrow> string) \<Rightarrow> checkpoint \<Rightarrow> string \<Rightarrow> string \<Rightarrow> (disk, json) io" where
  "port_export F fetch shown weights tmp out =
     io_then (download_tokenizer F fetch out)
     (io_bind (read_file F out ''canonical.config.json'') (\<lambda>config.
      io_bind (read_file F out ''tensor_map.draft.json'') (\<lambda>mapping.
      io_bind (read_file F out ''tokenizer.json'') (\<lambda>tokenizer.
        export F shown tmp (port_export_args weights config mapping tokenizer (out @ ''/pack''))))))"

text \<open>\<open>main\<close>: \<open>weights\<close> is given by the export command only.\<close>

definition port_main ::
  "faults \<Rightarrow> (string \<Rightarrow> nat option \<Rightarrow> bytes res) \<Rightarrow> (rat \<Rightarrow> string) \<Rightarrow> bytes option \<Rightarrow> checkpoint option \<Rightarrow> string \<Rightarrow> string \<Rightarrow>
   (disk, port_report) io" where
  "port_main F fetch shown header_file weights tmp out =
     io_bind (io_lift (discover fetch header_file)) (\<lambda>(upstream, agent, c, m, report).
     io_bind (io_lift (report_json upstream agent report)) (\<lambda>report_file.
     io_then (make_dirs F out)
     (io_then (io_for (draft_files shown upstream agent c m report_file) (\<lambda>(name, raw). put F out name raw))
     (case weights of
        None \<Rightarrow> io_ret report
      | Some files \<Rightarrow> io_then (io_bind (port_export F fetch shown files tmp out) (\<lambda>_. io_ret ())) (io_ret report)))))"

section \<open>The mapping is complete\<close>

lemma encoder_mapping_keys:
  "map fst (encoder_mapping i) = map (\<lambda>k. encoder_name i @ ''.'' @ k) (encoder_keys (0 < i))"
  by (simp add: encoder_mapping_def encoder_name_def encoder_keys_def Let_def)

lemma decision_mapping_keys:
  "map fst (decision_mapping i) = map (\<lambda>k. decision_name i @ ''.'' @ k) decision_keys"
  by (simp add: decision_mapping_def decision_name_def decision_keys_def Let_def)

text \<open>The sources of one layer behind its prefix.\<close>

definition encoder_sources :: "nat \<Rightarrow> string list" where
  "encoder_sources i = (if 0 < i then [''attn_norm.weight''] else []) @
     [''attn.Wqkv.weight'', ''attn.Wo.weight'', ''mlp_norm.weight'', ''mlp.Wi.weight'', ''mlp.Wo.weight'']"

definition decision_sources :: "string list" where
  "decision_sources = [''self_attn.in_proj_weight'', ''self_attn.in_proj_bias'', ''self_attn.out_proj.weight'',
     ''self_attn.out_proj.bias'', ''norm1.weight'', ''norm1.bias'', ''norm2.weight'', ''norm2.bias'',
     ''linear1.weight'', ''linear1.bias'', ''linear2.weight'', ''linear2.bias'']"

lemma encoder_mapping_sources:
  "map snd (encoder_mapping i) = map (\<lambda>k. ''encoder.layers.'' @ nat_str i @ ''.'' @ k) (encoder_sources i)"
  by (simp add: encoder_mapping_def encoder_sources_def Let_def)

lemma decision_mapping_sources:
  "map snd (decision_mapping i) = map (\<lambda>k. ''head.layers.'' @ nat_str i @ ''.'' @ k) decision_sources"
  by (simp add: decision_mapping_def decision_sources_def Let_def)

lemma mapping_keys: "mset (map fst (mapping_for [0..<L] [0..<D])) = mset (pack_names False L D)"
  by (simp add: mapping_for_def pack_names_def fixed_mapping_def embedding_keys_def scorer_keys_def map_concat o_def
      encoder_mapping_keys decision_mapping_keys)

lemma distinct_sources: "distinct (map snd (mapping_for [0..<L] [0..<D]))"
proof -
  have "distinct (encoder_sources i)" for i by (simp add: encoder_sources_def)
  then have "distinct (concat (map (\<lambda>i. map snd (encoder_mapping i)) [0..<L]))"
    using distinct_layers [of encoder_sources "''encoder.layers.''" L] by (simp add: encoder_mapping_sources)
  moreover have "distinct (concat (map (\<lambda>i. map snd (decision_mapping i)) [0..<D]))"
    using distinct_layers [of "\<lambda>_. decision_sources" "''head.layers.''" D]
    by (simp add: decision_mapping_sources decision_sources_def)
  ultimately show ?thesis
    by (auto simp: mapping_for_def fixed_mapping_def map_concat o_def encoder_mapping_sources decision_mapping_sources)
qed

lemma translate_config_norm: "translate_config upstream agent = Inr c \<Longrightarrow> item ''first_layer_attention_norm'' c = Inr (JBool False)"
  unfolding translate_config_def res_bind_Inr by (elim exE conjE) (auto simp: item_def)

lemma mapping_and_shapes:
  assumes "translate_config upstream agent = Inr c" "shapes c = Inr expected" "build_mapping c = Inr m"
  shows "\<exists>L D. m = mapping_for [0..<L] [0..<D] \<and> mset (map fst expected) = mset (map fst m)"
proof -
  obtain normed L D where r: "range_of ''layers'' c = Inr [0..<L]" "range_of ''decision_layers'' c = Inr [0..<D]"
    and normed: "0 < L \<longrightarrow> res_bind (item ''first_layer_attention_norm'' c) (\<lambda>j. Inr (truthy j)) = Inr normed"
    and names: "mset (map fst expected) = mset (pack_names normed L D)"
    using shapes_names [OF assms(2)] by blast
  have "pack_names normed L D = pack_names False L D"
    using normed translate_config_norm [OF assms(1)] by (cases "L = 0") (simp_all add: truthy_def pack_names_def)
  moreover have "m = mapping_for [0..<L] [0..<D]" using assms(3) r by (auto simp: build_mapping_def res_iff)
  ultimately show ?thesis using names mapping_keys by metis
qed

lemma mapping_distinct:
  assumes "translate_config upstream agent = Inr c" "shapes c = Inr expected" "build_mapping c = Inr m"
  shows "distinct (map fst m)"
  using mapping_and_shapes [OF assms] shapes_distinct [OF assms(2)] mset_eq_imp_distinct_iff by metis

lemma mapping_names_complete:
  assumes "translate_config upstream agent = Inr c" "shapes c = Inr expected" "build_mapping c = Inr m"
  shows "mapping_names (mapping_json m) = Inr (fst ` set expected)"
proof -
  have "mset (map fst expected) = mset (map fst m)" using mapping_and_shapes [OF assms] by blast
  then have "set (map fst m) = fst ` set expected" by (metis mset_eq_setD list.set_map)
  moreover have "keys_of (map (\<lambda>(k, v). (k, JStr v)) m) = set (map fst m)"
    by (auto simp: keys_of_def image_image case_prod_beta)
  ultimately show ?thesis by (simp add: mapping_names_def mapping_json_def)
qed

section \<open>The export that follows\<close>

text \<open>A header describes an index of tensors: what it names is there, with the shape it gives.\<close>

definition describes :: "json \<Rightarrow> (string \<times> tensor) list \<Rightarrow> bool" where
  "describes header index \<longleftrightarrow> (\<exists>kvs. header = JObj kvs \<and>
     (\<forall>name entry. map_of kvs name = Some entry \<longrightarrow>
        (\<exists>t. map_of index name = Some t \<and> item ''shape'' entry = Inr (JList (map (\<lambda>d. JInt (int d)) (dims t))))))"

text \<open>No tensor of the checkpoint is refused for its values or its size.\<close>

definition storable :: "(string \<times> tensor) list \<Rightarrow> bool" where
  "storable index \<longleftrightarrow> (\<forall>(name, t)\<in>set index. array t \<and> finite_cells (cells t) \<and> 4 * length (cells t) \<le> MAX_TENSOR)"

lemma same_shape: "list_all2 (\<lambda>n j. eq_int j n) want (map (\<lambda>d. JInt (int d)) ds) \<longleftrightarrow> want = map int ds"
proof -
  have "list_all2 (\<lambda>n j. eq_int j n) want (map (\<lambda>d. JInt (int d)) ds) \<longleftrightarrow> list_all2 (\<lambda>n d. n = int d) want ds"
    by (simp add: list_all2_map2 eq_int_def eq_commute)
  also have "\<dots> \<longleftrightarrow> want = map int ds" by (auto simp: list_all2_conv_all_nth list_eq_iff_nth_eq)
  finally show ?thesis .
qed

lemma compare_one_clean:
  assumes "compare_one header expected (name, spec) = Inr []" "describes header index"
    and want: "map_of expected name = Some want" "want \<noteq> []"
  shows "\<exists>t. map_of index spec = Some t \<and> map int (dims t) = want"
proof -
  obtain kvs where kvs: "header = JObj kvs" and desc: "\<And>name entry. map_of kvs name = Some entry \<Longrightarrow>
      \<exists>t. map_of index name = Some t \<and> item ''shape'' entry = Inr (JList (map (\<lambda>d. JInt (int d)) (dims t)))"
    using assms(2) unfolding describes_def by blast
  obtain entry where entry: "map_of kvs spec = Some entry"
    using assms(1) by (cases "map_of kvs spec") (auto simp: compare_one_def in_header_def kvs)
  obtain t where t: "map_of index spec = Some t" "item ''shape'' entry = Inr (JList (map (\<lambda>d. JInt (int d)) (dims t)))"
    using desc [OF entry] by blast
  have "header_shape header spec = Inr (map (\<lambda>d. JInt (int d)) (dims t))"
    using entry t(2) by (simp add: header_shape_def kvs item_def py_iter_def)
  then have "want = map int (dims t)"
    using assms(1) entry want by (auto simp: compare_one_def in_header_def kvs same_shape split: if_splits)
  then show ?thesis using t(1) by blast
qed

lemma compare_shapes_clean:
  assumes "compare_shapes m header expected = Inr []" "(name, spec) \<in> set m"
  shows "compare_one header expected (name, spec) = Inr []"
proof -
  obtain ps where ps: "mapM (compare_one header expected) (by_name m) = Inr ps" "concat ps = []"
    using assms(1) by (auto simp: compare_shapes_def res_iff)
  have "(name, spec) \<in> set (by_name m)" using assms(2) by (simp add: by_name_def)
  then obtain i where i: "i < length (by_name m)" "by_name m ! i = (name, spec)" by (auto simp: in_set_conv_nth)
  then have "compare_one header expected (name, spec) = Inr (ps ! i)" "i < length ps"
    using ps(1) list_all2_nthD [OF ps(1) [unfolded mapM_Inr_iff], of i]
    by (simp_all add: mapM_Inr_length)
  then show ?thesis using ps(2) by simp
qed

lemma drafted_tensor:
  assumes "translate_config upstream agent = Inr c" "shapes c = Inr expected" "build_mapping c = Inr m"
    and "validate_config c = Inr ()" "compare_shapes m header expected = Inr []" "describes header index"
    and "(name, want) \<in> set expected"
  shows "\<exists>spec t. item name (mapping_json m) = Inr (JStr spec) \<and> map_of index spec = Some t \<and> map int (dims t) = want"
proof -
  have want: "map_of expected name = Some want" "want \<noteq> []"
    using shapes_distinct [OF assms(2)] assms(7) shapes_good [OF assms(2,4)] by (auto simp: good_shape_def)
  have "name \<in> fst ` set m"
    using mapping_names_complete [OF assms(1-3)] assms(7)
    by (force simp: mapping_names_def mapping_json_def keys_of_def image_image case_prod_beta)
  then obtain spec where spec: "(name, spec) \<in> set m" by auto
  have "map_of (map (\<lambda>(k, v). (k, JStr v)) m) name = Some (JStr spec)"
    using mapping_distinct [OF assms(1-3)] spec by (simp add: map_of_map)
  then have "item name (mapping_json m) = Inr (JStr spec)" by (simp add: mapping_json_def item_def)
  then show ?thesis
    using compare_one_clean [OF compare_shapes_clean [OF assms(5) spec] assms(6) want] by blast
qed

lemma mapM_choice:
  "(\<And>x. x \<in> set xs \<Longrightarrow> \<exists>y. f x = Inr y \<and> P x y) \<Longrightarrow> \<exists>ys. mapM f xs = Inr ys \<and> list_all2 P xs ys"
proof (induction xs)
  case (Cons x xs)
  obtain y where y: "f x = Inr y" "P x y" using Cons.prems [of x] by auto
  moreover obtain ys where "mapM f xs = Inr ys" "list_all2 P xs ys" using Cons by auto
  ultimately show ?case by (intro exI [of _ "y # ys"]) simp
qed simp

text \<open>The tensors the draft resolves to.\<close>

definition drafted :: "(string \<times> tensor) list \<Rightarrow> string \<times> int list \<Rightarrow> tensor \<Rightarrow> bool" where
  "drafted index entry t \<longleftrightarrow> fits entry t \<and> 4 * length (cells t) \<le> MAX_TENSOR \<and> int (length (cells t)) = prod_list (snd entry)"

lemma drafted_tensors:
  assumes "translate_config upstream agent = Inr c" "shapes c = Inr expected" "build_mapping c = Inr m"
    and "validate_config c = Inr ()" "compare_shapes m header expected = Inr []" "describes header index" "storable index"
  shows "\<exists>ts. resolved (mapping_json m) index expected = Inr ts \<and> list_all2 (drafted index) expected ts"
  unfolding resolved_def
proof (rule mapM_choice)
  fix entry assume entry: "entry \<in> set expected"
  obtain name want where e: "entry = (name, want)" by (cases entry)
  from drafted_tensor [OF assms(1-6), of name want] entry obtain spec t where
    spec: "item name (mapping_json m) = Inr (JStr spec)" and t: "map_of index spec = Some t" "map int (dims t) = want"
    by (auto simp: e)
  have "(spec, t) \<in> set index" using t(1) by (rule map_of_SomeD)
  then have ok: "array t" "finite_cells (cells t)" "4 * length (cells t) \<le> MAX_TENSOR"
    using assms(7) by (auto simp: storable_def)
  have "int (length (cells t)) = prod_list want"
    using ok(1) by (simp add: array_def prod_list_int flip: t(2))
  then have "drafted index entry t" using ok t(2) by (simp add: drafted_def fits_def e)
  then show "\<exists>t. (case entry of (name, _) \<Rightarrow> res_bind (item name (mapping_json m)) (\<lambda>spec. resolve spec index)) = Inr t \<and>
      drafted index entry t"
    using spec t(1) by (intro exI [of _ t]) (simp add: e resolve_def read_tensor_def)
qed

lemma drafted_sizes:
  "list_all2 (drafted index) lay ts \<Longrightarrow>
   list_all2 fits lay ts \<and> list_all (\<lambda>t. 4 * length (cells t) \<le> MAX_TENSOR) ts \<and>
   int (sum_list (map (\<lambda>t. length (cells t)) ts)) = sum_list (map (\<lambda>(_, s). prod_list s) lay)"
  by (induction lay ts rule: list_all2_induct) (auto simp: drafted_def)

section \<open>The size the report gives\<close>

text \<open>The elements of one tensor of a header.\<close>

definition elements_in :: "(string \<times> json) list \<Rightarrow> string \<Rightarrow> int" where
  "elements_in kvs name =
     (case map_of kvs name of Some entry \<Rightarrow> (case elements_of entry of Inr n \<Rightarrow> n | Inl _ \<Rightarrow> 0) | None \<Rightarrow> 0)"

lemma elements_of_listed:
  "mapM (\<lambda>(_, entry). elements_of entry) kvs = Inr ns \<Longrightarrow> distinct (map fst kvs) \<Longrightarrow> ns = map (elements_in kvs) (map fst kvs)"
proof -
  assume ns: "mapM (\<lambda>(_, entry). elements_of entry) kvs = Inr ns" and kvs: "distinct (map fst kvs)"
  show "ns = map (elements_in kvs) (map fst kvs)"
  proof (rule nth_equalityI)
    show len: "length ns = length (map (elements_in kvs) (map fst kvs))" using mapM_Inr_length [OF ns] by simp
    fix i assume i: "i < length ns"
    obtain name entry where e: "kvs ! i = (name, entry)" by (cases "kvs ! i")
    have "map_of kvs name = Some entry" using kvs i len e by (metis length_map map_of_is_SomeI nth_mem)
    moreover have "elements_of entry = Inr (ns ! i)"
      using list_all2_nthD [OF ns [unfolded mapM_Inr_iff], of i] i len e by simp
    ultimately show "ns ! i = map (elements_in kvs) (map fst kvs) ! i" using i len e by (simp add: elements_in_def)
  qed
qed

lemma eq_int_as_int: "eq_int j n \<Longrightarrow> as_int j = Inr k \<Longrightarrow> k = n"
  by (cases j) (auto simp: eq_int_def as_int_def split: fl.splits)

lemma eq_ints_as_ints: "list_all2 (\<lambda>n j. eq_int j n) want js \<Longrightarrow> mapM as_int js = Inr ns \<Longrightarrow> ns = want"
  by (induction want js arbitrary: ns rule: list_all2_induct) (auto simp: res_iff dest: eq_int_as_int)

lemma clean_elements:
  assumes "compare_one (JObj kvs) expected (name, spec) = Inr []" "map_of expected name = Some want" "want \<noteq> []"
    and "mapM (\<lambda>(_, entry). elements_of entry) kvs = Inr ns"
  shows "spec \<in> fst ` set kvs \<and> elements_in kvs spec = prod_list want"
proof -
  obtain entry where entry: "map_of kvs spec = Some entry"
    using assms(1) by (cases "map_of kvs spec") (auto simp: compare_one_def in_header_def)
  have "(spec, entry) \<in> set kvs" using entry by (rule map_of_SomeD)
  then obtain n where n: "elements_of entry = Inr n"
    using assms(4) unfolding mapM_Inr_iff by (fastforce simp: list_all2_conv_all_nth in_set_conv_nth)
  then obtain j ds ks where d: "item ''shape'' entry = Inr j" "py_iter j = Inr ds" "mapM as_int ds = Inr ks" "n = prod_list ks"
    by (auto simp: elements_of_def res_iff)
  have "header_shape (JObj kvs) spec = Inr ds" using entry d(1,2) by (simp add: header_shape_def item_def)
  then have "list_all2 (\<lambda>n j. eq_int j n) want ds"
    using assms(1-3) entry by (auto simp: compare_one_def in_header_def split: if_splits)
  then have "ks = want" using d(3) by (rule eq_ints_as_ints)
  then show ?thesis using entry n d(4) \<open>(spec, entry) \<in> set kvs\<close> by (force simp: elements_in_def)
qed

lemma sum_list_sorted: "sum_list (map f (sort_key g xs)) = (sum_list (map f xs) :: int)"
proof -
  have "sum_mset (mset (map f (sort_key g xs))) = sum_mset (mset (map f xs))" by simp
  then show ?thesis unfolding sum_mset_sum_list .
qed

lemma sum_claimed:
  fixes size_of :: "string \<Rightarrow> int"
  assumes "distinct (map fst m)" "distinct (map snd m)" "distinct (map fst expected)" "fst ` set m = fst ` set expected"
    and same: "\<And>name spec want. (name, spec) \<in> set m \<Longrightarrow> (name, want) \<in> set expected \<Longrightarrow> size_of spec = prod_list want"
  shows "(\<Sum>spec\<in>snd ` set m. size_of spec) = sum_list (map (\<lambda>(_, s). prod_list s) expected)"
proof -
  let ?size = "\<lambda>name. prod_list (the (map_of expected name))"
  have "(\<Sum>spec\<in>snd ` set m. size_of spec) = (\<Sum>p\<in>set m. size_of (snd p))"
    using assms(2) by (subst sum.reindex) (auto simp: distinct_map)
  also have "\<dots> = (\<Sum>p\<in>set m. ?size (fst p))"
  proof (rule sum.cong [OF refl])
    fix p assume p: "p \<in> set m"
    then obtain want where "(fst p, want) \<in> set expected" using assms(4) by (metis imageE image_eqI prod.collapse)
    then show "size_of (snd p) = ?size (fst p)" using same [of "fst p" "snd p" want] p assms(3) by simp
  qed
  also have "\<dots> = (\<Sum>name\<in>fst ` set m. ?size name)"
    using assms(1) by (subst sum.reindex) (auto simp: distinct_map)
  also have "\<dots> = (\<Sum>p\<in>set expected. ?size (fst p))"
    using assms(3) unfolding assms(4) by (subst sum.reindex) (auto simp: distinct_map)
  also have "\<dots> = (\<Sum>p\<in>set expected. prod_list (snd p))"
    using assms(3) by (intro sum.cong) auto
  also have "\<dots> = sum_list (map (\<lambda>(_, s). prod_list s) expected)"
    using assms(3) by (simp add: sum_list_distinct_conv_sum_set case_prod_beta distinct_map)
  finally show ?thesis .
qed

lemma report_size:
  assumes "translate_config upstream agent = Inr c" "shapes c = Inr expected" "build_mapping c = Inr m"
    and "validate_config c = Inr ()" "distinct (map fst kvs)"
    and run: "port_report_of (JObj kvs) expected m = Inr rep" "problems rep = []"
  shows "missing rep = [] \<and>
    pack_bytes rep = 4 * sum_list (map (\<lambda>(_, s). prod_list s) expected) + 4 * sum_list (map (elements_in kvs) (unclaimed rep))"
proof -
  obtain ns types where clean: "compare_shapes m (JObj kvs) expected = Inr []"
    and ns: "mapM (\<lambda>(_, entry). elements_of entry) kvs = Inr ns"
    and rep: "missing rep = sort_names (filter (\<lambda>n. n \<notin> fst ` set m) (map fst expected))"
      "unclaimed rep = sort_names (filter (\<lambda>n. n \<notin> snd ` set m) (map fst kvs))" "pack_bytes rep = sum_list (map (\<lambda>n. n * 4) ns)"
    using run by (auto simp: port_report_of_def res_iff)
  note names = mapping_names_complete [OF assms(1-3)]
  have keys: "fst ` set m = fst ` set expected"
    using names by (simp add: mapping_names_def mapping_json_def keys_of_def image_image case_prod_beta)
  have claimed: "spec \<in> fst ` set kvs \<and> elements_in kvs spec = prod_list want"
    if "(name, spec) \<in> set m" "(name, want) \<in> set expected" for name spec want
  proof -
    have "map_of expected name = Some want" "want \<noteq> []"
      using shapes_distinct [OF assms(2)] that(2) shapes_good [OF assms(2,4)] by (auto simp: good_shape_def)
    then show ?thesis using clean_elements [OF compare_shapes_clean [OF clean that(1)] _ _ ns] by simp
  qed
  have inside: "snd ` set m \<subseteq> fst ` set kvs"
  proof (rule image_subsetI)
    fix p assume p: "p \<in> set m"
    then obtain want where "(fst p, want) \<in> set expected" using keys by (metis imageE image_eqI prod.collapse)
    then show "snd p \<in> fst ` set kvs" using claimed [of "fst p" "snd p" want] p by simp
  qed
  let ?E = "elements_in kvs"
  have "distinct (map snd m)" using mapping_and_shapes [OF assms(1-3)] distinct_sources by blast
  then have sum: "(\<Sum>spec\<in>snd ` set m. ?E spec) = sum_list (map (\<lambda>(_, s). prod_list s) expected)"
    using sum_claimed [OF mapping_distinct [OF assms(1-3)] _ shapes_distinct [OF assms(2)] keys] claimed by blast
  have "sum_list (map ?E (unclaimed rep)) = sum_list (map ?E (filter (\<lambda>n. n \<notin> snd ` set m) (map fst kvs)))"
    unfolding rep(2) sort_names_def by (rule sum_list_sorted)
  also have "\<dots> = (\<Sum>k\<in>fst ` set kvs - snd ` set m. ?E k)"
    using assms(5) by (simp add: sum_list_distinct_conv_sum_set set_diff_eq)
  finally have rest: "sum_list (map ?E (unclaimed rep)) = (\<Sum>k\<in>fst ` set kvs - snd ` set m. ?E k)" .
  have "sum_list ns = (\<Sum>k\<in>fst ` set kvs. ?E k)"
    unfolding elements_of_listed [OF ns assms(5)] sum_list_distinct_conv_sum_set [OF assms(5)] by simp
  also have "\<dots> = (\<Sum>k\<in>fst ` set kvs - snd ` set m. ?E k) + (\<Sum>k\<in>snd ` set m. ?E k)"
    using inside by (intro sum.subset_diff) auto
  finally have "sum_list ns = (\<Sum>k\<in>fst ` set kvs - snd ` set m. ?E k) + (\<Sum>k\<in>snd ` set m. ?E k)" .
  moreover have "pack_bytes rep = 4 * sum_list ns" unfolding rep(3) by (simp add: sum_list_mult_const mult.commute)
  moreover have "missing rep = []" unfolding rep(1) sort_names_def using keys by (auto simp: filter_empty_conv image_iff)
  ultimately show ?thesis using rest sum by simp
qed

text \<open>
  C39: what the report's pack size is.  When the report finds no problem, the size it gives as that of the
  canonical pack is the size of the tensors the exporter writes and, in addition, of every tensor of the checkpoint
  that has no slot in the pack; and no tensor of the pack is missing from the mapping.
\<close>

theorem report_counts_unclaimed:
  assumes "translate_config upstream agent = Inr c" "shapes c = Inr expected" "build_mapping c = Inr m"
    and "validate_config c = Inr ()" "distinct (map fst kvs)"
    and run: "port_report_of (JObj kvs) expected m = Inr rep" "problems rep = []"
  shows "missing rep = [] \<and>
    pack_bytes rep = 4 * sum_list (map (\<lambda>(_, s). prod_list s) expected) + 4 * sum_list (map (elements_in kvs) (unclaimed rep))"
  by (rule report_size [OF assms])

section \<open>The bridge publishes a pack\<close>

lemma discover_Inr:
  assumes "discover fetch header_file = Inr (upstream, agent, c, m, report)"
  shows "\<exists>header expected. source_header fetch header_file = Inr header \<and> translate_config upstream agent = Inr c \<and>
    shapes c = Inr expected \<and> build_mapping c = Inr m \<and> port_report_of header expected m = Inr report"
  using assms unfolding discover_def res_bind_Inr by (elim exE conjE) auto

lemma mapping_dumpable: "distinct (map fst m) \<Longrightarrow> dumpable shown (mapping_json m)"
  by (simp add: mapping_json_def o_def case_prod_beta list_all_iff)

lemma read_file_run: "w d = Some f \<Longrightarrow> map_of f name = Some raw \<Longrightarrow> read_file no_faults d name w = (Inr raw, w)"
  by (simp add: read_file_def no_faults_def)

lemma draft_written:
  assumes "w out = Some f"
  shows "\<exists>g. io_for (draft_files shown upstream agent c m rep) (\<lambda>(name, raw). put no_faults out name raw) w = (Inr (), w(out \<mapsto> g)) \<and>
    map_of g ''canonical.config.json'' = Some (written shown c) \<and>
    map_of g ''tensor_map.draft.json'' = Some (written shown (mapping_json m)) \<and>
    map_of g ''port_report.json'' = Some (written shown rep) \<and>
    map_of g ''tokenizer.json'' = map_of f ''tokenizer.json''"
proof -
  let ?g = "fold (\<lambda>(name, raw). AList.update name raw) (draft_files shown upstream agent c m rep) f"
  have puts: "put no_faults out name x v = (Inr (), v(out \<mapsto> AList.update name x h))" if "v out = Some h" for name x v h
    using that by (simp add: put_def no_faults_def)
  have "io_for (draft_files shown upstream agent c m rep) (\<lambda>(name, raw). put no_faults out name raw) w = (Inr (), w(out \<mapsto> ?g))"
    using assms by (simp add: draft_files_def puts io_then_def io_bind_def)
  then show ?thesis by (intro exI [of _ ?g]) (simp add: draft_files_def update_conv')
qed

text \<open>The tokenizer the exporter gets: the one already there, or the one of the network.\<close>

definition tokenizer_of :: "(string \<Rightarrow> nat option \<Rightarrow> bytes res) \<Rightarrow> folder \<Rightarrow> bytes res" where
  "tokenizer_of fetch f =
     (case map_of f ''tokenizer.json'' of
        Some x \<Rightarrow> Inr x | None \<Rightarrow> fetch (BASE @ ''/tokenizer/tokenizer.json'') None)"

lemma tokenizer_there:
  assumes "w out = Some g" "tokenizer_of fetch g = Inr raw"
  shows "\<exists>h. download_tokenizer no_faults fetch out w = (Inr (), w(out \<mapsto> h)) \<and> map_of h ''tokenizer.json'' = Some raw \<and>
    (\<forall>name. name \<noteq> ''tokenizer.json'' \<longrightarrow> map_of h name = map_of g name)"
proof (cases "map_of g ''tokenizer.json''")
  case None
  then show ?thesis using assms
    by (intro exI [of _ "AList.update ''tokenizer.json'' raw g"])
      (simp add: download_tokenizer_def tokenizer_of_def io_bind_def io_lift_def put_def no_faults_def update_conv')
next
  case (Some x)
  then have "x = raw" using assms(2) by (simp add: tokenizer_of_def)
  moreover have "w(out \<mapsto> g) = w" using assms(1) by auto
  ultimately show ?thesis using assms(1) Some by (intro exI [of _ g]) (simp add: download_tokenizer_def)
qed

lemma revision_pinned: "hex_revision REVISION" "REVISION \<noteq> []"
  by code_simp+

lemma describes_nonneg:
  assumes "describes (JObj kvs) index"
  shows "0 \<le> elements_in kvs name"
proof (cases "map_of kvs name")
  case (Some entry)
  then obtain t :: tensor where "item ''shape'' entry = Inr (JList (map (\<lambda>d. JInt (int d)) (dims t)))"
    using assms unfolding describes_def by blast
  moreover have "mapM as_int (map (\<lambda>d. JInt (int d)) ds) = Inr (map int ds)" for ds
    by (induction ds) (simp_all add: as_int_def)
  ultimately have "elements_of entry = Inr (int (prod_list (dims t)))"
    by (simp add: elements_of_def prod_list_int)
  then show ?thesis using Some by (simp add: elements_in_def)
qed (simp add: elements_in_def)

lemma sum_list_nonneg': "(\<And>x. 0 \<le> (f x :: int)) \<Longrightarrow> 0 \<le> sum_list (map f xs)"
  by (induction xs) simp_all

text \<open>
  What a report cannot see: that its header is that of the weights, and that these are arrays of finite
  numbers, each within the format's limit on one tensor.
\<close>

definition faithful :: "json \<Rightarrow> checkpoint \<Rightarrow> bool" where
  "faithful header weights \<longleftrightarrow>
     (\<exists>kvs index. header = JObj kvs \<and> distinct (map fst kvs) \<and> source_reader weights = Inr index \<and>
        describes header index \<and> storable index) \<and> checkpoint_arrays weights"

lemma bridge_inputs:
  assumes draft: "translate_config upstream agent = Inr c" "shapes c = Inr expected" "build_mapping c = Inr m"
    and report: "port_report_of header expected m = Inr report" "problems report = []" "pack_bytes report \<le> int MAX_TOTAL"
    and world: "faithful header weights" and valid: "validate_config c = Inr ()" "dumpable shown c"
    and tokenizer: "json_loads_bytes tokenizer = Inr words" "0 < length tokenizer" "length tokenizer \<le> 32 * 1024 ^ 2"
  shows "\<exists>index ts. export_inputs (port_export_args weights (written shown c) (written shown (mapping_json m)) tokenizer out) =
      Inr (c, mapping_json m, expected, index) \<and> resolved (mapping_json m) index expected = Inr ts \<and>
    list_all2 fits expected ts \<and> list_all (\<lambda>t. 4 * length (cells t) \<le> MAX_TENSOR) ts \<and>
    4 * sum_list (map (\<lambda>t. length (cells t)) ts) \<le> MAX_TOTAL"
proof -
  obtain kvs index where kvs: "header = JObj kvs" "distinct (map fst kvs)"
    and weights: "source_reader weights = Inr index" "describes header index" "storable index"
    using world unfolding faithful_def by blast
  have clean: "compare_shapes m header expected = Inr []"
    using report(1,2) kvs(1) by (auto simp: port_report_of_def res_iff)
  obtain ts where ts: "resolved (mapping_json m) index expected = Inr ts" "list_all2 (drafted index) expected ts"
    using drafted_tensors [OF draft valid(1) clean weights(2,3)] by blast
  note sizes = drafted_sizes [OF ts(2)]
  have "pack_bytes report = 4 * sum_list (map (\<lambda>(_, s). prod_list s) expected) + 4 * sum_list (map (elements_in kvs) (unclaimed report))"
    using report_size [OF draft valid(1) kvs(2) _ report(2)] report(1) kvs(1) by simp
  moreover have "0 \<le> sum_list (map (elements_in kvs) (unclaimed report))"
    using describes_nonneg weights(2) kvs(1) by (intro sum_list_nonneg') simp
  ultimately have "4 * sum_list (map (\<lambda>(_, s). prod_list s) expected) \<le> int MAX_TOTAL" using report(3) by linarith
  then have "4 * sum_list (map (\<lambda>t. length (cells t)) ts) \<le> MAX_TOTAL" using sizes by linarith
  moreover have "json_loads_bytes (written shown c) = Inr c" "json_loads_bytes (written shown (mapping_json m)) = Inr (mapping_json m)"
    using valid(2) mapping_dumpable [OF mapping_distinct [OF draft]] by (simp_all add: written_def json_loads_written)
  then have "export_inputs (port_export_args weights (written shown c) (written shown (mapping_json m)) tokenizer out) =
      Inr (c, mapping_json m, expected, index)"
    using mapping_names_complete [OF draft] draft(2) valid weights(1) tokenizer
    by (simp add: export_inputs_def port_export_args_def raise_if_def raise_unless_def revision_pinned REPO_def)
  ultimately show ?thesis using ts(1) sizes by blast
qed

text \<open>
  C13: what a clean report is worth.  Let the report find no problem and give a size within the limit, let the
  weights be those of the header, finite and each tensor within the format's limit, let the tokenizer be readable
  and within its limit, let the numbers of the configuration read back, and let the system refuse nothing.  Then
  the export command writes its drafts and its report, reads the drafts back, and publishes a canonical pack of
  exactly the translated configuration if that passes the exporter's checks on a configuration; if it does not,
  which the report does not look at, the command raises and there is no pack.
\<close>

theorem bridge_publishes:
  assumes found: "discover fetch header_file = Inr (upstream, agent, c, m, report)" "source_header fetch header_file = Inr header"
      "report_json upstream agent report = Inr report_file"
    and report: "problems report = []" "pack_bytes report \<le> int MAX_TOTAL"
    and world: "faithful header weights" "dumpable shown c"
    and tokenizer: "tokenizer_of fetch (case w out of Some f \<Rightarrow> f | None \<Rightarrow> []) = Inr raw" "json_loads_bytes raw = Inr words"
      "0 < length raw" "length raw \<le> 32 * 1024 ^ 2"
    and fresh: "w (out @ ''/pack'') = None" "w tmp = None" "beside tmp (out @ ''/pack'')" "out \<noteq> []"
  shows "\<exists>r w' h. port_main no_faults fetch shown header_file (Some weights) tmp out w = (r, w') \<and>
    w' out = Some h \<and> map_of h ''port_report.json'' = Some (written shown report_file) \<and>
    (if validate_config c = Inr ()
     then r = Inr report \<and> (\<exists>f kvs entries model. w' (out @ ''/pack'') = Some f \<and> canonical_pack f kvs c entries model raw)
     else (\<exists>e. r = Inl e) \<and> w' (out @ ''/pack'') = None)"
proof -
  obtain expected where draft: "translate_config upstream agent = Inr c" "shapes c = Inr expected" "build_mapping c = Inr m"
    and rep: "port_report_of header expected m = Inr report"
    using discover_Inr [OF found(1)] found(2) by auto
  let ?f = "case w out of Some f \<Rightarrow> f | None \<Rightarrow> []" and ?pack = "out @ ''/pack''"
  have above: "ancestors ?pack = ancestors out @ [out]" using ancestors_child [OF fresh(4), of "''pack''"] by simp
  let ?w0 = "with_dirs (ancestors out @ [out]) w"
  have w0: "?w0 out = Some ?f" by (auto simp: with_dirs_def)
  obtain g where g: "io_for (draft_files shown upstream agent c m report_file) (\<lambda>(name, raw). put no_faults out name raw) ?w0 =
        (Inr (), ?w0(out \<mapsto> g))"
      "map_of g ''canonical.config.json'' = Some (written shown c)"
      "map_of g ''tensor_map.draft.json'' = Some (written shown (mapping_json m))"
      "map_of g ''port_report.json'' = Some (written shown report_file)"
      "map_of g ''tokenizer.json'' = map_of ?f ''tokenizer.json''"
    using draft_written [where w = ?w0 and out = out and f = ?f, OF w0] by blast
  have "tokenizer_of fetch g = Inr raw" using tokenizer(1) g(5) by (simp add: tokenizer_of_def)
  then obtain h where h: "download_tokenizer no_faults fetch out (?w0(out \<mapsto> g)) = (Inr (), ?w0(out \<mapsto> h))"
      "map_of h ''tokenizer.json'' = Some raw" "\<And>name. name \<noteq> ''tokenizer.json'' \<Longrightarrow> map_of h name = map_of g name"
    using tokenizer_there [of "?w0(out \<mapsto> g)" out g fetch raw] by auto
  let ?w = "?w0(out \<mapsto> h)" and ?a = "port_export_args weights (written shown c) (written shown (mapping_json m)) raw ?pack"
  have out: "ex_out ?a = ?pack" "ex_source ?a = weights" "ex_tokenizer ?a = raw" "ex_config ?a = written shown c"
    by (simp_all add: port_export_args_def)
  have "tmp \<notin> set (ancestors out @ [out])" "?pack \<notin> set (ancestors out @ [out])"
    using fresh(3) self_no_ancestor [of tmp] self_no_ancestor [of ?pack] unfolding beside_def above by metis+
  then have w: "?w ?pack = None" "?w tmp = None" using fresh by (auto simp: with_dirs_other)
  have "\<forall>d\<in>set (ancestors ?pack). ?w d \<noteq> None" by (auto simp: above with_dirs_def)
  then have same: "with_dirs (ancestors ?pack) ?w = ?w" by (rule with_dirs_there_all)
  obtain q w' where run: "export no_faults shown tmp ?a ?w = (q, w')" by (cases "export no_faults shown tmp ?a ?w")
  have "port_export no_faults fetch shown weights tmp out (?w0(out \<mapsto> g)) = (q, w')"
    using run h g by (simp add: port_export_def io_bind_def io_then_def read_file_run [of ?w out h])
  then have main: "port_main no_faults fetch shown header_file (Some weights) tmp out w =
      (case q of Inl e \<Rightarrow> Inl e | Inr _ \<Rightarrow> Inr report, w')"
    using found(1,3) g(1) by (cases q) (simp_all add: port_main_def io_bind_def io_then_def make_dirs_succeeds)
  have read: "json_loads_bytes (written shown c) = Inr c"
    unfolding written_def by (rule json_loads_written [OF world(2)])
  note outcome = export_outcome [OF run w(2), unfolded out same, OF fresh(3)]
  show ?thesis
  proof (cases "validate_config c = Inr ()")
    case True
    from bridge_inputs [OF draft rep report world(1) True world(2) tokenizer(2-4)] obtain index ts where
      inputs: "export_inputs ?a = Inr (c, mapping_json m, expected, index)" and
      ts: "resolved (mapping_json m) index expected = Inr ts" "list_all2 fits expected ts"
        "list_all (\<lambda>t. 4 * length (cells t) \<le> MAX_TENSOR) ts" "4 * sum_list (map (\<lambda>t. length (cells t)) ts) \<le> MAX_TOTAL"
      by blast
    obtain manifest where q: "q = Inr manifest"
      using export_succeeds [OF inputs ts, of ?w tmp shown] w fresh(3) run unfolding out by auto
    obtain f entries model where p: "manifest = pack_manifest ?a c entries (length model)" "w' = ?w(?pack \<mapsto> f)"
        "length model \<le> MAX_TOTAL" "map (\<lambda>e. (en_name e, en_shape e)) entries = expected"
        "laid_out (holds_tensor (mapping_json m) index) 0 entries model" "map_of f ''manifest.json'' = Some (written shown manifest)"
        "map_of f ''model.bin'' = Some model" "map_of f ''tokenizer.json'' = Some raw"
      using outcome inputs q by auto
    obtain kvs where kvs: "manifest = JObj kvs" using p(1) by (simp add: pack_manifest_def)
    have "config_reads_back shown ?a" using read world(2) by (simp add: config_reads_back_def out)
    then have "canonical_pack f kvs c entries model raw"
      using export_packs [OF inputs, of model entries kvs shown f] p kvs world(1) unfolding out by (auto simp: faithful_def)
    then show ?thesis using main q True p(2) g(4) h(3) by auto
  next
    case False
    then obtain e where "validate_config c = Inl e" by (cases "validate_config c") auto
    then have "\<not> is_ok (export_inputs ?a)"
      using read by (simp add: export_inputs_def out port_export_args_def raise_if_def raise_unless_def revision_pinned REPO_def)
    then have "(\<exists>e. q = Inl e) \<and> w' = ?w" using outcome by (auto simp: is_ok_iff)
    then show ?thesis using main False w(1) g(4) h(3) by auto
  qed
qed

text \<open>
  The draft mapping is complete.  For every upstream configuration that can be translated, its names
  are exactly the tensors of the translated configuration, each once, so that the exporter never finds one
  missing or extra; and no two of them share a source.
\<close>

theorem bridge_mapping_complete:
  assumes "translate_config upstream agent = Inr c" "shapes c = Inr expected" "build_mapping c = Inr m"
  shows "mapping_names (mapping_json m) = Inr (fst ` set expected) \<and> distinct (map fst m) \<and> distinct (map snd m)"
proof (intro conjI)
  obtain L D where m: "m = mapping_for [0..<L] [0..<D]" using mapping_and_shapes [OF assms] by blast
  show "mapping_names (mapping_json m) = Inr (fst ` set expected)" by (rule mapping_names_complete [OF assms])
  show "distinct (map fst m)" by (rule mapping_distinct [OF assms])
  show "distinct (map snd m)" unfolding m by (rule distinct_sources)
qed

end
