(* ===== verification/Bridge_Samples.thy ===== *)
theory Bridge_Samples
  imports Pack_Bridge
begin

text \<open>
  A small upstream checkpoint, one layer of each kind and two hidden units, to which the theorems on the
  bridge are applied.  The network is a function that serves its three files whatever the limit.
\<close>

section \<open>The upstream checkpoint\<close>

definition half :: "rat \<Rightarrow> string" where
  "half q = ''0.5''"

definition small_upstream :: json where
  "small_upstream = JObj
     [(''vocab_size'', JInt 50285), (''hidden_size'', JInt 2), (''num_hidden_layers'', JInt 1), (''num_attention_heads'', JInt 1),
      (''intermediate_size'', JInt 1), (''norm_eps'', JFloat (Fin (1 / 2))), (''global_attn_every_n_layers'', JInt 1),
      (''local_attention'', JInt 1), (''rope_parameters'', JObj
        [(''full_attention'', JObj [(''rope_theta'', JInt 2)]), (''sliding_attention'', JObj [(''rope_theta'', JInt 2)])])]"

definition small_agent :: json where
  "small_agent = JObj [(''head_layers'', JInt 1)]"

definition small_parts :: layout where
  "small_parts =
     [(''embeddings.weight'', [50285, 2]), (''embeddings.norm.weight'', [2]), (''final_norm.weight'', [2])] @
     prefixed (encoder_name 0)
       [(''qkv.weight'', [6, 2]), (''out.weight'', [2, 2]), (''mlp_norm.weight'', [2]), (''wi.weight'', [2, 2]), (''wo.weight'', [2, 1])] @
     [(''qtype.weight'', [3, 2])] @
     prefixed (decision_name 0)
       [(''qkv.weight'', [6, 2]), (''qkv.bias'', [6]), (''out.weight'', [2, 2]), (''out.bias'', [2]),
        (''norm1.weight'', [2]), (''norm1.bias'', [2]), (''norm2.weight'', [2]), (''norm2.bias'', [2]),
        (''linear1.weight'', [4096, 2]), (''linear1.bias'', [4096]), (''linear2.weight'', [2, 4096]), (''linear2.bias'', [2])] @
     scorer_shapes 2"

definition small_layout :: layout where
  "small_layout = by_name small_parts"

text \<open>Every source of the draft mapping with the shape its tensor must have, and the head without a slot.\<close>

definition small_specs :: "(string \<times> nat list) list" where
  "small_specs =
     map (\<lambda>(name, spec). (spec, map nat (the (map_of small_layout name)))) (mapping_for [0] [0]) @ [(''act_head.0.weight'', [7, 3])]"

definition small_entry :: "int list \<Rightarrow> json" where
  "small_entry ds = JObj [(''dtype'', JStr ''F16''), (''shape'', JList (map JInt ds))]"

definition small_members :: "(string \<times> json) list" where
  "small_members = map (\<lambda>(name, ds). (name, small_entry (map int ds))) small_specs"

definition small_index :: "(string \<times> tensor) list" where
  "small_index = map (\<lambda>(name, ds). (name, zeros ds)) small_specs"

definition small_fetch :: "string \<Rightarrow> nat option \<Rightarrow> bytes res" where
  "small_fetch url limit =
     (if url = BASE @ ''/model.safetensors'' then Inr (replicate 8 0 @ written half (JObj small_members))
      else if url = BASE @ ''/encoder/config.json'' then Inr (written half small_upstream)
      else if url = BASE @ ''/rl_agent_config.json'' then Inr (written half small_agent)
      else Inr (encode ''{}''))"

section \<open>What the bridge finds\<close>

definition small_config :: json where
  "small_config = (case translate_config small_upstream small_agent of Inr c \<Rightarrow> c | Inl _ \<Rightarrow> JNull)"

lemma small_config_fields:
  "small_config = JObj
     [(''vocab_size'', JInt 50285), (''hidden_size'', JInt 2), (''layers'', JInt 1), (''attention_heads'', JInt 1),
      (''intermediate_size'', JInt 1), (''norm_eps'', JFloat (Fin (1 / 2))), (''global_every'', JInt 1),
      (''local_attention'', JInt 1), (''global_rope_theta'', JInt 2), (''local_rope_theta'', JInt 2),
      (''first_layer_attention_norm'', JBool False), (''decision_layers'', JInt 1), (''decision_heads'', JInt 1),
      (''decision_ff'', JInt 4096), (''decision_norm_eps'', JFloat (Fin (1 / 2))), (''decision_norm_first'', JBool True),
      (''decision_activation'', JStr ''Relu''), (''scorer_norm_eps'', JFloat (Fin (1 / 2))), (''qtypes'', JInt 3),
      (''mask_token_id'', JInt 50284)]"
  by (simp add: small_config_def translate_config_def small_upstream_def small_agent_def UPSTREAM_SPECIAL_def)

lemma small_translated: "translate_config small_upstream small_agent = Inr small_config"
  by (simp add: small_config_def translate_config_def small_upstream_def small_agent_def)

lemma small_valid: "validate_config small_config = Inr ()"
  unfolding small_config_fields by code_simp

lemma small_shapes: "shapes small_config = Inr small_layout"
  by (simp add: small_config_fields shapes_def dimension_def range_of_def encoder_shapes_def decision_shapes_def
      small_layout_def small_parts_def truthy_def)

lemma small_mapping: "build_mapping small_config = Inr (mapping_for [0] [0])"
  by (simp add: small_config_fields build_mapping_def range_of_def)

lemma compare_none: "\<forall>p\<in>set m. compare_one header expected p = Inr [] \<Longrightarrow> compare_shapes m header expected = Inr []"
proof -
  assume "\<forall>p\<in>set m. compare_one header expected p = Inr []"
  then have "\<forall>p\<in>set (by_name m). compare_one header expected p = Inr []" by (simp add: by_name_def)
  moreover have "\<forall>p\<in>set xs. compare_one header expected p = Inr [] \<Longrightarrow>
      \<exists>ps. mapM (compare_one header expected) xs = Inr ps \<and> concat ps = []" for xs
    by (induction xs) auto
  ultimately have "\<exists>ps. mapM (compare_one header expected) (by_name m) = Inr ps \<and> concat ps = []" by blast
  then show ?thesis by (auto simp: compare_shapes_def)
qed

lemma elements_small: "elements_of (small_entry ds) = Inr (prod_list ds)"
proof -
  have "mapM as_int (map JInt ds) = Inr ds" by (induction ds) (simp_all add: as_int_def)
  then show ?thesis by (simp add: small_entry_def elements_of_def)
qed

lemma small_layout_good: "\<forall>(n, s)\<in>set small_layout. good_shape s"
  by (rule shapes_good [OF small_shapes small_valid])

lemma small_head: "''act_head.0.weight'' \<notin> snd ` set (mapping_for [0] [0])"
  by (simp add: mapping_for_def fixed_mapping_def encoder_mapping_def decision_mapping_def Let_def)

lemma small_sources: "distinct (map snd (mapping_for [0] [0]))"
  using distinct_sources [of 1 1] by simp

lemma small_names: "distinct (map fst small_members)" "distinct (map fst small_specs)"
proof -
  have "map fst small_specs = map snd (mapping_for [0] [0]) @ [''act_head.0.weight'']"
    by (simp add: small_specs_def o_def case_prod_beta)
  then show "distinct (map fst small_specs)" using small_sources small_head by (simp del: set_map add: image_set)
  then show "distinct (map fst small_members)" by (simp add: small_members_def o_def case_prod_beta)
qed

lemma small_wanted:
  assumes "(name, spec) \<in> set (mapping_for [0] [0])"
  shows "\<exists>want. map_of small_layout name = Some want \<and> map_of small_members spec = Some (small_entry want)"
proof -
  have "fst ` set (mapping_for [0] [0]) = fst ` set small_layout"
    using mapping_names_complete [OF small_translated small_shapes small_mapping]
    by (simp add: mapping_names_def mapping_json_def keys_of_def image_image case_prod_beta)
  then have "name \<in> fst ` set small_layout" using assms by force
  then obtain want where want: "map_of small_layout name = Some want" by (metis map_of_eq_None_iff not_None_eq)
  then have "good_shape want" using small_layout_good map_of_SomeD [OF want] by auto
  then have "map (int \<circ> nat) want = want" by (intro map_idI) (auto simp: good_shape_def)
  moreover have "(spec, map nat want) \<in> set small_specs"
    using assms want by (force simp: small_specs_def)
  then have "map_of small_members spec = Some (small_entry (map (int \<circ> nat) want))"
    using small_names(1) by (intro map_of_is_SomeI) (force simp: small_members_def)+
  ultimately show ?thesis using want by simp
qed

lemma small_compared: "compare_shapes (mapping_for [0] [0]) (JObj small_members) small_layout = Inr []"
proof (rule compare_none, rule ballI)
  fix p assume p: "p \<in> set (mapping_for [0] [0])"
  obtain name spec where e: "p = (name, spec)" by (cases p)
  have "list_all2 (\<lambda>n j. eq_int j n) want (map JInt want)" for want
    by (simp add: list_all2_map2 eq_int_def list.rel_refl)
  then show "compare_one (JObj small_members) small_layout p = Inr []"
    using small_wanted [of name spec] p e
    by (auto simp: compare_one_def in_header_def header_shape_def small_entry_def)
qed

lemma small_total: "sum_list (map (\<lambda>(_, s). prod_list s) small_layout) = 121131"
  unfolding small_layout_def by_name_def sum_list_sorted
  by (simp add: small_parts_def scorer_shapes_def prefixed_def)

lemma small_head_elements: "elements_in small_members ''act_head.0.weight'' = 21"
proof -
  have "map_of small_members ''act_head.0.weight'' = Some (small_entry [7, 3])"
    using small_names(1) by (intro map_of_is_SomeI) (simp_all add: small_members_def small_specs_def)
  then show ?thesis by (simp add: elements_in_def elements_small)
qed

lemma small_report:
  "\<exists>report. port_report_of (JObj small_members) small_layout (mapping_for [0] [0]) = Inr report \<and> problems report = [] \<and>
     unclaimed report = [''act_head.0.weight''] \<and> pack_bytes report = 484608 \<and> pack_bytes report = 4 * elements report"
proof -
  let ?m = "mapping_for [0] [0]"
  have "\<exists>ns. mapM (\<lambda>(_, entry). elements_of entry) (map (\<lambda>(name, ds). (name, small_entry (map int ds))) specs) = Inr ns" for specs
    by (induction specs) (auto simp: elements_small)
  then obtain ns where ns: "mapM (\<lambda>(_, entry). elements_of entry) small_members = Inr ns" unfolding small_members_def by blast
  have "\<exists>ts. mapM (\<lambda>(_, entry). type_name entry) (map (\<lambda>(name, ds). (name, small_entry (map int ds))) specs) = Inr ts" for specs
    by (induction specs) (auto simp: small_entry_def type_name_def)
  then obtain ts where ts: "mapM (\<lambda>(_, entry). type_name entry) small_members = Inr ts" unfolding small_members_def by blast
  obtain report where run: "port_report_of (JObj small_members) small_layout ?m = Inr report"
    and r: "problems report = []" "unclaimed report = sort_names (filter (\<lambda>n. n \<notin> snd ` set ?m) (map fst small_members))"
      "pack_bytes report = 4 * elements report"
    by (simp add: port_report_of_def small_compared ns ts sum_list_mult_const mult.commute)
  have "map fst small_members = map snd ?m @ [''act_head.0.weight'']"
    by (simp add: small_members_def small_specs_def o_def case_prod_beta)
  then have "filter (\<lambda>n. n \<notin> snd ` set ?m) (map fst small_members) = [''act_head.0.weight'']"
    using small_head by (auto simp: filter_empty_conv)
  then have un: "unclaimed report = [''act_head.0.weight'']" using r(2) by (simp add: sort_names_def)
  have "pack_bytes report = 4 * sum_list (map (\<lambda>(_, s). prod_list s) small_layout) + 4 * elements_in small_members ''act_head.0.weight''"
    using report_size [OF small_translated small_shapes small_mapping small_valid small_names(1) run r(1)] un by simp
  moreover have "elements_in small_members ''act_head.0.weight'' = 21" by (rule small_head_elements)
  moreover note small_total
  ultimately show ?thesis using run r(1,3) un by auto
qed

lemma small_describes: "describes (JObj small_members) small_index"
  unfolding describes_def
proof (intro exI conjI allI impI)
  fix name entry assume "map_of small_members name = Some entry"
  then obtain ds where "map_of small_specs name = Some ds" "entry = small_entry (map int ds)"
    using map_of_map [of "\<lambda>ds. small_entry (map int ds)" small_specs] by (auto simp: small_members_def)
  then show "map_of small_index name = Some (zeros (the (map_of small_specs name)))"
    "item ''shape'' entry = Inr (JList (map (\<lambda>d. JInt (int d)) (dims (zeros (the (map_of small_specs name))))))"
    using map_of_map [of zeros small_specs] by (simp_all add: small_index_def small_entry_def zeros_storable)
qed simp

lemma small_sizes: "\<forall>(name, ds)\<in>set small_specs. prod_list ds \<le> 200000"
proof -
  have lay: "\<forall>(n, s)\<in>set small_layout. prod_list (map nat s) \<le> 200000"
    unfolding small_layout_def by_name_def set_sort small_parts_def scorer_shapes_def prefixed_def by simp
  have "prod_list (map nat (the (map_of small_layout name))) \<le> 200000" if drafted: "(name, spec) \<in> set (mapping_for [0] [0])" for name spec
  proof -
    obtain want where "map_of small_layout name = Some want" using small_wanted [OF drafted] by blast
    then show ?thesis using lay map_of_SomeD [of small_layout name want] by auto
  qed
  then show ?thesis by (auto simp: small_specs_def)
qed

lemma small_storable: "storable small_index"
proof -
  have "4 * prod_list ds \<le> MAX_TENSOR" if "(name, ds) \<in> set small_specs" for name ds
  proof -
    have "prod_list ds \<le> 200000" using small_sizes that by blast
    then show ?thesis by (simp add: MAX_TENSOR_def)
  qed
  then show ?thesis by (auto simp: storable_def small_index_def zeros_storable)
qed

definition small_weights :: checkpoint where
  "small_weights = [(''model.safetensors'', small_index)]"

lemma index_keys_distinct: "distinct (map fst (index @ kts)) \<Longrightarrow> index_keys index kts = Inr (index @ kts)"
  by (induction kts arbitrary: index) (auto simp: image_iff map_of_eq_None_iff)

lemma small_source: "source_reader small_weights = Inr small_index"
proof -
  have "distinct (map fst small_index)" using small_names(2) by (simp add: small_index_def o_def case_prod_beta)
  then show ?thesis using index_keys_distinct [of "[]" small_index]
    by (simp add: source_reader_def small_weights_def suffix_of_def)
qed

lemma small_arrays: "checkpoint_arrays small_weights"
  by (simp add: checkpoint_arrays_def small_weights_def small_index_def case_prod_beta zeros_storable)

lemma half64: "fl_round binary64 (1 / 2) = Fin (1 / 2)"
proof -
  have "represented binary64 (1 / 2)"
    by (rule representedI [of _ 1 "-1"]) (simp_all add: binary64_def pow2_def)
  then have "round_rat binary64 (1 / 2) = 1 / 2" by (rule round_represented)
  moreover have "pow2 (- 1) < pow2 1024" "0 < pow2 1024" by (simp_all add: pow2_less_iff)
  ultimately show ?thesis by (simp add: fl_round_def binary64_def pow2_def)
qed

lemma half_float: "py_float ''0.5'' = Inr (Fin (1 / 2))"
proof -
  have parts: "parse_decimal (remove_char (CHR ''_'') ''0.5'') = Some (1 / 2)" "underscores_ok False ''0.5''" "lower (strip ''0.5'') = ''0.5''" by code_simp+
  show ?thesis unfolding py_float_def parts by (simp add: parts half64)
qed
lemma half_text: "scan_number (''0.5'' @ r) = Inr (JFloat (Fin (1 / 2)), r)" if "boundary r"
proof -
  have "takeWhile is_digit r = []" "dropWhile is_digit r = r" using boundary_digits [OF that, of "[]"] by simp_all
  moreover note half_float
  moreover have "is_digit (CHR ''5'')" by code_simp
  ultimately show ?thesis using boundary_number(2) [OF that]
    by (simp add: scan_number_def scan_integer_def scan_fraction_def scan_digits_def Let_def)
qed

lemma half_read: "reads_back half (1 / 2)"
proof -
  have "half (1 / 2) = [] @ CHR ''0'' # ''.5''" "is_digit (CHR ''0'')" by (simp_all add: half_def is_digit_def)
  moreover have "\<forall>r. boundary r \<longrightarrow> scan_number (half (1 / 2) @ r) = Inr (JFloat (Fin (1 / 2)), r)"
    using half_text by (simp add: half_def)
  ultimately show ?thesis unfolding reads_back_def by blast
qed

lemma small_dumpable: "dumpable half small_config" "dumpable half small_upstream" "dumpable half small_agent"
  "dumpable half (JObj small_members)"
proof -
  show "dumpable half (JObj small_members)" using small_names(1)
    by (simp add: small_members_def list_all_iff small_entry_def case_prod_beta)
qed (simp_all add: small_config_fields small_upstream_def small_agent_def half_read)

lemma small_header: "source_header small_fetch None = Inr (JObj small_members)"
proof -
  have "json_loads_bytes (written half (JObj small_members)) = Inr (JObj small_members)"
    using small_dumpable by (simp add: written_def json_loads_written)
  moreover have "filter (\<lambda>(k, _). k \<noteq> ''__metadata__'') small_members = small_members"
  proof -
    have "''__metadata__'' \<notin> snd ` set (mapping_for [0] [0])"
      by (simp add: mapping_for_def fixed_mapping_def encoder_mapping_def decision_mapping_def Let_def)
    then have "''__metadata__'' \<notin> fst ` set small_members" by (force simp: small_members_def small_specs_def)
    then show ?thesis by (force simp: filter_id_conv)
  qed
  ultimately show ?thesis by (simp add: source_header_def remote_header_def small_fetch_def read_header_def pop_metadata_def)
qed

lemma small_discovered:
  "\<exists>report. discover small_fetch None = Inr (small_upstream, small_agent, small_config, mapping_for [0] [0], report) \<and>
     problems report = [] \<and> pack_bytes report = 484608 \<and> (\<exists>j. report_json small_upstream small_agent report = Inr j)"
proof -
  have rounded: "fl_round binary64 (of_int 121152) = Fin 121152" by code_simp
  have "\<exists>j. report_json small_upstream small_agent report = Inr j"
    if "problems report = []" "pack_bytes report = 484608" "pack_bytes report = 4 * elements report" for report
  proof -
    have "elements report = 121152" using that by simp
    then show ?thesis using that rounded
      by (simp add: report_json_def small_upstream_def small_agent_def get_def millions_def Let_def)
  qed
  moreover have "small_fetch (BASE @ ''/encoder/config.json'') None = Inr (written half small_upstream)"
    "small_fetch (BASE @ ''/rl_agent_config.json'') None = Inr (written half small_agent)"
    by (simp_all add: small_fetch_def)
  moreover have "json_loads_bytes (written half small_upstream) = Inr small_upstream"
    "json_loads_bytes (written half small_agent) = Inr small_agent"
    using small_dumpable by (simp_all add: written_def json_loads_written)
  ultimately show ?thesis using small_report
    by (fastforce simp: discover_def small_header small_translated small_shapes small_mapping)
qed

lemma small_faithful: "faithful (JObj small_members) small_weights"
  using small_names small_source small_describes small_storable small_arrays by (auto simp: faithful_def)

section \<open>Witnesses\<close>

theorem bridge_mapping_complete_witness:
  "translate_config small_upstream small_agent = Inr small_config \<and>
   mapping_names (mapping_json (mapping_for [0] [0])) = Inr (fst ` set small_layout) \<and> distinct (map snd (mapping_for [0] [0]))"
  using bridge_mapping_complete [OF small_translated small_shapes small_mapping] small_translated by blast

theorem report_counts_unclaimed_witness:
  "\<exists>report. port_report_of (JObj small_members) small_layout (mapping_for [0] [0]) = Inr report \<and>
     unclaimed report = [''act_head.0.weight''] \<and> pack_bytes report = 484608 \<and>
     4 * sum_list (map (\<lambda>(_, s). prod_list s) small_layout) = 484524"
proof -
  obtain report where r: "port_report_of (JObj small_members) small_layout (mapping_for [0] [0]) = Inr report"
    "problems report = []" "unclaimed report = [''act_head.0.weight'']" "pack_bytes report = 484608"
    using small_report by blast
  moreover note small_total
  moreover note small_head_elements
  moreover note report_counts_unclaimed [OF small_translated small_shapes small_mapping small_valid small_names(1) r(1,2)]
  ultimately show ?thesis by auto
qed

theorem bridge_publishes_witness:
  "\<exists>report w' f kvs entries model.
     port_main no_faults small_fetch half None (Some small_weights) ''port/tmp'' ''port'' Map.empty = (Inr report, w') \<and>
     w' ''port/pack'' = Some f \<and> canonical_pack f kvs small_config entries model (encode ''{}'')"
proof -
  obtain report j where r: "discover small_fetch None = Inr (small_upstream, small_agent, small_config, mapping_for [0] [0], report)"
    "report_json small_upstream small_agent report = Inr j" "problems report = []" "pack_bytes report \<le> int MAX_TOTAL"
    using small_discovered unfolding MAX_TOTAL_def by fastforce
  have token: "tokenizer_of small_fetch (case Map.empty ''port'' of Some f \<Rightarrow> f | None \<Rightarrow> []) = Inr (encode ''{}'')"
    by (simp add: tokenizer_of_def small_fetch_def)
  have "json_loads ''{}'' = Inr (JObj [])" by code_simp
  then have words: "json_loads_bytes (encode ''{}'') = Inr (JObj [])" by (simp add: json_loads_bytes_def utf8_decode_encode)
  have "length (encode ''{}'') = 2" by (simp add: encode_def utf8_char_def)
  then have "0 < length (encode ''{}'')" "length (encode ''{}'') \<le> 32 * 1024 ^ 2" by simp_all
  moreover have "ancestors ''port/tmp'' = [''port'']" "ancestors ''port/pack'' = [''port'']"
    using ancestors_child [of "''port''" "''tmp''"] ancestors_child [of "''port''" "''pack''"] by (simp_all add: ancestors_def upt_rec)
  then have fresh: "(Map.empty :: disk) (''port'' @ ''/pack'') = None" "(Map.empty :: disk) ''port/tmp'' = None"
    "beside ''port/tmp'' (''port'' @ ''/pack'')" "''port'' \<noteq> []" by (simp_all add: beside_def)
  ultimately obtain q w' where "port_main no_faults small_fetch half None (Some small_weights) ''port/tmp'' ''port'' Map.empty = (q, w')"
      "if validate_config small_config = Inr ()
       then q = Inr report \<and> (\<exists>f kvs entries model. w' (''port'' @ ''/pack'') = Some f \<and> canonical_pack f kvs small_config entries model (encode ''{}''))
       else (\<exists>e. q = Inl e) \<and> w' (''port'' @ ''/pack'') = None"
    using bridge_publishes [OF r(1) small_header r(2-4) small_faithful small_dumpable(1) token words] by blast
  then show ?thesis using small_valid by auto
qed

end
