(* ===== verification/Spec2Isabelle.thy ===== *)
theory Spec2Isabelle
  imports Reference_Math Measure_Common Infer_Proofs Local_Proofs Planned_Run Sns_Advisory Measure_Phases
    Pack_Samples Bridge_Samples
begin

text \<open>
  A verification of the Python tools of IC-Laya-Standalone.

  The repository runs a small typed-decision model inside canisters of the Internet Computer.  The
  canisters are Rust; everything around them is Python under \<open>src/tools\<close>: the client that drives an
  inference, the scripts that deploy, warm up and measure a pack, the integration run of the three
  canisters, the triage of governance proposals and the numerical oracles.  This development models the
  Python.  A file of the repository is named by its path under \<open>src\<close>; a theory keeps the names of the
  functions it models.

  \<^bold>\<open>The parts and how they interact.\<close>  A tool talks to the canisters through the \<open>icp\<close> command line
  (\<open>Icp_Tools\<close>), in the textual form of Candid (\<open>Candid_Text\<close>, locale \<open>text_codec\<close>) or in its binary form (\<open>Client_Query\<close>,
  \<open>Canister_Infer\<close>).  An inference is either kept in the canister and advanced by updates
  (\<open>Canister_Infer\<close>, routed by \<open>Inference_Budget\<close>), or held by the client as a continuation that queries
  advance (\<open>Query_Session\<close>, with the envelope of \<open>Query_Transport\<close>).  The measurement scripts
  (\<open>Measure_Inference\<close>, \<open>Measure_Common\<close>, \<open>Measure_Phases\<close>) upload a pack, register schemas
  (\<open>Canonical_Schema\<close>) and evaluate; \<open>Local_Integration\<close> runs the whole product; \<open>Batch_Planner\<close> and
  \<open>Planned_Run\<close> plan the groups of phases of a query run and follow the plan; \<open>Sns_Triage\<close> and
  \<open>Sns_Advisory\<close> grade a proposal and ask the model about it; \<open>Reference_Math\<close> is the oracle the
  canisters are compared with.

  \<^bold>\<open>Python as it is modelled.\<close>  \<open>Prelude\<close> has the exceptions as one datatype, results that may be an
  exception (\<open>res\<close>), computations that also thread the outside world (\<open>io\<close>; an exception keeps the
  world, so what was done before it stays done), and the interface of a machine with an invariant
  (locale \<open>invariant_machine\<close>).  The outside world is of any type, and what a tool asks
  of it is a record of functions (\<open>system\<close> in \<open>Icp_Tools\<close>, \<open>channel\<close> in \<open>Query_Session\<close>), so that a
  theorem holds for every answer of the network, of the disk and of the canisters.  \<open>PyText\<close> has \<open>str\<close>,
  \<open>int\<close> and \<open>encode\<close>; \<open>PyRegex\<close> the patterns of \<open>re\<close> as a datatype with the matches in the order of the
  backtracking matcher; \<open>PyFloat\<close> binary floating point as rationals rounded half to even; \<open>PyJson\<close> and
  \<open>PyJsonText\<close> the values and the parser of \<open>json\<close>, \<open>PyJsonDump\<close> its printer, whose texts the parser
  reads back; \<open>Float32\<close> the \<open>float32\<close> numbers of NumPy, their patterns and the roundings built on
  them; \<open>Disk\<close> directories of files, whose operations the system may refuse; \<open>Wire\<close> the \<open>struct\<close> integers, LEB128 and the interface
  of a framing (locale \<open>prefix_codec\<close>); \<open>Sha256\<close> the hash and \<open>crc32\<close>.

  \<^bold>\<open>The client-held inference\<close> (\<open>tools/client_held_query.py\<close>, \<open>tools/query_transport.py\<close>).
  \<open>Query_Transport\<close>: \<open>inspect_state\<close> reads a continuation in bounded memory and \<open>unpack_state\<close> unpacks it
  in full; they accept the same states and agree on what they return, and the byte shuffle of
  \<open>tools/explore_lossless_state_codecs.py\<close> is inverted by both.  \<open>Client_Query\<close>: the request is an
  injective encoding of the three fields of an input, \<open>encode_input\<close> returns exactly within the bounds of
  the code, and an accepted reply is coherent.  \<open>Query_Session\<close>: the class \<open>QuerySession\<close> as a record,
  its step \<open>advance\<close> with the loop of retries and the halving of the group; an invariant of the states a
  session reaches, progress, what a failed step keeps, which requests a step sends, and what the result
  of \<open>finish\<close> contains.

  \<^bold>\<open>The inference in the canister\<close> (\<open>tools/canister_infer.py\<close>, \<open>tools/inference_budget.py\<close>).
  \<open>Inference_Budget\<close>: \<open>plan_inference\<close>, direct exactly when the calibrated cost fits, else the widest
  step that does.  \<open>Canister_Infer\<close> has the upload, the warm-up, \<open>infer\<close> and \<open>main\<close>; \<open>Infer_Proofs\<close> proves
  that a stepped run makes one call for each group and reports those, that inference ends whatever the
  engine answers, and that a budgeted run that returns stayed within its budget.

  \<^bold>\<open>Measurement\<close> (\<open>tools/measure_inference.py\<close>, \<open>tools/measure_common.py\<close>,
  \<open>tools/measure_phases.py\<close>).  \<open>Icp_Tools\<close> has the class \<open>Icp\<close> and the preparation of a network;
  \<open>Command_Log\<close> the same system with a log of its commands and the rules by which a property of every
  command follows the structure of a program;
  \<open>Canonical_Schema\<close> the hashing and the compilation of a schema, injective and with its markers at the
  mask tokens.  \<open>Measure_Inference\<close> has \<open>measure_tier\<close> and \<open>main\<close>; \<open>Measure_Proofs\<close> proves that the
  uploaded chunks cover the pack, that the network is started and stopped as a bracket, that a remote
  network is refused, and that a measurement ends unless the engine never ends its warm-up.
  \<open>Measure_Common\<close> has the second copy of the shared functions, equal to the first where it is, and
  \<open>Measure_Phases\<close> the split of the instructions by phase, whose sums account for the total.

  \<^bold>\<open>The integration run\<close> (\<open>tools/local_integration.py\<close>).  \<open>Local_Integration\<close> has the whole workflow,
  \<open>Local_Proofs\<close> the order in which a run moves its requests (a run that raises has done a first part of
  it), the identities of its commands, and where its copies differ from those of \<open>measure_inference.py\<close>.

  \<^bold>\<open>Planning, triage and oracles.\<close>  \<open>Batch_Planner\<close>: \<open>plan_batches\<close> of
  \<open>tools/explore_query_conditions.py\<close> is optimal among all schedules within the budget; \<open>Planned_Run\<close>:
  \<open>checked_run\<close> made exactly the calls of its schedule.  \<open>Sns_Triage\<close>, \<open>Sns_Advisory\<close>
  (\<open>tools/sns_proposal_triage.py\<close>): the priority is the most urgent any proposed value asks for, the
  advisory keeps every piece of evidence.  \<open>Reference_Math\<close>
  (\<open>tools/reference_math.py\<close>): apportionment by largest remainder to a million parts, the score
  statistics, and the reservation oracle as a step relation.

  \<^bold>\<open>Model packs\<close> (\<open>tools/pack_checkpoint.py\<close>, \<open>tools/quantize_pack.py\<close>, \<open>tools/laya_port_bridge.py\<close>,
  \<open>shapes\<close> of \<open>tools/model_reference.py\<close>).  \<open>Model_Pack\<close>: the layout of a model and \<open>export\<close>, which is all
  or nothing whatever operation is refused, and whose bytes read back as the tensors of the checkpoint.
  \<open>Int8_Pack\<close>: \<open>quantize\<close>, all or nothing in the same way, accepts every canonical pack and only packs
  whose hashes match; the error of a converted number and the rounding of its quotient.  \<open>Pack_Bridge\<close>: the
  drafts and the report on an upstream checkpoint, whose mapping is complete; what a clean report is worth
  to the export that follows.  \<open>Pack_Samples\<close> and \<open>Bridge_Samples\<close> apply these theorems to small checkpoints.
  A refused operation is \<open>OSError\<close> (\<open>faults\<close>): a directory is made and renamed wholly or not at all, a write or
  a removal may leave anything in the directory it works on.  The theorems on what a run leaves behind hold
  for every such behaviour of the system, those on a run that succeeds for \<open>no_faults\<close>.

  \<^bold>\<open>Bounds and fuel.\<close>  A loop of the code that has no bound of its own carries fuel, and running out is
  the exception \<open>OutOfFuel\<close>, which no Python code raises or catches.  The fuel is an argument of the
  definition; the theorems on termination say how much is enough, and the others hold for every fuel.
  The decompression loop ends by the measure of its input and of its output limit, the retry loop of
  a session by its number of attempts.  Integers are Python's, unbounded; the words of SHA-256 and of
  \<open>struct\<close> have their width, with the \<open>struct.error\<close> of a value out of range.

  \<^bold>\<open>Parameters.\<close>  What is not in the repository is an argument of the definitions that use it: the
  inflate machine of zlib, the answers of the \<open>icp\<close> command, \<open>math.exp\<close>, the tokenizer, the web request,
  the text of an exception and of a value \<open>str\<close> is applied to, the text \<open>repr\<close> of a floating-point number
  (\<open>shown\<close>; where a written file is read again its numbers read back), the tensors the safetensors library reads and
  the name \<open>tempfile.mkdtemp\<close> gives.  No theorem assumes more of them than its
  statement shows.

  \<^bold>\<open>Not modelled.\<close>  Objects are passed by value: where the source passes a dictionary that the called function
  only reads, as to \<open>laya_advisory\<close>, that it is not changed is seen in the source and not proved.  Characters beyond Latin-1 and the sign of a zero; the limit of 4300 digits of
  \<open>int\<close>; an interrupt from the keyboard; wall-clock times, printed lines and the environment of a command.  The Rust crates and the
  canisters, which the tools only call; the scripts that run a fixed list of cases through functions
  modelled here and write a report (the manifest names each).
\<close>

end
